(* ===== verification/Kala_Prelude.thy ===== *)
theory Kala_Prelude
  imports Main "HOL-Library.AList"
begin

text \<open>
  Shared vocabulary of the development: the fragment of the JavaScript standard library that the
  modelled sources use (string trimming, truthiness, array slices, insertion-ordered maps, integral
  numbers, JSON values), the collections of rewrite rules the component proofs use, and generic
  lemmas on lists, association lists and results.

  A JavaScript string is a HOL \<^typ>\<open>string\<close>; every character of it stands for one code
  unit in the Latin-1 range. A JavaScript \<open>Map\<close> is an association list with distinct keys, in
  insertion order: \<^const>\<open>AList.update\<close> overwrites in place or appends, \<^const>\<open>AList.delete\<close>
  removes, which is how \<open>Map.set\<close> and \<open>Map.delete\<close> treat the iteration order. An optional
  property that may be absent is an \<^typ>\<open>'a option\<close>. A thrown error is the left value of a sum.
\<close>

named_theorems handler_defs \<open>the bodies of the kernel's event handlers\<close>
named_theorems table_defs \<open>the rows of the kernel's transition table\<close>
named_theorems table_simps \<open>evaluation of database rows and tables\<close>
named_theorems js_simps \<open>evaluation of JavaScript library functions\<close>

section \<open>JavaScript values\<close>

text \<open>A number is either one that \<open>Number.isInteger\<close> accepts or any other one, kept as its text.\<close>

datatype js_number = Integer int | NonInteger string

datatype json =
    JNull
  | JBool bool
  | JNumber js_number
  | JString string
  | JArray "json list"
  | JObject "(string \<times> json) list"

type_synonym json_object = "(string \<times> json) list"

text \<open>The characters that \<open>String.prototype.trim\<close> strips, in the Latin-1 range.\<close>

definition js_space :: "char \<Rightarrow> bool" where
  "js_space c \<longleftrightarrow> c \<in> set [CHR 0x09, CHR 0x0A, CHR 0x0B, CHR 0x0C, CHR 0x0D, CHR 0x20, CHR 0xA0]"

definition trim :: "string \<Rightarrow> string" where
  "trim s = rev (dropWhile js_space (rev (dropWhile js_space s)))"

text \<open>\<open>x ? x : undefined\<close> on an optional string: the empty string is falsy.\<close>

definition truthy :: "string option \<Rightarrow> string option" where
  "truthy x = (case x of None \<Rightarrow> None | Some s \<Rightarrow> if s = [] then None else Some s)"

text \<open>\<open>x ?? d\<close>.\<close>

definition coalesce :: "'a option \<Rightarrow> 'a \<Rightarrow> 'a" where
  "coalesce x d = (case x of None \<Rightarrow> d | Some v \<Rightarrow> v)"

text \<open>\<open>xs.slice(0, k)\<close>: a negative end counts from the end of the array.\<close>

definition slice_to :: "'a list \<Rightarrow> int \<Rightarrow> 'a list" where
  "slice_to xs k = take (nat (if k < 0 then int (length xs) + k else k)) xs"

text \<open>
  \<open>JSON.stringify\<close> on the values above: no white space, strings quoted with the JSON escapes,
  integers in decimal.
\<close>

fun digit_char :: "nat \<Rightarrow> char" where
  "digit_char n = char_of (48 + n mod 10)"

fun show_nat :: "nat \<Rightarrow> string" where
  "show_nat n = (if n < 10 then [digit_char n] else show_nat (n div 10) @ [digit_char n])"

declare show_nat.simps [simp del]

definition show_int :: "int \<Rightarrow> string" where
  "show_int i = (if i < 0 then CHR ''-'' # show_nat (nat (- i)) else show_nat (nat i))"

text \<open>Decimal digits, and the number a sequence of them stands for.\<close>

definition is_digit :: "char \<Rightarrow> bool" where
  "is_digit c \<longleftrightarrow> 48 \<le> (of_char c :: nat) \<and> (of_char c :: nat) \<le> 57"

definition digits_value :: "string \<Rightarrow> int" where
  "digits_value s = fold (\<lambda>c v. v * 10 + (int (of_char c :: nat) - 48)) s 0"

definition hex_char :: "nat \<Rightarrow> char" where
  "hex_char n = (if n < 10 then char_of (48 + n) else char_of (87 + n))"

definition json_escape_char :: "char \<Rightarrow> string" where
  "json_escape_char c =
     (if c = CHR 0x22 then [CHR 0x5C, CHR 0x22]
      else if c = CHR 0x5C then [CHR 0x5C, CHR 0x5C]
      else if c = CHR 0x08 then [CHR 0x5C, CHR ''b'']
      else if c = CHR 0x0C then [CHR 0x5C, CHR ''f'']
      else if c = CHR 0x0A then [CHR 0x5C, CHR ''n'']
      else if c = CHR 0x0D then [CHR 0x5C, CHR ''r'']
      else if c = CHR 0x09 then [CHR 0x5C, CHR ''t'']
      else if (of_char c :: nat) < 32
        then [CHR 0x5C, CHR ''u'', CHR ''0'', CHR ''0'', hex_char (of_char c div 16), hex_char (of_char c mod 16)]
      else [c])"

definition json_quote :: "string \<Rightarrow> string" where
  "json_quote s = CHR 0x22 # concat (map json_escape_char s) @ [CHR 0x22]"

fun comma_join :: "string list \<Rightarrow> string" where
  "comma_join [] = []"
| "comma_join [x] = x"
| "comma_join (x # xs) = x @ '','' @ comma_join xs"

fun stringify :: "json \<Rightarrow> string" where
  "stringify JNull = ''null''"
| "stringify (JBool b) = (if b then ''true'' else ''false'')"
| "stringify (JNumber (Integer i)) = show_int i"
| "stringify (JNumber (NonInteger t)) = t"
| "stringify (JString s) = json_quote s"
| "stringify (JArray xs) = ''['' @ comma_join (map stringify xs) @ '']''"
| "stringify (JObject kvs) =
     ''{'' @ comma_join (map (\<lambda>kv. json_quote (fst kv) @ '':'' @ stringify (snd kv)) kvs) @ ''}''"

section \<open>Lemmas on strings and options\<close>

lemma truthy_None [simp]: "truthy None = None"
  by (simp add: truthy_def)

lemma truthy_Some [simp]: "truthy (Some s) = (if s = [] then None else Some s)"
  by (simp add: truthy_def)

lemma truthy_truthy [simp]: "truthy (truthy x) = truthy x"
  by (cases x) auto

lemma coalesce_simps [simp]: "coalesce None d = d" "coalesce (Some v) d = v"
  by (simp_all add: coalesce_def)

text \<open>Decimal printing: digits only, not empty, and read back as the number that was printed.\<close>

lemma digits_value_snoc: "digits_value (s @ [c]) = digits_value s * 10 + (int (of_char c :: nat) - 48)"
  by (simp add: digits_value_def)

lemma of_char_digit [simp]: "(of_char (digit_char n) :: nat) = 48 + n mod 10"
  by (simp add: take_bit_eq_mod)

lemma is_digit_char [simp]: "is_digit (digit_char n)"
  unfolding is_digit_def of_char_digit by simp

lemma show_nat_digits [simp]: "list_all is_digit (show_nat n)"
proof (induction n rule: show_nat.induct)
  case (1 n)
  then show ?case by (subst show_nat.simps) (simp del: digit_char.simps)
qed

lemma show_nat_nonempty [simp]: "show_nat n \<noteq> []"
  by (subst show_nat.simps) simp

lemma show_nat_value [simp]: "digits_value (show_nat n) = int n"
proof (induction n rule: show_nat.induct)
  case (1 n)
  show ?case
  proof (cases "n < 10")
    case True
    have "digits_value ([] @ [digit_char n]) = int n"
      unfolding digits_value_snoc of_char_digit using True by (simp add: digits_value_def)
    with True show ?thesis by (subst show_nat.simps) (simp del: digit_char.simps)
  next
    case False
    with 1 have "digits_value (show_nat (n div 10) @ [digit_char n]) = int n"
      unfolding digits_value_snoc of_char_digit by (simp add: zdiv_int zmod_int)
    with False show ?thesis by (subst show_nat.simps) (simp del: digit_char.simps)
  qed
qed

text \<open>White space at either end does not change a trimmed text.\<close>

lemma trim_Cons_space: "js_space c \<Longrightarrow> trim (c # s) = trim s"
  by (simp add: trim_def)

lemma trim_snoc_space: "js_space c \<Longrightarrow> trim (s @ [c]) = trim s"
proof (cases "dropWhile js_space s = []")
  case True
  assume "js_space c"
  moreover have "\<forall>x \<in> set s. js_space x" using True by (simp add: dropWhile_eq_Nil_conv)
  ultimately have "\<forall>x \<in> set (s @ [c]). js_space x" by auto
  then have "dropWhile js_space (s @ [c]) = []" by (simp only: dropWhile_eq_Nil_conv)
  with True show ?thesis by (simp only: trim_def)
next
  case False
  assume "js_space c"
  then show ?thesis using False by (auto simp: trim_def dropWhile_append dropWhile_eq_Nil_conv)
qed

lemma trim_Nil [simp]: "trim [] = []"
  by (simp add: trim_def)

lemma trim_eq_Nil_iff: "trim s = [] \<longleftrightarrow> (\<forall>c \<in> set s. js_space c)"
proof -
  have "trim s = [] \<longleftrightarrow> (\<forall>c \<in> set (dropWhile js_space s). js_space c)"
    by (simp add: trim_def)
  also have "\<dots> \<longleftrightarrow> (\<forall>c \<in> set s. js_space c)"
  proof
    assume *: "\<forall>c \<in> set (dropWhile js_space s). js_space c"
    have "c \<in> set (takeWhile js_space s) \<or> c \<in> set (dropWhile js_space s)" if "c \<in> set s" for c
      using that by (metis Un_iff set_append takeWhile_dropWhile_id)
    with * show "\<forall>c \<in> set s. js_space c"
      by (blast dest: set_takeWhileD)
  next
    assume "\<forall>c \<in> set s. js_space c"
    then show "\<forall>c \<in> set (dropWhile js_space s). js_space c"
      by (blast dest: set_dropWhileD)
  qed
  finally show ?thesis .
qed

lemma dropWhile_id: "(xs \<noteq> [] \<Longrightarrow> \<not> P (hd xs)) \<Longrightarrow> dropWhile P xs = xs"
  by (cases xs) auto

lemma last_dropWhile: "dropWhile P xs \<noteq> [] \<Longrightarrow> last (dropWhile P xs) = last xs"
  by (induction xs) auto

text \<open>Trimming is idempotent: a trimmed text starts and ends with a character that is kept.\<close>

lemma trim_trim [simp]: "trim (trim s) = trim s"
proof (cases "trim s = []")
  case True
  then show ?thesis by simp
next
  case False
  define m where "m = dropWhile js_space s"
  have t: "trim s = rev (dropWhile js_space (rev m))"
    by (simp add: trim_def m_def)
  have ne: "dropWhile js_space (rev m) \<noteq> []"
    using False t by simp
  then have "m \<noteq> []" by auto
  then have "\<not> js_space (hd m)"
    unfolding m_def by (rule hd_dropWhile)
  moreover have "hd (trim s) = hd m"
    using ne last_dropWhile [OF ne] by (simp add: t hd_rev last_rev)
  ultimately have "dropWhile js_space (trim s) = trim s"
    by (intro dropWhile_id) simp
  moreover have "dropWhile js_space (rev (trim s)) = rev (trim s)"
    by (simp add: t)
  ultimately show ?thesis
    by (simp add: trim_def)
qed

section \<open>Lemmas on lists\<close>

lemma slice_to_nat [simp]: "slice_to xs (int n) = take n xs"
  by (simp add: slice_to_def)

lemma find_Some_iff_first:
  "find P xs = Some x \<Longrightarrow> x \<in> set xs \<and> P x"
  by (induction xs) (auto split: if_splits)

lemma find_None_iff_all: "find P xs = None \<longleftrightarrow> (\<forall>x \<in> set xs. \<not> P x)"
  by (induction xs) auto

text \<open>In a list with distinct keys, \<open>find\<close> by key returns the one entry with that key.\<close>

lemma find_distinct_key:
  assumes "distinct (map key xs)" and "x \<in> set xs" and "key x = k"
  shows "find (\<lambda>y. key y = k) xs = Some x"
  using assms by (induction xs) (auto simp: image_iff)

lemma filter_neq_id: "k \<notin> set (map key xs) \<Longrightarrow> filter (\<lambda>x. key x \<noteq> k) xs = xs"
  by (induction xs) auto

lemma distinct_map_filterI: "distinct (map f xs) \<Longrightarrow> distinct (map f (filter P xs))"
  by (induction xs) auto

lemma concat_map_append: "concat (map f (xs @ ys)) = concat (map f xs) @ concat (map f ys)"
  by simp

section \<open>Insertion-ordered maps\<close>

lemma keys_update:
  "map fst (AList.update k v m) = (if k \<in> set (map fst m) then map fst m else map fst m @ [k])"
  by (induction m) auto

lemma keys_delete: "map fst (AList.delete k m) = filter (\<lambda>x. x \<noteq> k) (map fst m)"
  by (induction m) auto

lemma set_keys_update [simp]: "fst ` set (AList.update k v m) = insert k (fst ` set m)"
proof -
  have "set (map fst (AList.update k v m)) = insert k (set (map fst m))"
    by (auto simp: keys_update)
  then show ?thesis by simp
qed

lemma set_keys_delete [simp]: "fst ` set (AList.delete k m) = fst ` set m - {k}"
proof -
  have "set (map fst (AList.delete k m)) = set (map fst m) - {k}"
    by (auto simp: keys_delete)
  then show ?thesis by simp
qed

lemma distinct_keys_update [intro]:
  "distinct (map fst m) \<Longrightarrow> distinct (map fst (AList.update k v m))"
  by (simp add: keys_update)

lemma distinct_keys_delete [intro]:
  "distinct (map fst m) \<Longrightarrow> distinct (map fst (AList.delete k m))"
  by (simp add: keys_delete)

end
