(* ===== verification/Kernel_Types.thy ===== *)
theory Kernel_Types
  imports Kala_Prelude
begin

text \<open>
  The data of the agent kernel, from \<open>packages/kernel/src/types.ts\<close>: messages and their content
  blocks, tool schemas, the session configuration, the agent state, the events the reducer consumes
  and the effects it produces. A TypeScript object type is a record, a union discriminated by a tag
  is a datatype with one constructor per tag, an optional property is an option. Fields shared by
  several object types carry a short prefix.
\<close>

section \<open>Messages\<close>

datatype Role = System | User | Assistant | Tool

record ToolCallContent =
  tc_callId :: string
  tc_name :: string
  tc_input :: "json_object option"
  tc_intent :: "string option"

datatype FailureCategory = FInput | FPrecondition | FExecution | FInfrastructure | FCancelled
datatype FailureOutcome = OBlocked | OFailed | OCancelled | OTimeout | OIndeterminate
datatype FailureResponsibility = RModel | RWorkspace | RProvider | RUser | RSystem
datatype TimeoutStage = TQueue | TAcknowledgement | TExecution | TIdleOutput

record ToolFailure =
  tf_code :: string
  tf_category :: FailureCategory
  tf_outcome :: FailureOutcome
  tf_retryable :: bool
  tf_responsibility :: FailureResponsibility
  tf_timeoutStage :: "TimeoutStage option"

record ToolResultContent =
  tr_callId :: string
  tr_ok :: bool
  tr_content :: string
  tr_failure :: "ToolFailure option"

datatype ImageMediaType = PNG | JPEG | WEBP | GIF

datatype ImageSource =
    Base64 ImageMediaType string
  | FileRef string "ImageMediaType option"

record HostAttachmentReference =
  ar_attachmentId :: string
  ar_sha256 :: string
  ar_bytes :: nat

datatype FileContent =
    LegacyInlineFile string string string
  | ReferencedFile string string HostAttachmentReference

record ReasoningContent =
  rs_text :: string
  rs_signature :: "string option"
  rs_provider :: "string option"

datatype MessageContent =
    Text string
  | ToolCall ToolCallContent
  | ToolResult ToolResultContent
  | Image ImageSource
  | File FileContent
  | Thinking ReasoningContent

datatype CompactionPhase = CRunning | CDone | CError
datatype CompactionTrigger = TrManual | TrAuto | TrPreflight | TrToolResult
datatype TurnStatus = TurnCompleted | TurnFailed | TurnCancelled | TurnInterrupted

record CompactionMetadata =
  cm_attemptId :: string
  cm_phase :: CompactionPhase
  cm_trigger :: CompactionTrigger
  cm_tokensBefore :: js_number
  cm_tokensAfter :: "js_number option"
  cm_replacedCount :: "js_number option"
  cm_summary :: "string option"
  cm_startedAt :: string
  cm_endedAt :: "string option"
  cm_error :: "string option"

record TemporalMetadata =
  tm_messageId :: string
  tm_turnId :: string
  tm_createdAt :: string
  tm_turnStartedAt :: string
  tm_turnCompletedAt :: "string option"
  tm_turnDurationMs :: "js_number option"
  tm_turnStatus :: "TurnStatus option"

datatype MessageMetadata =
    ModelChanged "string option" string
  | ContextCompaction CompactionMetadata
  | Temporal TemporalMetadata

record Message =
  msg_role :: Role
  msg_content :: "MessageContent list"
  msg_metadata :: "MessageMetadata option"

section \<open>Tool schemas and configuration\<close>

datatype ToolRisk = RiskRead | RiskWrite | RiskShell | RiskNetwork | RiskMemory | RiskAgent
datatype ExecutionKind = KindHost | KindExecutor

record ToolSchema =
  ts_name :: string
  ts_description :: string
  ts_inputSchema :: json_object
  ts_requiresApproval :: bool
  ts_version :: "string option"
  ts_schemaHash :: "string option"
  ts_toolsetId :: "string option"
  ts_toolsetVersion :: "string option"
  ts_risk :: "ToolRisk option"
  ts_executionKind :: "ExecutionKind option"
  ts_executionHandler :: "string option"

record ToolsetMetadata =
  tsm_id :: string
  tsm_version :: string
  tsm_label :: string
  tsm_toolCount :: nat

record AgentModuleMetadata =
  am_id :: string
  am_version :: string
  am_label :: string
  am_systemPromptHash :: string
  am_toolRegistryHash :: string
  am_toolsets :: "ToolsetMetadata list"

datatype ToolDisclosureMode = LegacyFull | Progressive

record AgentConfig =
  tools :: "ToolSchema list"
  toolDisclosureMode :: "ToolDisclosureMode option"
  systemPrompt :: "string option"
  agentModule :: "AgentModuleMetadata option"
  contextLimit :: "js_number option"
  softThreshold :: "js_number option"
  hardThreshold :: "js_number option"
  maxAgentDepth :: "js_number option"
  maxAgentFanOut :: "js_number option"
  thinkingBudget :: "js_number option"

section \<open>State\<close>

datatype AgentStatus = idle | thinking | awaiting_approval | executing_tools | done_status | error_status

datatype PendingStatus = PAwaitingApproval | PApproved | PRejected | PDispatched

record PendingToolCall =
  p_callId :: string
  p_name :: string
  p_input :: "json_object option"
  p_intent :: "string option"
  p_status :: PendingStatus

record UsageTotal =
  inputTokens :: int
  outputTokens :: int
  cacheCreationTokens :: int
  cacheReadTokens :: int

datatype ApprovalMode = Auto | Ask | Deny | AllowAll

definition DEFAULT_APPROVAL_MODE :: ApprovalMode where
  "DEFAULT_APPROVAL_MODE = Auto"

datatype PromptVersion = VersionText string | VersionNumber js_number

record SystemPromptOverride =
  spo_prompt :: string
  spo_version :: "PromptVersion option"

text \<open>
  \<open>AgentState\<close> is the intersection of the common part and of the phase union. The record is the
  run-time object, so that the invariant check of \<open>core.ts\<close> has ill-formed states to reject.
\<close>

record AgentState =
  sessionId :: string
  messages :: "Message list"
  usage :: UsageTotal
  cursor :: nat
  cwd :: "string option"
  approvalMode :: ApprovalMode
  systemPromptOverride :: "SystemPromptOverride option"
  status :: AgentStatus
  pendingCalls :: "PendingToolCall list"
  error :: "string option"

datatype AgentStatePhase =
    PhaseIdle
  | PhaseThinking
  | PhaseDone
  | PhaseAwaitingApproval "PendingToolCall list"
  | PhaseExecutingTools "PendingToolCall list"
  | PhaseError string

section \<open>Events\<close>

record UserMessageEvent =
  um_operationId :: "string option"
  um_queuedAt :: "string option"
  um_text :: "string option"
  um_content :: "MessageContent list option"

record UsageDelta =
  d_inputTokens :: int
  d_outputTokens :: int
  d_cacheCreationTokens :: "int option"
  d_cacheReadTokens :: "int option"

record LlmResponseEvent =
  lr_message :: Message
  lr_usage :: "UsageDelta option"
  lr_finishReason :: "string option"

record ToolResultEvent =
  te_callId :: string
  te_ok :: bool
  te_content :: string
  te_failure :: "ToolFailure option"

record EventArtifactRef =
  ea_kind :: "string option"
  ea_uri :: "string option"
  ea_path :: "string option"
  ea_sha256 :: "string option"
  ea_bytes :: "js_number option"
  ea_mediaType :: "string option"
  ea_schemaVersion :: "js_number option"

datatype ReplaceReason = Compaction | ManualRewrite | Recovery

record MessagesReplacedEvent =
  mr_reason :: ReplaceReason
  mr_start :: js_number
  mr_end :: js_number
  mr_replacementMessages :: "Message list"
  mr_resume :: "bool option"
  mr_artifactRef :: "EventArtifactRef option"

datatype AgentEvent =
    EUserMessage UserMessageEvent
  | ELlmResponse LlmResponseEvent
  | ELlmError string
  | EUserApprove string
  | EUserReject string "string option"
  | EToolResult ToolResultEvent
  | ECancel
  | EClear
  | EMessagesReplaced MessagesReplacedEvent
  | EApprovalModeChanged ApprovalMode
  | ECwdChanged string
  | ESystemPromptChanged string "PromptVersion option"

datatype EventKind =
    user_message
  | llm_response
  | llm_error
  | user_approve
  | user_reject
  | tool_result
  | cancel
  | clear
  | messages_replaced
  | approval_mode_changed
  | cwd_changed
  | system_prompt_changed

text \<open>\<open>event.kind\<close>.\<close>

primrec kind :: "AgentEvent \<Rightarrow> EventKind" where
  "kind (EUserMessage e) = user_message"
| "kind (ELlmResponse e) = llm_response"
| "kind (ELlmError e) = llm_error"
| "kind (EUserApprove c) = user_approve"
| "kind (EUserReject c r) = user_reject"
| "kind (EToolResult e) = tool_result"
| "kind ECancel = cancel"
| "kind EClear = clear"
| "kind (EMessagesReplaced e) = messages_replaced"
| "kind (EApprovalModeChanged m) = approval_mode_changed"
| "kind (ECwdChanged d) = cwd_changed"
| "kind (ESystemPromptChanged p v) = system_prompt_changed"

section \<open>Effects and step results\<close>

record CallToolEffect =
  ct_callId :: string
  ct_name :: string
  ct_input :: "json_object option"
  ct_intent :: "string option"
  ct_cwd :: "string option"

record RequestApprovalEffect =
  ra_callId :: string
  ra_name :: string
  ra_input :: "json_object option"
  ra_intent :: "string option"

datatype Effect =
    CallLlm "Message list" "ToolSchema list"
  | CallTool CallToolEffect
  | RequestApproval RequestApprovalEffect
  | Finish
  | EmitError string

datatype Outcome = Applied | Ignored | Rejected

datatype DispositionReason = EventNotLegalInState | InvalidEventPayload | InvariantViolation

record TransitionDisposition =
  td_outcome :: Outcome
  td_from :: AgentStatus
  td_to :: AgentStatus
  td_event :: EventKind
  td_reason :: "DispositionReason option"

record StepResult =
  sr_next :: AgentState
  sr_effects :: "Effect list"
  sr_transition :: TransitionDisposition

record HandlerResult =
  hr_next :: AgentState
  hr_effects :: "Effect list"
  hr_rejectionReason :: "DispositionReason option"

section \<open>Reading identifiers off a transcript\<close>

text \<open>
  The identifiers of the tool calls and of the tool results in a list of content blocks and in a
  transcript, in order. The kernel computes them inside its loops; the invariants are stated with
  them.
\<close>

fun call_ids :: "MessageContent list \<Rightarrow> string list" where
  "call_ids [] = []"
| "call_ids (ToolCall c # cs) = tc_callId c # call_ids cs"
| "call_ids (_ # cs) = call_ids cs"

fun result_ids :: "MessageContent list \<Rightarrow> string list" where
  "result_ids [] = []"
| "result_ids (ToolResult r # cs) = tr_callId r # result_ids cs"
| "result_ids (_ # cs) = result_ids cs"

definition transcript_call_ids :: "Message list \<Rightarrow> string list" where
  "transcript_call_ids ms = concat (map (call_ids \<circ> msg_content) ms)"

definition transcript_result_ids :: "Message list \<Rightarrow> string list" where
  "transcript_result_ids ms = concat (map (result_ids \<circ> msg_content) ms)"

lemma call_ids_append [simp]: "call_ids (xs @ ys) = call_ids xs @ call_ids ys"
  by (induction xs rule: call_ids.induct) auto

lemma result_ids_append [simp]: "result_ids (xs @ ys) = result_ids xs @ result_ids ys"
  by (induction xs rule: result_ids.induct) auto

lemma transcript_call_ids_simps [simp]:
  "transcript_call_ids [] = []"
  "transcript_call_ids (m # ms) = call_ids (msg_content m) @ transcript_call_ids ms"
  "transcript_call_ids (ms @ ns) = transcript_call_ids ms @ transcript_call_ids ns"
  by (simp_all add: transcript_call_ids_def)

lemma transcript_result_ids_simps [simp]:
  "transcript_result_ids [] = []"
  "transcript_result_ids (m # ms) = result_ids (msg_content m) @ transcript_result_ids ms"
  "transcript_result_ids (ms @ ns) = transcript_result_ids ms @ transcript_result_ids ns"
  by (simp_all add: transcript_result_ids_def)

end
