(* ===== verification/Kernel_State.thy ===== *)
theory Kernel_State
  imports Kernel_Types
begin

text \<open>
  The state constructors and predicates of \<open>packages/kernel/src/state.ts\<close> and the helpers shared by
  the handlers, from \<open>packages/kernel/src/helpers.ts\<close>, with the lemmas on the fields each of them
  writes and keeps.
\<close>

section \<open>Construction and phase changes\<close>

definition text_message :: "Role \<Rightarrow> string \<Rightarrow> Message" where
  "text_message r t = \<lparr>msg_role = r, msg_content = [Text t], msg_metadata = None\<rparr>"

definition zero_usage :: UsageTotal where
  "zero_usage = \<lparr>inputTokens = 0, outputTokens = 0, cacheCreationTokens = 0, cacheReadTokens = 0\<rparr>"

definition createInitialState :: "string \<Rightarrow> string option \<Rightarrow> AgentState" where
  "createInitialState sid prompt =
     \<lparr>sessionId = sid,
      messages = (case truthy prompt of None \<Rightarrow> [] | Some p \<Rightarrow> [text_message System p]),
      usage = zero_usage,
      cursor = 0,
      cwd = None,
      approvalMode = DEFAULT_APPROVAL_MODE,
      systemPromptOverride = None,
      status = idle,
      pendingCalls = [],
      error = None\<rparr>"

text \<open>\<open>Partial<AgentStateCommon>\<close>: a property that is absent leaves the field as it is.\<close>

record StatePatch =
  pt_sessionId :: "string option"
  pt_messages :: "Message list option"
  pt_usage :: "UsageTotal option"
  pt_cursor :: "nat option"
  pt_cwd :: "string option"
  pt_approvalMode :: "ApprovalMode option"
  pt_systemPromptOverride :: "SystemPromptOverride option"

definition no_patch :: StatePatch where
  "no_patch = \<lparr>pt_sessionId = None, pt_messages = None, pt_usage = None, pt_cursor = None,
     pt_cwd = None, pt_approvalMode = None, pt_systemPromptOverride = None\<rparr>"

primrec phase_status :: "AgentStatePhase \<Rightarrow> AgentStatus" where
  "phase_status PhaseIdle = idle"
| "phase_status PhaseThinking = thinking"
| "phase_status PhaseDone = done_status"
| "phase_status (PhaseAwaitingApproval ps) = awaiting_approval"
| "phase_status (PhaseExecutingTools ps) = executing_tools"
| "phase_status (PhaseError e) = error_status"

primrec phase_pendingCalls :: "AgentStatePhase \<Rightarrow> PendingToolCall list" where
  "phase_pendingCalls PhaseIdle = []"
| "phase_pendingCalls PhaseThinking = []"
| "phase_pendingCalls PhaseDone = []"
| "phase_pendingCalls (PhaseAwaitingApproval ps) = ps"
| "phase_pendingCalls (PhaseExecutingTools ps) = ps"
| "phase_pendingCalls (PhaseError e) = []"

primrec phase_error :: "AgentStatePhase \<Rightarrow> string option" where
  "phase_error PhaseIdle = None"
| "phase_error PhaseThinking = None"
| "phase_error PhaseDone = None"
| "phase_error (PhaseAwaitingApproval ps) = None"
| "phase_error (PhaseExecutingTools ps) = None"
| "phase_error (PhaseError e) = Some e"

definition transitionAgentState :: "AgentState \<Rightarrow> AgentStatePhase \<Rightarrow> StatePatch \<Rightarrow> AgentState" where
  "transitionAgentState s phase patch =
     \<lparr>sessionId = coalesce (pt_sessionId patch) (sessionId s),
      messages = coalesce (pt_messages patch) (messages s),
      usage = coalesce (pt_usage patch) (usage s),
      cursor = coalesce (pt_cursor patch) (cursor s),
      cwd = (case pt_cwd patch of None \<Rightarrow> cwd s | Some d \<Rightarrow> Some d),
      approvalMode = coalesce (pt_approvalMode patch) (approvalMode s),
      systemPromptOverride =
        (case pt_systemPromptOverride patch of None \<Rightarrow> systemPromptOverride s | Some p \<Rightarrow> Some p),
      status = phase_status phase,
      pendingCalls = phase_pendingCalls phase,
      error = phase_error phase\<rparr>"

text \<open>The two phases with pending calls, chosen the way every handler chooses between them.\<close>

definition pending_phase :: "bool \<Rightarrow> PendingToolCall list \<Rightarrow> AgentStatePhase" where
  "pending_phase stillAwaiting ps =
     (if stillAwaiting then PhaseAwaitingApproval ps else PhaseExecutingTools ps)"

text \<open>\<open>createConfig\<close> copies the parameters that are present and has no thinking budget.\<close>

definition createConfig ::
  "ToolSchema list \<Rightarrow> ToolDisclosureMode option \<Rightarrow> string option \<Rightarrow> AgentModuleMetadata option
   \<Rightarrow> js_number option \<Rightarrow> js_number option \<Rightarrow> js_number option \<Rightarrow> js_number option \<Rightarrow> js_number option
   \<Rightarrow> AgentConfig" where
  "createConfig ts mode prompt modul limit soft hard depth fanOut =
     \<lparr>tools = ts, toolDisclosureMode = mode, systemPrompt = prompt, agentModule = modul,
      contextLimit = limit, softThreshold = soft, hardThreshold = hard, maxAgentDepth = depth,
      maxAgentFanOut = fanOut, thinkingBudget = None\<rparr>"

definition isTerminal :: "AgentState \<Rightarrow> bool" where
  "isTerminal s \<longleftrightarrow> status s = done_status \<or> status s = error_status"

definition hasPendingApproval :: "AgentState \<Rightarrow> bool" where
  "hasPendingApproval s \<longleftrightarrow> list_ex (\<lambda>c. p_status c = PAwaitingApproval) (pendingCalls s)"

definition hasPendingExecution :: "AgentState \<Rightarrow> bool" where
  "hasPendingExecution s \<longleftrightarrow>
     list_ex (\<lambda>c. p_status c = PApproved \<or> p_status c = PDispatched) (pendingCalls s)"

section \<open>Helpers of the handlers\<close>

definition noop :: "AgentState \<Rightarrow> HandlerResult" where
  "noop s = \<lparr>hr_next = s, hr_effects = [], hr_rejectionReason = None\<rparr>"

definition rejectInvalidEvent :: "AgentState \<Rightarrow> HandlerResult" where
  "rejectInvalidEvent s = \<lparr>hr_next = s, hr_effects = [], hr_rejectionReason = Some InvalidEventPayload\<rparr>"

text \<open>A handler result without a rejection.\<close>

definition accept :: "AgentState \<Rightarrow> Effect list \<Rightarrow> HandlerResult" where
  "accept s effs = \<lparr>hr_next = s, hr_effects = effs, hr_rejectionReason = None\<rparr>"

fun extractToolCalls :: "MessageContent list \<Rightarrow> ToolCallContent list" where
  "extractToolCalls [] = []"
| "extractToolCalls (ToolCall c # cs) = c # extractToolCalls cs"
| "extractToolCalls (_ # cs) = extractToolCalls cs"

definition addUsage :: "UsageTotal \<Rightarrow> UsageDelta \<Rightarrow> UsageTotal" where
  "addUsage acc delta =
     \<lparr>inputTokens = inputTokens acc + d_inputTokens delta,
      outputTokens = outputTokens acc + d_outputTokens delta,
      cacheCreationTokens = cacheCreationTokens acc + coalesce (d_cacheCreationTokens delta) 0,
      cacheReadTokens = cacheReadTokens acc + coalesce (d_cacheReadTokens delta) 0\<rparr>"

definition afterPendingSettled ::
  "AgentState \<Rightarrow> Message list \<Rightarrow> PendingToolCall list \<Rightarrow> AgentConfig \<Rightarrow> HandlerResult" where
  "afterPendingSettled s ms ps config =
     (if ps \<noteq> [] then
        (let stillAwaiting = list_ex (\<lambda>c. p_status c = PAwaitingApproval) ps
         in accept (transitionAgentState s (pending_phase stillAwaiting ps) (no_patch\<lparr>pt_messages := Some ms\<rparr>)) [])
      else
        (let s' = transitionAgentState s PhaseThinking (no_patch\<lparr>pt_messages := Some ms\<rparr>)
         in accept s' [CallLlm (messages s') (tools config)]))"

section \<open>Token estimate\<close>

definition role_length :: "Role \<Rightarrow> nat" where
  "role_length r =
     (case r of System \<Rightarrow> length ''system'' | User \<Rightarrow> length ''user'' | Assistant \<Rightarrow> length ''assistant''
      | Tool \<Rightarrow> length ''tool'')"

text \<open>\<open>Math.round(n / 4)\<close> on a length.\<close>

definition round_quarter :: "nat \<Rightarrow> nat" where
  "round_quarter n = (n + 2) div 4"

fun content_chars :: "MessageContent \<Rightarrow> nat" where
  "content_chars (Text t) = length t"
| "content_chars (Thinking r) = length (rs_text r)"
| "content_chars (ToolCall c) =
     length (tc_name c) + length (tc_callId c) + length (stringify (JObject (coalesce (tc_input c) [])))"
| "content_chars (ToolResult r) = length (tr_callId r) + length (tr_content r) + 16"
| "content_chars (File (LegacyInlineFile name media bytes)) =
     length name + length media + round_quarter (length bytes)"
| "content_chars (File (ReferencedFile name media ref)) = length name + length media + ar_bytes ref"
| "content_chars (Image (FileRef path media)) = length path + 64"
| "content_chars (Image (Base64 media bytes)) = round_quarter (length bytes)"

definition message_chars :: "Message \<Rightarrow> nat" where
  "message_chars m = role_length (msg_role m) + 8 + sum_list (map content_chars (msg_content m))"

definition estimateMessageTokens :: "Message list \<Rightarrow> nat" where
  "estimateMessageTokens ms = (sum_list (map message_chars ms) + 3) div 4"

section \<open>What the helpers write and keep\<close>

lemma transition_fields [simp]:
  "sessionId (transitionAgentState s ph pt) = coalesce (pt_sessionId pt) (sessionId s)"
  "messages (transitionAgentState s ph pt) = coalesce (pt_messages pt) (messages s)"
  "usage (transitionAgentState s ph pt) = coalesce (pt_usage pt) (usage s)"
  "cursor (transitionAgentState s ph pt) = coalesce (pt_cursor pt) (cursor s)"
  "cwd (transitionAgentState s ph pt) = (case pt_cwd pt of None \<Rightarrow> cwd s | Some d \<Rightarrow> Some d)"
  "approvalMode (transitionAgentState s ph pt) = coalesce (pt_approvalMode pt) (approvalMode s)"
  "systemPromptOverride (transitionAgentState s ph pt) =
     (case pt_systemPromptOverride pt of None \<Rightarrow> systemPromptOverride s | Some p \<Rightarrow> Some p)"
  "status (transitionAgentState s ph pt) = phase_status ph"
  "pendingCalls (transitionAgentState s ph pt) = phase_pendingCalls ph"
  "error (transitionAgentState s ph pt) = phase_error ph"
  by (simp_all add: transitionAgentState_def)

lemma no_patch_fields [simp]:
  "pt_sessionId no_patch = None" "pt_messages no_patch = None" "pt_usage no_patch = None"
  "pt_cursor no_patch = None" "pt_cwd no_patch = None" "pt_approvalMode no_patch = None"
  "pt_systemPromptOverride no_patch = None"
  by (simp_all add: no_patch_def)

lemma accept_fields [simp]:
  "hr_next (accept s es) = s" "hr_effects (accept s es) = es" "hr_rejectionReason (accept s es) = None"
  by (simp_all add: accept_def)

lemma noop_fields [simp]:
  "hr_next (noop s) = s" "hr_effects (noop s) = []" "hr_rejectionReason (noop s) = None"
  by (simp_all add: noop_def)

lemma reject_fields [simp]:
  "hr_next (rejectInvalidEvent s) = s" "hr_effects (rejectInvalidEvent s) = []"
  "hr_rejectionReason (rejectInvalidEvent s) = Some InvalidEventPayload"
  by (simp_all add: rejectInvalidEvent_def)

lemma pending_phase_simps [simp]:
  "phase_pendingCalls (pending_phase b ps) = ps"
  "phase_error (pending_phase b ps) = None"
  "phase_status (pending_phase b ps) = (if b then awaiting_approval else executing_tools)"
  by (simp_all add: pending_phase_def)

lemma text_message_fields [simp]:
  "msg_role (text_message r t) = r" "msg_content (text_message r t) = [Text t]"
  by (simp_all add: text_message_def)

lemma extractToolCalls_call_ids: "map tc_callId (extractToolCalls cs) = call_ids cs"
  by (induction cs rule: extractToolCalls.induct) auto

lemma extractToolCalls_append [simp]:
  "extractToolCalls (xs @ ys) = extractToolCalls xs @ extractToolCalls ys"
  by (induction xs rule: extractToolCalls.induct) auto

lemma set_extractToolCalls: "c \<in> set (extractToolCalls cs) \<longleftrightarrow> ToolCall c \<in> set cs"
  by (induction cs rule: extractToolCalls.induct) auto

end
