(* ===== verification/Kernel_Handlers.thy ===== *)
theory Kernel_Handlers
  imports Kernel_State
begin

text \<open>
  The event handlers of \<open>packages/kernel/src/handlers.ts\<close>, one definition per function, in the order
  of the file. A handler takes the advanced state (its cursor already counts the event) and returns
  the next state, the effects and, for a refused payload, the rejection.
\<close>

section \<open>user\_message\<close>

text \<open>The loop that looks for the index after the last user message, from the end.\<close>

fun turnStart_scan :: "Message list \<Rightarrow> nat \<Rightarrow> nat" where
  "turnStart_scan ms 0 = 0"
| "turnStart_scan ms (Suc index) = (if msg_role (ms ! index) \<noteq> User then turnStart_scan ms index else index + 1)"

text \<open>One content block of the second loop: a call opens an entry, a result closes it.\<close>

fun track_unresolved :: "MessageContent \<Rightarrow> (string \<times> ToolCallContent) list \<Rightarrow> (string \<times> ToolCallContent) list" where
  "track_unresolved (ToolCall c) m = AList.update (tc_callId c) c m"
| "track_unresolved (ToolResult r) m = AList.delete (tr_callId r) m"
| "track_unresolved _ m = m"

definition unresolved_calls :: "Message list \<Rightarrow> (string \<times> ToolCallContent) list" where
  "unresolved_calls ms = fold track_unresolved (concat (map msg_content ms)) []"

definition tool_result_message :: "string \<Rightarrow> bool \<Rightarrow> string \<Rightarrow> ToolFailure option \<Rightarrow> Message" where
  "tool_result_message cid ok text failure =
     \<lparr>msg_role = Tool,
      msg_content = [ToolResult \<lparr>tr_callId = cid, tr_ok = ok, tr_content = text, tr_failure = failure\<rparr>],
      msg_metadata = None\<rparr>"

definition cancelled_result :: "string \<Rightarrow> Message" where
  "cancelled_result cid = tool_result_message cid False ''cancelled by user'' None"

definition appendCancelledResultsForOrphanedToolCalls :: "Message list \<Rightarrow> Message list" where
  "appendCancelledResultsForOrphanedToolCalls ms =
     (let turnStart = turnStart_scan ms (length ms);
          unresolved = unresolved_calls (drop turnStart ms)
      in if unresolved = [] then ms else ms @ map (cancelled_result \<circ> fst) unresolved)"

definition onUserMessage :: "AgentState \<Rightarrow> UserMessageEvent \<Rightarrow> AgentConfig \<Rightarrow> HandlerResult" where [handler_defs]:
  "onUserMessage s event config =
     (let content = (case um_content event of Some cs \<Rightarrow> cs | None \<Rightarrow> [Text (coalesce (um_text event) [])]);
          userMsg = \<lparr>msg_role = User, msg_content = content, msg_metadata = None\<rparr>;
          repaired = appendCancelledResultsForOrphanedToolCalls (messages s);
          s' = transitionAgentState s PhaseThinking (no_patch\<lparr>pt_messages := Some (repaired @ [userMsg])\<rparr>)
      in accept s' [CallLlm (messages s') (tools config)])"

section \<open>llm\_response\<close>

definition fallbackToolIntent :: "string \<Rightarrow> json_object \<Rightarrow> string option" where
  "fallbackToolIntent name input = None"

definition explicit_intent :: "json_object \<Rightarrow> string option" where
  "explicit_intent input =
     (case map_of input ''_intent'' of
        Some (JString s) \<Rightarrow> if trim s \<noteq> [] then Some (take 240 (trim s)) else None
      | _ \<Rightarrow> None)"

fun sanitizeContent :: "MessageContent \<Rightarrow> MessageContent" where
  "sanitizeContent (ToolCall c) =
     (let input = coalesce (tc_input c) [];
          executionInput = AList.delete ''_intent'' input;
          intent = (case explicit_intent input of Some i \<Rightarrow> Some i | None \<Rightarrow> fallbackToolIntent (tc_name c) executionInput)
      in ToolCall (c\<lparr>tc_input := Some executionInput,
                    tc_intent := (case truthy intent of Some i \<Rightarrow> Some i | None \<Rightarrow> tc_intent c)\<rparr>))"
| "sanitizeContent c = c"

definition sanitizeMessage :: "Message \<Rightarrow> Message" where
  "sanitizeMessage m = m\<lparr>msg_content := map sanitizeContent (msg_content m)\<rparr>"

text \<open>The loop over the calls of the response: some identifier is already used.\<close>

fun reusesCallId :: "string set \<Rightarrow> string set \<Rightarrow> ToolCallContent list \<Rightarrow> bool" where
  "reusesCallId prior resp [] = False"
| "reusesCallId prior resp (call # calls) =
     (if tc_callId call \<in> prior \<or> tc_callId call \<in> resp then True
      else reusesCallId prior (insert (tc_callId call) resp) calls)"

datatype Decision = Dispatch | AskUser | RejectCall

definition decide :: "ApprovalMode \<Rightarrow> bool \<Rightarrow> Decision" where
  "decide mode needsApproval =
     (case mode of
        AllowAll \<Rightarrow> Dispatch
      | Ask \<Rightarrow> AskUser
      | Deny \<Rightarrow> if needsApproval then RejectCall else Dispatch
      | Auto \<Rightarrow> if needsApproval then AskUser else Dispatch)"

definition needsApproval :: "AgentConfig \<Rightarrow> string \<Rightarrow> bool" where
  "needsApproval config name =
     (case find (\<lambda>t. ts_name t = name) (tools config) of Some schema \<Rightarrow> ts_requiresApproval schema | None \<Rightarrow> True)"

definition decide_call :: "AgentState \<Rightarrow> AgentConfig \<Rightarrow> ToolCallContent \<Rightarrow> Decision" where
  "decide_call s config c = decide (approvalMode s) (needsApproval config (tc_name c))"

definition rejected_content :: "ToolCallContent \<Rightarrow> MessageContent" where
  "rejected_content c =
     ToolResult \<lparr>tr_callId = tc_callId c, tr_ok = False,
                 tr_content = ''rejected: approval mode is '' @ [CHR 0x22] @ ''deny'' @ [CHR 0x22], tr_failure = None\<rparr>"

definition pending_call :: "ToolCallContent \<times> Decision \<Rightarrow> PendingToolCall" where
  "pending_call d =
     \<lparr>p_callId = tc_callId (fst d), p_name = tc_name (fst d), p_input = tc_input (fst d),
      p_intent = truthy (tc_intent (fst d)),
      p_status = (if snd d = Dispatch then PApproved else PAwaitingApproval)\<rparr>"

definition call_tool_effect :: "string option \<Rightarrow> PendingToolCall \<Rightarrow> Effect" where
  "call_tool_effect dir p =
     CallTool \<lparr>ct_callId = p_callId p, ct_name = p_name p, ct_input = p_input p,
               ct_intent = truthy (p_intent p), ct_cwd = dir\<rparr>"

definition pending_effect :: "string option \<Rightarrow> PendingToolCall \<Rightarrow> Effect" where
  "pending_effect dir p =
     (if p_status p = PAwaitingApproval
      then RequestApproval \<lparr>ra_callId = p_callId p, ra_name = p_name p, ra_input = p_input p,
                            ra_intent = truthy (p_intent p)\<rparr>
      else call_tool_effect dir p)"

definition mark_dispatched :: "PendingToolCall \<Rightarrow> PendingToolCall" where
  "mark_dispatched p = (if p_status p = PApproved then p\<lparr>p_status := PDispatched\<rparr> else p)"

definition onLlmResponse :: "AgentState \<Rightarrow> Message \<Rightarrow> UsageDelta option \<Rightarrow> AgentConfig \<Rightarrow> HandlerResult" where [handler_defs]:
  "onLlmResponse s message delta config =
     (if msg_role message \<noteq> Assistant then rejectInvalidEvent s
      else
        (let sanitized = sanitizeMessage message;
             ms = messages s @ [sanitized];
             nextUsage = (case delta of Some d \<Rightarrow> addUsage (usage s) d | None \<Rightarrow> usage s);
             toolCalls = extractToolCalls (msg_content sanitized)
         in if toolCalls = [] then
              accept (transitionAgentState s PhaseDone (no_patch\<lparr>pt_messages := Some ms, pt_usage := Some nextUsage\<rparr>)) [Finish]
            else if reusesCallId (set (transcript_call_ids (messages s))) {} toolCalls then rejectInvalidEvent s
            else
              (let decisions = map (\<lambda>c. (c, decide_call s config c)) toolCalls;
                   rejectedContents = map (rejected_content \<circ> fst) (filter (\<lambda>d. snd d = RejectCall) decisions);
                   pending = map pending_call (filter (\<lambda>d. snd d \<noteq> RejectCall) decisions);
                   effects = map (pending_effect (cwd s)) pending;
                   nextPending = map mark_dispatched pending;
                   withRejections =
                     (if rejectedContents \<noteq> []
                      then ms @ [\<lparr>msg_role = Tool, msg_content = rejectedContents, msg_metadata = None\<rparr>] else ms);
                   patch = no_patch\<lparr>pt_messages := Some withRejections, pt_usage := Some nextUsage\<rparr>
               in if pending = [] then
                    accept (transitionAgentState s PhaseThinking patch) [CallLlm withRejections (tools config)]
                  else
                    accept (transitionAgentState s
                      (pending_phase (list_ex (\<lambda>p. p_status p = PAwaitingApproval) pending) nextPending) patch) effects)))"

section \<open>llm\_error, user\_approve, user\_reject, tool\_result\<close>

definition onLlmError :: "AgentState \<Rightarrow> string \<Rightarrow> HandlerResult" where [handler_defs]:
  "onLlmError s err = accept (transitionAgentState s (PhaseError err) no_patch) [EmitError err]"

definition onUserApprove :: "AgentState \<Rightarrow> string \<Rightarrow> HandlerResult" where [handler_defs]:
  "onUserApprove s callId =
     (case find (\<lambda>c. p_callId c = callId) (pendingCalls s) of
        None \<Rightarrow> rejectInvalidEvent s
      | Some target \<Rightarrow>
          if p_status target \<noteq> PAwaitingApproval then rejectInvalidEvent s
          else
            (let ps = map (\<lambda>c. if p_callId c = callId then c\<lparr>p_status := PDispatched\<rparr> else c) (pendingCalls s);
                 stillAwaiting = list_ex (\<lambda>c. p_status c = PAwaitingApproval) ps
             in accept (transitionAgentState s (pending_phase stillAwaiting ps) no_patch)
                  [CallTool \<lparr>ct_callId = callId, ct_name = p_name target, ct_input = p_input target,
                             ct_intent = truthy (p_intent target), ct_cwd = cwd s\<rparr>]))"

definition onUserReject :: "AgentState \<Rightarrow> string \<Rightarrow> string option \<Rightarrow> AgentConfig \<Rightarrow> HandlerResult" where [handler_defs]:
  "onUserReject s callId reason config =
     (case find (\<lambda>c. p_callId c = callId) (pendingCalls s) of
        None \<Rightarrow> rejectInvalidEvent s
      | Some target \<Rightarrow>
          if p_status target \<noteq> PAwaitingApproval then rejectInvalidEvent s
          else
            (let rejectedContent = coalesce reason ''User rejected this tool call.'';
                 ps = filter (\<lambda>c. p_callId c \<noteq> callId) (pendingCalls s);
                 ms = messages s @ [tool_result_message callId False rejectedContent None]
             in afterPendingSettled s ms ps config))"

definition onToolResult ::
  "AgentState \<Rightarrow> string \<Rightarrow> bool \<Rightarrow> string \<Rightarrow> AgentConfig \<Rightarrow> ToolFailure option \<Rightarrow> HandlerResult" where [handler_defs]:
  "onToolResult s callId ok content config failure =
     (case find (\<lambda>c. p_callId c = callId) (pendingCalls s) of
        None \<Rightarrow> rejectInvalidEvent s
      | Some target \<Rightarrow>
          if p_status target \<noteq> PDispatched then rejectInvalidEvent s
          else
            (let ps = filter (\<lambda>c. p_callId c \<noteq> callId) (pendingCalls s);
                 ms = messages s @ [tool_result_message callId ok content failure]
             in afterPendingSettled s ms ps config))"

section \<open>cancel and clear\<close>

definition onCancel :: "AgentState \<Rightarrow> HandlerResult" where [handler_defs]:
  "onCancel s =
     (let cancelledResults = map (cancelled_result \<circ> p_callId) (pendingCalls s)
      in accept (transitionAgentState s PhaseDone
           (no_patch\<lparr>pt_messages := Some (if cancelledResults \<noteq> [] then messages s @ cancelledResults else messages s)\<rparr>))
           [Finish])"

definition messagesWithSystemPrompt :: "Message list \<Rightarrow> string \<Rightarrow> Message list" where
  "messagesWithSystemPrompt ms prompt =
     (let remaining = (case ms of m # rest \<Rightarrow> if msg_role m = System then rest else ms | [] \<Rightarrow> ms)
      in if prompt = [] then remaining else text_message System prompt # remaining)"

definition onClear :: "AgentState \<Rightarrow> HandlerResult" where [handler_defs]:
  "onClear s =
     (let ms = (case systemPromptOverride s of Some ov \<Rightarrow> messagesWithSystemPrompt [] (spo_prompt ov) | None \<Rightarrow> [])
      in accept (transitionAgentState s PhaseIdle (no_patch\<lparr>pt_messages := Some ms, pt_usage := Some zero_usage\<rparr>)) [])"

section \<open>messages\_replaced\<close>

text \<open>The scan over the kept suffix: assistant messages strike their calls off the pending set.\<close>

fun preserves_scan :: "string set \<Rightarrow> Message list \<Rightarrow> bool" where
  "preserves_scan pending [] = False"
| "preserves_scan pending (m # ms) =
     (if msg_role m \<noteq> Assistant then preserves_scan pending ms
      else (let pending' = pending - set (call_ids (msg_content m))
            in if pending' = {} then True else preserves_scan pending' ms))"

definition preservesPendingToolCallGroup :: "AgentState \<Rightarrow> nat \<Rightarrow> bool" where
  "preservesPendingToolCallGroup s preserveFrom =
     (let pending = set (map p_callId (pendingCalls s))
      in if pending = {} then True else preserves_scan pending (drop preserveFrom (messages s)))"

definition onMessagesReplaced :: "AgentState \<Rightarrow> MessagesReplacedEvent \<Rightarrow> AgentConfig \<Rightarrow> HandlerResult" where [handler_defs]:
  "onMessagesReplaced s event config =
     (case (mr_start event, mr_end event) of
        (Integer start, Integer fin) \<Rightarrow>
          if start < 0 \<or> fin < start \<or> fin > int (length (messages s)) then rejectInvalidEvent s
          else if pendingCalls s \<noteq> [] \<and> \<not> preservesPendingToolCallGroup s (nat fin) then rejectInvalidEvent s
          else
            (let ms = take (nat start) (messages s) @ mr_replacementMessages event @ drop (nat fin) (messages s);
                 effective = (case systemPromptOverride s of Some ov \<Rightarrow> messagesWithSystemPrompt ms (spo_prompt ov) | None \<Rightarrow> ms)
             in if mr_resume event = Some True \<and> (status s = idle \<or> status s = done_status \<or> status s = error_status)
                then accept (transitionAgentState s PhaseThinking (no_patch\<lparr>pt_messages := Some effective\<rparr>))
                       [CallLlm effective (tools config)]
                else accept (s\<lparr>messages := effective\<rparr>) [])
      | _ \<Rightarrow> rejectInvalidEvent s)"

section \<open>Settings\<close>

definition onApprovalModeChanged :: "AgentState \<Rightarrow> ApprovalMode \<Rightarrow> HandlerResult" where [handler_defs]:
  "onApprovalModeChanged s mode =
     (if approvalMode s = mode then noop s else accept (s\<lparr>approvalMode := mode\<rparr>) [])"

definition onSystemPromptChanged :: "AgentState \<Rightarrow> string \<Rightarrow> PromptVersion option \<Rightarrow> HandlerResult" where [handler_defs]:
  "onSystemPromptChanged s prompt version =
     accept (s\<lparr>messages := messagesWithSystemPrompt (messages s) prompt,
               systemPromptOverride := Some \<lparr>spo_prompt = prompt, spo_version = version\<rparr>\<rparr>) []"

definition onCwdChanged :: "AgentState \<Rightarrow> string \<Rightarrow> HandlerResult" where [handler_defs]:
  "onCwdChanged s dir = (if cwd s = Some dir then noop s else accept (s\<lparr>cwd := Some dir\<rparr>) [])"

end
