(* ===== verification/Kernel_Core.thy ===== *)
theory Kernel_Core
  imports Kernel_Handlers
begin

text \<open>
  The reducer, from \<open>packages/kernel/src/core.ts\<close>: the dispatch table indexed by status and event
  kind, the contract derived from it, the state invariant and \<open>step\<close>; and the replay functions of
  \<open>packages/kernel/src/fold.ts\<close>. The lemmas show what a single step can do: the cursor always
  advances by one, an event without a cell and a refused event change nothing else, and the
  invariant is never lost.
\<close>

section \<open>The transition table\<close>

type_synonym Handler = "AgentState \<Rightarrow> AgentEvent \<Rightarrow> AgentConfig \<Rightarrow> HandlerResult"
type_synonym TransitionRow = "EventKind \<Rightarrow> Handler option"

text \<open>
  The closures of the table's cells. \<open>step\<close> indexes the table by the event's own kind, so the
  default branch of a cell is never taken.
\<close>

definition cell_user_message :: Handler where [table_defs]:
  "cell_user_message s e c = (case e of EUserMessage ev \<Rightarrow> onUserMessage s ev c | _ \<Rightarrow> noop s)"

definition cell_llm_response :: Handler where [table_defs]:
  "cell_llm_response s e c = (case e of ELlmResponse ev \<Rightarrow> onLlmResponse s (lr_message ev) (lr_usage ev) c | _ \<Rightarrow> noop s)"

definition cell_llm_error :: Handler where [table_defs]:
  "cell_llm_error s e c = (case e of ELlmError err \<Rightarrow> onLlmError s err | _ \<Rightarrow> noop s)"

definition cell_user_approve :: Handler where [table_defs]:
  "cell_user_approve s e c = (case e of EUserApprove cid \<Rightarrow> onUserApprove s cid | _ \<Rightarrow> noop s)"

definition cell_user_reject :: Handler where [table_defs]:
  "cell_user_reject s e c = (case e of EUserReject cid reason \<Rightarrow> onUserReject s cid reason c | _ \<Rightarrow> noop s)"

definition cell_tool_result :: Handler where [table_defs]:
  "cell_tool_result s e c =
     (case e of EToolResult ev \<Rightarrow> onToolResult s (te_callId ev) (te_ok ev) (te_content ev) c (te_failure ev)
      | _ \<Rightarrow> noop s)"

definition cell_noop :: Handler where [table_defs]:
  "cell_noop s e c = noop s"

definition cell_cancel :: Handler where [table_defs]:
  "cell_cancel s e c = onCancel s"

definition cell_clear :: Handler where [table_defs]:
  "cell_clear s e c = onClear s"

definition cell_messages_replaced :: Handler where [table_defs]:
  "cell_messages_replaced s e c = (case e of EMessagesReplaced ev \<Rightarrow> onMessagesReplaced s ev c | _ \<Rightarrow> noop s)"

definition cell_approval_mode_changed :: Handler where [table_defs]:
  "cell_approval_mode_changed s e c = (case e of EApprovalModeChanged m \<Rightarrow> onApprovalModeChanged s m | _ \<Rightarrow> noop s)"

definition cell_cwd_changed :: Handler where [table_defs]:
  "cell_cwd_changed s e c = (case e of ECwdChanged d \<Rightarrow> onCwdChanged s d | _ \<Rightarrow> noop s)"

definition cell_system_prompt_changed :: Handler where [table_defs]:
  "cell_system_prompt_changed s e c = (case e of ESystemPromptChanged p v \<Rightarrow> onSystemPromptChanged s p v | _ \<Rightarrow> noop s)"

definition idle_row :: TransitionRow where
  "idle_row k = (case k of
      user_message \<Rightarrow> Some cell_user_message
    | llm_response \<Rightarrow> None
    | llm_error \<Rightarrow> None
    | user_approve \<Rightarrow> None
    | user_reject \<Rightarrow> None
    | tool_result \<Rightarrow> None
    | cancel \<Rightarrow> Some cell_noop
    | clear \<Rightarrow> Some cell_clear
    | messages_replaced \<Rightarrow> Some cell_messages_replaced
    | approval_mode_changed \<Rightarrow> Some cell_approval_mode_changed
    | cwd_changed \<Rightarrow> Some cell_cwd_changed
    | system_prompt_changed \<Rightarrow> Some cell_system_prompt_changed)"

definition thinking_row :: TransitionRow where
  "thinking_row k = (case k of
      user_message \<Rightarrow> None
    | llm_response \<Rightarrow> Some cell_llm_response
    | llm_error \<Rightarrow> Some cell_llm_error
    | user_approve \<Rightarrow> None
    | user_reject \<Rightarrow> None
    | tool_result \<Rightarrow> None
    | cancel \<Rightarrow> Some cell_cancel
    | clear \<Rightarrow> Some cell_clear
    | messages_replaced \<Rightarrow> Some cell_messages_replaced
    | approval_mode_changed \<Rightarrow> Some cell_approval_mode_changed
    | cwd_changed \<Rightarrow> None
    | system_prompt_changed \<Rightarrow> Some cell_system_prompt_changed)"

definition awaiting_approval_row :: TransitionRow where
  "awaiting_approval_row k = (case k of
      user_message \<Rightarrow> None
    | llm_response \<Rightarrow> None
    | llm_error \<Rightarrow> None
    | user_approve \<Rightarrow> Some cell_user_approve
    | user_reject \<Rightarrow> Some cell_user_reject
    | tool_result \<Rightarrow> Some cell_tool_result
    | cancel \<Rightarrow> Some cell_cancel
    | clear \<Rightarrow> Some cell_clear
    | messages_replaced \<Rightarrow> None
    | approval_mode_changed \<Rightarrow> Some cell_approval_mode_changed
    | cwd_changed \<Rightarrow> None
    | system_prompt_changed \<Rightarrow> Some cell_system_prompt_changed)"

definition executing_tools_row :: TransitionRow where
  "executing_tools_row k = (case k of
      user_message \<Rightarrow> None
    | llm_response \<Rightarrow> None
    | llm_error \<Rightarrow> None
    | user_approve \<Rightarrow> None
    | user_reject \<Rightarrow> None
    | tool_result \<Rightarrow> Some cell_tool_result
    | cancel \<Rightarrow> Some cell_cancel
    | clear \<Rightarrow> Some cell_clear
    | messages_replaced \<Rightarrow> Some cell_messages_replaced
    | approval_mode_changed \<Rightarrow> Some cell_approval_mode_changed
    | cwd_changed \<Rightarrow> None
    | system_prompt_changed \<Rightarrow> Some cell_system_prompt_changed)"

definition done_row :: TransitionRow where
  "done_row k = (case k of
      user_message \<Rightarrow> Some cell_user_message
    | llm_response \<Rightarrow> None
    | llm_error \<Rightarrow> None
    | user_approve \<Rightarrow> None
    | user_reject \<Rightarrow> None
    | tool_result \<Rightarrow> None
    | cancel \<Rightarrow> None
    | clear \<Rightarrow> Some cell_clear
    | messages_replaced \<Rightarrow> Some cell_messages_replaced
    | approval_mode_changed \<Rightarrow> Some cell_approval_mode_changed
    | cwd_changed \<Rightarrow> Some cell_cwd_changed
    | system_prompt_changed \<Rightarrow> Some cell_system_prompt_changed)"

definition error_row :: TransitionRow where
  "error_row k = (case k of
      user_message \<Rightarrow> Some cell_user_message
    | llm_response \<Rightarrow> None
    | llm_error \<Rightarrow> None
    | user_approve \<Rightarrow> None
    | user_reject \<Rightarrow> None
    | tool_result \<Rightarrow> None
    | cancel \<Rightarrow> None
    | clear \<Rightarrow> Some cell_clear
    | messages_replaced \<Rightarrow> Some cell_messages_replaced
    | approval_mode_changed \<Rightarrow> Some cell_approval_mode_changed
    | cwd_changed \<Rightarrow> None
    | system_prompt_changed \<Rightarrow> Some cell_system_prompt_changed)"

definition transitions :: "AgentStatus \<Rightarrow> TransitionRow" where
  "transitions st = (case st of
      idle \<Rightarrow> idle_row
    | thinking \<Rightarrow> thinking_row
    | awaiting_approval \<Rightarrow> awaiting_approval_row
    | executing_tools \<Rightarrow> executing_tools_row
    | done_status \<Rightarrow> done_row
    | error_status \<Rightarrow> error_row)"

lemmas row_defs = transitions_def idle_row_def thinking_row_def awaiting_approval_row_def
  executing_tools_row_def done_row_def error_row_def

definition agentStatuses :: "AgentStatus list" where
  "agentStatuses = [idle, thinking, awaiting_approval, executing_tools, done_status, error_status]"

definition agentEventKinds :: "EventKind list" where
  "agentEventKinds = [user_message, llm_response, llm_error, user_approve, user_reject, tool_result,
     cancel, clear, messages_replaced, approval_mode_changed, cwd_changed, system_prompt_changed]"

datatype TransitionClassification = ClassHandled | ClassIgnored

definition transitionContract :: "AgentStatus \<Rightarrow> EventKind \<Rightarrow> TransitionClassification" where
  "transitionContract st k = (case transitions st k of Some h \<Rightarrow> ClassHandled | None \<Rightarrow> ClassIgnored)"

definition legalTransitions :: "AgentStatus \<Rightarrow> EventKind list" where
  "legalTransitions st = filter (\<lambda>k. transitionContract st k = ClassHandled) agentEventKinds"

section \<open>The state invariant and the reducer\<close>

definition status_text :: "AgentStatus \<Rightarrow> string" where
  "status_text st = (case st of
      idle \<Rightarrow> ''idle'' | thinking \<Rightarrow> ''thinking'' | awaiting_approval \<Rightarrow> ''awaiting_approval''
    | executing_tools \<Rightarrow> ''executing_tools'' | done_status \<Rightarrow> ''done'' | error_status \<Rightarrow> ''error'')"

text \<open>The first half of the check, on the pending calls.\<close>

definition pendingViolation :: "AgentState \<Rightarrow> string option" where
  "pendingViolation s =
     (if status s = awaiting_approval then
        (if \<not> list_ex (\<lambda>c. p_status c = PAwaitingApproval) (pendingCalls s)
         then Some ''awaiting_approval requires an awaiting call'' else None)
      else if status s = executing_tools then
        (if pendingCalls s = [] \<or> list_ex (\<lambda>c. p_status c \<noteq> PDispatched) (pendingCalls s)
         then Some ''executing_tools requires dispatched calls only'' else None)
      else if pendingCalls s \<noteq> [] then Some (status_text (status s) @ '' cannot retain pending calls'')
      else None)"

definition stateInvariantViolation :: "AgentState \<Rightarrow> string option" where
  "stateInvariantViolation s =
     (case pendingViolation s of
        Some v \<Rightarrow> Some v
      | None \<Rightarrow>
          if status s = error_status then
            (if (case error s of None \<Rightarrow> True | Some e \<Rightarrow> trim e = []) then Some ''error state requires an error message'' else None)
          else if error s \<noteq> None then Some (status_text (status s) @ '' cannot retain an error message'')
          else None)"

definition advance :: "AgentState \<Rightarrow> AgentState" where
  "advance s = s\<lparr>cursor := cursor s + 1\<rparr>"

definition step :: "AgentState \<Rightarrow> AgentEvent \<Rightarrow> AgentConfig \<Rightarrow> StepResult" where
  "step s event config =
     (let from = status s;
          priorViolation = stateInvariantViolation s;
          advanced = advance s
      in case transitions (status advanced) (kind event) of
           None \<Rightarrow>
             (let result = noop advanced
              in \<lparr>sr_next = hr_next result, sr_effects = hr_effects result,
                  sr_transition = \<lparr>td_outcome = Ignored, td_from = from, td_to = status (hr_next result),
                                   td_event = kind event, td_reason = Some EventNotLegalInState\<rparr>\<rparr>)
         | Some handler \<Rightarrow>
             (let result = handler advanced event config
              in case hr_rejectionReason result of
                   Some reason \<Rightarrow>
                     \<lparr>sr_next = hr_next result, sr_effects = hr_effects result,
                      sr_transition = \<lparr>td_outcome = Rejected, td_from = from, td_to = status (hr_next result),
                                       td_event = kind event, td_reason = Some reason\<rparr>\<rparr>
                 | None \<Rightarrow>
                     if priorViolation = None \<and> stateInvariantViolation (hr_next result) \<noteq> None then
                       \<lparr>sr_next = advanced, sr_effects = [],
                        sr_transition = \<lparr>td_outcome = Rejected, td_from = from, td_to = status advanced,
                                         td_event = kind event, td_reason = Some InvariantViolation\<rparr>\<rparr>
                     else
                       \<lparr>sr_next = hr_next result, sr_effects = hr_effects result,
                        sr_transition = \<lparr>td_outcome = Applied, td_from = from, td_to = status (hr_next result),
                                         td_event = kind event, td_reason = None\<rparr>\<rparr>))"

section \<open>Replay: fold, foldWithTrace, fork\<close>

fun fold_events :: "AgentState \<Rightarrow> AgentEvent list \<Rightarrow> AgentConfig \<Rightarrow> AgentState" where
  "fold_events s [] config = s"
| "fold_events s (ev # evs) config = fold_events (sr_next (step s ev config)) evs config"

record TraceEntry =
  tre_cursor :: nat
  tre_event :: AgentEvent
  tre_state :: AgentState
  tre_effects :: "Effect list"
  tre_transition :: TransitionDisposition

definition trace_entry :: "AgentEvent \<Rightarrow> StepResult \<Rightarrow> TraceEntry" where
  "trace_entry ev r =
     \<lparr>tre_cursor = cursor (sr_next r), tre_event = ev, tre_state = sr_next r,
      tre_effects = sr_effects r, tre_transition = sr_transition r\<rparr>"

fun foldWithTrace_loop ::
  "AgentState \<Rightarrow> TraceEntry list \<Rightarrow> AgentEvent list \<Rightarrow> AgentConfig \<Rightarrow> AgentState \<times> TraceEntry list" where
  "foldWithTrace_loop s trace [] config = (s, trace)"
| "foldWithTrace_loop s trace (ev # evs) config =
     (let result = step s ev config
      in foldWithTrace_loop (sr_next result) (trace @ [trace_entry ev result]) evs config)"

definition foldWithTrace :: "AgentState \<Rightarrow> AgentEvent list \<Rightarrow> AgentConfig \<Rightarrow> AgentState \<times> TraceEntry list" where
  "foldWithTrace initial events config = foldWithTrace_loop initial [] events config"

definition fork :: "AgentState \<Rightarrow> AgentEvent list \<Rightarrow> int \<Rightarrow> AgentEvent list \<Rightarrow> AgentConfig \<Rightarrow> AgentState" where
  "fork initial originalEvents cur newEvents config =
     fold_events initial (slice_to originalEvents cur @ newEvents) config"

section \<open>One step\<close>

lemma advance_fields [simp]:
  "cursor (advance s) = cursor s + 1" "status (advance s) = status s" "messages (advance s) = messages s"
  "pendingCalls (advance s) = pendingCalls s" "error (advance s) = error s" "cwd (advance s) = cwd s"
  "approvalMode (advance s) = approvalMode s" "usage (advance s) = usage s"
  "sessionId (advance s) = sessionId s" "systemPromptOverride (advance s) = systemPromptOverride s"
  by (simp_all add: advance_def)

lemma violation_advance [simp]: "stateInvariantViolation (advance s) = stateInvariantViolation s"
  by (simp add: stateInvariantViolation_def pendingViolation_def)

text \<open>
  Every cell of the table runs one of the handlers: the case analysis all the step lemmas share.
  \<open>handle\<close> is what the table runs on an event, if anything.
\<close>

definition handle :: "AgentState \<Rightarrow> AgentEvent \<Rightarrow> AgentConfig \<Rightarrow> HandlerResult option" where
  "handle s e c = map_option (\<lambda>h. h s e c) (transitions (status s) (kind e))"

lemma handle_simps [simp]:
  "handle s (EUserMessage um) c =
     (if status s \<in> {idle, done_status, error_status} then Some (onUserMessage s um c) else None)"
  "handle s (ELlmResponse lr) c =
     (if status s = thinking then Some (onLlmResponse s (lr_message lr) (lr_usage lr) c) else None)"
  "handle s (ELlmError err) c = (if status s = thinking then Some (onLlmError s err) else None)"
  "handle s (EUserApprove cid) c = (if status s = awaiting_approval then Some (onUserApprove s cid) else None)"
  "handle s (EUserReject cid reason) c =
     (if status s = awaiting_approval then Some (onUserReject s cid reason c) else None)"
  "handle s (EToolResult tr) c =
     (if status s \<in> {awaiting_approval, executing_tools}
      then Some (onToolResult s (te_callId tr) (te_ok tr) (te_content tr) c (te_failure tr)) else None)"
  "handle s ECancel c =
     (if status s = idle then Some (noop s)
      else if status s \<in> {thinking, awaiting_approval, executing_tools} then Some (onCancel s) else None)"
  "handle s EClear c = Some (onClear s)"
  "handle s (EMessagesReplaced mr) c =
     (if status s = awaiting_approval then None else Some (onMessagesReplaced s mr c))"
  "handle s (EApprovalModeChanged m) c = Some (onApprovalModeChanged s m)"
  "handle s (ECwdChanged d) c = (if status s \<in> {idle, done_status} then Some (onCwdChanged s d) else None)"
  "handle s (ESystemPromptChanged p v) c = Some (onSystemPromptChanged s p v)"
  by (cases "status s"; simp add: handle_def row_defs table_defs)+

lemma handle_cases:
  assumes "handle s e c = Some r"
  obtains
    (um) ev where "e = EUserMessage ev" "status s \<in> {idle, done_status, error_status}" "r = onUserMessage s ev c"
  | (lr) ev where "e = ELlmResponse ev" "status s = thinking" "r = onLlmResponse s (lr_message ev) (lr_usage ev) c"
  | (le) err where "e = ELlmError err" "status s = thinking" "r = onLlmError s err"
  | (ua) cid where "e = EUserApprove cid" "status s = awaiting_approval" "r = onUserApprove s cid"
  | (ur) cid reason where "e = EUserReject cid reason" "status s = awaiting_approval" "r = onUserReject s cid reason c"
  | (tr) ev where "e = EToolResult ev" "status s \<in> {awaiting_approval, executing_tools}"
      "r = onToolResult s (te_callId ev) (te_ok ev) (te_content ev) c (te_failure ev)"
  | (cn) "e = ECancel" "status s = idle" "r = noop s"
  | (ca) "e = ECancel" "status s \<in> {thinking, awaiting_approval, executing_tools}" "r = onCancel s"
  | (cl) "e = EClear" "r = onClear s"
  | (mr) ev where "e = EMessagesReplaced ev" "status s \<noteq> awaiting_approval" "r = onMessagesReplaced s ev c"
  | (am) m where "e = EApprovalModeChanged m" "r = onApprovalModeChanged s m"
  | (cw) d where "e = ECwdChanged d" "status s \<in> {idle, done_status}" "r = onCwdChanged s d"
  | (sp) p v where "e = ESystemPromptChanged p v" "r = onSystemPromptChanged s p v"
proof (cases e)
  case (EUserMessage x1) with assms um show ?thesis by (simp split: if_splits)
next
  case (ELlmResponse x2) with assms lr show ?thesis by (simp split: if_splits)
next
  case (ELlmError x3) with assms le show ?thesis by (simp split: if_splits)
next
  case (EUserApprove x4) with assms ua show ?thesis by (simp split: if_splits)
next
  case (EUserReject x51 x52) with assms ur show ?thesis by (simp split: if_splits)
next
  case (EToolResult x6) with assms tr show ?thesis by (simp split: if_splits)
next
  case ECancel with assms cn ca show ?thesis by (simp split: if_splits)
next
  case EClear with assms cl show ?thesis by simp
next
  case (EMessagesReplaced x9) with assms mr show ?thesis by (simp split: if_splits)
next
  case (EApprovalModeChanged x10) with assms am show ?thesis by simp
next
  case (ECwdChanged x11) with assms cw show ?thesis by (simp split: if_splits)
next
  case (ESystemPromptChanged x121 x122) with assms sp show ?thesis by simp
qed

text \<open>The three ways a step can end, in terms of what the table runs on the advanced state.\<close>

lemma step_ignored:
  "handle (advance s) e c = None \<Longrightarrow>
   step s e c = \<lparr>sr_next = advance s, sr_effects = [],
     sr_transition = \<lparr>td_outcome = Ignored, td_from = status s, td_to = status s, td_event = kind e,
                      td_reason = Some EventNotLegalInState\<rparr>\<rparr>"
  by (simp add: step_def handle_def Let_def split: option.splits)

lemma step_handled:
  assumes "handle (advance s) e c = Some r"
  shows "sr_next (step s e c) =
      (if hr_rejectionReason r = None \<and> stateInvariantViolation s = None \<and> stateInvariantViolation (hr_next r) \<noteq> None
       then advance s else hr_next r)"
    and "sr_effects (step s e c) =
      (if hr_rejectionReason r = None \<and> stateInvariantViolation s = None \<and> stateInvariantViolation (hr_next r) \<noteq> None
       then [] else hr_effects r)"
    and "td_outcome (sr_transition (step s e c)) =
      (if hr_rejectionReason r \<noteq> None \<or> (stateInvariantViolation s = None \<and> stateInvariantViolation (hr_next r) \<noteq> None)
       then Rejected else Applied)"
    and "td_reason (sr_transition (step s e c)) =
      (if hr_rejectionReason r \<noteq> None then hr_rejectionReason r
       else if stateInvariantViolation s = None \<and> stateInvariantViolation (hr_next r) \<noteq> None then Some InvariantViolation
       else None)"
  using assms by (auto simp: step_def handle_def Let_def split: option.splits)

lemma td_fields:
  "td_from (sr_transition (step s e c)) = status s"
  "td_to (sr_transition (step s e c)) = status (sr_next (step s e c))"
  "td_event (sr_transition (step s e c)) = kind e"
  by (auto simp: step_def Let_def split: option.splits)

section \<open>What the handlers keep\<close>

text \<open>
  A handler never writes the cursor or the session, and one that refuses the payload returns the
  state it was given and no effect.
\<close>

definition well_behaved :: "AgentState \<Rightarrow> HandlerResult \<Rightarrow> bool" where
  "well_behaved s r \<longleftrightarrow>
     cursor (hr_next r) = cursor s \<and> sessionId (hr_next r) = sessionId s \<and>
     (case hr_rejectionReason r of
        None \<Rightarrow> True
      | Some reason \<Rightarrow> reason = InvalidEventPayload \<and> hr_next r = s \<and> hr_effects r = [])"

lemma well_behaved_simps [simp]:
  "well_behaved s (noop s)"
  "well_behaved s (rejectInvalidEvent s)"
  "well_behaved s (accept t es) \<longleftrightarrow> cursor t = cursor s \<and> sessionId t = sessionId s"
  by (simp_all add: well_behaved_def)

lemma afterPendingSettled_well_behaved [simp]: "well_behaved s (afterPendingSettled s ms ps c)"
  by (simp add: afterPendingSettled_def Let_def)

lemma handler_well_behaved:
  assumes "handle s e c = Some r"
  shows "well_behaved s r"
  using assms
proof (cases rule: handle_cases)
  case (lr ev)
  then show ?thesis by (simp add: onLlmResponse_def Let_def)
next
  case (mr ev)
  then show ?thesis by (simp add: onMessagesReplaced_def Let_def split: js_number.split)
qed (simp_all add: handler_defs Let_def split: option.split)

lemmas handler_frame = handler_well_behaved [unfolded well_behaved_def, THEN conjunct1]

end
