(* ===== verification/Kala_Machines.thy ===== *)
theory Kala_Machines
  imports Kala_Prelude
begin

text \<open>
  Interfaces of the state machines of the development. A component whose state evolves by a
  deterministic step offers the law that a step keeps its invariant, possibly under a guard on the
  event; the locales below derive once what holds along every run. Each component interprets them on
  its own step function.
\<close>

section \<open>Runs\<close>

primrec run_events :: "('s \<Rightarrow> 'e \<Rightarrow> 's) \<Rightarrow> 's \<Rightarrow> 'e list \<Rightarrow> 's" where
  "run_events stp s [] = s"
| "run_events stp s (e # es) = run_events stp (stp s e) es"

text \<open>Every event of the run satisfies the guard in the state it meets.\<close>

primrec run_guarded :: "('s \<Rightarrow> 'e \<Rightarrow> bool) \<Rightarrow> ('s \<Rightarrow> 'e \<Rightarrow> 's) \<Rightarrow> 's \<Rightarrow> 'e list \<Rightarrow> bool" where
  "run_guarded ok stp s [] \<longleftrightarrow> True"
| "run_guarded ok stp s (e # es) \<longleftrightarrow> ok s e \<and> run_guarded ok stp (stp s e) es"

text \<open>What the run emits, in order.\<close>

primrec run_outputs :: "('s \<Rightarrow> 'e \<Rightarrow> 's) \<Rightarrow> ('s \<Rightarrow> 'e \<Rightarrow> 'o list) \<Rightarrow> 's \<Rightarrow> 'e list \<Rightarrow> 'o list" where
  "run_outputs stp out s [] = []"
| "run_outputs stp out s (e # es) = out s e @ run_outputs stp out (stp s e) es"

lemma run_events_append [simp]: "run_events stp s (es @ fs) = run_events stp (run_events stp s es) fs"
  by (induction es arbitrary: s) auto

lemma run_guarded_append [simp]:
  "run_guarded ok stp s (es @ fs) \<longleftrightarrow> run_guarded ok stp s es \<and> run_guarded ok stp (run_events stp s es) fs"
  by (induction es arbitrary: s) auto

lemma run_outputs_append [simp]:
  "run_outputs stp out s (es @ fs) = run_outputs stp out s es @ run_outputs stp out (run_events stp s es) fs"
  by (induction es arbitrary: s) auto

lemma run_guarded_mono:
  "run_guarded ok stp s es \<Longrightarrow> (\<And>s e. ok s e \<Longrightarrow> ok' s e) \<Longrightarrow> run_guarded ok' stp s es"
  by (induction es arbitrary: s) auto

section \<open>Interfaces\<close>

locale guarded_machine =
  fixes stp :: "'s \<Rightarrow> 'e \<Rightarrow> 's" and ok :: "'s \<Rightarrow> 'e \<Rightarrow> bool" and inv :: "'s \<Rightarrow> bool"
  assumes inv_step: "inv s \<Longrightarrow> ok s e \<Longrightarrow> inv (stp s e)"
begin

lemma inv_run: "inv s \<Longrightarrow> run_guarded ok stp s es \<Longrightarrow> inv (run_events stp s es)"
  by (induction es arbitrary: s) (auto intro: inv_step)

lemma inv_prefix: "inv s \<Longrightarrow> run_guarded ok stp s (es @ fs) \<Longrightarrow> inv (run_events stp s es)"
  by (simp add: inv_run)

end

locale machine =
  fixes stp :: "'s \<Rightarrow> 'e \<Rightarrow> 's" and inv :: "'s \<Rightarrow> bool"
  assumes inv_stp: "inv s \<Longrightarrow> inv (stp s e)"
begin

lemma inv_run_all: "inv s \<Longrightarrow> inv (run_events stp s es)"
  by (induction es arbitrary: s) (auto intro: inv_stp)

end

sublocale machine \<subseteq> guarded_machine stp "\<lambda>_ _. True" inv
  by unfold_locales (rule inv_stp)

text \<open>A machine whose states grow along an order: what a step keeps of a state, every later state keeps.\<close>

locale progressing_machine = guarded_machine stp ok inv for stp :: "'s \<Rightarrow> 'e \<Rightarrow> 's" and ok :: "'s \<Rightarrow> 'e \<Rightarrow> bool" and inv :: "'s \<Rightarrow> bool" +
  fixes rel :: "'s \<Rightarrow> 's \<Rightarrow> bool"
  assumes rel_refl: "rel s s"
    and rel_trans: "rel s t \<Longrightarrow> rel t u \<Longrightarrow> rel s u"
    and rel_step: "inv s \<Longrightarrow> ok s e \<Longrightarrow> rel s (stp s e)"
begin

lemma rel_run: "inv s \<Longrightarrow> run_guarded ok stp s es \<Longrightarrow> rel s (run_events stp s es)"
  by (induction es arbitrary: s) (auto intro: rel_refl rel_trans rel_step inv_step)

end

text \<open>
  A machine that counts its events: the counter addresses the positions of a log, and a run can be
  cut at any counter value and resumed.
\<close>

locale counting_machine =
  fixes stp :: "'s \<Rightarrow> 'e \<Rightarrow> 's" and counter :: "'s \<Rightarrow> nat"
  assumes counter_step: "counter (stp s e) = Suc (counter s)"
begin

lemma counter_run: "counter (run_events stp s es) = counter s + length es"
  by (induction es arbitrary: s) (simp_all add: counter_step)

lemma run_resume: "run_events stp (run_events stp s (take n es)) (drop n es) = run_events stp s es"
  by (metis append_take_drop_id run_events_append)

end

text \<open>
  A machine that emits identified outputs at most once: an output's identifier is fresh with respect
  to what the state already accounts for, and from then on the state accounts for it.
\<close>

locale emit_once =
  fixes stp :: "'s \<Rightarrow> 'e \<Rightarrow> 's" and ok :: "'s \<Rightarrow> 'e \<Rightarrow> bool" and out :: "'s \<Rightarrow> 'e \<Rightarrow> 'o list"
    and inv :: "'s \<Rightarrow> bool" and spent :: "'s \<Rightarrow> 'o set"
  assumes once_inv: "inv s \<Longrightarrow> ok s e \<Longrightarrow> inv (stp s e)"
    and once_distinct: "inv s \<Longrightarrow> ok s e \<Longrightarrow> distinct (out s e)"
    and once_fresh: "inv s \<Longrightarrow> ok s e \<Longrightarrow> set (out s e) \<inter> spent s = {}"
    and once_spent: "inv s \<Longrightarrow> ok s e \<Longrightarrow> spent s \<union> set (out s e) \<subseteq> spent (stp s e)"
begin

lemma outputs_fresh:
  "inv s \<Longrightarrow> run_guarded ok stp s es \<Longrightarrow> set (run_outputs stp out s es) \<inter> spent s = {}"
proof (induction es arbitrary: s)
  case Nil
  then show ?case by simp
next
  case (Cons e es)
  then have "set (run_outputs stp out (stp s e) es) \<inter> spent (stp s e) = {}"
    by (auto intro: once_inv)
  with Cons.prems once_fresh [of s e] once_spent [of s e] show ?case by auto
qed

lemma outputs_distinct:
  "inv s \<Longrightarrow> run_guarded ok stp s es \<Longrightarrow> distinct (run_outputs stp out s es)"
proof (induction es arbitrary: s)
  case Nil
  then show ?case by simp
next
  case (Cons e es)
  then have ok: "inv s" "ok s e" "run_guarded ok stp (stp s e) es" by auto
  have "set (run_outputs stp out (stp s e) es) \<inter> spent (stp s e) = {}"
    using ok by (intro outputs_fresh once_inv)
  moreover have "distinct (run_outputs stp out (stp s e) es)"
    using ok by (intro Cons.IH once_inv)
  ultimately show ?case
    using ok once_distinct [of s e] once_spent [of s e] by auto
qed

end

end
