(* ===== verification/Kernel_Invariants.thy ===== *)
theory Kernel_Invariants
  imports Kernel_Core Kala_Machines
begin

text \<open>
  Invariants of the kernel. First the facts about \<open>onLlmResponse\<close> that the proofs share: its
  branches, the identifiers it admits and the pending calls it creates. Then the invariants that hold
  along every run whatever the events are: the status and the pending calls agree, pending calls
  have distinct identifiers and are backed by an assistant message, and an installed system prompt
  stays the first message.
\<close>

section \<open>The reducer as a machine\<close>

abbreviation kstep :: "AgentConfig \<Rightarrow> AgentState \<Rightarrow> AgentEvent \<Rightarrow> AgentState" where
  "kstep c \<equiv> (\<lambda>s e. sr_next (step s e c))"

lemma fold_events_run: "fold_events s es c = run_events (kstep c) s es"
  by (induction es arbitrary: s) simp_all

text \<open>The rule by which a predicate is shown to survive a step: the handlers keep it.\<close>

lemma step_inv_rule:
  assumes "P (advance s)" and "\<And>r. handle (advance s) e c = Some r \<Longrightarrow> P (hr_next r)"
  shows "P (sr_next (step s e c))"
proof (cases "handle (advance s) e c")
  case None
  then show ?thesis using assms(1) by (simp add: step_ignored)
next
  case (Some r)
  then show ?thesis using assms by (simp add: step_handled)
qed

section \<open>Responses with tool calls\<close>

abbreviation response_calls :: "Message \<Rightarrow> ToolCallContent list" where
  "response_calls m \<equiv> extractToolCalls (msg_content (sanitizeMessage m))"

definition response_kept :: "AgentState \<Rightarrow> AgentConfig \<Rightarrow> Message \<Rightarrow> ToolCallContent list" where
  "response_kept s c m = filter (\<lambda>x. decide_call s c x \<noteq> RejectCall) (response_calls m)"

definition response_denied :: "AgentState \<Rightarrow> AgentConfig \<Rightarrow> Message \<Rightarrow> ToolCallContent list" where
  "response_denied s c m = filter (\<lambda>x. decide_call s c x = RejectCall) (response_calls m)"

definition response_pending :: "AgentState \<Rightarrow> AgentConfig \<Rightarrow> Message \<Rightarrow> PendingToolCall list" where
  "response_pending s c m = map (\<lambda>x. pending_call (x, decide_call s c x)) (response_kept s c m)"

definition response_messages :: "AgentState \<Rightarrow> AgentConfig \<Rightarrow> Message \<Rightarrow> Message list" where
  "response_messages s c m =
     messages s @ [sanitizeMessage m] @
     (if response_denied s c m = [] then []
      else [\<lparr>msg_role = Tool, msg_content = map rejected_content (response_denied s c m), msg_metadata = None\<rparr>])"

definition response_usage :: "AgentState \<Rightarrow> UsageDelta option \<Rightarrow> UsageTotal" where
  "response_usage s d = (case d of Some x \<Rightarrow> addUsage (usage s) x | None \<Rightarrow> usage s)"

definition admissible_response :: "AgentState \<Rightarrow> Message \<Rightarrow> bool" where
  "admissible_response s m \<longleftrightarrow>
     msg_role m = Assistant \<and> distinct (call_ids (msg_content m)) \<and>
     set (call_ids (msg_content m)) \<inter> set (transcript_call_ids (messages s)) = {}"

lemma sanitizeContent_ids [simp]:
  "call_ids (map sanitizeContent cs) = call_ids cs" "result_ids (map sanitizeContent cs) = result_ids cs"
  by (induction cs rule: call_ids.induct) (simp_all add: Let_def)

lemma sanitizeMessage_fields [simp]:
  "msg_role (sanitizeMessage m) = msg_role m"
  "call_ids (msg_content (sanitizeMessage m)) = call_ids (msg_content m)"
  "result_ids (msg_content (sanitizeMessage m)) = result_ids (msg_content m)"
  by (simp_all add: sanitizeMessage_def)

lemma reusesCallId_iff:
  "reusesCallId prior resp calls \<longleftrightarrow>
     \<not> (distinct (map tc_callId calls) \<and> set (map tc_callId calls) \<inter> (prior \<union> resp) = {})"
  by (induction calls arbitrary: resp) auto

lemma response_calls_ids: "map tc_callId (response_calls m) = call_ids (msg_content m)"
  by (simp add: extractToolCalls_call_ids)

lemma response_calls_Nil: "response_calls m = [] \<longleftrightarrow> call_ids (msg_content m) = []"
  using response_calls_ids [of m] by (metis map_is_Nil_conv)

text \<open>The handler, by its branches.\<close>

lemma onLlmResponse_eq:
  "onLlmResponse s m d c =
     (if msg_role m \<noteq> Assistant \<or> (response_calls m \<noteq> [] \<and> \<not> admissible_response s m) then rejectInvalidEvent s
      else if response_calls m = [] then
        accept (transitionAgentState s PhaseDone
          (no_patch\<lparr>pt_messages := Some (messages s @ [sanitizeMessage m]), pt_usage := Some (response_usage s d)\<rparr>)) [Finish]
      else
        (let patch = no_patch\<lparr>pt_messages := Some (response_messages s c m), pt_usage := Some (response_usage s d)\<rparr>;
             ps = response_pending s c m
         in if ps = [] then accept (transitionAgentState s PhaseThinking patch) [CallLlm (response_messages s c m) (tools c)]
            else accept (transitionAgentState s
                   (pending_phase (list_ex (\<lambda>p. p_status p = PAwaitingApproval) ps) (map mark_dispatched ps)) patch)
                   (map (pending_effect (cwd s)) ps)))"
proof -
  have kept: "map pending_call (filter (\<lambda>d. snd d \<noteq> RejectCall) (map (\<lambda>x. (x, decide_call s c x)) (response_calls m)))
      = response_pending s c m"
    by (simp add: response_pending_def response_kept_def filter_map o_def)
  have denied: "map (rejected_content \<circ> fst) (filter (\<lambda>d. snd d = RejectCall) (map (\<lambda>x. (x, decide_call s c x)) (response_calls m)))
      = map rejected_content (response_denied s c m)"
    by (simp add: response_denied_def filter_map o_def)
  have reuse: "reusesCallId (set (transcript_call_ids (messages s))) {} (response_calls m)
      \<longleftrightarrow> \<not> admissible_response s m" if "msg_role m = Assistant"
    using that unfolding reusesCallId_iff response_calls_ids by (simp add: admissible_response_def)
  show ?thesis
    unfolding onLlmResponse_def Let_def kept denied
    by (simp add: reuse response_messages_def response_usage_def)
qed

lemma onLlmResponse_cases:
  obtains
    (refused) "onLlmResponse s m d c = rejectInvalidEvent s"
  | (plain) "call_ids (msg_content m) = []"
      "onLlmResponse s m d c =
         accept (transitionAgentState s PhaseDone
           (no_patch\<lparr>pt_messages := Some (messages s @ [sanitizeMessage m]), pt_usage := Some (response_usage s d)\<rparr>)) [Finish]"
  | (denied) "admissible_response s m" "call_ids (msg_content m) \<noteq> []" "response_pending s c m = []"
      "onLlmResponse s m d c =
         accept (transitionAgentState s PhaseThinking
           (no_patch\<lparr>pt_messages := Some (response_messages s c m), pt_usage := Some (response_usage s d)\<rparr>))
           [CallLlm (response_messages s c m) (tools c)]"
  | (staged) "admissible_response s m" "response_pending s c m \<noteq> []"
      "onLlmResponse s m d c =
         accept (transitionAgentState s
           (pending_phase (list_ex (\<lambda>p. p_status p = PAwaitingApproval) (response_pending s c m))
             (map mark_dispatched (response_pending s c m)))
           (no_patch\<lparr>pt_messages := Some (response_messages s c m), pt_usage := Some (response_usage s d)\<rparr>))
           (map (pending_effect (cwd s)) (response_pending s c m))"
proof -
  consider (a) "msg_role m \<noteq> Assistant \<or> (response_calls m \<noteq> [] \<and> \<not> admissible_response s m)"
    | (b) "msg_role m = Assistant" "response_calls m = []"
    | (c) "admissible_response s m" "response_calls m \<noteq> []" "response_pending s c m = []"
    | (d) "admissible_response s m" "response_calls m \<noteq> []" "response_pending s c m \<noteq> []"
    by blast
  then show ?thesis
  proof cases
    case a
    then show ?thesis by (intro refused) (auto simp: onLlmResponse_eq)
  next
    case b
    then show ?thesis using response_calls_Nil [of m] by (intro plain) (simp_all add: onLlmResponse_eq)
  next
    case c
    then have "msg_role m = Assistant" by (simp add: admissible_response_def)
    with c show ?thesis using response_calls_Nil [of m] by (intro denied) (simp_all add: onLlmResponse_eq Let_def)
  next
    case d
    then have "msg_role m = Assistant" by (simp add: admissible_response_def)
    with d show ?thesis by (intro staged) (simp_all add: onLlmResponse_eq Let_def)
  qed
qed

lemma p_callId_pending_call [simp]: "p_callId (pending_call d) = tc_callId (fst d)"
  by (simp add: pending_call_def)

lemma mark_dispatched_fields [simp]:
  "p_callId (mark_dispatched p) = p_callId p"
  "p_status (mark_dispatched p) = PAwaitingApproval \<longleftrightarrow> p_status p = PAwaitingApproval"
  "p_status (mark_dispatched p) = PDispatched \<longleftrightarrow> p_status p = PApproved \<or> p_status p = PDispatched"
  by (simp_all add: mark_dispatched_def)

lemma response_pending_ids: "map p_callId (response_pending s c m) = map tc_callId (response_kept s c m)"
  by (simp add: response_pending_def)

lemma response_pending_status:
  "p \<in> set (response_pending s c m) \<Longrightarrow> p_status p = PApproved \<or> p_status p = PAwaitingApproval"
  by (auto simp: response_pending_def pending_call_def split: if_splits)

lemma response_pending_subset: "set (map p_callId (response_pending s c m)) \<subseteq> set (call_ids (msg_content m))"
  unfolding response_pending_ids response_calls_ids [symmetric] by (auto simp: response_kept_def)

lemma response_pending_distinct:
  "distinct (call_ids (msg_content m)) \<Longrightarrow> distinct (map p_callId (response_pending s c m))"
  unfolding response_pending_ids response_calls_ids [symmetric] response_kept_def
  by (rule distinct_map_filterI)

section \<open>Transcript rewrites\<close>

definition replaced_messages :: "AgentState \<Rightarrow> MessagesReplacedEvent \<Rightarrow> nat \<Rightarrow> nat \<Rightarrow> Message list" where
  "replaced_messages s ev a b =
     (let ms = take a (messages s) @ mr_replacementMessages ev @ drop b (messages s)
      in case systemPromptOverride s of Some ov \<Rightarrow> messagesWithSystemPrompt ms (spo_prompt ov) | None \<Rightarrow> ms)"

abbreviation resumes :: "AgentState \<Rightarrow> MessagesReplacedEvent \<Rightarrow> bool" where
  "resumes s ev \<equiv> mr_resume ev = Some True \<and> (status s = idle \<or> status s = done_status \<or> status s = error_status)"

text \<open>The handler, by its branches: the request is refused, or the range is replaced.\<close>

lemma onMessagesReplaced_cases:
  obtains
    (refused) "onMessagesReplaced s ev c = rejectInvalidEvent s"
  | (replaced) a b where
      "mr_start ev = Integer (int a)" "mr_end ev = Integer (int b)" "a \<le> b" "b \<le> length (messages s)"
      "pendingCalls s = [] \<or> preservesPendingToolCallGroup s b"
      "onMessagesReplaced s ev c =
         (if resumes s ev
          then accept (transitionAgentState s PhaseThinking (no_patch\<lparr>pt_messages := Some (replaced_messages s ev a b)\<rparr>))
                 [CallLlm (replaced_messages s ev a b) (tools c)]
          else accept (s\<lparr>messages := replaced_messages s ev a b\<rparr>) [])"
proof (cases "mr_start ev")
  case (NonInteger t)
  then show ?thesis by (intro refused) (simp add: onMessagesReplaced_def)
next
  case (Integer i)
  note i = this
  show ?thesis
  proof (cases "mr_end ev")
    case (NonInteger t)
    then show ?thesis by (intro refused) (simp add: onMessagesReplaced_def i)
  next
    case (Integer j)
    show ?thesis
    proof (cases "i < 0 \<or> j < i \<or> int (length (messages s)) < j
        \<or> (pendingCalls s \<noteq> [] \<and> \<not> preservesPendingToolCallGroup s (nat j))")
      case True
      then show ?thesis by (intro refused) (auto simp: onMessagesReplaced_def i Integer)
    next
      case False
      then show ?thesis
        by (intro replaced [of "nat i" "nat j"])
           (auto simp: onMessagesReplaced_def i Integer replaced_messages_def Let_def)
    qed
  qed
qed

section \<open>Decisions and results for one pending call\<close>

definition approve_call :: "string \<Rightarrow> PendingToolCall list \<Rightarrow> PendingToolCall list" where
  "approve_call cid ps = map (\<lambda>p. if p_callId p = cid then p\<lparr>p_status := PDispatched\<rparr> else p) ps"

definition settle_call :: "string \<Rightarrow> PendingToolCall list \<Rightarrow> PendingToolCall list" where
  "settle_call cid ps = filter (\<lambda>p. p_callId p \<noteq> cid) ps"

lemma onUserApprove_cases:
  obtains
    (refused) "onUserApprove s cid = rejectInvalidEvent s"
  | (approved) target where "target \<in> set (pendingCalls s)" "p_callId target = cid" "p_status target = PAwaitingApproval"
      "onUserApprove s cid =
         accept (transitionAgentState s
           (pending_phase (list_ex (\<lambda>p. p_status p = PAwaitingApproval) (approve_call cid (pendingCalls s)))
             (approve_call cid (pendingCalls s))) no_patch) [call_tool_effect (cwd s) target]"
proof (cases "find (\<lambda>p. p_callId p = cid) (pendingCalls s)")
  case None
  then show ?thesis by (intro refused) (simp add: onUserApprove_def)
next
  case (Some target)
  then have "target \<in> set (pendingCalls s)" "p_callId target = cid"
    using find_Some_iff_first [OF Some] by auto
  with Some show ?thesis
    by (cases "p_status target = PAwaitingApproval")
       (auto simp: onUserApprove_def Let_def approve_call_def call_tool_effect_def intro: refused approved)
qed

lemma onUserReject_cases:
  obtains
    (refused) "onUserReject s cid reason c = rejectInvalidEvent s"
  | (settled) target where "target \<in> set (pendingCalls s)" "p_callId target = cid" "p_status target = PAwaitingApproval"
      "onUserReject s cid reason c =
         afterPendingSettled s
           (messages s @ [tool_result_message cid False (coalesce reason ''User rejected this tool call.'') None])
           (settle_call cid (pendingCalls s)) c"
proof (cases "find (\<lambda>p. p_callId p = cid) (pendingCalls s)")
  case None
  then show ?thesis by (intro refused) (simp add: onUserReject_def)
next
  case (Some target)
  then have "target \<in> set (pendingCalls s)" "p_callId target = cid"
    using find_Some_iff_first [OF Some] by auto
  with Some show ?thesis
    by (cases "p_status target = PAwaitingApproval")
       (auto simp: onUserReject_def Let_def settle_call_def intro: refused settled)
qed

lemma onToolResult_cases:
  obtains
    (refused) "onToolResult s cid ok text c fl = rejectInvalidEvent s"
  | (settled) target where "target \<in> set (pendingCalls s)" "p_callId target = cid" "p_status target = PDispatched"
      "onToolResult s cid ok text c fl =
         afterPendingSettled s (messages s @ [tool_result_message cid ok text fl]) (settle_call cid (pendingCalls s)) c"
proof (cases "find (\<lambda>p. p_callId p = cid) (pendingCalls s)")
  case None
  then show ?thesis by (intro refused) (simp add: onToolResult_def)
next
  case (Some target)
  then have "target \<in> set (pendingCalls s)" "p_callId target = cid"
    using find_Some_iff_first [OF Some] by auto
  with Some show ?thesis
    by (cases "p_status target = PDispatched")
       (auto simp: onToolResult_def Let_def settle_call_def intro: refused settled)
qed

lemma approve_call_ids [simp]: "map p_callId (approve_call cid ps) = map p_callId ps"
  by (simp add: approve_call_def)

lemma p_callId_approve_call [simp]: "p_callId ` set (approve_call cid ps) = p_callId ` set ps"
  by (metis approve_call_ids set_map)

lemma settle_call_ids: "map p_callId (settle_call cid ps) = filter (\<lambda>x. x \<noteq> cid) (map p_callId ps)"
  by (simp add: settle_call_def filter_map o_def)

lemma set_settle_call [simp]: "p \<in> set (settle_call cid ps) \<longleftrightarrow> p \<in> set ps \<and> p_callId p \<noteq> cid"
  by (auto simp: settle_call_def)

lemma set_approve_call:
  "p \<in> set (approve_call cid ps) \<longleftrightarrow>
     (\<exists>q \<in> set ps. p_callId q = cid \<and> p = q\<lparr>p_status := PDispatched\<rparr>) \<or> p \<in> set ps \<and> p_callId p \<noteq> cid"
  by (auto simp: approve_call_def)

lemma approve_call_Nil [simp]: "approve_call cid ps = [] \<longleftrightarrow> ps = []"
  by (simp add: approve_call_def)

lemma approve_call_memI:
  "p \<in> set ps \<Longrightarrow> p_callId p = cid \<Longrightarrow> p\<lparr>p_status := PDispatched\<rparr> \<in> set (approve_call cid ps)"
  by (auto simp: set_approve_call)

lemma approve_call_memD:
  "p \<in> set (approve_call cid ps) \<Longrightarrow> p_status p = PDispatched \<or> p \<in> set ps \<and> p_callId p \<noteq> cid"
  by (auto simp: set_approve_call)

section \<open>The pending calls\<close>

definition pending_ok :: "AgentState \<Rightarrow> bool" where
  "pending_ok s \<longleftrightarrow>
     distinct (map p_callId (pendingCalls s)) \<and>
     (\<forall>p \<in> set (pendingCalls s). p_status p = PAwaitingApproval \<or> p_status p = PDispatched)"

lemma pending_ok_advance [simp]: "pending_ok (advance s) = pending_ok s"
  by (simp add: pending_ok_def)

lemma afterPendingSettled_fields [simp]:
  "pendingCalls (hr_next (afterPendingSettled s ms ps c)) = ps"
  "messages (hr_next (afterPendingSettled s ms ps c)) = ms"
  "error (hr_next (afterPendingSettled s ms ps c)) = None"
  "systemPromptOverride (hr_next (afterPendingSettled s ms ps c)) = systemPromptOverride s"
  "approvalMode (hr_next (afterPendingSettled s ms ps c)) = approvalMode s"
  "cwd (hr_next (afterPendingSettled s ms ps c)) = cwd s"
  "hr_rejectionReason (afterPendingSettled s ms ps c) = None"
  "status (hr_next (afterPendingSettled s ms ps c)) =
     (if ps = [] then thinking else if list_ex (\<lambda>p. p_status p = PAwaitingApproval) ps then awaiting_approval else executing_tools)"
  "hr_effects (afterPendingSettled s ms ps c) = (if ps = [] then [CallLlm ms (tools c)] else [])"
  by (simp_all add: afterPendingSettled_def Let_def)

lemma handle_pending_ok:
  assumes "handle s e c = Some r" and "pending_ok s"
  shows "pending_ok (hr_next r)"
  using assms(1)
proof (cases rule: handle_cases)
  case (lr ev)
  have *: "distinct (map p_callId (map mark_dispatched (response_pending s c m)))" if "admissible_response s m" for m
    using response_pending_distinct [of m s c] that by (simp add: o_def admissible_response_def)
  show ?thesis
    using assms(2)
  proof (cases rule: onLlmResponse_cases [of s "lr_message ev" "lr_usage ev" c])
    case staged
    with * [of "lr_message ev"] show ?thesis
      by (auto simp: lr(3) pending_ok_def dest: response_pending_status)
  qed (simp_all add: lr(3) pending_ok_def)
next
  case (mr ev)
  then show ?thesis
    using assms(2) by (cases rule: onMessagesReplaced_cases [of s ev c]) (auto simp: pending_ok_def)
next
  case (ua cid)
  then show ?thesis
    using assms(2) by (cases rule: onUserApprove_cases [of s cid]) (auto simp: pending_ok_def dest!: approve_call_memD)
next
  case (ur cid reason)
  then show ?thesis
    using assms(2) by (cases rule: onUserReject_cases [of s cid reason c]) (auto simp: pending_ok_def settle_call_ids)
next
  case (tr ev)
  then show ?thesis
    using assms(2)
    by (cases rule: onToolResult_cases [of s "te_callId ev" "te_ok ev" "te_content ev" c "te_failure ev"])
       (auto simp: pending_ok_def settle_call_ids)
qed (use assms(2) in \<open>auto simp: handler_defs pending_ok_def Let_def\<close>)

lemma step_pending_ok: "pending_ok s \<Longrightarrow> pending_ok (sr_next (step s e c))"
  by (rule step_inv_rule) (auto intro: handle_pending_ok)

interpretation pend: machine "kstep c" pending_ok for c
  by unfold_locales (rule step_pending_ok)

section \<open>Pending calls are backed by the transcript\<close>

text \<open>The identifiers of the tool calls in assistant messages.\<close>

definition assistant_call_ids :: "Message list \<Rightarrow> string set" where
  "assistant_call_ids ms = (\<Union>m \<in> {m \<in> set ms. msg_role m = Assistant}. set (call_ids (msg_content m)))"

definition pending_backed :: "AgentState \<Rightarrow> bool" where
  "pending_backed s \<longleftrightarrow> set (map p_callId (pendingCalls s)) \<subseteq> assistant_call_ids (messages s)"

lemma assistant_call_ids_simps [simp]:
  "assistant_call_ids [] = {}"
  "assistant_call_ids (m # ms) =
     (if msg_role m = Assistant then set (call_ids (msg_content m)) else {}) \<union> assistant_call_ids ms"
  "assistant_call_ids (ms @ ns) = assistant_call_ids ms \<union> assistant_call_ids ns"
  by (auto simp: assistant_call_ids_def)

lemma assistant_call_ids_map_tool: "(\<And>x. x \<in> set xs \<Longrightarrow> msg_role (f x) \<noteq> Assistant) \<Longrightarrow> assistant_call_ids (map f xs) = {}"
  by (induction xs) auto

lemma tool_result_message_role [simp]: "msg_role (tool_result_message cid ok t fl) = Tool"
  by (simp add: tool_result_message_def)

lemma tool_result_message_ids [simp]:
  "call_ids (msg_content (tool_result_message cid ok t fl)) = []"
  "result_ids (msg_content (tool_result_message cid ok t fl)) = [cid]"
  by (simp_all add: tool_result_message_def)

lemma cancelled_result_simps [simp]:
  "msg_role (cancelled_result cid) = Tool"
  "call_ids (msg_content (cancelled_result cid)) = []"
  "result_ids (msg_content (cancelled_result cid)) = [cid]"
  by (simp_all add: cancelled_result_def)

lemma assistant_call_ids_prompt [simp]:
  "assistant_call_ids (messagesWithSystemPrompt ms p) = assistant_call_ids ms"
  by (cases ms) (auto simp: messagesWithSystemPrompt_def Let_def)

text \<open>The scan of \<open>messages_replaced\<close> accepts exactly when the kept suffix holds every pending call.\<close>

lemma preserves_scan_iff: "pending \<noteq> {} \<Longrightarrow> preserves_scan pending ms \<longleftrightarrow> pending \<subseteq> assistant_call_ids ms"
proof (induction ms arbitrary: pending)
  case Nil
  then show ?case by simp
next
  case (Cons m ms)
  show ?case
  proof (cases "pending - set (call_ids (msg_content m)) = {}")
    case True
    then show ?thesis using Cons by (auto simp: Let_def)
  next
    case False
    then have "preserves_scan (pending - set (call_ids (msg_content m))) ms
        \<longleftrightarrow> pending - set (call_ids (msg_content m)) \<subseteq> assistant_call_ids ms"
      by (rule Cons.IH)
    with False Cons show ?thesis by (auto simp: Let_def)
  qed
qed

lemma preservesPending_iff:
  "preservesPendingToolCallGroup s n \<longleftrightarrow>
     set (map p_callId (pendingCalls s)) \<subseteq> assistant_call_ids (drop n (messages s))"
proof (cases "pendingCalls s = []")
  case True
  then show ?thesis by (simp add: preservesPendingToolCallGroup_def)
next
  case False
  then show ?thesis
    using preserves_scan_iff [of "set (map p_callId (pendingCalls s))"]
    by (simp add: preservesPendingToolCallGroup_def Let_def del: preserves_scan.simps)
qed

lemma assistant_call_ids_replaced [simp]:
  "assistant_call_ids (replaced_messages s ev a b) =
     assistant_call_ids (take a (messages s)) \<union> assistant_call_ids (mr_replacementMessages ev)
     \<union> assistant_call_ids (drop b (messages s))"
  by (auto simp: replaced_messages_def Let_def split: option.split)

lemma pending_backed_advance [simp]: "pending_backed (advance s) = pending_backed s"
  by (simp add: pending_backed_def)

lemma handle_pending_backed:
  assumes "handle s e c = Some r" and "pending_backed s"
  shows "pending_backed (hr_next r)"
  using assms(1)
proof (cases rule: handle_cases)
  case (lr ev)
  have *: "set (map p_callId (response_pending s c m)) \<subseteq> assistant_call_ids (response_messages s c m)"
    if "admissible_response s m" for m
    using response_pending_subset [of s c m] that by (auto simp: response_messages_def admissible_response_def)
  show ?thesis
    using assms(2)
  proof (cases rule: onLlmResponse_cases [of s "lr_message ev" "lr_usage ev" c])
    case staged
    with * [of "lr_message ev"] show ?thesis
      by (simp add: lr(3) pending_backed_def image_image)
  qed (simp_all add: lr(3) pending_backed_def)
next
  case (mr ev)
  then show ?thesis
    using assms(2) by (cases rule: onMessagesReplaced_cases [of s ev c])
      (auto simp: pending_backed_def preservesPending_iff)
next
  case (ua cid)
  then show ?thesis
    using assms(2) by (cases rule: onUserApprove_cases [of s cid]) (auto simp: pending_backed_def set_approve_call)
next
  case (ur cid reason)
  then show ?thesis
    using assms(2) by (cases rule: onUserReject_cases [of s cid reason c]) (auto simp: pending_backed_def)
next
  case (tr ev)
  then show ?thesis
    using assms(2)
    by (cases rule: onToolResult_cases [of s "te_callId ev" "te_ok ev" "te_content ev" c "te_failure ev"])
       (auto simp: pending_backed_def)
qed (use assms(2) in \<open>auto simp: handler_defs pending_backed_def Let_def\<close>)

lemma step_pending_backed: "pending_backed s \<Longrightarrow> pending_backed (sr_next (step s e c))"
  by (rule step_inv_rule) (auto intro: handle_pending_backed)

interpretation backed: machine "kstep c" pending_backed for c
  by unfold_locales (rule step_pending_backed)

section \<open>The installed system prompt stays in place\<close>

definition prompt_installed :: "AgentState \<Rightarrow> bool" where
  "prompt_installed s \<longleftrightarrow>
     (case systemPromptOverride s of
        None \<Rightarrow> True
      | Some ov \<Rightarrow> spo_prompt ov = [] \<or> (\<exists>rest. messages s = text_message System (spo_prompt ov) # rest))"

lemma prompt_installed_advance [simp]: "prompt_installed (advance s) = prompt_installed s"
  by (simp add: prompt_installed_def split: option.split)

lemma messagesWithSystemPrompt_head:
  "p = [] \<or> (\<exists>rest. messagesWithSystemPrompt ms p = text_message System p # rest)"
  by (simp add: messagesWithSystemPrompt_def Let_def)

text \<open>Handlers other than those that rewrite the transcript only append to it.\<close>

lemma prompt_installed_extends:
  "prompt_installed s \<Longrightarrow> messages t = messages s @ xs \<Longrightarrow> systemPromptOverride t = systemPromptOverride s
   \<Longrightarrow> prompt_installed t"
  by (auto simp: prompt_installed_def split: option.splits)

lemma repair_extends: "\<exists>xs. appendCancelledResultsForOrphanedToolCalls ms = ms @ xs"
  by (simp add: appendCancelledResultsForOrphanedToolCalls_def Let_def)

lemma handle_prompt_installed:
  assumes "handle s e c = Some r" and "prompt_installed s"
  shows "prompt_installed (hr_next r)"
  using assms(1)
proof (cases rule: handle_cases)
  case (um ev)
  obtain xs where "appendCancelledResultsForOrphanedToolCalls (messages s) = messages s @ xs"
    using repair_extends by blast
  with um show ?thesis
    by (intro prompt_installed_extends [OF assms(2)]) (auto simp: onUserMessage_def Let_def)
next
  case (lr ev)
  show ?thesis
    unfolding lr(3) using assms(2)
    by (cases rule: onLlmResponse_cases [of s "lr_message ev" "lr_usage ev" c])
       (auto simp: response_messages_def intro!: prompt_installed_extends [OF assms(2)])
next
  case (ua cid)
  then show ?thesis
    using assms(2) by (cases rule: onUserApprove_cases [of s cid])
      (auto intro!: prompt_installed_extends [OF assms(2), where xs = "[]"])
next
  case (ur cid reason)
  then show ?thesis
    using assms(2) by (cases rule: onUserReject_cases [of s cid reason c])
      (auto intro!: prompt_installed_extends [OF assms(2)])
next
  case (tr ev)
  then show ?thesis
    using assms(2)
    by (cases rule: onToolResult_cases [of s "te_callId ev" "te_ok ev" "te_content ev" c "te_failure ev"])
       (auto intro!: prompt_installed_extends [OF assms(2)])
next
  case cl
  then show ?thesis
    using messagesWithSystemPrompt_head
    by (simp add: onClear_def prompt_installed_def Let_def split: option.split)
next
  case (mr ev)
  then show ?thesis
    using assms(2) messagesWithSystemPrompt_head
    by (cases rule: onMessagesReplaced_cases [of s ev c])
       (simp_all add: prompt_installed_def replaced_messages_def Let_def split: option.splits)
next
  case (sp p v)
  then show ?thesis
    using messagesWithSystemPrompt_head by (simp add: onSystemPromptChanged_def prompt_installed_def)
qed (use assms(2) in \<open>auto simp: handler_defs prompt_installed_def Let_def split: option.split\<close>)

lemma step_prompt_installed: "prompt_installed s \<Longrightarrow> prompt_installed (sr_next (step s e c))"
  by (rule step_inv_rule) (auto intro: handle_prompt_installed)

interpretation prompt: machine "kstep c" prompt_installed for c
  by unfold_locales (rule step_prompt_installed)

end
