(* ===== verification/Kernel_Safety.thy ===== *)
theory Kernel_Safety
  imports Kernel_Invariants
begin

text \<open>
  Safety of the reducer: which steps leave the state alone, that the status and the pending calls
  always agree and which single event can try to break that, that a tool runs only after the approval
  its mode asks for, in the order of the response, and at most once per session transcript.
\<close>

section \<open>Valid states\<close>

abbreviation valid :: "AgentState \<Rightarrow> bool" where
  "valid s \<equiv> stateInvariantViolation s = None"

lemma valid_iff:
  "valid s \<longleftrightarrow>
     (case status s of
        awaiting_approval \<Rightarrow> \<exists>p \<in> set (pendingCalls s). p_status p = PAwaitingApproval
      | executing_tools \<Rightarrow> pendingCalls s \<noteq> [] \<and> (\<forall>p \<in> set (pendingCalls s). p_status p = PDispatched)
      | _ \<Rightarrow> pendingCalls s = []) \<and>
     (if status s = error_status then (\<exists>e. error s = Some e \<and> trim e \<noteq> []) else error s = None)"
  by (cases "status s")
     (auto simp: stateInvariantViolation_def pendingViolation_def list_ex_iff split: option.split)

lemma valid_initial: "valid (createInitialState sid prompt)"
  by (simp add: valid_iff createInitialState_def)

lemma pending_ok_initial: "pending_ok (createInitialState sid prompt)"
  by (simp add: pending_ok_def createInitialState_def)

lemma valid_step: "valid s \<Longrightarrow> valid (sr_next (step s e c))"
proof (cases "handle (advance s) e c")
  case None
  then show "valid s \<Longrightarrow> ?thesis" by (simp add: step_ignored)
next
  case (Some r)
  then show "valid s \<Longrightarrow> ?thesis"
    using handler_well_behaved [OF Some]
    by (auto simp: step_handled well_behaved_def split: option.splits)
qed

interpretation vld: machine "kstep c" valid for c
  by unfold_locales (rule valid_step)

lemma valid_afterPendingSettled:
  assumes "\<forall>p \<in> set ps. p_status p = PAwaitingApproval \<or> p_status p = PDispatched"
  shows "valid (hr_next (afterPendingSettled s ms ps c))"
  using assms by (auto simp: valid_iff list_ex_iff)

lemma valid_pending_phase:
  assumes "ps \<noteq> []" and "\<forall>p \<in> set ps. p_status p = PAwaitingApproval \<or> p_status p = PDispatched"
  shows "valid (transitionAgentState s (pending_phase (list_ex (\<lambda>p. p_status p = PAwaitingApproval) ps) ps) pt)"
  using assms by (auto simp: valid_iff list_ex_iff)

text \<open>A handler that accepts leads to a valid state again, but for one that reports a blank error.\<close>

lemma handle_valid_iff:
  assumes "handle s e c = Some r" and "valid s" and "pending_ok s"
  shows "valid (hr_next r) \<longleftrightarrow> \<not> (\<exists>err. e = ELlmError err \<and> trim err = [])"
  using assms(1)
proof (cases rule: handle_cases)
  case (lr ev)
  show ?thesis
    using assms(2)
  proof (cases rule: onLlmResponse_cases [of s "lr_message ev" "lr_usage ev" c])
    case staged
    then show ?thesis by (auto simp: lr valid_iff list_ex_iff dest: response_pending_status)
  qed (simp_all add: lr valid_iff)
next
  case (ua cid)
  then show ?thesis
    using assms(2,3) by (cases rule: onUserApprove_cases [of s cid])
      (auto simp: pending_ok_def intro!: valid_pending_phase dest!: approve_call_memD)
next
  case (ur cid reason)
  then show ?thesis
    using assms(2,3) by (cases rule: onUserReject_cases [of s cid reason c])
      (auto simp: pending_ok_def intro!: valid_afterPendingSettled)
next
  case (tr ev)
  then show ?thesis
    using assms(2,3)
    by (cases rule: onToolResult_cases [of s "te_callId ev" "te_ok ev" "te_content ev" c "te_failure ev"])
       (auto simp: pending_ok_def intro!: valid_afterPendingSettled)
next
  case (mr ev)
  then show ?thesis
    using assms(2) by (cases rule: onMessagesReplaced_cases [of s ev c]) (auto simp: valid_iff split: AgentStatus.splits)
qed (use assms(2) in \<open>auto simp: handler_defs valid_iff Let_def split: AgentStatus.splits\<close>)

section \<open>What a step can emit\<close>

lemma step_effects_cases:
  assumes "x \<in> set (sr_effects (step s e c))"
  obtains r where "handle (advance s) e c = Some r" "x \<in> set (hr_effects r)" "hr_rejectionReason r = None"
    "sr_next (step s e c) = hr_next r" "sr_effects (step s e c) = hr_effects r"
proof (cases "handle (advance s) e c")
  case None
  with assms show ?thesis by (simp add: step_ignored)
next
  case (Some r)
  then show ?thesis
    using assms handler_well_behaved [OF Some] that
    by (auto simp: step_handled well_behaved_def split: if_splits option.splits)
qed

lemma decide_Dispatch_iff:
  "decide mode needs = Dispatch \<longleftrightarrow> mode = AllowAll \<or> (mode \<noteq> Ask \<and> \<not> needs)"
  by (cases mode) (auto simp: decide_def)

lemma pending_effect_CallTool:
  "pending_effect dir p = CallTool ct \<longleftrightarrow> p_status p \<noteq> PAwaitingApproval \<and> call_tool_effect dir p = CallTool ct"
  by (auto simp: pending_effect_def)

lemma response_pending_memD:
  assumes "p \<in> set (response_pending s c m)"
  obtains call where "call \<in> set (response_calls m)" "p = pending_call (call, decide_call s c call)"
    "decide_call s c call \<noteq> RejectCall"
  using assms by (auto simp: response_pending_def response_kept_def)

text \<open>Where a tool invocation comes from, and that the next state records it as dispatched.\<close>

definition authorised :: "AgentState \<Rightarrow> AgentEvent \<Rightarrow> AgentConfig \<Rightarrow> CallToolEffect \<Rightarrow> bool" where
  "authorised s e c ct \<longleftrightarrow>
     (e = EUserApprove (ct_callId ct) \<and> status s = awaiting_approval \<and>
        (\<exists>p \<in> set (pendingCalls s). p_callId p = ct_callId ct \<and> p_status p = PAwaitingApproval \<and>
           p_name p = ct_name ct \<and> p_input p = ct_input ct)) \<or>
     (\<exists>ev. e = ELlmResponse ev \<and> status s = thinking \<and> admissible_response s (lr_message ev) \<and>
        (\<exists>call \<in> set (response_calls (lr_message ev)). tc_callId call = ct_callId ct \<and>
           tc_name call = ct_name ct \<and> tc_input call = ct_input ct \<and>
           decide (approvalMode s) (needsApproval c (ct_name ct)) = Dispatch))"

definition recorded :: "AgentState \<Rightarrow> CallToolEffect \<Rightarrow> bool" where
  "recorded s ct \<longleftrightarrow> (\<exists>p \<in> set (pendingCalls s). p_callId p = ct_callId ct \<and> p_status p = PDispatched)"

lemma handle_call_tool:
  assumes "handle s e c = Some r" and "CallTool ct \<in> set (hr_effects r)"
  shows "authorised s e c ct \<and> recorded (hr_next r) ct"
  using assms(1)
proof (cases rule: handle_cases)
  case (lr ev)
  let ?m = "lr_message ev"
  show ?thesis
  proof (cases rule: onLlmResponse_cases [of s ?m "lr_usage ev" c])
    case staged
    have "CallTool ct \<in> pending_effect (cwd s) ` set (response_pending s c ?m)"
      using assms(2) staged(3) lr(3) by simp
    then obtain p where p: "p \<in> set (response_pending s c ?m)" and eff: "pending_effect (cwd s) p = CallTool ct"
      by force
    have st: "p_status p \<noteq> PAwaitingApproval" "call_tool_effect (cwd s) p = CallTool ct"
      using eff unfolding pending_effect_CallTool by auto
    obtain call where call: "call \<in> set (response_calls ?m)" "p = pending_call (call, decide_call s c call)"
      using p by (rule response_pending_memD)
    have ct: "ct_callId ct = tc_callId call" "ct_name ct = tc_name call" "ct_input ct = tc_input call"
      using st(2) call(2) by (auto simp: call_tool_effect_def pending_call_def)
    have "decide_call s c call = Dispatch"
      using st(1) call(2) by (simp add: pending_call_def split: if_splits)
    then have "authorised s e c ct"
      using lr(1,2) staged(1) call(1) ct by (auto simp: authorised_def decide_call_def)
    moreover have "p_status p = PApproved"
      using response_pending_status [OF p] st(1) by blast
    then have "recorded (hr_next r) ct"
      using staged(3) lr(3) p call(2) ct(1) by (auto simp: recorded_def intro!: bexI [of _ p])
    ultimately show ?thesis ..
  qed (use assms(2) lr(3) in auto)
next
  case (ua cid)
  then show ?thesis
    using assms(2) by (cases rule: onUserApprove_cases [of s cid])
      (auto simp: authorised_def recorded_def call_tool_effect_def intro!: bexI [OF _ approve_call_memI])
next
  case (ur cid reason)
  then show ?thesis
    using assms(2) by (cases rule: onUserReject_cases [of s cid reason c]) (auto split: if_splits)
next
  case (tr ev)
  then show ?thesis
    using assms(2)
    by (cases rule: onToolResult_cases [of s "te_callId ev" "te_ok ev" "te_content ev" c "te_failure ev"])
       (auto split: if_splits)
next
  case (mr ev)
  then show ?thesis
    using assms(2) by (cases rule: onMessagesReplaced_cases [of s ev c]) (auto split: if_splits)
qed (use assms(2) in \<open>auto simp: handler_defs Let_def split: if_splits\<close>)

end
