(* ===== verification/Kernel_Once.thy ===== *)
theory Kernel_Once
  imports Kernel_Safety
begin

text \<open>
  A tool call is executed at most once. A call identifier is spent once the transcript mentions it,
  unless it still waits for the user; the reducer only dispatches identifiers that are not spent and
  spends them by doing so. The interface \<open>emit_once\<close> is interpreted on the reducer with the
  dispatched identifiers as outputs. The argument covers every event but the two that discard the
  transcript, \<open>clear\<close> and \<open>messages_replaced\<close>, after which an identifier may come back.
\<close>

fun tool_ids :: "Effect list \<Rightarrow> string list" where
  "tool_ids [] = []"
| "tool_ids (CallTool ct # es) = ct_callId ct # tool_ids es"
| "tool_ids (_ # es) = tool_ids es"

abbreviation dispatched_ids :: "AgentConfig \<Rightarrow> AgentState \<Rightarrow> AgentEvent \<Rightarrow> string list" where
  "dispatched_ids c s e \<equiv> tool_ids (sr_effects (step s e c))"

definition awaiting_ids :: "AgentState \<Rightarrow> string set" where
  "awaiting_ids s = p_callId ` {p \<in> set (pendingCalls s). p_status p = PAwaitingApproval}"

definition spent_ids :: "AgentState \<Rightarrow> string set" where
  "spent_ids s = set (transcript_call_ids (messages s)) - awaiting_ids s"

definition keeps_transcript :: "AgentState \<Rightarrow> AgentEvent \<Rightarrow> bool" where
  "keeps_transcript s e \<longleftrightarrow> kind e \<noteq> clear \<and> kind e \<noteq> messages_replaced"

definition prompts_clean :: "AgentState \<Rightarrow> bool" where
  "prompts_clean s \<longleftrightarrow> (\<forall>m \<in> set (messages s). msg_role m = System \<longrightarrow> call_ids (msg_content m) = [])"

definition once_state :: "AgentState \<Rightarrow> bool" where
  "once_state s \<longleftrightarrow> pending_ok s \<and> pending_backed s \<and> prompts_clean s"

lemma awaiting_advance [simp]: "awaiting_ids (advance s) = awaiting_ids s"
  by (simp add: awaiting_ids_def)

lemma spent_advance [simp]: "spent_ids (advance s) = spent_ids s"
  by (simp add: spent_ids_def)

lemma once_state_advance [simp]: "once_state (advance s) = once_state s"
  by (simp add: once_state_def prompts_clean_def)

lemma assistant_call_ids_subset: "assistant_call_ids ms \<subseteq> set (transcript_call_ids ms)"
  by (induction ms) auto

lemma awaiting_in_transcript: "once_state s \<Longrightarrow> p_callId ` set (pendingCalls s) \<subseteq> set (transcript_call_ids (messages s))"
  using assistant_call_ids_subset [of "messages s"] by (auto simp: once_state_def pending_backed_def)

lemma transcript_cancelled [simp]: "transcript_call_ids (map (cancelled_result \<circ> f) xs) = []"
  by (induction xs) simp_all

lemma transcript_repair [simp]:
  "transcript_call_ids (appendCancelledResultsForOrphanedToolCalls ms) = transcript_call_ids ms"
  by (simp add: appendCancelledResultsForOrphanedToolCalls_def Let_def)

lemma rejected_contents_calls [simp]: "call_ids (map rejected_content xs) = []"
  by (induction xs) (simp_all add: rejected_content_def)

lemma transcript_response [simp]:
  "transcript_call_ids (response_messages s c m) = transcript_call_ids (messages s) @ call_ids (msg_content m)"
  by (simp add: response_messages_def)

lemma rejected_contents_results [simp]: "result_ids (map rejected_content xs) = map tc_callId xs"
  by (induction xs) (simp_all add: rejected_content_def)

lemma response_denied_results:
  "transcript_result_ids (drop (Suc (length (messages s))) (response_messages s c m)) = map tc_callId (response_denied s c m)"
  by (simp add: response_messages_def)

lemma transcript_prompt:
  "prompts_clean s \<Longrightarrow> transcript_call_ids (messagesWithSystemPrompt (messages s) p) = transcript_call_ids (messages s)"
  by (cases "messages s") (auto simp: messagesWithSystemPrompt_def prompts_clean_def Let_def)

section \<open>System prompts carry no tool calls\<close>

lemma repair_memD:
  "m \<in> set (appendCancelledResultsForOrphanedToolCalls ms) \<Longrightarrow> m \<in> set ms \<or> msg_role m = Tool"
  by (auto simp: appendCancelledResultsForOrphanedToolCalls_def Let_def split: if_splits)

lemma messagesWithSystemPrompt_memD:
  "m \<in> set (messagesWithSystemPrompt ms p) \<Longrightarrow> m \<in> set ms \<or> m = text_message System p"
  by (cases ms) (auto simp: messagesWithSystemPrompt_def Let_def split: if_splits)

lemma handle_prompts_clean:
  assumes "handle s e c = Some r" and "prompts_clean s" and "keeps_transcript s e"
  shows "prompts_clean (hr_next r)"
  using assms(1)
proof (cases rule: handle_cases)
  case (lr ev)
  then show ?thesis
    using assms(2) by (cases rule: onLlmResponse_cases [of s "lr_message ev" "lr_usage ev" c])
      (auto simp: prompts_clean_def response_messages_def admissible_response_def)
next
  case (ua cid)
  then show ?thesis
    using assms(2) by (cases rule: onUserApprove_cases [of s cid]) (auto simp: prompts_clean_def)
next
  case (ur cid reason)
  then show ?thesis
    using assms(2) by (cases rule: onUserReject_cases [of s cid reason c]) (auto simp: prompts_clean_def)
next
  case (tr ev)
  then show ?thesis
    using assms(2)
    by (cases rule: onToolResult_cases [of s "te_callId ev" "te_ok ev" "te_content ev" c "te_failure ev"])
       (auto simp: prompts_clean_def)
next
  case (sp p v)
  then show ?thesis
    using assms(2) by (auto simp: prompts_clean_def onSystemPromptChanged_def dest!: messagesWithSystemPrompt_memD)
qed (use assms(2,3) in \<open>auto simp: handler_defs prompts_clean_def keeps_transcript_def Let_def dest!: repair_memD\<close>)

lemma once_state_step:
  assumes "once_state s" and "keeps_transcript s e"
  shows "once_state (sr_next (step s e c))"
proof -
  have clean: "prompts_clean (advance s)" and keeps: "keeps_transcript (advance s) e"
    using assms by (simp_all add: once_state_def keeps_transcript_def prompts_clean_def)
  have "prompts_clean (sr_next (step s e c))"
    using clean by (rule step_inv_rule) (rule handle_prompts_clean [OF _ clean keeps])
  then show ?thesis
    using assms step_pending_ok step_pending_backed by (simp add: once_state_def)
qed

section \<open>Dispatched identifiers are fresh and become spent\<close>

lemma tool_ids_pending:
  "tool_ids (map (pending_effect dir) ps) = map p_callId (filter (\<lambda>p. p_status p \<noteq> PAwaitingApproval) ps)"
  by (induction ps) (simp_all add: pending_effect_def call_tool_effect_def)

lemma tool_ids_call [simp]: "tool_ids [call_tool_effect dir p] = [p_callId p]"
  by (simp add: call_tool_effect_def)

text \<open>What the handlers owe to \<open>emit_once\<close>.\<close>

definition dispatch_step :: "AgentState \<Rightarrow> AgentState \<Rightarrow> string list \<Rightarrow> bool" where
  "dispatch_step s t ids \<longleftrightarrow>
     distinct ids \<and> set ids \<inter> spent_ids s = {} \<and> spent_ids s \<union> set ids \<subseteq> spent_ids t"

lemma dispatch_stepI_quiet:
  "set (transcript_call_ids (messages s)) \<subseteq> set (transcript_call_ids (messages t)) \<Longrightarrow>
   awaiting_ids t \<subseteq> awaiting_ids s \<Longrightarrow> dispatch_step s t []"
  by (auto simp: dispatch_step_def spent_ids_def)

lemma awaiting_settle: "set ps \<subseteq> set (pendingCalls s) \<Longrightarrow> awaiting_ids (hr_next (afterPendingSettled s ms ps c)) \<subseteq> awaiting_ids s"
  by (auto simp: awaiting_ids_def)

lemma dispatch_settle:
  "dispatch_step s (hr_next (afterPendingSettled s (messages s @ [tool_result_message cid ok t fl]) (settle_call cid (pendingCalls s)) c))
     (tool_ids (hr_effects (afterPendingSettled s (messages s @ [tool_result_message cid ok t fl]) (settle_call cid (pendingCalls s)) c)))"
proof -
  have "set (settle_call cid (pendingCalls s)) \<subseteq> set (pendingCalls s)" by auto
  then show ?thesis
    using awaiting_settle dispatch_stepI_quiet by (cases "settle_call cid (pendingCalls s) = []") (simp_all del: set_settle_call)
qed

lemma dispatch_response:
  assumes "once_state s" "admissible_response s m" "pendingCalls t = map mark_dispatched (response_pending s c m)"
    and "messages t = response_messages s c m"
  shows "dispatch_step s t (map p_callId (filter (\<lambda>p. p_status p \<noteq> PAwaitingApproval) (response_pending s c m)))"
proof -
  let ?ps = "response_pending s c m"
  have dist: "distinct (map p_callId ?ps)"
    using assms(2) by (intro response_pending_distinct) (simp add: admissible_response_def)
  have fresh: "p_callId p \<notin> set (transcript_call_ids (messages s))" if "p \<in> set ?ps" for p
    using response_pending_subset [of s c m] that assms(2) by (auto simp: admissible_response_def)
  have aw: "awaiting_ids t = p_callId ` {p \<in> set ?ps. p_status p = PAwaitingApproval}"
    unfolding awaiting_ids_def assms(3) set_map by (force simp: image_iff)
  have "p_callId p \<notin> awaiting_ids t" if "p \<in> set ?ps" "p_status p \<noteq> PAwaitingApproval" for p
    using that dist unfolding aw by (auto dest: eq_key_imp_eq_value simp: distinct_map inj_on_def)
  moreover have "set (transcript_call_ids (messages t)) = set (transcript_call_ids (messages s)) \<union> set (call_ids (msg_content m))"
    by (simp add: assms(4))
  moreover have "awaiting_ids t \<inter> set (transcript_call_ids (messages s)) = {}"
    using fresh unfolding aw by auto
  ultimately show ?thesis
    using distinct_map_filterI [OF dist] fresh response_pending_subset [of s c m]
    by (auto simp: dispatch_step_def spent_ids_def)
qed

lemma approve_call_awaiting:
  "{p \<in> set (approve_call cid ps). p_status p = PAwaitingApproval} =
   {p \<in> set ps. p_status p = PAwaitingApproval \<and> p_callId p \<noteq> cid}"
  by (induction ps) (auto simp: approve_call_def)

lemma dispatch_approve:
  assumes "once_state s" "target \<in> set (pendingCalls s)" "p_callId target = cid" "p_status target = PAwaitingApproval"
    and "pendingCalls t = approve_call cid (pendingCalls s)" "messages t = messages s"
  shows "dispatch_step s t [cid]"
proof -
  have "cid \<in> awaiting_ids s" using assms by (auto simp: awaiting_ids_def)
  moreover have "awaiting_ids t = awaiting_ids s - {cid}"
    unfolding awaiting_ids_def assms(5) approve_call_awaiting by blast
  moreover have "cid \<in> set (transcript_call_ids (messages s))"
    using awaiting_in_transcript [OF assms(1)] assms(2,3) by auto
  ultimately show ?thesis by (auto simp: dispatch_step_def spent_ids_def assms(6))
qed

lemma handle_dispatch_step:
  assumes "handle s e c = Some r" and "once_state s" and "keeps_transcript s e"
  shows "dispatch_step s (hr_next r) (tool_ids (hr_effects r))"
  using assms(1)
proof (cases rule: handle_cases)
  case (um ev)
  then show ?thesis by (auto simp: onUserMessage_def Let_def awaiting_ids_def intro!: dispatch_stepI_quiet)
next
  case (lr ev)
  show ?thesis
  proof (cases rule: onLlmResponse_cases [of s "lr_message ev" "lr_usage ev" c])
    case staged
    then show ?thesis
      using dispatch_response [OF assms(2) staged(1), of "hr_next r" c] by (simp add: lr(3) tool_ids_pending)
  qed (auto simp: lr(3) awaiting_ids_def intro!: dispatch_stepI_quiet)
next
  case (ua cid)
  then show ?thesis
    by (cases rule: onUserApprove_cases [of s cid])
       (auto intro: dispatch_stepI_quiet dispatch_approve [OF assms(2)])
next
  case (ur cid reason)
  then show ?thesis
    using dispatch_settle by (cases rule: onUserReject_cases [of s cid reason c]) (auto intro: dispatch_stepI_quiet)
next
  case (tr ev)
  then show ?thesis
    using dispatch_settle
    by (cases rule: onToolResult_cases [of s "te_callId ev" "te_ok ev" "te_content ev" c "te_failure ev"])
       (auto intro: dispatch_stepI_quiet)
next
  case (sp p v)
  then show ?thesis
    using assms(2)
    by (auto simp: onSystemPromptChanged_def transcript_prompt once_state_def awaiting_ids_def intro!: dispatch_stepI_quiet)
qed (use assms(3) in \<open>auto simp: handler_defs keeps_transcript_def awaiting_ids_def Let_def intro!: dispatch_stepI_quiet\<close>)

lemma step_dispatch_step:
  assumes "once_state s" and "keeps_transcript s e"
  shows "dispatch_step s (sr_next (step s e c)) (dispatched_ids c s e)"
proof (cases "handle (advance s) e c")
  case None
  then show ?thesis by (auto simp: step_ignored intro!: dispatch_stepI_quiet)
next
  case (Some r)
  have "keeps_transcript (advance s) e" using assms(2) by (simp add: keeps_transcript_def)
  then have "dispatch_step (advance s) (hr_next r) (tool_ids (hr_effects r))"
    using Some assms(1) by (auto intro: handle_dispatch_step)
  then show ?thesis
    by (simp add: step_handled [OF Some]) (auto simp: dispatch_step_def)
qed

interpretation once: emit_once "kstep c" keeps_transcript "dispatched_ids c" once_state spent_ids for c
  by unfold_locales (use step_dispatch_step once_state_step in \<open>auto simp: dispatch_step_def\<close>)

end
