(* ===== verification/Kernel_Replay.thy ===== *)
theory Kernel_Replay
  imports Kernel_Safety
begin

text \<open>
  Replay: \<open>fold\<close>, \<open>foldWithTrace\<close> and \<open>fork\<close> of \<open>packages/kernel/src/fold.ts\<close>. The cursor
  counts the events of the log, so it addresses a prefix of it; the trace is the run, entry by entry;
  a fork is the run from the state the trace shows at the fork point. The token estimate of
  \<open>helpers.ts\<close> is shown to be additive up to rounding.
\<close>

lemma step_cursor: "cursor (sr_next (step s e c)) = Suc (cursor s)"
proof (cases "handle (advance s) e c")
  case None
  then show ?thesis by (simp add: step_ignored)
next
  case (Some r)
  then show ?thesis using handler_frame [OF Some] by (simp add: step_handled)
qed

interpretation log: counting_machine "kstep c" cursor for c
  by unfold_locales (rule step_cursor)

lemma fold_events_append: "fold_events s (es @ fs) c = fold_events (fold_events s es c) fs c"
  by (simp add: fold_events_run)

section \<open>The trace\<close>

fun trace_of :: "AgentState \<Rightarrow> AgentEvent list \<Rightarrow> AgentConfig \<Rightarrow> TraceEntry list" where
  "trace_of s [] c = []"
| "trace_of s (e # es) c = trace_entry e (step s e c) # trace_of (sr_next (step s e c)) es c"

lemma foldWithTrace_loop_eq: "foldWithTrace_loop s trace es c = (fold_events s es c, trace @ trace_of s es c)"
  by (induction es arbitrary: s trace) (simp_all add: Let_def)

lemma length_trace_of [simp]: "length (trace_of s es c) = length es"
  by (induction es arbitrary: s) simp_all

lemma nth_trace_of:
  "i < length es \<Longrightarrow>
   trace_of s es c ! i = trace_entry (es ! i) (step (fold_events s (take i es) c) (es ! i) c)"
  by (induction es arbitrary: s i) (auto simp: nth_Cons split: nat.split)

lemma fold_events_take_Suc:
  "i < length es \<Longrightarrow> fold_events s (take (Suc i) es) c = sr_next (step (fold_events s (take i es) c) (es ! i) c)"
  by (simp add: take_Suc_conv_app_nth fold_events_append)

lemma fold_events_cursor: "cursor (fold_events s es c) = cursor s + length es"
  unfolding fold_events_run by (rule log.counter_run)

text \<open>
  \<open>foldWithTrace\<close> ends in the state \<open>fold\<close> computes and its trace has one entry per event:
  entry \<open>i\<close> holds the event at position \<open>i\<close>, the state after the first \<open>i + 1\<close> events and, as its
  cursor, the number of events consumed so far.
\<close>

theorem foldWithTrace_correct:
  "fst (foldWithTrace s es c) = fold_events s es c \<and>
   map tre_event (snd (foldWithTrace s es c)) = es \<and>
   map tre_state (snd (foldWithTrace s es c)) = map (\<lambda>i. fold_events s (take (Suc i) es) c) [0..<length es] \<and>
   map tre_cursor (snd (foldWithTrace s es c)) = map (\<lambda>i. cursor s + Suc i) [0..<length es]"
  unfolding foldWithTrace_def foldWithTrace_loop_eq
  by (auto intro!: nth_equalityI simp: nth_trace_of trace_entry_def fold_events_take_Suc [symmetric]
      fold_events_cursor)

text \<open>
  Forking a session after \<open>n\<close> events is running the new events from the state the original
  session had after those events, and the fork's cursor counts the kept events and the new ones;
  forking past the end or with no new events replays the session itself.
\<close>

theorem fork_correct:
  "fork s es (int n) new c = fold_events (fold_events s (take n es) c) new c \<and>
   cursor (fork s es (int n) new c) = cursor s + min n (length es) + length new \<and>
   fork s es (int n) (drop n es) c = fold_events s es c"
  by (simp add: fork_def fold_events_append [symmetric] fold_events_cursor min.commute)

section \<open>The token estimate\<close>

lemma message_chars_pos: "12 \<le> message_chars m"
  by (cases "msg_role m") (simp_all add: message_chars_def role_length_def)

lemma sum_message_chars: "12 * length ms \<le> sum_list (map message_chars ms)"
proof (induction ms)
  case (Cons m ms)
  then show ?case using message_chars_pos [of m] by simp
qed simp

lemma ceil_quarter_add: "(a + b + 3) div 4 \<le> (a + 3) div 4 + (b + 3) div (4::nat)"
  "(a + 3) div 4 + (b + 3) div 4 \<le> (a + b + 3) div 4 + (1::nat)"
  by presburger+

text \<open>
  The token estimate of a transcript is additive up to the rounding of one token: estimating two
  parts separately never gives less than estimating the whole and at most one token more. Every
  message counts for at least three tokens.
\<close>

theorem estimateMessageTokens_bounds:
  "estimateMessageTokens (ms @ ns) \<le> estimateMessageTokens ms + estimateMessageTokens ns \<and>
   estimateMessageTokens ms + estimateMessageTokens ns \<le> estimateMessageTokens (ms @ ns) + 1 \<and>
   3 * length ms \<le> estimateMessageTokens ms"
proof -
  have "3 * length ms \<le> estimateMessageTokens ms"
    using sum_message_chars [of ms] by (simp add: estimateMessageTokens_def)
  then show ?thesis
    using ceil_quarter_add by (simp add: estimateMessageTokens_def)
qed

end
