(* ===== verification/Kernel_Properties.thy ===== *)
theory Kernel_Properties
  imports Kernel_Once Kernel_Replay "HOL-Library.Multiset"
begin

text \<open>
  The properties of the reducer that a client of \<open>packages/kernel\<close> relies on, stated on \<open>step\<close>
  and on the runs of \<open>fold\<close> and \<open>foldWithTrace\<close> from a fresh session, with a sample session on
  which the conditional ones are exercised.
\<close>

section \<open>A sample session\<close>

definition sample_tool :: "string \<Rightarrow> bool \<Rightarrow> ToolSchema" where
  "sample_tool n approval =
     \<lparr>ts_name = n, ts_description = [], ts_inputSchema = [], ts_requiresApproval = approval, ts_version = None,
      ts_schemaHash = None, ts_toolsetId = None, ts_toolsetVersion = None, ts_risk = None,
      ts_executionKind = None, ts_executionHandler = None\<rparr>"

definition sample_config :: AgentConfig where
  "sample_config =
     createConfig [sample_tool ''read'' False, sample_tool ''write'' True] None None None None None None None None"

definition sample_call :: "string \<Rightarrow> string \<Rightarrow> MessageContent" where
  "sample_call cid n = ToolCall \<lparr>tc_callId = cid, tc_name = n, tc_input = None, tc_intent = None\<rparr>"

definition sample_response :: "MessageContent list \<Rightarrow> LlmResponseEvent" where
  "sample_response cs =
     \<lparr>lr_message = \<lparr>msg_role = Assistant, msg_content = cs, msg_metadata = None\<rparr>, lr_usage = None, lr_finishReason = None\<rparr>"

definition sample_user :: AgentEvent where
  "sample_user = EUserMessage \<lparr>um_operationId = None, um_queuedAt = None, um_text = Some ''go'', um_content = None\<rparr>"

definition sample_result :: "string \<Rightarrow> ToolResultEvent" where
  "sample_result cid = \<lparr>te_callId = cid, te_ok = True, te_content = ''ok'', te_failure = None\<rparr>"

definition sample_start :: AgentState where
  "sample_start = createInitialState ''s1'' None"

definition sample_events :: "AgentEvent list" where
  "sample_events = [sample_user, ELlmResponse (sample_response [sample_call ''a'' ''read'', sample_call ''b'' ''write'']),
     EUserApprove ''b'']"

definition sample_executing :: AgentState where
  "sample_executing = fold_events sample_start sample_events sample_config"

section \<open>Every step\<close>

text \<open>
  C1: Every step consumes exactly one event and stays in its session, and the disposition reports the
  statuses before and after and the kind of the event. An event is ignored exactly when the transition
  contract has no cell for it; an ignored or rejected event changes nothing but the cursor and emits
  nothing, and a reason is given exactly when the event was not applied.
\<close>

theorem step_disposition:
  "cursor (sr_next (step s e c)) = cursor s + 1 \<and>
   sessionId (sr_next (step s e c)) = sessionId s \<and>
   td_from (sr_transition (step s e c)) = status s \<and>
   td_to (sr_transition (step s e c)) = status (sr_next (step s e c)) \<and>
   td_event (sr_transition (step s e c)) = kind e \<and>
   (td_outcome (sr_transition (step s e c)) = Ignored \<longleftrightarrow> transitionContract (status s) (kind e) = ClassIgnored) \<and>
   (td_outcome (sr_transition (step s e c)) = Applied \<longleftrightarrow> td_reason (sr_transition (step s e c)) = None) \<and>
   (td_outcome (sr_transition (step s e c)) = Applied \<or>
      sr_next (step s e c) = s\<lparr>cursor := cursor s + 1\<rparr> \<and> sr_effects (step s e c) = [])"
proof (cases "handle (advance s) e c")
  case None
  then have "transitions (status s) (kind e) = None"
    by (simp add: handle_def)
  with None show ?thesis
    by (simp add: step_ignored transitionContract_def advance_def)
next
  case (Some r)
  then have "transitions (status s) (kind e) \<noteq> None"
    by (auto simp: handle_def)
  then have "transitionContract (status s) (kind e) = ClassHandled"
    by (auto simp: transitionContract_def)
  then show ?thesis
    using handler_well_behaved [OF Some]
    by (auto simp: step_handled [OF Some] td_fields well_behaved_def advance_def split: option.splits)
qed

section \<open>Reachable states\<close>

text \<open>
  C2: Whatever the events of a session are, its state satisfies the kernel's own invariant, its
  pending calls have distinct identifiers and each of them waits for the user or has been dispatched,
  every pending call is a call of an assistant message of the transcript, and an installed system
  prompt is the first message.
\<close>

theorem reachable_state_invariant:
  "stateInvariantViolation (fold_events (createInitialState sid prompt) es c) = None \<and>
   pending_ok (fold_events (createInitialState sid prompt) es c) \<and>
   pending_backed (fold_events (createInitialState sid prompt) es c) \<and>
   prompt_installed (fold_events (createInitialState sid prompt) es c)"
proof -
  have "pending_backed (createInitialState sid prompt)" "prompt_installed (createInitialState sid prompt)"
    by (simp_all add: pending_backed_def prompt_installed_def createInitialState_def)
  then show ?thesis
    unfolding fold_events_run
    by (simp add: vld.inv_run_all [OF valid_initial] pend.inv_run_all [OF pending_ok_initial]
        backed.inv_run_all prompt.inv_run_all)
qed

text \<open>
  Along every session the reducer's invariant guard fires for one event only: an \<open>llm_error\<close>
  with a blank text while the model is being called. Every other handler leads from a reachable state
  to a state that satisfies the invariant.
\<close>

theorem invariant_rejection_iff:
  "let s = fold_events (createInitialState sid prompt) es c
   in td_reason (sr_transition (step s e c)) = Some InvariantViolation \<longleftrightarrow>
        status s = thinking \<and> (\<exists>err. e = ELlmError err \<and> trim err = [])"
proof -
  define s where "s = fold_events (createInitialState sid prompt) es c"
  have ok: "valid s" "pending_ok s"
    using vld.inv_run_all [OF valid_initial] pend.inv_run_all [OF pending_ok_initial]
    by (simp_all add: s_def fold_events_run)
  have "td_reason (sr_transition (step s e c)) = Some InvariantViolation \<longleftrightarrow>
      status s = thinking \<and> (\<exists>err. e = ELlmError err \<and> trim err = [])"
  proof (cases "handle (advance s) e c")
    case None
    then show ?thesis by (auto simp: step_ignored)
  next
    case (Some r)
    have "valid (hr_next r) \<longleftrightarrow> \<not> (\<exists>err. e = ELlmError err \<and> trim err = [])"
      using ok by (intro handle_valid_iff [OF Some]) simp_all
    then show ?thesis
      using handler_well_behaved [OF Some] Some ok
      by (auto simp: step_handled [OF Some] well_behaved_def onLlmError_def split: option.splits if_splits)
  qed
  then show ?thesis by (simp add: s_def)
qed

section \<open>Tool calls\<close>

lemma authorised_advance [simp]: "authorised (advance s) e c ct = authorised s e c ct"
  by (simp add: authorised_def admissible_response_def)

text \<open>
  C5: A tool runs only with authority: a step that asks for a tool call either consumes the user's
  approval of a call that was waiting with that name and input, or consumes a response of the model
  that contains the call, in an approval mode that lets a tool with this schema run unasked. The next
  state records the call as dispatched.
\<close>

theorem call_tool_authorised:
  assumes "CallTool ct \<in> set (sr_effects (step s e c))"
  shows "authorised s e c ct \<and> recorded (sr_next (step s e c)) ct"
proof -
  obtain r where r: "handle (advance s) e c = Some r" "CallTool ct \<in> set (hr_effects r)"
    "sr_next (step s e c) = hr_next r"
    using assms by (rule step_effects_cases)
  then show ?thesis using handle_call_tool [OF r(1,2)] by simp
qed

theorem call_tool_authorised_witness:
  "authorised (fold_events sample_start [sample_user, ELlmResponse (sample_response [sample_call ''b'' ''write''])] sample_config)
     (EUserApprove ''b'') sample_config
     \<lparr>ct_callId = ''b'', ct_name = ''write'', ct_input = Some [], ct_intent = None, ct_cwd = None\<rparr>"
  by (rule call_tool_authorised [THEN conjunct1]) code_simp

text \<open>
  C4: In a session whose transcript is never discarded (no \<open>clear\<close>, no \<open>messages_replaced\<close>) the
  reducer asks for the execution of a tool call at most once per call identifier, however approvals,
  results, cancellations and repeated events interleave.
\<close>

theorem dispatched_at_most_once:
  assumes "clear \<notin> set (map kind es)" and "messages_replaced \<notin> set (map kind es)"
  shows "distinct (concat (map (tool_ids \<circ> tre_effects) (snd (foldWithTrace (createInitialState sid prompt) es c))))"
proof -
  have out: "concat (map (tool_ids \<circ> tre_effects) (trace_of s es c)) = run_outputs (kstep c) (dispatched_ids c) s es" for s
    by (induction es arbitrary: s) (simp_all add: trace_entry_def)
  have "run_guarded keeps_transcript (kstep c) s es" for s
    using assms by (induction es arbitrary: s) (auto simp: keeps_transcript_def)
  moreover have "once_state (createInitialState sid prompt)"
    by (auto simp: once_state_def pending_ok_def pending_backed_def prompts_clean_def createInitialState_def
        split: option.splits)
  ultimately show ?thesis
    unfolding foldWithTrace_def foldWithTrace_loop_eq by (simp add: out once.outputs_distinct)
qed

theorem dispatched_at_most_once_witness:
  "distinct (concat (map (tool_ids \<circ> tre_effects) (snd (foldWithTrace (createInitialState ''s1'' None)
     (sample_events @ [EUserApprove ''b'', EToolResult (sample_result ''a''), EToolResult (sample_result ''b'')]) sample_config))))"
  by (rule dispatched_at_most_once) code_simp+

section \<open>Answering a response and collecting results\<close>

fun approval_ids :: "Effect list \<Rightarrow> string list" where
  "approval_ids [] = []"
| "approval_ids (RequestApproval ra # es) = ra_callId ra # approval_ids es"
| "approval_ids (_ # es) = approval_ids es"

lemma approval_ids_pending:
  "approval_ids (map (pending_effect dir) ps) = map p_callId (filter (\<lambda>p. p_status p = PAwaitingApproval) ps)"
  by (induction ps) (simp_all add: pending_effect_def call_tool_effect_def)

lemma mset_partition3:
  "mset (filter P (filter Q xs)) + mset (filter (\<lambda>x. \<not> P x) (filter Q xs)) + mset (filter (\<lambda>x. \<not> Q x) xs) = mset xs"
  by (induction xs) auto

lemma response_split:
  "mset (map p_callId (filter (\<lambda>p. p_status p \<noteq> PAwaitingApproval) (response_pending s c m))
       @ map p_callId (filter (\<lambda>p. p_status p = PAwaitingApproval) (response_pending s c m))
       @ map tc_callId (response_denied s c m)) = mset (call_ids (msg_content m))"
proof -
  let ?aw = "\<lambda>x. p_status (pending_call (x, decide_call s c x)) = PAwaitingApproval"
  have "mset (filter (\<lambda>x. \<not> ?aw x) (response_kept s c m)) + mset (filter ?aw (response_kept s c m))
      + mset (response_denied s c m) = mset (response_calls m)"
    using mset_partition3 [of "\<lambda>x. \<not> ?aw x" "\<lambda>x. decide_call s c x \<noteq> RejectCall" "response_calls m"]
    by (simp add: response_kept_def response_denied_def)
  then have "image_mset tc_callId (mset (filter (\<lambda>x. \<not> ?aw x) (response_kept s c m)) + mset (filter ?aw (response_kept s c m))
      + mset (response_denied s c m)) = mset (call_ids (msg_content m))"
    by (simp only: response_calls_ids [symmetric] mset_map)
  then show ?thesis
    by (simp add: response_pending_def filter_map o_def add.assoc mset_map [symmetric] del: mset_map mset_filter)
qed

text \<open>
  An accepted response of the model with tool calls answers each of its calls exactly once: the
  identifiers it dispatches, those it submits to the user and those it answers with a denial in the
  transcript are together the identifiers of the response, without repetition.
\<close>

theorem llm_response_answers_each_call:
  assumes "status s = thinking" and "call_ids (msg_content (lr_message ev)) \<noteq> []"
    and "admissible_response s (lr_message ev)" and "stateInvariantViolation s = None"
  shows "let r = step s (ELlmResponse ev) c
         in td_outcome (sr_transition r) = Applied \<and>
            mset (tool_ids (sr_effects r) @ approval_ids (sr_effects r) @
                  transcript_result_ids (drop (Suc (length (messages s))) (messages (sr_next r))))
              = mset (call_ids (msg_content (lr_message ev))) \<and>
            distinct (call_ids (msg_content (lr_message ev)))"
proof -
  let ?m = "lr_message ev" and ?s = "advance s"
  let ?r = "onLlmResponse ?s ?m (lr_usage ev) c"
  have adm: "msg_role ?m = Assistant" "admissible_response ?s ?m" "response_calls ?m \<noteq> []"
    using assms(2,3) response_calls_Nil [of ?m] by (simp_all add: admissible_response_def)
  have h: "handle ?s (ELlmResponse ev) c = Some ?r" using assms(1) by simp
  have rej: "hr_rejectionReason ?r = None"
    using adm by (simp add: onLlmResponse_eq Let_def)
  have "valid (hr_next ?r)"
    using adm by (auto simp: onLlmResponse_eq Let_def valid_iff list_ex_iff dest: response_pending_status)
  moreover have "messages (hr_next ?r) = response_messages ?s c ?m"
    using adm by (simp add: onLlmResponse_eq Let_def)
  moreover have "tool_ids (hr_effects ?r) = map p_callId (filter (\<lambda>p. p_status p \<noteq> PAwaitingApproval) (response_pending ?s c ?m))"
    and "approval_ids (hr_effects ?r) = map p_callId (filter (\<lambda>p. p_status p = PAwaitingApproval) (response_pending ?s c ?m))"
    using adm by (simp_all add: onLlmResponse_eq Let_def tool_ids_pending approval_ids_pending)
  ultimately show ?thesis
    using rej response_split [of ?s c ?m] response_denied_results [of ?s c ?m] assms(3)
    by (simp add: step_handled [OF h] Let_def admissible_response_def)
qed

theorem llm_response_answers_each_call_witness:
  "let s = fold_events sample_start [sample_user] sample_config;
       ev = sample_response [sample_call ''a'' ''read'', sample_call ''b'' ''write'', sample_call ''c'' ''other''];
       r = step s (ELlmResponse ev) sample_config
   in td_outcome (sr_transition r) = Applied \<and>
      mset (tool_ids (sr_effects r) @ approval_ids (sr_effects r) @
            transcript_result_ids (drop (Suc (length (messages s))) (messages (sr_next r))))
        = mset (call_ids (msg_content (lr_message ev))) \<and>
      distinct (call_ids (msg_content (lr_message ev)))"
  unfolding Let_def
  by (rule llm_response_answers_each_call [unfolded Let_def]; code_simp)

lemma result_step:
  assumes "status s = executing_tools" "stateInvariantViolation s = None" "te_callId ev \<in> set (map p_callId (pendingCalls s))"
    and "distinct (map p_callId (pendingCalls s))"
  shows "let ps = settle_call (te_callId ev) (pendingCalls s);
             ms = messages s @ [tool_result_message (te_callId ev) (te_ok ev) (te_content ev) (te_failure ev)];
             r = step s (EToolResult ev) c
         in pendingCalls (sr_next r) = ps \<and> messages (sr_next r) = ms \<and>
            status (sr_next r) = (if ps = [] then thinking else executing_tools) \<and>
            sr_effects r = (if ps = [] then [CallLlm ms (tools c)] else []) \<and>
            stateInvariantViolation (sr_next r) = None"
proof -
  let ?s = "advance s"
  let ?r = "onToolResult ?s (te_callId ev) (te_ok ev) (te_content ev) c (te_failure ev)"
  have h: "handle ?s (EToolResult ev) c = Some ?r" using assms(1) by simp
  have disp: "\<forall>p \<in> set (pendingCalls s). p_status p = PDispatched"
    using assms(1,2) by (simp add: valid_iff)
  obtain t where t: "t \<in> set (pendingCalls s)" "p_callId t = te_callId ev" using assms(3) by auto
  have "find (\<lambda>p. p_callId p = te_callId ev) (pendingCalls s) = Some t"
    using assms(4) t by (rule find_distinct_key)
  then have r: "?r = afterPendingSettled ?s
      (messages s @ [tool_result_message (te_callId ev) (te_ok ev) (te_content ev) (te_failure ev)])
      (settle_call (te_callId ev) (pendingCalls s)) c"
    using disp t by (simp add: onToolResult_def settle_call_def)
  have "valid (hr_next ?r)" unfolding r using disp by (intro valid_afterPendingSettled) auto
  moreover have "\<not> list_ex (\<lambda>p. p_status p = PAwaitingApproval) (settle_call (te_callId ev) (pendingCalls s))"
    using disp by (auto simp: list_ex_iff)
  ultimately show ?thesis by (simp add: step_handled [OF h] r Let_def)
qed

text \<open>
  When every pending call has been dispatched, their results may arrive in any order: once each
  has arrived the kernel is thinking with nothing pending, the transcript has grown by the results in
  the order of arrival, and the model has been called exactly once, on that transcript.
\<close>

theorem results_in_any_order:
  assumes "status s = executing_tools" and "stateInvariantViolation s = None" and "pending_ok s"
    and "mset (map te_callId rs) = mset (map p_callId (pendingCalls s))"
  shows "let final = fst (foldWithTrace s (map EToolResult rs) c);
             ms = messages s @ map (\<lambda>r. tool_result_message (te_callId r) (te_ok r) (te_content r) (te_failure r)) rs
         in status final = thinking \<and> pendingCalls final = [] \<and> messages final = ms \<and>
            concat (map tre_effects (snd (foldWithTrace s (map EToolResult rs) c))) = [CallLlm ms (tools c)]"
  using assms unfolding foldWithTrace_def foldWithTrace_loop_eq
proof (induction rs arbitrary: s)
  case Nil
  then show ?case by (simp add: valid_iff)
next
  case (Cons r rs)
  let ?s = "sr_next (step s (EToolResult r) c)" and ?ps = "settle_call (te_callId r) (pendingCalls s)"
  have mem: "te_callId r \<in> set (map p_callId (pendingCalls s))"
    using Cons.prems(4) by (metis list.set_intros(1) list.simps(9) set_mset_mset)
  have dist: "distinct (map p_callId (pendingCalls s))" using Cons.prems(3) by (simp add: pending_ok_def)
  note st = result_step [OF Cons.prems(1,2) mem dist, of c, unfolded Let_def]
  have "mset (map p_callId ?ps) = filter_mset (\<lambda>x. x \<noteq> te_callId r) (mset (map te_callId (r # rs)))"
    by (simp only: settle_call_ids mset_filter Cons.prems(4))
  moreover have "te_callId r \<notin> set (map te_callId rs)"
    using dist Cons.prems(4) by (metis distinct.simps(2) list.simps(9) mset_eq_imp_distinct_iff)
  then have "filter (\<lambda>x. x \<noteq> te_callId r) (map te_callId rs) = map te_callId rs"
    by (intro filter_True) (metis)
  then have "filter_mset (\<lambda>x. x \<noteq> te_callId r) (mset (map te_callId rs)) = mset (map te_callId rs)"
    by (simp only: mset_filter [symmetric])
  ultimately have rest: "mset (map te_callId rs) = mset (map p_callId ?ps)" by simp
  show ?case
  proof (cases "?ps = []")
    case True
    with rest have "rs = []" by simp
    with True st show ?thesis by (simp add: trace_entry_def)
  next
    case False
    then have "rs \<noteq> []" using rest by auto
    have "pending_ok ?s" using Cons.prems(3) by (rule step_pending_ok)
    with st False rest have "let final = fst (fold_events ?s (map EToolResult rs) c, [] @ trace_of ?s (map EToolResult rs) c);
        ms = messages ?s @ map (\<lambda>r. tool_result_message (te_callId r) (te_ok r) (te_content r) (te_failure r)) rs
      in status final = thinking \<and> pendingCalls final = [] \<and> messages final = ms \<and>
         concat (map tre_effects (snd (fold_events ?s (map EToolResult rs) c, [] @ trace_of ?s (map EToolResult rs) c)))
           = [CallLlm ms (tools c)]"
      by (intro Cons.IH) simp_all
    with st False show ?thesis by (simp add: trace_entry_def Let_def)
  qed
qed

theorem results_in_any_order_witness:
  "let final = fst (foldWithTrace sample_executing (map EToolResult [sample_result ''b'', sample_result ''a'']) sample_config);
       ms = messages sample_executing @ map (\<lambda>r. tool_result_message (te_callId r) (te_ok r) (te_content r) (te_failure r))
              [sample_result ''b'', sample_result ''a'']
   in status final = thinking \<and> pendingCalls final = [] \<and> messages final = ms \<and>
      concat (map tre_effects (snd (foldWithTrace sample_executing (map EToolResult [sample_result ''b'', sample_result ''a''])
        sample_config))) = [CallLlm ms (tools sample_config)]"
proof (rule results_in_any_order)
  show "status sample_executing = executing_tools" by code_simp
  show "stateInvariantViolation sample_executing = None" by code_simp
  show "pending_ok sample_executing" by code_simp
  have "map p_callId (pendingCalls sample_executing) = [''a'', ''b'']" by code_simp
  then show "mset (map te_callId [sample_result ''b'', sample_result ''a'']) = mset (map p_callId (pendingCalls sample_executing))"
    by (simp add: sample_result_def)
qed

end
