(* ===== verification/Kernel_Refinement.thy ===== *)
theory Kernel_Refinement
  imports Kernel_Properties
begin

text \<open>
  The reducer implements the abstract protocol of \<open>formal/kernel/Kernel.tla\<close>. An abstract state is
  the status with the set of calls that wait for the user and the set of calls that run; an abstract
  step shows the kind of the event, the kinds of the effects and the calls it starts. The protocol is
  the TLA module's with any number of calls in one response instead of one, and with the resuming
  rewrite and the denied response the code has. The forward simulation covers every event in every
  reachable state.
\<close>

datatype EffectKind = call_llm | call_tool | request_approval | finish | emit_error

primrec effect_kind :: "Effect \<Rightarrow> EffectKind" where
  "effect_kind (CallLlm ms ts) = call_llm"
| "effect_kind (CallTool ct) = call_tool"
| "effect_kind (RequestApproval ra) = request_approval"
| "effect_kind Finish = finish"
| "effect_kind (EmitError err) = emit_error"

record spec_state =
  spec_status :: AgentStatus
  waitingApproval :: "string set"
  dispatched :: "string set"

definition spec_init :: spec_state where
  "spec_init = \<lparr>spec_status = idle, waitingApproval = {}, dispatched = {}\<rparr>"

definition resting :: "AgentStatus \<Rightarrow> bool" where
  "resting st \<longleftrightarrow> st \<in> {idle, done_status, error_status}"

text \<open>The status that goes with the two sets during a turn.\<close>

definition turn_state :: "string set \<Rightarrow> string set \<Rightarrow> spec_state" where
  "turn_state W R =
     \<lparr>spec_status = (if W \<noteq> {} then awaiting_approval else if R \<noteq> {} then executing_tools else thinking),
      waitingApproval = W, dispatched = R\<rparr>"

definition quiet_state :: "AgentStatus \<Rightarrow> spec_state" where
  "quiet_state st = \<lparr>spec_status = st, waitingApproval = {}, dispatched = {}\<rparr>"

inductive spec_step :: "spec_state \<Rightarrow> EventKind \<Rightarrow> EffectKind set \<Rightarrow> string set \<Rightarrow> spec_state \<Rightarrow> bool" where
  UserMessage: "resting (spec_status a) \<Longrightarrow> spec_step a user_message {call_llm} {} (quiet_state thinking)"
| LlmPlain: "spec_status a = thinking \<Longrightarrow> spec_step a llm_response {finish} {} (quiet_state done_status)"
| LlmDenied: "spec_status a = thinking \<Longrightarrow> spec_step a llm_response {call_llm} {} (quiet_state thinking)"
| LlmTools: "spec_status a = thinking \<Longrightarrow> W \<inter> R = {} \<Longrightarrow> W \<union> R \<noteq> {} \<Longrightarrow>
    spec_step a llm_response ((if R = {} then {} else {call_tool}) \<union> (if W = {} then {} else {request_approval})) R
      (turn_state W R)"
| LlmError: "spec_status a = thinking \<Longrightarrow> spec_step a llm_error {emit_error} {} (quiet_state error_status)"
| Approve: "spec_status a = awaiting_approval \<Longrightarrow> x \<in> waitingApproval a \<Longrightarrow>
    spec_step a user_approve {call_tool} {x} (turn_state (waitingApproval a - {x}) (insert x (dispatched a)))"
| Reject: "spec_status a = awaiting_approval \<Longrightarrow> x \<in> waitingApproval a \<Longrightarrow>
    spec_step a user_reject (if (waitingApproval a - {x}) \<union> dispatched a = {} then {call_llm} else {}) {}
      (turn_state (waitingApproval a - {x}) (dispatched a))"
| Result: "spec_status a \<in> {awaiting_approval, executing_tools} \<Longrightarrow> x \<in> dispatched a \<Longrightarrow>
    spec_step a tool_result (if waitingApproval a \<union> (dispatched a - {x}) = {} then {call_llm} else {}) {}
      (turn_state (waitingApproval a) (dispatched a - {x}))"
| Cancel: "spec_status a \<in> {thinking, awaiting_approval, executing_tools} \<Longrightarrow>
    spec_step a cancel {finish} {} (quiet_state done_status)"
| Clear: "spec_step a clear {} {} (quiet_state idle)"
| Resume: "resting (spec_status a) \<Longrightarrow> spec_step a messages_replaced {call_llm} {} (quiet_state thinking)"
| Stay: "spec_step a k {} {} a"

inductive_cases spec_step_approveE: "spec_step a user_approve E X b"
inductive_cases spec_step_responseE: "spec_step a llm_response E X b"

inductive spec_reach :: "spec_state \<Rightarrow> bool" where
  reach_init: "spec_reach spec_init"
| reach_step: "spec_reach a \<Longrightarrow> spec_step a k E X b \<Longrightarrow> spec_reach b"

section \<open>The protocol's own invariant\<close>

definition spec_ok :: "spec_state \<Rightarrow> bool" where
  "spec_ok a \<longleftrightarrow> waitingApproval a \<inter> dispatched a = {} \<and>
     (if resting (spec_status a) then waitingApproval a = {} \<and> dispatched a = {}
      else a = turn_state (waitingApproval a) (dispatched a))"

lemma spec_ok_disjoint: "spec_ok a \<Longrightarrow> waitingApproval a \<inter> dispatched a = {}"
  by (simp add: spec_ok_def)

lemma spec_ok_turn: "W \<inter> R = {} \<Longrightarrow> spec_ok (turn_state W R)"
  by (auto simp: spec_ok_def turn_state_def resting_def)

lemma spec_ok_quiet: "st \<in> {idle, done_status, error_status, thinking} \<Longrightarrow> spec_ok (quiet_state st)"
  by (auto simp: spec_ok_def quiet_state_def turn_state_def resting_def)

lemma spec_step_ok: "spec_step a k E X b \<Longrightarrow> spec_ok a \<Longrightarrow> spec_ok b"
  by (induction rule: spec_step.induct)
     (auto intro!: spec_ok_turn spec_ok_quiet dest: spec_ok_disjoint)

lemma spec_reach_ok: "spec_reach a \<Longrightarrow> spec_ok a"
proof (induction rule: spec_reach.induct)
  case reach_init
  then show ?case by (simp add: spec_ok_def spec_init_def resting_def)
next
  case (reach_step a k E X b)
  then show ?case using spec_step_ok by blast
qed

section \<open>The simulation\<close>

definition spec_of :: "AgentState \<Rightarrow> spec_state" where
  "spec_of s = \<lparr>spec_status = status s, waitingApproval = awaiting_ids s,
     dispatched = p_callId ` {p \<in> set (pendingCalls s). p_status p = PDispatched}\<rparr>"

abbreviation spec_move :: "AgentState \<Rightarrow> AgentEvent \<Rightarrow> Effect list \<Rightarrow> AgentState \<Rightarrow> bool" where
  "spec_move s e effs t \<equiv> spec_step (spec_of s) (kind e) (effect_kind ` set effs) (set (tool_ids effs)) (spec_of t)"

lemma spec_of_fields [simp]:
  "spec_status (spec_of s) = status s" "waitingApproval (spec_of s) = awaiting_ids s"
  "dispatched (spec_of s) = p_callId ` {p \<in> set (pendingCalls s). p_status p = PDispatched}"
  by (simp_all add: spec_of_def)

lemma spec_of_advance [simp]: "spec_of (advance s) = spec_of s"
  by (simp add: spec_of_def)

lemma spec_of_quiet: "pendingCalls t = [] \<Longrightarrow> spec_of t = quiet_state (status t)"
  by (simp add: spec_of_def quiet_state_def awaiting_ids_def)

text \<open>A state in the middle of a turn, from its pending calls.\<close>

definition turn_of :: "PendingToolCall list \<Rightarrow> spec_state" where
  "turn_of ps = turn_state (p_callId ` {p \<in> set ps. p_status p = PAwaitingApproval})
     (p_callId ` {p \<in> set ps. p_status p = PDispatched})"

lemma spec_of_turn:
  assumes "pendingCalls t = ps" "\<forall>p \<in> set ps. p_status p = PAwaitingApproval \<or> p_status p = PDispatched"
    and "status t = (if ps = [] then thinking else if list_ex (\<lambda>p. p_status p = PAwaitingApproval) ps then awaiting_approval
                     else executing_tools)"
  shows "spec_of t = turn_of ps"
proof -
  have "ps \<noteq> [] \<Longrightarrow> \<not> list_ex (\<lambda>p. p_status p = PAwaitingApproval) ps \<Longrightarrow> {p \<in> set ps. p_status p = PDispatched} \<noteq> {}"
    using assms(2) by (cases ps) auto
  then show ?thesis
    using assms by (auto simp: spec_of_def turn_of_def turn_state_def awaiting_ids_def list_ex_iff)
qed

lemma pending_split:
  assumes "distinct (map p_callId ps)"
  shows "p_callId ` {p \<in> set ps. p_status p = a} \<inter> p_callId ` {p \<in> set ps. p_status p = b} = {} \<or> a = b"
  using assms by (auto simp: distinct_map inj_on_def)

lemma spec_stay: "spec_of t = spec_of s \<Longrightarrow> spec_move s e [] t"
  by (simp add: Stay)

text \<open>The handlers that move pending calls, one by one.\<close>

lemma effect_kinds_pending:
  "effect_kind ` set (map (pending_effect dir) ps) =
     (if \<exists>p \<in> set ps. p_status p \<noteq> PAwaitingApproval then {call_tool} else {}) \<union>
     (if \<exists>p \<in> set ps. p_status p = PAwaitingApproval then {request_approval} else {})"
  by (induction ps) (auto simp: pending_effect_def call_tool_effect_def)

lemma image_Collect_image: "f ` {q \<in> g ` S. P q} = (\<lambda>x. f (g x)) ` {x \<in> S. P (g x)}"
  by auto

lemma turn_of_marked:
  assumes "\<forall>p \<in> set ps. p_status p = PApproved \<or> p_status p = PAwaitingApproval"
  shows "turn_of (map mark_dispatched ps) =
    turn_state (p_callId ` {p \<in> set ps. p_status p = PAwaitingApproval}) (p_callId ` {p \<in> set ps. p_status p = PApproved})"
proof -
  have "{p \<in> set ps. p_status p = PApproved \<or> p_status p = PDispatched} = {p \<in> set ps. p_status p = PApproved}"
    using assms by force
  then show ?thesis by (simp add: turn_of_def image_Collect_image)
qed

lemma sim_response:
  assumes "status s = thinking" "admissible_response s m" "response_pending s c m \<noteq> []"
  shows "spec_step (spec_of s) llm_response (effect_kind ` set (map (pending_effect dir) (response_pending s c m)))
     (set (tool_ids (map (pending_effect dir) (response_pending s c m)))) (turn_of (map mark_dispatched (response_pending s c m)))"
proof -
  let ?ps = "response_pending s c m"
  let ?W = "p_callId ` {p \<in> set ?ps. p_status p = PAwaitingApproval}"
  let ?R = "p_callId ` {p \<in> set ?ps. p_status p = PApproved}"
  have st: "\<forall>p \<in> set ?ps. p_status p = PApproved \<or> p_status p = PAwaitingApproval"
    using response_pending_status by blast
  have "distinct (map p_callId ?ps)"
    using assms(2) by (intro response_pending_distinct) (simp add: admissible_response_def)
  then have disj: "?W \<inter> ?R = {}" using pending_split by blast
  have ne: "?W \<union> ?R \<noteq> {}" using st assms(3) by (cases ?ps) auto
  have "effect_kind ` set (map (pending_effect dir) ?ps) = (if ?R = {} then {} else {call_tool}) \<union> (if ?W = {} then {} else {request_approval})"
    unfolding effect_kinds_pending using st by auto
  moreover have "set (tool_ids (map (pending_effect dir) ?ps)) = ?R"
    using st by (auto simp: tool_ids_pending)
  moreover have "turn_of (map mark_dispatched ?ps) = turn_state ?W ?R"
    using st by (rule turn_of_marked)
  ultimately show ?thesis
    using LlmTools [of "spec_of s" ?W ?R] assms(1) disj ne by simp
qed

lemma sim_approve:
  assumes "status s = awaiting_approval" "pending_ok s" "target \<in> set (pendingCalls s)" "p_status target = PAwaitingApproval"
  shows "spec_step (spec_of s) user_approve {call_tool} {p_callId target} (turn_of (approve_call (p_callId target) (pendingCalls s)))"
proof -
  let ?x = "p_callId target" and ?ps = "pendingCalls s"
  have "{p \<in> set (approve_call ?x ?ps). p_status p = PDispatched} =
      {p \<in> set ?ps. p_status p = PDispatched \<and> p_callId p \<noteq> ?x} \<union> (\<lambda>p. p\<lparr>p_status := PDispatched\<rparr>) ` {p \<in> set ?ps. p_callId p = ?x}"
    by (auto simp: set_approve_call)
  then have "p_callId ` {p \<in> set (approve_call ?x ?ps). p_status p = PDispatched} =
      insert ?x (p_callId ` {p \<in> set ?ps. p_status p = PDispatched})"
    using assms(3) by (auto simp: image_Un image_image)
  then have "turn_of (approve_call ?x ?ps) = turn_state (awaiting_ids s - {?x}) (insert ?x (dispatched (spec_of s)))"
    by (simp add: turn_of_def approve_call_awaiting awaiting_ids_def) (rule arg_cong2 [where f = turn_state], auto)
  moreover have "?x \<in> awaiting_ids s" using assms(3,4) by (auto simp: awaiting_ids_def)
  ultimately show ?thesis using Approve [of "spec_of s" ?x] assms(1) by simp
qed

lemma turn_of_settle:
  assumes "distinct (map p_callId ps)" "target \<in> set ps"
  shows "turn_of (settle_call (p_callId target) ps) =
    turn_state (p_callId ` {p \<in> set ps. p_status p = PAwaitingApproval} - {p_callId target})
      (p_callId ` {p \<in> set ps. p_status p = PDispatched} - {p_callId target})"
  unfolding turn_of_def by (rule arg_cong2 [where f = turn_state]) auto

lemma sim_settle:
  assumes "pending_ok s" "target \<in> set (pendingCalls s)"
    and "r = afterPendingSettled s ms (settle_call (p_callId target) (pendingCalls s)) c"
    and "status s = awaiting_approval \<and> p_status target = PAwaitingApproval \<and> k = user_reject \<or>
         status s \<in> {awaiting_approval, executing_tools} \<and> p_status target = PDispatched \<and> k = tool_result"
  shows "spec_step (spec_of s) k (effect_kind ` set (hr_effects r)) (set (tool_ids (hr_effects r))) (spec_of (hr_next r))"
proof -
  let ?x = "p_callId target" and ?ps = "settle_call (p_callId target) (pendingCalls s)"
  let ?W = "awaiting_ids s" and ?R = "dispatched (spec_of s)"
  have ok: "distinct (map p_callId (pendingCalls s))"
    "\<forall>p \<in> set (pendingCalls s). p_status p = PAwaitingApproval \<or> p_status p = PDispatched"
    using assms(1) by (simp_all add: pending_ok_def)
  have next_eq: "spec_of (hr_next r) = turn_of ?ps"
    using ok(2) by (intro spec_of_turn) (auto simp: assms(3))
  have turn: "turn_of ?ps = turn_state (?W - {?x}) (?R - {?x})"
    using turn_of_settle [OF ok(1) assms(2)] by (simp add: awaiting_ids_def)
  have empty: "?ps = [] \<longleftrightarrow> (?W - {?x}) \<union> (?R - {?x}) = {}"
    using ok(2) by (simp add: settle_call_def filter_empty_conv awaiting_ids_def image_subset_iff) blast
  have eff: "effect_kind ` set (hr_effects r) = (if (?W - {?x}) \<union> (?R - {?x}) = {} then {call_llm} else {})" "tool_ids (hr_effects r) = []"
    unfolding empty [symmetric] by (simp_all add: assms(3))
  have disj: "?W \<inter> ?R = {}" using pending_split [OF ok(1)] by (auto simp: awaiting_ids_def)
  from assms(4) show ?thesis
  proof
    assume *: "status s = awaiting_approval \<and> p_status target = PAwaitingApproval \<and> k = user_reject"
    then have "?x \<in> ?W" using assms(2) by (auto simp: awaiting_ids_def)
    moreover from this disj have "?R - {?x} = ?R" by blast
    ultimately show ?thesis using Reject [of "spec_of s" ?x] * eff next_eq turn by simp
  next
    assume *: "status s \<in> {awaiting_approval, executing_tools} \<and> p_status target = PDispatched \<and> k = tool_result"
    then have "?x \<in> ?R" using assms(2) by auto
    moreover from this disj have "?W - {?x} = ?W" by blast
    ultimately show ?thesis using Result [of "spec_of s" ?x] * eff next_eq turn by simp
  qed
qed

lemma handle_simulates:
  assumes "handle s e c = Some r" and "valid s" and "pending_ok s"
  shows "spec_move s e (hr_effects r) (hr_next r)"
  using assms(1)
proof (cases rule: handle_cases)
  case (um ev)
  then show ?thesis
    using UserMessage [of "spec_of s"] by (simp add: onUserMessage_def Let_def spec_of_quiet resting_def)
next
  case (lr ev)
  show ?thesis
  proof (cases rule: onLlmResponse_cases [of s "lr_message ev" "lr_usage ev" c])
    case staged
    have "spec_of (hr_next r) = turn_of (map mark_dispatched (response_pending s c (lr_message ev)))"
      using staged(2) by (intro spec_of_turn) (auto simp: lr(3) staged(3) list_ex_iff dest: response_pending_status)
    then show ?thesis
      using sim_response [OF lr(2) staged(1,2), of "cwd s"] by (simp add: lr(1,3) staged(3))
  qed (use lr LlmPlain [of "spec_of s"] LlmDenied [of "spec_of s"] in \<open>simp_all add: Stay spec_of_quiet\<close>)
next
  case (le err)
  then show ?thesis using LlmError [of "spec_of s"] by (simp add: onLlmError_def spec_of_quiet)
next
  case (ua cid)
  show ?thesis
  proof (cases rule: onUserApprove_cases [of s cid])
    case (approved target)
    have "spec_of (hr_next r) = turn_of (approve_call cid (pendingCalls s))"
      using approved(1) assms(3) by (intro spec_of_turn) (auto simp: ua(3) approved(4) pending_ok_def dest!: approve_call_memD)
    then show ?thesis
      using sim_approve [OF ua(2) assms(3) approved(1,3)] approved by (simp add: ua(1,3) call_tool_effect_def)
  qed (simp add: ua Stay)
next
  case (ur cid reason)
  show ?thesis
  proof (cases rule: onUserReject_cases [of s cid reason c])
    case (settled target)
    with ur have "r = afterPendingSettled s (messages s @ [tool_result_message cid False (coalesce reason ''User rejected this tool call.'') None])
        (settle_call (p_callId target) (pendingCalls s)) c" by simp
    from sim_settle [OF assms(3) settled(1) this, of user_reject] show ?thesis using ur settled by simp
  qed (simp add: ur Stay)
next
  case (tr ev)
  show ?thesis
  proof (cases rule: onToolResult_cases [of s "te_callId ev" "te_ok ev" "te_content ev" c "te_failure ev"])
    case (settled target)
    with tr have "r = afterPendingSettled s (messages s @ [tool_result_message (te_callId ev) (te_ok ev) (te_content ev) (te_failure ev)])
        (settle_call (p_callId target) (pendingCalls s)) c" by simp
    from sim_settle [OF assms(3) settled(1) this, of tool_result] show ?thesis using tr settled by simp
  qed (simp add: tr Stay)
next
  case ca
  then show ?thesis using Cancel [of "spec_of s"] by (simp add: onCancel_def Let_def spec_of_quiet)
next
  case cl
  then show ?thesis using Clear [of "spec_of s"] by (simp add: onClear_def Let_def spec_of_quiet)
next
  case (mr ev)
  show ?thesis
  proof (cases rule: onMessagesReplaced_cases [of s ev c])
    case (replaced a b)
    have "spec_of (s\<lparr>messages := replaced_messages s ev a b\<rparr>) = spec_of s"
      by (simp add: spec_of_def awaiting_ids_def)
    then show ?thesis
      using Resume [of "spec_of s"] mr replaced(6) by (auto simp: spec_of_quiet resting_def Stay)
  qed (simp add: mr Stay)
qed (auto simp: handler_defs Let_def spec_of_def awaiting_ids_def intro: Stay)

text \<open>
  C6: Forward simulation: along every session each step of the reducer is a step of the abstract
  protocol between the abstractions of its states, on the kind of the event, with the kinds of the
  effects it returned and exactly the tool calls it started; so every state of a session abstracts to
  a reachable state of the protocol.
\<close>

theorem kernel_refines_protocol:
  "let s = fold_events (createInitialState sid prompt) es c; r = step s e c
   in spec_reach (spec_of s) \<and>
      spec_step (spec_of s) (kind e) (effect_kind ` set (sr_effects r)) (set (tool_ids (sr_effects r))) (spec_of (sr_next r))"
proof -
  have sim: "spec_step (spec_of s) (kind e) (effect_kind ` set (sr_effects (step s e c)))
      (set (tool_ids (sr_effects (step s e c)))) (spec_of (sr_next (step s e c)))" if "valid s" "pending_ok s" for s e
  proof (cases "handle (advance s) e c")
    case None
    then show ?thesis by (simp add: step_ignored Stay)
  next
    case (Some r)
    then show ?thesis
      using handle_simulates [OF Some] that by (auto simp: step_handled Stay)
  qed
  have ok: "valid (fold_events (createInitialState sid prompt) es c)" "pending_ok (fold_events (createInitialState sid prompt) es c)" for es
    unfolding fold_events_run by (simp_all add: vld.inv_run_all [OF valid_initial] pend.inv_run_all [OF pending_ok_initial])
  have "spec_reach (spec_of (fold_events (createInitialState sid prompt) es c))"
  proof (induction es rule: rev_induct)
    case Nil
    have "spec_of (createInitialState sid prompt) = spec_init"
      by (simp add: spec_of_def spec_init_def createInitialState_def awaiting_ids_def)
    then show ?case by (simp add: reach_init)
  next
    case (snoc x xs)
    then show ?case using reach_step [OF snoc sim [OF ok]] by (simp add: fold_events_append)
  qed
  then show ?thesis by (simp add: Let_def sim [OF ok])
qed

end
