(* ===== verification/Kernel_Transcript.thy ===== *)
theory Kernel_Transcript
  imports Kernel_Properties
begin

text \<open>
  The shape of the transcript. When the events carry tool blocks only where the protocol puts them,
  the calls of the transcript that have no result yet are exactly the pending calls, and no call is
  answered twice: a transcript that rests is one a model provider accepts. The repair that
  \<open>onUserMessage\<close> runs for transcripts of other origin is analysed on its own: it settles what it
  finds and changes nothing else.
\<close>

abbreviation open_ids :: "Message list \<Rightarrow> string set" where
  "open_ids ms \<equiv> fst ` set (unresolved_calls ms)"

section \<open>The loop over the content blocks\<close>

lemma track_keys:
  "fst ` set (track_unresolved (ToolCall tc) m) = insert (tc_callId tc) (fst ` set m)"
  "fst ` set (track_unresolved (ToolResult tr) m) = fst ` set m - {tr_callId tr}"
  by simp_all

lemma fold_track_calls:
  "result_ids bs = [] \<Longrightarrow> fst ` set (fold track_unresolved bs m) = fst ` set m \<union> set (call_ids bs)"
  by (induction bs arbitrary: m rule: call_ids.induct) auto

lemma fold_track_results:
  "call_ids bs = [] \<Longrightarrow> fst ` set (fold track_unresolved bs m) = fst ` set m - set (result_ids bs)"
  by (induction bs arbitrary: m rule: call_ids.induct) auto

lemma fold_track_mono:
  "fst ` set m \<subseteq> fst ` set n \<Longrightarrow> fst ` set (fold track_unresolved bs m) \<subseteq> fst ` set (fold track_unresolved bs n)"
proof (induction bs arbitrary: m n)
  case (Cons b bs)
  have "fst ` set (track_unresolved b m) \<subseteq> fst ` set (track_unresolved b n)"
    using Cons.prems by (cases b) auto
  then show ?case by (simp add: Cons.IH)
qed simp

lemma update_append_fresh: "k \<notin> fst ` set m \<Longrightarrow> AList.update k v (m @ n) = m @ AList.update k v n"
  by (induction m) auto

lemma delete_append_fresh: "k \<notin> fst ` set m \<Longrightarrow> AList.delete k (m @ n) = m @ AList.delete k n"
  by (induction m) (auto simp: AList.delete_eq)

text \<open>Blocks that do not mention the open calls treat them as a frame.\<close>

lemma fold_track_frame:
  "fst ` set m \<inter> (set (call_ids bs) \<union> set (result_ids bs)) = {} \<Longrightarrow>
   fold track_unresolved bs (m @ n) = m @ fold track_unresolved bs n"
proof (induction bs arbitrary: n)
  case (Cons b bs)
  then show ?case
    by (cases b) (auto simp: update_append_fresh delete_append_fresh)
qed simp

lemma unresolved_append: "unresolved_calls (ms @ ns) = fold track_unresolved (concat (map msg_content ns)) (unresolved_calls ms)"
  by (simp add: unresolved_calls_def)

lemma concat_content_ids [simp]:
  "call_ids (concat (map msg_content ms)) = transcript_call_ids ms"
  "result_ids (concat (map msg_content ms)) = transcript_result_ids ms"
  by (induction ms) simp_all

lemma open_append_calls:
  "transcript_result_ids ns = [] \<Longrightarrow> open_ids (ms @ ns) = open_ids ms \<union> set (transcript_call_ids ns)"
  by (simp add: unresolved_append fold_track_calls)

lemma open_append_results:
  "transcript_call_ids ns = [] \<Longrightarrow> open_ids (ms @ ns) = open_ids ms - set (transcript_result_ids ns)"
  by (simp add: unresolved_append fold_track_results)

lemma open_subset_calls: "open_ids ms \<subseteq> set (transcript_call_ids ms)"
proof -
  have "fst ` set (fold track_unresolved bs m) \<subseteq> fst ` set m \<union> set (call_ids bs)" for bs m
  proof (induction bs arbitrary: m)
    case (Cons b bs)
    have "fst ` set (track_unresolved b m) \<subseteq> fst ` set m \<union> set (call_ids [b])"
      by (cases b) auto
    moreover have "set (call_ids (b # bs)) = set (call_ids [b]) \<union> set (call_ids bs)"
      using call_ids_append [of "[b]" bs] by simp
    ultimately show ?case using Cons [of "track_unresolved b m"] unfolding fold_simps by blast
  qed simp
  from this [of "concat (map msg_content ms)" "[]"] show ?thesis by (simp add: unresolved_calls_def)
qed

section \<open>The repair of a transcript\<close>

lemma transcript_cancelled_results: "transcript_result_ids (map (cancelled_result \<circ> f) xs) = map f xs"
  by (induction xs) simp_all

lemma turnStart_append_tools:
  "\<forall>m \<in> set ns. msg_role m \<noteq> User \<Longrightarrow> turnStart_scan (ms @ ns) (length (ms @ ns)) = turnStart_scan ms (length ms)"
proof (induction ns rule: rev_induct)
  case Nil
  have "turnStart_scan (ms @ ns) n = turnStart_scan ms n" if "n \<le> length ms" for n ns
    using that by (induction n) (auto simp: nth_append)
  then show ?case by simp
next
  case (snoc x xs)
  have "turnStart_scan (ms @ xs @ [x]) n = turnStart_scan (ms @ xs) n" if "n \<le> length (ms @ xs)" for n
    using that by (induction n) (auto simp: nth_append)
  with snoc show ?case by (simp add: nth_append)
qed

lemma turnStart_le: "turnStart_scan ms n \<le> n"
  by (induction n) auto

text \<open>
  The repair that precedes a user message only appends to the transcript, one failed result for
  each call of the current turn that has none; afterwards no call of that turn is open, and running it
  again changes nothing.
\<close>

theorem repair_settles_turn:
  "let start = turnStart_scan ms (length ms); repaired = appendCancelledResultsForOrphanedToolCalls ms
   in repaired = ms @ map (cancelled_result \<circ> fst) (unresolved_calls (drop start ms)) \<and>
      turnStart_scan repaired (length repaired) = start \<and>
      unresolved_calls (drop start repaired) = [] \<and>
      appendCancelledResultsForOrphanedToolCalls repaired = repaired"
proof -
  define start where "start = turnStart_scan ms (length ms)"
  let ?un = "unresolved_calls (drop start ms)"
  let ?rep = "ms @ map (cancelled_result \<circ> fst) ?un"
  have rep: "appendCancelledResultsForOrphanedToolCalls ms = ?rep"
    by (simp add: appendCancelledResultsForOrphanedToolCalls_def start_def Let_def)
  have st: "turnStart_scan ?rep (length ?rep) = start"
    unfolding start_def by (rule turnStart_append_tools) auto
  have "start \<le> length ms" by (simp add: start_def turnStart_le)
  then have "drop start ?rep = drop start ms @ map (cancelled_result \<circ> fst) ?un" by simp
  then have "open_ids (drop start ?rep) = {}"
    by (simp only: open_append_results [OF transcript_cancelled] transcript_cancelled_results) auto
  then have un: "unresolved_calls (drop start ?rep) = []" by simp
  then have "appendCancelledResultsForOrphanedToolCalls ?rep = ?rep"
    unfolding appendCancelledResultsForOrphanedToolCalls_def by (simp only: st Let_def un if_True refl)
  with rep st un show ?thesis by (simp add: Let_def start_def)
qed

section \<open>Tidy transcripts\<close>

definition tidy :: "AgentState \<Rightarrow> bool" where
  "tidy s \<longleftrightarrow>
     distinct (transcript_call_ids (messages s)) \<and> distinct (transcript_result_ids (messages s)) \<and>
     set (transcript_result_ids (messages s)) \<subseteq> set (transcript_call_ids (messages s)) \<and>
     open_ids (messages s) = set (transcript_call_ids (messages s)) - set (transcript_result_ids (messages s)) \<and>
     p_callId ` set (pendingCalls s) = open_ids (messages s) \<and>
     (\<forall>m \<in> set (messages s). msg_role m = System \<longrightarrow> call_ids (msg_content m) = [] \<and> result_ids (msg_content m) = [])"

text \<open>
  Events that carry tool blocks only where the protocol puts them: none in a user message, no result
  in a response of the model; a rewrite replaces a range in which every call is settled by messages
  without tool blocks.
\<close>

definition tool_free :: "Message list \<Rightarrow> bool" where
  "tool_free ms \<longleftrightarrow> transcript_call_ids ms = [] \<and> transcript_result_ids ms = []"

definition settled_range :: "Message list \<Rightarrow> bool" where
  "settled_range ms \<longleftrightarrow> unresolved_calls ms = [] \<and> set (transcript_result_ids ms) \<subseteq> set (transcript_call_ids ms)"

fun clean_event :: "AgentState \<Rightarrow> AgentEvent \<Rightarrow> bool" where
  "clean_event s (EUserMessage ev) \<longleftrightarrow>
     (case um_content ev of None \<Rightarrow> True | Some cs \<Rightarrow> call_ids cs = [] \<and> result_ids cs = [])"
| "clean_event s (ELlmResponse ev) \<longleftrightarrow> result_ids (msg_content (lr_message ev)) = []"
| "clean_event s (EMessagesReplaced ev) \<longleftrightarrow>
     (case (mr_start ev, mr_end ev) of
        (Integer i, Integer j) \<Rightarrow>
          settled_range (take (nat j - nat i) (drop (nat i) (messages s))) \<and> tool_free (mr_replacementMessages ev)
      | _ \<Rightarrow> True)"
| "clean_event s _ \<longleftrightarrow> True"

lemma tidy_advance [simp]: "tidy (advance s) = tidy s"
  by (simp add: tidy_def)

lemma clean_event_advance [simp]: "clean_event (advance s) e = clean_event s e"
  by (cases e) (simp_all cong: js_number.case_cong)

text \<open>The ways a handler may extend a tidy transcript.\<close>

lemma tidy_same: "tidy s \<Longrightarrow> messages t = messages s \<Longrightarrow> p_callId ` set (pendingCalls t) = p_callId ` set (pendingCalls s) \<Longrightarrow> tidy t"
  by (simp add: tidy_def)

lemma tidy_neutral:
  assumes "tidy s" "messages t = messages s @ ns" "transcript_call_ids ns = []" "transcript_result_ids ns = []"
    and "p_callId ` set (pendingCalls t) = p_callId ` set (pendingCalls s)"
  shows "tidy t"
proof -
  have "open_ids (messages t) = open_ids (messages s)"
    by (simp only: assms(2) open_append_calls [OF assms(4)] assms(3)) simp
  moreover have "call_ids (msg_content m) = [] \<and> result_ids (msg_content m) = []" if "m \<in> set ns" for m
    using that assms(3,4) by (auto simp: transcript_call_ids_def transcript_result_ids_def)
  ultimately show ?thesis using assms by (auto simp: tidy_def)
qed

lemma tidy_results:
  assumes "tidy s" "messages t = messages s @ ns" "transcript_call_ids ns = []" "distinct (transcript_result_ids ns)"
    and "\<forall>m \<in> set ns. msg_role m = Tool" "set (transcript_result_ids ns) \<subseteq> p_callId ` set (pendingCalls s)"
    and "p_callId ` set (pendingCalls t) = p_callId ` set (pendingCalls s) - set (transcript_result_ids ns)"
  shows "tidy t"
proof -
  have "open_ids (messages t) = open_ids (messages s) - set (transcript_result_ids ns)"
    by (simp only: assms(2) open_append_results [OF assms(3)])
  then show ?thesis using assms by (auto simp: tidy_def)
qed

lemma response_kept_denied:
  assumes "distinct (call_ids (msg_content m))"
  shows "p_callId ` set (response_pending s c m) = set (call_ids (msg_content m)) - set (map tc_callId (response_denied s c m))"
    and "set (map tc_callId (response_denied s c m)) \<subseteq> set (call_ids (msg_content m))"
    and "distinct (map tc_callId (response_denied s c m))"
proof -
  have d: "distinct (map tc_callId (response_calls m))" by (simp add: response_calls_ids assms)
  have "p_callId ` set (response_pending s c m) = set (map tc_callId (response_kept s c m))"
    by (metis response_pending_ids set_map)
  also have "\<dots> = tc_callId ` (set (response_calls m) - set (response_denied s c m))"
    by (auto simp: response_kept_def response_denied_def)
  also have "\<dots> = tc_callId ` set (response_calls m) - tc_callId ` set (response_denied s c m)"
    using d by (intro inj_on_image_set_diff) (auto simp: distinct_map response_denied_def)
  finally show "p_callId ` set (response_pending s c m) = set (call_ids (msg_content m)) - set (map tc_callId (response_denied s c m))"
    by (simp add: response_calls_ids [symmetric])
  show "distinct (map tc_callId (response_denied s c m))"
    unfolding response_denied_def using d by (rule distinct_map_filterI)
  show "set (map tc_callId (response_denied s c m)) \<subseteq> set (call_ids (msg_content m))"
    by (auto simp: response_calls_ids [symmetric] response_denied_def)
qed

lemma tidy_response:
  assumes "tidy s" "pendingCalls s = []" "admissible_response s m" "result_ids (msg_content m) = []"
    and "messages t = response_messages s c m"
    and "p_callId ` set (pendingCalls t) = p_callId ` set (response_pending s c m)"
  shows "tidy t"
proof -
  let ?ids = "set (call_ids (msg_content m))"
  define dn where "dn = drop (Suc (length (messages s))) (response_messages s c m)"
  have ms: "response_messages s c m = (messages s @ [sanitizeMessage m]) @ dn"
    by (simp add: dn_def response_messages_def)
  have dn: "transcript_call_ids dn = []" "transcript_result_ids dn = map tc_callId (response_denied s c m)"
      "\<forall>x \<in> set dn. msg_role x = Tool"
    by (auto simp: dn_def response_messages_def)
  have res1: "transcript_result_ids [sanitizeMessage m] = []" using assms(4) by simp
  have op: "open_ids (messages t) = ?ids - set (map tc_callId (response_denied s c m))"
    unfolding assms(5) ms open_append_results [OF dn(1)] open_append_calls [OF res1]
    using assms(1,2) by (auto simp: dn(2) tidy_def)
  have adm: "distinct (call_ids (msg_content m))" using assms(3) by (simp add: admissible_response_def)
  note kept = response_kept_denied(1) [OF adm, of s c] and den = response_kept_denied(2) [OF adm, of s c]
    and dist = response_kept_denied(3) [OF adm, of s c]
  have none: "set (transcript_call_ids (messages s)) = set (transcript_result_ids (messages s))"
    using assms(1,2) by (auto simp: tidy_def)
  have "distinct (transcript_call_ids (messages t))" "distinct (transcript_result_ids (messages t))"
    using assms(1,3) none den dist by (auto simp: assms(5) ms dn tidy_def admissible_response_def assms(4))
  moreover have "set (transcript_result_ids (messages t)) \<subseteq> set (transcript_call_ids (messages t))"
    "set (transcript_call_ids (messages t)) - set (transcript_result_ids (messages t)) = open_ids (messages t)"
    using den none assms(3) unfolding op by (auto simp: assms(4,5) ms dn admissible_response_def)
  ultimately show ?thesis
    using assms(1,3,6) op kept dn(3) by (auto simp: tidy_def assms(5) ms admissible_response_def)
qed

lemma fold_track_neutral: "call_ids bs = [] \<Longrightarrow> result_ids bs = [] \<Longrightarrow> fold track_unresolved bs m = m"
  by (induction bs arbitrary: m rule: call_ids.induct) auto

lemma fold_track_unanswered: "set (call_ids bs) - set (result_ids bs) \<subseteq> fst ` set (fold track_unresolved bs m)"
proof (induction bs arbitrary: m rule: rev_induct)
  case (snoc b bs)
  then show ?case by (cases b) fastforce+
qed simp

lemma unresolved_settled_range:
  assumes "distinct (transcript_call_ids (pre @ rng @ post))" "settled_range rng" "tool_free rep"
  shows "unresolved_calls (pre @ rep @ post) = unresolved_calls (pre @ rng @ post)"
proof -
  have "fst ` set (unresolved_calls pre) \<inter> (set (transcript_call_ids rng) \<union> set (transcript_result_ids rng)) = {}"
    using assms(1,2) open_subset_calls [of pre] by (auto simp: settled_range_def)
  then have "unresolved_calls (pre @ rng) = unresolved_calls pre"
    using fold_track_frame [of "unresolved_calls pre" "concat (map msg_content rng)" "[]"] assms(2)
    by (simp add: unresolved_append settled_range_def unresolved_calls_def)
  moreover have "unresolved_calls (pre @ rep) = unresolved_calls pre"
    using assms(3) by (simp add: unresolved_append fold_track_neutral tool_free_def)
  ultimately show ?thesis
    by (simp only: append_assoc [symmetric] unresolved_append [of "pre @ _"])
qed

lemma settled_range_ids: "settled_range rng \<Longrightarrow> set (transcript_result_ids rng) = set (transcript_call_ids rng)"
  using fold_track_unanswered [of "concat (map msg_content rng)" "[]"]
  by (auto simp: settled_range_def unresolved_calls_def)

lemma messagesWithSystemPrompt_ids:
  assumes "\<forall>m \<in> set ms. msg_role m = System \<longrightarrow> call_ids (msg_content m) = [] \<and> result_ids (msg_content m) = []"
  shows "transcript_call_ids (messagesWithSystemPrompt ms p) = transcript_call_ids ms"
    and "transcript_result_ids (messagesWithSystemPrompt ms p) = transcript_result_ids ms"
    and "unresolved_calls (messagesWithSystemPrompt ms p) = unresolved_calls ms"
  using assms
  by (cases ms; auto simp: messagesWithSystemPrompt_def unresolved_calls_def fold_track_neutral Let_def)+

lemma tidy_prompt:
  assumes "tidy s" "messages t = messagesWithSystemPrompt (messages s) p" "pendingCalls t = pendingCalls s"
  shows "tidy t"
  using assms messagesWithSystemPrompt_ids [of "messages s" p]
  by (auto simp: tidy_def dest!: messagesWithSystemPrompt_memD)

lemma tidy_rewrite:
  assumes "tidy s" "messages s = pre @ rng @ post" "settled_range rng" "tool_free rep"
    and "messages t = pre @ rep @ post" "pendingCalls t = pendingCalls s"
  shows "tidy t"
proof -
  have un: "unresolved_calls (messages t) = unresolved_calls (messages s)"
    using assms unresolved_settled_range [of pre rng post rep] by (simp add: tidy_def)
  have rep: "call_ids (msg_content m) = [] \<and> result_ids (msg_content m) = []" if "m \<in> set rep" for m
    using that assms(4) by (auto simp: tool_free_def transcript_call_ids_def transcript_result_ids_def)
  have ids: "set (transcript_result_ids rng) = set (transcript_call_ids rng)"
    using assms(3) by (rule settled_range_ids)
  have "set (transcript_result_ids (messages t)) \<subseteq> set (transcript_call_ids (messages t))"
    using assms(1,4) ids by (auto simp: tidy_def assms(2,5) tool_free_def)
  moreover have "open_ids (messages t) = set (transcript_call_ids (messages t)) - set (transcript_result_ids (messages t))"
    unfolding un using assms(1,4) ids by (auto simp: tidy_def assms(2,5) tool_free_def)
  ultimately show ?thesis
    using assms un rep by (auto simp: tidy_def tool_free_def)
qed

lemma tidy_replaced:
  assumes "tidy s" "a \<le> b" "b \<le> length (messages s)"
    and "settled_range (take (b - a) (drop a (messages s)))" "tool_free (mr_replacementMessages ev)"
    and "messages t = replaced_messages s ev a b" "pendingCalls t = pendingCalls s"
  shows "tidy t"
proof -
  let ?ms = "take a (messages s) @ mr_replacementMessages ev @ drop b (messages s)"
  have "messages s = take a (messages s) @ take (b - a) (drop a (messages s)) @ drop b (messages s)"
    using assms(2) by (metis append_take_drop_id drop_drop le_add_diff_inverse2)
  then have "tidy (s\<lparr>messages := ?ms\<rparr>)"
    using assms(4,5) by (intro tidy_rewrite [OF assms(1)]) auto
  then show ?thesis
    using assms(6,7)
    by (cases "systemPromptOverride s")
       (auto simp: replaced_messages_def Let_def intro: tidy_same tidy_prompt)
qed

lemma tidy_idle_pending: "tidy s \<Longrightarrow> pendingCalls s = [] \<Longrightarrow> unresolved_calls (messages s) = []"
  by (auto simp: tidy_def)

lemma tidy_repair: "tidy s \<Longrightarrow> pendingCalls s = [] \<Longrightarrow> appendCancelledResultsForOrphanedToolCalls (messages s) = messages s"
proof -
  assume "tidy s" "pendingCalls s = []"
  then have un: "unresolved_calls (messages s) = []" by (rule tidy_idle_pending)
  let ?n = "turnStart_scan (messages s) (length (messages s))"
  have "open_ids (drop ?n (messages s)) \<subseteq> open_ids (take ?n (messages s) @ drop ?n (messages s))"
    unfolding unresolved_append by (simp only: unresolved_calls_def) (rule fold_track_mono, simp)
  then have "unresolved_calls (drop ?n (messages s)) = []" using un by simp
  then show ?thesis by (simp add: appendCancelledResultsForOrphanedToolCalls_def Let_def)
qed

lemma tidy_settle:
  assumes "tidy s" "target \<in> set (pendingCalls s)" "p_callId target = cid"
  shows "tidy (hr_next (afterPendingSettled s (messages s @ [tool_result_message cid ok t fl]) (settle_call cid (pendingCalls s)) c))"
proof -
  have "p_callId ` set (settle_call cid (pendingCalls s)) = p_callId ` set (pendingCalls s) - {cid}"
    by auto
  moreover have "cid \<in> p_callId ` set (pendingCalls s)" using assms(2,3) by blast
  ultimately show ?thesis
    by (intro tidy_results [OF assms(1), where ns = "[tool_result_message cid ok t fl]"]) simp_all
qed

lemma handle_tidy:
  assumes "handle s e c = Some r" and "tidy s" and "valid s" and "pending_ok s" and "clean_event s e"
  shows "tidy (hr_next r)"
  using assms(1)
proof (cases rule: handle_cases)
  case (um ev)
  then have "pendingCalls s = []" using assms(3) by (auto simp: valid_iff)
  then show ?thesis
    using um assms(2,5) tidy_repair [OF assms(2)]
    by (auto simp: onUserMessage_def Let_def split: option.splits intro!: tidy_neutral [OF assms(2)])
next
  case (lr ev)
  then have "pendingCalls s = []" using assms(3) by (simp add: valid_iff)
  moreover have "result_ids (msg_content (lr_message ev)) = []" using assms(5) lr(1) by simp
  ultimately have resp: "tidy t" if "admissible_response s (lr_message ev)" "messages t = response_messages s c (lr_message ev)"
      "p_callId ` set (pendingCalls t) = p_callId ` set (response_pending s c (lr_message ev))" for t
    using that by (intro tidy_response [OF assms(2)])
  show ?thesis
  proof (cases rule: onLlmResponse_cases [of s "lr_message ev" "lr_usage ev" c])
    case plain
    then show ?thesis
      using lr assms(3,5) by (intro tidy_neutral [OF assms(2), where ns = "[sanitizeMessage (lr_message ev)]"])
        (auto simp: valid_iff)
  next
    case staged
    then show ?thesis unfolding lr(3) by (intro resp) (simp_all add: image_image)
  qed (simp_all add: lr(3) assms(2) resp)
next
  case (le err)
  then show ?thesis using assms(2,3) by (auto simp: onLlmError_def valid_iff intro!: tidy_same [OF assms(2)])
next
  case (ua cid)
  then show ?thesis
    by (cases rule: onUserApprove_cases [of s cid]) (simp_all add: assms(2) tidy_same [OF assms(2)])
next
  case (ur cid reason)
  then show ?thesis
    using assms(2) by (cases rule: onUserReject_cases [of s cid reason c]) (auto intro: tidy_settle)
next
  case (tr ev)
  then show ?thesis
    using assms(2)
    by (cases rule: onToolResult_cases [of s "te_callId ev" "te_ok ev" "te_content ev" c "te_failure ev"])
       (auto intro: tidy_settle)
next
  case ca
  let ?ns = "map (cancelled_result \<circ> p_callId) (pendingCalls s)"
  have "transcript_result_ids ?ns = map p_callId (pendingCalls s)"
    by (rule transcript_cancelled_results)
  then show ?thesis
    using ca assms(4)
    by (intro tidy_results [OF assms(2), where ns = ?ns]) (auto simp: onCancel_def pending_ok_def)
next
  case (mr ev)
  show ?thesis
  proof (cases rule: onMessagesReplaced_cases [of s ev c])
    case (replaced a b)
    then show ?thesis
      using mr assms(3,5) tidy_replaced [OF assms(2) replaced(3,4)] by (auto simp: valid_iff)
  qed (simp add: mr(3) assms(2))
next
  case (sp p v)
  then show ?thesis by (auto simp: onSystemPromptChanged_def intro!: tidy_prompt [OF assms(2)])
next
  case cl
  then show ?thesis
    by (auto simp: onClear_def tidy_def messagesWithSystemPrompt_def unresolved_calls_def split: option.splits)
qed (use assms(2) in \<open>auto simp: handler_defs Let_def intro: tidy_same\<close>)

definition tidy_state :: "AgentState \<Rightarrow> bool" where
  "tidy_state s \<longleftrightarrow> tidy s \<and> valid s \<and> pending_ok s"

interpretation tidy_runs: guarded_machine "kstep c" clean_event tidy_state for c
proof unfold_locales
  fix s e
  assume "tidy_state s" "clean_event s e"
  then have ok: "tidy (advance s)" "valid (advance s)" "pending_ok (advance s)" "clean_event (advance s) e"
    by (simp_all add: tidy_state_def)
  have "tidy (sr_next (step s e c))"
    using ok(1) by (rule step_inv_rule) (rule handle_tidy [OF _ ok])
  then show "tidy_state (sr_next (step s e c))"
    using \<open>tidy_state s\<close> by (simp add: tidy_state_def valid_step step_pending_ok)
qed

lemma tidy_initial: "tidy_state (createInitialState sid prompt)"
proof -
  have "tidy (createInitialState sid prompt)"
    by (auto simp: tidy_def createInitialState_def unresolved_calls_def split: option.splits)
  then show ?thesis by (simp add: tidy_state_def valid_initial pending_ok_initial)
qed

text \<open>
  C3: In every session whose events carry tool blocks only where the protocol puts them, the
  identifiers of the transcript's tool calls are distinct, and the results recorded so far together
  with the pending calls are exactly those calls, each once. When nothing is pending, every call has
  exactly one result and the repair before the next user message finds nothing to do.
\<close>

theorem transcript_calls_answered_once:
  assumes "run_guarded clean_event (kstep c) (createInitialState sid prompt) es"
  shows "let s = fold_events (createInitialState sid prompt) es c
         in distinct (transcript_call_ids (messages s)) \<and>
            mset (transcript_result_ids (messages s)) + mset (map p_callId (pendingCalls s))
              = mset (transcript_call_ids (messages s)) \<and>
            (pendingCalls s = [] \<longrightarrow> appendCancelledResultsForOrphanedToolCalls (messages s) = messages s)"
proof -
  define s where "s = fold_events (createInitialState sid prompt) es c"
  have ok: "tidy s" "pending_ok s"
    using tidy_runs.inv_run [OF tidy_initial assms] by (simp_all add: s_def fold_events_run tidy_state_def)
  have "distinct (transcript_result_ids (messages s) @ map p_callId (pendingCalls s))"
    "set (transcript_result_ids (messages s) @ map p_callId (pendingCalls s)) = set (transcript_call_ids (messages s))"
    using ok by (auto simp: tidy_def pending_ok_def)
  moreover have dist: "distinct (transcript_call_ids (messages s))" using ok(1) by (simp add: tidy_def)
  ultimately have "mset (transcript_result_ids (messages s) @ map p_callId (pendingCalls s)) = mset (transcript_call_ids (messages s))"
    by (metis set_eq_iff_mset_eq_distinct)
  then show ?thesis
    using dist tidy_repair [OF ok(1)] by (simp add: s_def [symmetric] Let_def)
qed

theorem transcript_calls_answered_once_witness:
  "let s = fold_events (createInitialState ''s1'' None) (sample_events @ [EToolResult (sample_result ''b''), ECancel]) sample_config
   in distinct (transcript_call_ids (messages s)) \<and>
      mset (transcript_result_ids (messages s)) + mset (map p_callId (pendingCalls s)) = mset (transcript_call_ids (messages s)) \<and>
      (pendingCalls s = [] \<longrightarrow> appendCancelledResultsForOrphanedToolCalls (messages s) = messages s)"
  by (rule transcript_calls_answered_once) code_simp

end
