(* ===== verification/Dag_Types.thy ===== *)
theory Dag_Types
  imports Kala_Prelude
begin

text \<open>
  The data of the task graphs of the host, from \<open>packages/shared/src/dag.ts\<close>, and the database
  rows of \<open>packages/host/src/dag/store.ts\<close>. A JSON column is the list it encodes; a timestamp is
  its number of milliseconds, which orders timestamps as their ISO texts are ordered; an auto-increment
  id is the row's position in its table.
\<close>

type_synonym timestamp = nat

datatype DagRunStatus = RunPlanning | RunRunning | RunPaused | RunCompleted | RunFailed | RunCancelled

datatype DagNodeStatus =
    NPending | NReady | NRunning | NWaitingUser | NSucceeded | NFailed | NCancelled | NReplaced

datatype DagDecisionStatus = DecPending | DecAnswered | DecCancelled
datatype DagRiskLevel = RiskLow | RiskMedium | RiskHigh
datatype DagNodeAttemptStatus =
    AtRunning | AtSucceeded | AtFailed | AtCancelled | AtInterrupted | AtWaitingUser | AtReplaced

datatype DagToolActivityCategory = CatRead | CatShell | CatWrite | CatNetwork | CatInstall | CatSystem | CatOther
datatype DagToolActivityStatus = ActSucceeded | ActFailed | ActUnknown

record DagToolActivity =
  ta_callId :: string
  ta_name :: string
  ta_category :: DagToolActivityCategory
  ta_status :: DagToolActivityStatus
  ta_summary :: string

record DagNode =
  n_id :: string
  n_runId :: string
  n_title :: string
  n_instructions :: string
  n_status :: DagNodeStatus
  n_depth :: nat
  n_writeScopes :: "string list"
  n_estimatedDurationMinutes :: "int option"
  n_attempt :: nat
  n_childSessionId :: "string option"
  n_progress :: "string option"
  n_result :: "string option"
  n_error :: "string option"
  n_replacedBy :: "string option"
  n_startedAt :: "timestamp option"
  n_completedAt :: "timestamp option"
  n_toolActivity :: "DagToolActivity list"

record DagEdge =
  e_id :: string
  e_runId :: string
  e_source :: string
  e_target :: string

record DagDecision =
  dc_id :: string
  dc_runId :: string
  dc_nodeId :: string
  dc_question :: string
  dc_context :: string
  dc_choices :: "string list"
  dc_allowFreeform :: bool
  dc_recommendation :: "string option"
  dc_reason :: "string option"
  dc_riskLevel :: "DagRiskLevel option"
  dc_status :: DagDecisionStatus
  dc_answer :: "string option"
  dc_createdAt :: timestamp
  dc_answeredAt :: "timestamp option"

datatype DagEventType = EvRun | EvNode | EvDecision | EvGraph | EvLease

record DagEvent =
  ev_runId :: string
  ev_type :: DagEventType
  ev_message :: string
  ev_nodeId :: "string option"
  ev_createdAt :: timestamp

record DagNodeAttempt =
  at_runId :: string
  at_nodeId :: string
  at_attempt :: nat
  at_workerId :: string
  at_status :: DagNodeAttemptStatus
  at_startedAt :: timestamp
  at_completedAt :: "timestamp option"
  at_result :: "string option"
  at_error :: "string option"

record DagPlanEdgeInput =
  pe_source :: string
  pe_target :: string

record DagGraphVersionNode =
  gvn_id :: string
  gvn_title :: string
  gvn_instructions :: string
  gvn_depth :: nat
  gvn_writeScopes :: "string list"
  gvn_estimatedDurationMinutes :: "int option"

record DagGraphVersion =
  gv_runId :: string
  gv_version :: nat
  gv_resultNodeId :: string
  gv_nodes :: "DagGraphVersionNode list"
  gv_edges :: "DagPlanEdgeInput list"
  gv_createdAt :: timestamp

text \<open>The row of \<open>dag_runs\<close>.\<close>

record RunRow =
  r_id :: string
  r_parentSessionId :: string
  r_objective :: string
  r_status :: DagRunStatus
  r_graphVersion :: nat
  r_resultNodeId :: "string option"
  r_result :: "string option"
  r_error :: "string option"
  r_completedAt :: "timestamp option"
  r_createdAt :: timestamp
  r_updatedAt :: timestamp

text \<open>What the store returns for a run: its row with the rows of the other tables that belong to it.\<close>

record DagRun =
  run_row :: RunRow
  run_nodes :: "DagNode list"
  run_edges :: "DagEdge list"
  run_decisions :: "DagDecision list"
  run_eventLog :: "DagEvent list"
  run_attempts :: "DagNodeAttempt list"
  run_graphHistory :: "DagGraphVersion list"

record DagPlanNodeInput =
  pn_id :: string
  pn_title :: string
  pn_instructions :: string
  pn_writeScopes :: "string list option"
  pn_estimatedDurationMinutes :: "js_number option"

record DagGraphPatch =
  gp_expectedGraphVersion :: js_number
  gp_resultNodeId :: string
  gp_nodes :: "DagPlanNodeInput list"
  gp_edges :: "DagPlanEdgeInput list"

text \<open>The errors thrown by the graph checks, by the store and by the constraints of the schema.\<close>

datatype dag_error =
    DagGraphError string
  | StoreError string
  | ConstraintError string

end
