(* ===== verification/Dag_Graph.thy ===== *)
theory Dag_Graph
  imports Dag_Types
begin

text \<open>
  The graph checks of \<open>packages/host/src/dag/graph.ts\<close> and \<open>graphDepths\<close>, \<open>uniqueEdges\<close> of
  \<open>store.ts\<close>: acceptance of a plan, entry and reachability of a replacement, the node life cycle,
  readiness and write scopes. The checks raise errors, so they return a sum.
\<close>

section \<open>Node life cycle\<close>

definition NODE_TRANSITIONS :: "DagNodeStatus \<Rightarrow> DagNodeStatus list" where
  "NODE_TRANSITIONS st = (case st of
      NPending \<Rightarrow> [NReady, NCancelled]
    | NReady \<Rightarrow> [NRunning, NCancelled]
    | NRunning \<Rightarrow> [NReady, NWaitingUser, NSucceeded, NFailed, NCancelled, NReplaced]
    | NWaitingUser \<Rightarrow> [NReady, NCancelled]
    | NSucceeded \<Rightarrow> []
    | NFailed \<Rightarrow> []
    | NCancelled \<Rightarrow> []
    | NReplaced \<Rightarrow> [])"

definition node_status_text :: "DagNodeStatus \<Rightarrow> string" where
  "node_status_text st = (case st of
      NPending \<Rightarrow> ''pending'' | NReady \<Rightarrow> ''ready'' | NRunning \<Rightarrow> ''running'' | NWaitingUser \<Rightarrow> ''waiting_user''
    | NSucceeded \<Rightarrow> ''succeeded'' | NFailed \<Rightarrow> ''failed'' | NCancelled \<Rightarrow> ''cancelled'' | NReplaced \<Rightarrow> ''replaced'')"

definition assertNodeTransition :: "DagNodeStatus \<Rightarrow> DagNodeStatus \<Rightarrow> dag_error + unit" where
  "assertNodeTransition from to =
     (if to \<notin> set (NODE_TRANSITIONS from)
      then Inl (DagGraphError (''Cannot transition DAG node from '' @ node_status_text from @ '' to '' @ node_status_text to))
      else Inr ())"

section \<open>Acceptance of a graph\<close>

definition edge_key :: "DagPlanEdgeInput \<Rightarrow> string" where
  "edge_key e = pe_source e @ [CHR 0x00] @ pe_target e"

text \<open>
  The loop over the edges: the checks, then the indegree of the target and the successors of the
  source. Both maps are insertion-ordered.
\<close>

fun scan_edges ::
  "string list \<Rightarrow> DagPlanEdgeInput list \<Rightarrow> string set \<Rightarrow> (string \<times> int) list \<Rightarrow> (string \<times> string list) list
   \<Rightarrow> dag_error + ((string \<times> int) list \<times> (string \<times> string list) list)" where
  "scan_edges ids [] keys indegree outgoing = Inr (indegree, outgoing)"
| "scan_edges ids (e # es) keys indegree outgoing =
     (if pe_source e \<notin> set ids \<or> pe_target e \<notin> set ids then Inl (DagGraphError ''DAG edge references an unknown node'')
      else if pe_source e = pe_target e then Inl (DagGraphError ''DAG self edges are not allowed'')
      else if edge_key e \<in> keys then Inl (DagGraphError ''DAG edges must be unique'')
      else scan_edges ids es (insert (edge_key e) keys)
             (AList.update (pe_target e) (coalesce (map_of indegree (pe_target e)) 0 + 1) indegree)
             (AList.update (pe_source e) (coalesce (map_of outgoing (pe_source e)) [] @ [pe_target e]) outgoing))"

text \<open>The inner loop over the successors of a visited node.\<close>

fun relax :: "string list \<Rightarrow> string list \<Rightarrow> (string \<times> int) list \<Rightarrow> string list \<times> (string \<times> int) list" where
  "relax [] queue indegree = (queue, indegree)"
| "relax (t # ts) queue indegree =
     (case map_of indegree t of
        None \<Rightarrow> relax ts queue indegree
      | Some v \<Rightarrow> relax ts (if v - 1 = 0 then queue @ [t] else queue) (AList.update t (v - 1) indegree))"

text \<open>The loop terminates: a node enters the queue when its indegree drops to zero, which it does once.\<close>

definition positives :: "(string \<times> int) list \<Rightarrow> nat" where
  "positives m = length (filter (\<lambda>kv. 0 < snd kv) m)"

lemma positives_update:
  "map_of m t = Some v \<Longrightarrow>
   positives (AList.update t (v - 1) m) + (if v = 1 then 1 else 0) = positives m"
  by (induction m) (auto simp: positives_def split: if_splits)

lemma relax_measure: "relax ts q m = (q', m') \<Longrightarrow> length q' + positives m' = length q + positives m"
proof (induction ts q m rule: relax.induct)
  case (2 t ts q m)
  show ?case
  proof (cases "map_of m t")
    case None
    with 2 show ?thesis by simp
  next
    case (Some v)
    with 2(2) [OF Some] 2(3) positives_update [OF Some] show ?thesis by (auto split: if_splits)
  qed
qed simp

function kahn :: "(string \<times> string list) list \<Rightarrow> string list \<Rightarrow> (string \<times> int) list \<Rightarrow> nat \<Rightarrow> nat" where
  "kahn outgoing [] indegree visited = visited"
| "kahn outgoing (x # queue) indegree visited =
     (case relax (coalesce (map_of outgoing x) []) queue indegree of
        (queue', indegree') \<Rightarrow> kahn outgoing queue' indegree' (visited + 1))"
  by pat_completeness auto
termination
  by (relation "measure (\<lambda>(_, q, m, _). length q + positives m)") (auto dest!: relax_measure [OF sym])

definition assertDag :: "string list \<Rightarrow> DagPlanEdgeInput list \<Rightarrow> dag_error + unit" where
  "assertDag nodeIds edges =
     (if \<not> distinct nodeIds then Inl (DagGraphError ''DAG node IDs must be unique'')
      else case scan_edges nodeIds edges {} (map (\<lambda>i. (i, 0)) nodeIds) (map (\<lambda>i. (i, [])) nodeIds) of
             Inl err \<Rightarrow> Inl err
           | Inr (indegree, outgoing) \<Rightarrow>
               if kahn outgoing (filter (\<lambda>i. map_of indegree i = Some 0) nodeIds) indegree 0 \<noteq> length nodeIds
               then Inl (DagGraphError ''DAG must be acyclic'') else Inr ())"

section \<open>Entry and reachability of a replacement\<close>

definition outgoing_map :: "string list \<Rightarrow> DagPlanEdgeInput list \<Rightarrow> (string \<times> string list) list" where
  "outgoing_map nodeIds edges =
     fold (\<lambda>e m. AList.update (pe_source e) (coalesce (map_of m (pe_source e)) [] @ [pe_target e]) m) edges
       (map (\<lambda>i. (i, [])) nodeIds)"

function reach_loop :: "(string \<times> string list) list \<Rightarrow> string list \<Rightarrow> string list \<Rightarrow> string list" where
  "reach_loop outgoing [] reachable = reachable"
| "reach_loop outgoing (x # queue) reachable =
     (if x \<in> set reachable then reach_loop outgoing queue reachable
      else reach_loop outgoing (queue @ coalesce (map_of outgoing x) []) (reachable @ [x]))"
  by pat_completeness auto
termination
proof (relation "measures [\<lambda>(out, q, r). length (filter (\<lambda>k. k \<notin> set r) (map fst out)), \<lambda>(out, q, r). length q]")
  fix out :: "(string \<times> string list) list" and x :: string and q r
  assume "x \<notin> set r"
  have le: "length (filter (\<lambda>k. k \<notin> set (r @ [x])) ks) + (if x \<in> set ks then 1 else 0)
      \<le> length (filter (\<lambda>k. k \<notin> set r) ks)" for ks :: "string list"
    using \<open>x \<notin> set r\<close> by (induction ks) auto
  show "((out, q @ coalesce (map_of out x) [], r @ [x]), out, x # q, r)
      \<in> measures [\<lambda>(out, q, r). length (filter (\<lambda>k. k \<notin> set r) (map fst out)), \<lambda>(out, q, r). length q]"
  proof (cases "x \<in> set (map fst out)")
    case True
    then show ?thesis using le [of "map fst out"] by simp
  next
    case False
    then have "map_of out x = None" by (simp add: map_of_eq_None_iff)
    with False show ?thesis using le [of "map fst out"] by auto
  qed
qed auto

definition assertSingleEntryReachability :: "string list \<Rightarrow> DagPlanEdgeInput list \<Rightarrow> dag_error + string" where
  "assertSingleEntryReachability nodeIds edges =
     (case assertDag nodeIds edges of
        Inl err \<Rightarrow> Inl err
      | Inr _ \<Rightarrow>
          (let targets = set (map pe_target edges);
               entries = filter (\<lambda>i. i \<notin> targets) nodeIds
           in case entries of
                [entry] \<Rightarrow>
                  if length (reach_loop (outgoing_map nodeIds edges) [entry] []) \<noteq> length nodeIds
                  then Inl (DagGraphError ''DAG replacement nodes must be reachable from its entry'')
                  else Inr entry
              | _ \<Rightarrow> Inl (DagGraphError ''DAG replacement patch must have exactly one entry node'')))"

section \<open>Readiness\<close>

definition readyNodeIds :: "DagNode list \<Rightarrow> DagEdge list \<Rightarrow> string list" where
  "readyNodeIds nodes edges =
     (let completed = set (map n_id (filter (\<lambda>n. n_status n = NSucceeded \<or> n_status n = NReplaced) nodes))
      in map n_id
           (filter (\<lambda>n. list_all (\<lambda>e. e_source e \<in> completed) (filter (\<lambda>e. e_target e = n_id n) edges))
             (filter (\<lambda>n. n_status n = NPending \<or> n_status n = NReady) nodes)))"

section \<open>Depths\<close>

text \<open>One pass over the remaining nodes; a node is settled as soon as no predecessor remains.\<close>

fun depth_pass ::
  "DagPlanEdgeInput list \<Rightarrow> string list \<Rightarrow> string list \<Rightarrow> (string \<times> nat) list \<Rightarrow> bool
   \<Rightarrow> string list \<times> (string \<times> nat) list \<times> bool" where
  "depth_pass edges [] remaining depths changed = (remaining, depths, changed)"
| "depth_pass edges (x # xs) remaining depths changed =
     (let incoming = filter (\<lambda>e. pe_target e = x) edges
      in if list_ex (\<lambda>e. pe_source e \<in> set remaining) incoming then depth_pass edges xs remaining depths changed
         else depth_pass edges xs (filter (\<lambda>y. y \<noteq> x) remaining)
                (AList.update x (if incoming = [] then 0
                                 else Max (set (map (\<lambda>e. coalesce (map_of depths (pe_source e)) 0) incoming)) + 1) depths)
                True)"

lemma depth_pass_length: "depth_pass edges xs rem depths ch = (rem', depths', ch') \<Longrightarrow> length rem' \<le> length rem"
proof (induction xs arbitrary: rem depths ch)
  case (Cons x xs)
  then show ?case
    by (auto simp: Let_def split: if_splits intro: order_trans [OF _ length_filter_le])
qed simp

lemma depth_pass_changed:
  "depth_pass edges xs rem depths False = (rem', depths', True) \<Longrightarrow> set xs \<subseteq> set rem \<Longrightarrow> length rem' < length rem"
proof (induction xs arbitrary: depths)
  case (Cons x xs)
  then have "length (filter (\<lambda>y. y \<noteq> x) rem) < length rem"
    by (intro length_filter_less) auto
  with Cons show ?case
    by (auto simp: Let_def split: if_splits dest: depth_pass_length)
qed simp

function depth_loop :: "DagPlanEdgeInput list \<Rightarrow> string list \<Rightarrow> (string \<times> nat) list \<Rightarrow> dag_error + (string \<times> nat) list" where
  "depth_loop edges remaining depths =
     (if remaining = [] then Inr depths
      else case depth_pass edges remaining remaining depths False of
             (remaining', depths', changed) \<Rightarrow>
               if \<not> changed then Inl (StoreError ''DAG depth calculation failed'') else depth_loop edges remaining' depths')"
  by pat_completeness auto
termination
  by (relation "measure (\<lambda>(_, r, _). length r)") (auto dest!: depth_pass_changed [OF sym])

declare depth_loop.simps [simp del]

definition graphDepths :: "string list \<Rightarrow> DagPlanEdgeInput list \<Rightarrow> dag_error + (string \<times> nat) list" where
  "graphDepths nodeIds edges = depth_loop edges (rev (remdups (rev nodeIds))) (map (\<lambda>i. (i, 0)) nodeIds)"

text \<open>\<open>uniqueEdges\<close> keeps the first edge of every key.\<close>

fun unique_loop :: "string set \<Rightarrow> DagPlanEdgeInput list \<Rightarrow> DagPlanEdgeInput list" where
  "unique_loop seen [] = []"
| "unique_loop seen (e # es) =
     (if edge_key e \<in> seen then unique_loop seen es else e # unique_loop (insert (edge_key e) seen) es)"

definition uniqueEdges :: "DagPlanEdgeInput list \<Rightarrow> DagPlanEdgeInput list" where
  "uniqueEdges edges = unique_loop {} edges"

section \<open>Write scopes\<close>

text \<open>\<open>scope.trim().replaceAll('\\', '/').replace(/^\.\/+/u, '').replace(/\/+$/u, '')\<close>.\<close>

definition strip_dot_slash :: "string \<Rightarrow> string" where
  "strip_dot_slash s =
     (case s of c # d # rest \<Rightarrow> if c = CHR ''.'' \<and> d = CHR ''/'' then dropWhile (\<lambda>x. x = CHR ''/'') rest else s | _ \<Rightarrow> s)"

definition strip_trailing_slashes :: "string \<Rightarrow> string" where
  "strip_trailing_slashes s = rev (dropWhile (\<lambda>x. x = CHR ''/'') (rev s))"

fun split_slash :: "string \<Rightarrow> string list" where
  "split_slash [] = [[]]"
| "split_slash (c # cs) =
     (if c = CHR ''/'' then [] # split_slash cs
      else (case split_slash cs of p # ps \<Rightarrow> (c # p) # ps | [] \<Rightarrow> [[c]]))"

definition normalizeScope :: "string \<Rightarrow> dag_error + string" where
  "normalizeScope scope =
     (let normalized = strip_trailing_slashes (strip_dot_slash
            (map (\<lambda>c. if c = CHR 0x5C then CHR ''/'' else c) (trim scope)))
      in if normalized = [] \<or> normalized = ''.'' then Inr ''.''
         else if hd normalized = CHR ''/'' \<or> ''..'' \<in> set (split_slash normalized)
         then Inl (DagGraphError (''Invalid DAG write scope: '' @ scope))
         else Inr normalized)"

definition startsWith :: "string \<Rightarrow> string \<Rightarrow> bool" where
  "startsWith s p \<longleftrightarrow> take (length p) s = p"

definition scopeContains :: "string \<Rightarrow> string \<Rightarrow> dag_error + bool" where
  "scopeContains parent child =
     (case normalizeScope parent of
        Inl err \<Rightarrow> Inl err
      | Inr p \<Rightarrow>
          (case normalizeScope child of
             Inl err \<Rightarrow> Inl err
           | Inr c \<Rightarrow> Inr (p = ''.'' \<or> p = c \<or> startsWith c (p @ ''/''))))"

text \<open>\<open>Array.some\<close> with a predicate that may throw.\<close>

fun some_exn :: "('a \<Rightarrow> 'e + bool) \<Rightarrow> 'a list \<Rightarrow> 'e + bool" where
  "some_exn f [] = Inr False"
| "some_exn f (x # xs) = (case f x of Inl err \<Rightarrow> Inl err | Inr b \<Rightarrow> if b then Inr True else some_exn f xs)"

definition scopesConflict :: "string list \<Rightarrow> string list \<Rightarrow> dag_error + bool" where
  "scopesConflict left right =
     some_exn (\<lambda>a. some_exn (\<lambda>b.
       case scopeContains a b of
         Inl err \<Rightarrow> Inl err
       | Inr True \<Rightarrow> Inr True
       | Inr False \<Rightarrow> scopeContains b a) right) left"

end
