(* ===== verification/Kala_Tx.thy ===== *)
theory Kala_Tx
  imports Kala_Prelude
begin

text \<open>
  Transactions on an explicit store. A unit of work reads and writes the store and may throw;
  \<open>run_tx\<close> is \<open>BEGIN\<close>, the work, and \<open>COMMIT\<close>, or \<open>ROLLBACK\<close> to the store at the beginning when
  the work throws. Tables are lists of rows in the order of insertion; the SQL statements of the
  sources are the helpers below, with the number of changed rows where a source reads it.
\<close>

named_theorems tx_simps \<open>success of a composed transaction\<close>

type_synonym ('e, 's, 'a) tx = "'s \<Rightarrow> 'e + ('a \<times> 's)"

definition tx_return :: "'a \<Rightarrow> ('e, 's, 'a) tx" where
  "tx_return a s = Inr (a, s)"

definition tx_throw :: "'e \<Rightarrow> ('e, 's, 'a) tx" where
  "tx_throw e s = Inl e"

definition tx_bind :: "('e, 's, 'a) tx \<Rightarrow> ('a \<Rightarrow> ('e, 's, 'b) tx) \<Rightarrow> ('e, 's, 'b) tx" where
  "tx_bind m f s = (case m s of Inl e \<Rightarrow> Inl e | Inr (a, s') \<Rightarrow> f a s')"

definition tx_then :: "('e, 's, 'a) tx \<Rightarrow> ('e, 's, 'b) tx \<Rightarrow> ('e, 's, 'b) tx" where
  "tx_then m n = tx_bind m (\<lambda>_. n)"

definition tx_gets :: "('s \<Rightarrow> 'a) \<Rightarrow> ('e, 's, 'a) tx" where
  "tx_gets f s = Inr (f s, s)"

definition tx_modify :: "('s \<Rightarrow> 's) \<Rightarrow> ('e, 's, unit) tx" where
  "tx_modify f s = Inr ((), f s)"

definition tx_lift :: "'e + 'a \<Rightarrow> ('e, 's, 'a) tx" where
  "tx_lift r s = (case r of Inl e \<Rightarrow> Inl e | Inr a \<Rightarrow> Inr (a, s))"

definition tx_check :: "bool \<Rightarrow> 'e \<Rightarrow> ('e, 's, unit) tx" where
  "tx_check b e s = (if b then Inr ((), s) else Inl e)"

primrec tx_each :: "('x \<Rightarrow> ('e, 's, unit) tx) \<Rightarrow> 'x list \<Rightarrow> ('e, 's, unit) tx" where
  "tx_each f [] = tx_return ()"
| "tx_each f (x # xs) = tx_then (f x) (tx_each f xs)"

primrec tx_seq :: "('e, 's, unit) tx list \<Rightarrow> ('e, 's, unit) tx" where
  "tx_seq [] = tx_return ()"
| "tx_seq (m # ms) = tx_then m (tx_seq ms)"

definition run_tx :: "('e, 's, 'a) tx \<Rightarrow> 's \<Rightarrow> ('e + 'a) \<times> 's" where
  "run_tx m s = (case m s of Inl e \<Rightarrow> (Inl e, s) | Inr (a, s') \<Rightarrow> (Inr a, s'))"

text \<open>\<open>UPDATE ... WHERE\<close> on a table, and the number of rows it changes.\<close>

definition update_where :: "('r \<Rightarrow> bool) \<Rightarrow> ('r \<Rightarrow> 'r) \<Rightarrow> 'r list \<Rightarrow> 'r list" where
  "update_where P f rows = map (\<lambda>r. if P r then f r else r) rows"

definition changes :: "('r \<Rightarrow> bool) \<Rightarrow> 'r list \<Rightarrow> nat" where
  "changes P rows = length (filter P rows)"

section \<open>Success\<close>

lemma tx_return_Inr [tx_simps]: "tx_return a s = Inr (b, t) \<longleftrightarrow> b = a \<and> t = s"
  by (auto simp: tx_return_def)

lemma tx_throw_Inr [tx_simps]: "\<not> tx_throw e s = Inr r"
  by (simp add: tx_throw_def)

lemma tx_bind_Inr [tx_simps]: "tx_bind m f s = Inr r \<longleftrightarrow> (\<exists>a s'. m s = Inr (a, s') \<and> f a s' = Inr r)"
  by (auto simp: tx_bind_def split: sum.split)

lemma tx_then_Inr [tx_simps]: "tx_then m n s = Inr r \<longleftrightarrow> (\<exists>a s'. m s = Inr (a, s') \<and> n s' = Inr r)"
  by (simp add: tx_then_def tx_bind_Inr)

lemma tx_gets_Inr [tx_simps]: "tx_gets f s = Inr (a, t) \<longleftrightarrow> a = f s \<and> t = s"
  by (auto simp: tx_gets_def)

lemma tx_modify_Inr [tx_simps]: "tx_modify f s = Inr (a, t) \<longleftrightarrow> t = f s"
  by (auto simp: tx_modify_def)

lemma tx_lift_Inr [tx_simps]: "tx_lift r s = Inr (a, t) \<longleftrightarrow> r = Inr a \<and> t = s"
  by (auto simp: tx_lift_def split: sum.split)

lemma tx_check_Inr [tx_simps]: "tx_check b e s = Inr (a, t) \<longleftrightarrow> b \<and> t = s"
  by (auto simp: tx_check_def)

lemma run_tx_cases:
  obtains (aborted) e where "m s = Inl e" "run_tx m s = (Inl e, s)"
  | (committed) a t where "m s = Inr (a, t)" "run_tx m s = (Inr a, t)"
proof (cases "m s")
  case (Inl e)
  then show ?thesis by (intro aborted [of e]) (simp_all add: run_tx_def)
next
  case (Inr r)
  obtain a t where "r = (a, t)" by (cases r)
  with Inr have "m s = Inr (a, t)" by (simp only:)
  then show ?thesis by (rule committed) (simp add: run_tx_def \<open>m s = Inr (a, t)\<close>)
qed

section \<open>Invariants of a unit of work\<close>

definition tx_keeps :: "('s \<Rightarrow> bool) \<Rightarrow> ('e, 's, 'a) tx \<Rightarrow> bool" where
  "tx_keeps P m \<longleftrightarrow> (\<forall>s a t. P s \<longrightarrow> m s = Inr (a, t) \<longrightarrow> P t)"

lemma tx_keepsD: "tx_keeps P m \<Longrightarrow> P s \<Longrightarrow> m s = Inr (a, t) \<Longrightarrow> P t"
  by (auto simp: tx_keeps_def)

lemma tx_keeps_intros [intro]:
  "tx_keeps P (tx_return a)" "tx_keeps P (tx_throw e)" "tx_keeps P (tx_gets f)" "tx_keeps P (tx_lift r)"
  "tx_keeps P (tx_check b e)"
  by (auto simp: tx_keeps_def tx_simps)

lemma tx_keeps_bind [intro]: "tx_keeps P m \<Longrightarrow> (\<And>a. tx_keeps P (f a)) \<Longrightarrow> tx_keeps P (tx_bind m f)"
  unfolding tx_keeps_def tx_bind_Inr by metis

lemma tx_keeps_then [intro]: "tx_keeps P m \<Longrightarrow> tx_keeps P n \<Longrightarrow> tx_keeps P (tx_then m n)"
  by (auto simp: tx_then_def)

lemma tx_keeps_modify: "(\<And>s. P s \<Longrightarrow> P (f s)) \<Longrightarrow> tx_keeps P (tx_modify f)"
  by (auto simp: tx_keeps_def tx_simps)

lemma tx_keeps_each: "(\<And>x. x \<in> set xs \<Longrightarrow> tx_keeps P (f x)) \<Longrightarrow> tx_keeps P (tx_each f xs)"
  by (induction xs) auto

lemma run_tx_keeps: "tx_keeps P m \<Longrightarrow> P s \<Longrightarrow> P (snd (run_tx m s))"
  by (cases rule: run_tx_cases [of m s]) (auto dest: tx_keepsD)

text \<open>What holds whenever a unit of work has succeeded, by its last statement.\<close>

definition tx_ensures :: "('s \<Rightarrow> bool) \<Rightarrow> ('e, 's, 'a) tx \<Rightarrow> bool" where
  "tx_ensures P m \<longleftrightarrow> (\<forall>s a t. m s = Inr (a, t) \<longrightarrow> P t)"

lemma tx_ensuresD: "tx_ensures P m \<Longrightarrow> m s = Inr (a, t) \<Longrightarrow> P t"
  by (auto simp: tx_ensures_def)

lemma tx_ensures_bind: "(\<And>a. tx_ensures P (f a)) \<Longrightarrow> tx_ensures P (tx_bind m f)"
  unfolding tx_ensures_def tx_bind_Inr by metis

lemma tx_ensures_then: "tx_ensures P n \<Longrightarrow> tx_ensures P (tx_then m n)"
  by (simp add: tx_then_def tx_ensures_bind)

lemma tx_ensures_then_keeps: "tx_ensures P m \<Longrightarrow> tx_keeps P n \<Longrightarrow> tx_ensures P (tx_then m n)"
  unfolding tx_ensures_def tx_keeps_def tx_then_Inr by metis

lemma tx_ensures_throw: "tx_ensures P (tx_throw e)"
  by (simp add: tx_ensures_def tx_throw_def)

lemma tx_ensures_last: "tx_ensures P m \<Longrightarrow> tx_ensures P (tx_seq [m])"
  by (auto simp: tx_ensures_def tx_simps)

lemma tx_ensures_Cons: "tx_ensures P (tx_seq (n # ns)) \<Longrightarrow> tx_ensures P (tx_seq (m # n # ns))"
  by (simp add: tx_ensures_then)

lemmas tx_ensures_rules = tx_ensures_Cons tx_ensures_last tx_ensures_bind tx_ensures_then

lemma set_update_where: "set (update_where P f rows) = (\<lambda>r. if P r then f r else r) ` set rows"
  by (simp add: update_where_def)

lemma map_update_where: "(\<And>r. P r \<Longrightarrow> key (f r) = key r) \<Longrightarrow> map key (update_where P f rows) = map key rows"
  by (auto simp: update_where_def)

end
