(* ===== verification/Dag_Store.thy ===== *)
theory Dag_Store
  imports Dag_Graph Kala_Tx "HOL-Library.Char_ord" "HOL-Library.List_Lexorder" "HOL-Library.Product_Lexorder"
begin

text \<open>
  The store of task graphs, from \<open>packages/host/src/dag/store.ts\<close>: one definition per method of
  \<open>DagStore\<close>, in the order of the file with the private methods first. The state is the database: one
  table per table of the schema (\<open>packages/host/src/store/state-store.ts\<close>), a list of rows in the order
  of insertion. A method that writes is a transaction; an insertion checks the primary keys, unique
  constraints and foreign keys of its table. Identifiers from \<open>randomUUID\<close> are arguments.
\<close>

section \<open>Tables\<close>

record DagLease =
  l_runId :: string
  l_nodeId :: string
  l_owner :: string
  l_expiresAt :: timestamp
  l_acquiredAt :: timestamp

datatype OperationKind = OpCreateRun | OpInstallGraph | OpExpandNode | OpCompleteNode | OpAnswerDecision

record DagOperation =
  o_operationId :: string
  o_runId :: string
  o_kind :: OperationKind
  o_createdAt :: timestamp

record dag_db =
  t_runs :: "RunRow list"
  t_nodes :: "DagNode list"
  t_edges :: "DagEdge list"
  t_decisions :: "DagDecision list"
  t_events :: "DagEvent list"
  t_leases :: "DagLease list"
  t_operations :: "DagOperation list"
  t_versions :: "DagGraphVersion list"
  t_attempts :: "DagNodeAttempt list"

definition empty_dag_db :: dag_db where
  "empty_dag_db = \<lparr>t_runs = [], t_nodes = [], t_edges = [], t_decisions = [], t_events = [], t_leases = [],
     t_operations = [], t_versions = [], t_attempts = []\<rparr>"

type_synonym 'a dag_tx = "(dag_error, dag_db, 'a) tx"

section \<open>Validation\<close>

definition MAX_DAG_DECISIONS_PER_NODE :: nat where "MAX_DAG_DECISIONS_PER_NODE = 8"
definition MAX_GRAPH_NODES :: nat where "MAX_GRAPH_NODES = 100"
definition MAX_GRAPH_EDGES :: nat where "MAX_GRAPH_EDGES = 500"

definition requiredText :: "string \<Rightarrow> string \<Rightarrow> dag_error + string" where
  "requiredText value label =
     (let normalized = trim value in if normalized = [] then Inl (StoreError (label @ '' is required'')) else Inr normalized)"

definition normalizedEstimate :: "js_number option \<Rightarrow> dag_error + int option" where
  "normalizedEstimate value =
     (case value of
        None \<Rightarrow> Inr None
      | Some (Integer i) \<Rightarrow> if i < 0 then Inl (StoreError ''DAG estimated duration must be a non-negative integer'') else Inr (Some i)
      | Some (NonInteger t) \<Rightarrow> Inl (StoreError ''DAG estimated duration must be a non-negative integer''))"

text \<open>The loop that runs \<open>scopesConflict([scope], [scope])\<close> for its errors.\<close>

fun check_scopes :: "string list \<Rightarrow> dag_error + unit" where
  "check_scopes [] = Inr ()"
| "check_scopes (s # ss) = (case scopesConflict [s] [s] of Inl err \<Rightarrow> Inl err | Inr _ \<Rightarrow> check_scopes ss)"

definition normalizedScopes :: "string list \<Rightarrow> dag_error + string list" where
  "normalizedScopes scopes =
     (let unique = rev (remdups (rev (filter (\<lambda>s. s \<noteq> []) (map trim scopes))))
      in case check_scopes unique of Inl err \<Rightarrow> Inl err | Inr _ \<Rightarrow> Inr unique)"

definition validatePatch :: "DagGraphPatch \<Rightarrow> dag_error + unit" where
  "validatePatch patch =
     (if \<not> (case gp_expectedGraphVersion patch of Integer v \<Rightarrow> v \<ge> 0 | NonInteger t \<Rightarrow> False)
      then Inl (StoreError ''DAG expected graph version must be a non-negative integer'')
      else if gp_nodes patch = [] \<or> length (gp_nodes patch) > MAX_GRAPH_NODES
      then Inl (StoreError ''DAG graph must contain 1-100 nodes'')
      else if length (gp_edges patch) > MAX_GRAPH_EDGES then Inl (StoreError ''DAG graph cannot exceed 500 edges'')
      else case assertDag (map pn_id (gp_nodes patch)) (gp_edges patch) of
             Inl err \<Rightarrow> Inl err
           | Inr _ \<Rightarrow>
               if \<not> list_ex (\<lambda>n. pn_id n = gp_resultNodeId patch) (gp_nodes patch)
               then Inl (StoreError ''DAG result node must identify a graph node'')
               else if list_ex (\<lambda>e. pe_source e = gp_resultNodeId patch) (gp_edges patch)
               then Inl (StoreError ''DAG result node must be terminal'')
               else Inr ())"

section \<open>Rows\<close>

definition nodeFromRow :: "DagNode \<Rightarrow> DagNode" where
  "nodeFromRow row = row\<lparr>n_childSessionId := truthy (n_childSessionId row), n_progress := truthy (n_progress row),
     n_result := truthy (n_result row), n_error := truthy (n_error row), n_replacedBy := truthy (n_replacedBy row)\<rparr>"

definition edgeFromRow :: "DagEdge \<Rightarrow> DagEdge" where
  "edgeFromRow row = \<lparr>e_id = e_id row, e_runId = e_runId row, e_source = e_source row, e_target = e_target row\<rparr>"

definition decisionFromRow :: "DagDecision \<Rightarrow> DagDecision" where
  "decisionFromRow row = row\<lparr>dc_recommendation := truthy (dc_recommendation row), dc_reason := truthy (dc_reason row),
     dc_answer := truthy (dc_answer row)\<rparr>"

definition eventFromRow :: "DagEvent \<Rightarrow> DagEvent" where
  "eventFromRow row = row\<lparr>ev_nodeId := truthy (ev_nodeId row)\<rparr>"

definition attemptFromRow :: "DagNodeAttempt \<Rightarrow> DagNodeAttempt" where
  "attemptFromRow row = row\<lparr>at_result := truthy (at_result row), at_error := truthy (at_error row)\<rparr>"

definition graphVersionFromRow :: "DagGraphVersion \<Rightarrow> DagGraphVersion" where
  "graphVersionFromRow row =
     \<lparr>gv_runId = gv_runId row, gv_version = gv_version row, gv_resultNodeId = gv_resultNodeId row,
      gv_nodes = gv_nodes row, gv_edges = gv_edges row, gv_createdAt = gv_createdAt row\<rparr>"

definition nodeRows :: "dag_db \<Rightarrow> string \<Rightarrow> DagNode list" where
  "nodeRows db runId = filter (\<lambda>n. n_runId n = runId) (t_nodes db)"

definition edgeRows :: "dag_db \<Rightarrow> string \<Rightarrow> DagEdge list" where
  "edgeRows db runId = filter (\<lambda>e. e_runId e = runId) (t_edges db)"

definition find_run :: "dag_db \<Rightarrow> string \<Rightarrow> RunRow option" where
  "find_run db runId = find (\<lambda>r. r_id r = runId) (t_runs db)"

definition find_node :: "dag_db \<Rightarrow> string \<Rightarrow> string \<Rightarrow> DagNode option" where
  "find_node db runId nodeId = find (\<lambda>n. n_runId n = runId \<and> n_id n = nodeId) (t_nodes db)"

definition hydrate :: "dag_db \<Rightarrow> RunRow \<Rightarrow> DagRun" where
  "hydrate db row =
     \<lparr>run_row = row\<lparr>r_resultNodeId := truthy (r_resultNodeId row), r_result := truthy (r_result row), r_error := truthy (r_error row)\<rparr>,
      run_nodes = map nodeFromRow (nodeRows db (r_id row)),
      run_edges = map edgeFromRow (edgeRows db (r_id row)),
      run_decisions = map decisionFromRow
        (sort_key (\<lambda>d. (dc_createdAt d, dc_id d)) (filter (\<lambda>d. dc_runId d = r_id row) (t_decisions db))),
      run_eventLog = map eventFromRow (filter (\<lambda>e. ev_runId e = r_id row) (t_events db)),
      run_attempts = map attemptFromRow (filter (\<lambda>a. at_runId a = r_id row) (t_attempts db)),
      run_graphHistory = map graphVersionFromRow (sort_key gv_version (filter (\<lambda>v. gv_runId v = r_id row) (t_versions db)))\<rparr>"

definition getRun :: "dag_db \<Rightarrow> string \<Rightarrow> DagRun option" where
  "getRun db runId = map_option (hydrate db) (find_run db runId)"

definition requireRun :: "dag_db \<Rightarrow> string \<Rightarrow> dag_error + DagRun" where
  "requireRun db runId = (case getRun db runId of None \<Rightarrow> Inl (StoreError (''Unknown DAG run: '' @ runId)) | Some r \<Rightarrow> Inr r)"

definition runForSession :: "dag_db \<Rightarrow> string \<Rightarrow> (dag_error + DagRun) option" where
  "runForSession db parentSessionId =
     (case rev (sort_key r_createdAt (filter (\<lambda>r. r_parentSessionId r = parentSessionId) (t_runs db))) of
        [] \<Rightarrow> None | row # _ \<Rightarrow> Some (requireRun db (r_id row)))"

definition runsForSession :: "dag_db \<Rightarrow> string \<Rightarrow> (dag_error + DagRun) list" where
  "runsForSession db parentSessionId =
     map (requireRun db \<circ> r_id) (sort_key r_createdAt (filter (\<lambda>r. r_parentSessionId r = parentSessionId) (t_runs db)))"

definition latestAnsweredDecision :: "dag_db \<Rightarrow> string \<Rightarrow> string \<Rightarrow> DagDecision option" where
  "latestAnsweredDecision db runId nodeId =
     (case rev (sort_key (\<lambda>d. coalesce (dc_answeredAt d) 0) (filter (\<lambda>d. dc_runId d = runId \<and> dc_nodeId d = nodeId \<and> dc_status d = DecAnswered) (t_decisions db))) of
        [] \<Rightarrow> None | row # _ \<Rightarrow> Some (decisionFromRow row))"

section \<open>Insertions and the private methods\<close>

text \<open>An \<open>INSERT\<close> appends a row when the constraints of the table allow it.\<close>

definition insert_row :: "(dag_db \<Rightarrow> bool) \<Rightarrow> string \<Rightarrow> (dag_db \<Rightarrow> dag_db) \<Rightarrow> unit dag_tx" where
  "insert_row ok table add = tx_bind (tx_gets ok) (\<lambda>b. tx_then (tx_check b (ConstraintError table)) (tx_modify add))"

definition run_exists :: "dag_db \<Rightarrow> string \<Rightarrow> bool" where
  "run_exists db runId \<longleftrightarrow> runId \<in> set (map r_id (t_runs db))"

definition node_exists :: "dag_db \<Rightarrow> string \<Rightarrow> string \<Rightarrow> bool" where
  "node_exists db runId nodeId \<longleftrightarrow> (runId, nodeId) \<in> set (map (\<lambda>n. (n_runId n, n_id n)) (t_nodes db))"

definition insert_run :: "RunRow \<Rightarrow> unit dag_tx" where
  "insert_run r = insert_row (\<lambda>db. \<not> run_exists db (r_id r)) ''dag_runs'' (\<lambda>db. db\<lparr>t_runs := t_runs db @ [r]\<rparr>)"

definition insert_node :: "DagNode \<Rightarrow> unit dag_tx" where
  "insert_node n = insert_row (\<lambda>db. run_exists db (n_runId n) \<and> \<not> node_exists db (n_runId n) (n_id n)) ''dag_nodes''
     (\<lambda>db. db\<lparr>t_nodes := t_nodes db @ [n]\<rparr>)"

definition insert_edge :: "DagEdge \<Rightarrow> unit dag_tx" where
  "insert_edge e = insert_row
     (\<lambda>db. e_id e \<notin> set (map e_id (t_edges db)) \<and>
       (e_runId e, e_source e, e_target e) \<notin> set (map (\<lambda>x. (e_runId x, e_source x, e_target x)) (t_edges db)) \<and>
       node_exists db (e_runId e) (e_source e) \<and> node_exists db (e_runId e) (e_target e)) ''dag_edges''
     (\<lambda>db. db\<lparr>t_edges := t_edges db @ [e]\<rparr>)"

definition insert_decision :: "DagDecision \<Rightarrow> unit dag_tx" where
  "insert_decision d = insert_row
     (\<lambda>db. dc_id d \<notin> set (map dc_id (t_decisions db)) \<and> node_exists db (dc_runId d) (dc_nodeId d)) ''dag_decisions''
     (\<lambda>db. db\<lparr>t_decisions := t_decisions db @ [d]\<rparr>)"

definition insert_lease :: "DagLease \<Rightarrow> unit dag_tx" where
  "insert_lease l = insert_row
     (\<lambda>db. (l_runId l, l_nodeId l) \<notin> set (map (\<lambda>x. (l_runId x, l_nodeId x)) (t_leases db)) \<and> node_exists db (l_runId l) (l_nodeId l))
     ''dag_leases'' (\<lambda>db. db\<lparr>t_leases := t_leases db @ [l]\<rparr>)"

definition insert_attempt :: "DagNodeAttempt \<Rightarrow> unit dag_tx" where
  "insert_attempt a = insert_row
     (\<lambda>db. 0 < at_attempt a \<and>
       (at_runId a, at_nodeId a, at_attempt a) \<notin> set (map (\<lambda>x. (at_runId x, at_nodeId x, at_attempt x)) (t_attempts db)) \<and>
       node_exists db (at_runId a) (at_nodeId a)) ''dag_node_attempts''
     (\<lambda>db. db\<lparr>t_attempts := t_attempts db @ [a]\<rparr>)"

definition insert_version :: "DagGraphVersion \<Rightarrow> unit dag_tx" where
  "insert_version v = insert_row
     (\<lambda>db. 0 < gv_version v \<and> (gv_runId v, gv_version v) \<notin> set (map (\<lambda>x. (gv_runId x, gv_version x)) (t_versions db)) \<and>
       run_exists db (gv_runId v)) ''dag_graph_versions''
     (\<lambda>db. db\<lparr>t_versions := t_versions db @ [v]\<rparr>)"

definition recordEvent :: "string \<Rightarrow> DagEventType \<Rightarrow> string \<Rightarrow> string option \<Rightarrow> timestamp \<Rightarrow> unit dag_tx" where
  "recordEvent runId type message nodeId createdAt =
     insert_row (\<lambda>db. run_exists db runId) ''dag_events''
       (\<lambda>db. db\<lparr>t_events := t_events db @
         [\<lparr>ev_runId = runId, ev_type = type, ev_message = message, ev_nodeId = nodeId, ev_createdAt = createdAt\<rparr>]\<rparr>)"

definition operationResult :: "dag_db \<Rightarrow> string \<Rightarrow> OperationKind \<Rightarrow> string option \<Rightarrow> dag_error + string option" where
  "operationResult db operationId expectedKind expectedRunId =
     (case requiredText operationId ''DAG operation id'' of
        Inl err \<Rightarrow> Inl err
      | Inr i \<Rightarrow>
          (case find (\<lambda>x. o_operationId x = i) (t_operations db) of
             None \<Rightarrow> Inr None
           | Some row \<Rightarrow>
               if o_kind row \<noteq> expectedKind \<or> (case expectedRunId of None \<Rightarrow> False | Some r \<Rightarrow> o_runId row \<noteq> r)
               then Inl (StoreError ''DAG operation id was already used for a different operation'')
               else Inr (Some (o_runId row))))"

definition recordOperation :: "string \<Rightarrow> string \<Rightarrow> OperationKind \<Rightarrow> timestamp \<Rightarrow> unit dag_tx" where
  "recordOperation operationId runId kind createdAt =
     tx_bind (tx_lift (requiredText operationId ''DAG operation id'')) (\<lambda>i.
       insert_row (\<lambda>db. i \<notin> set (map o_operationId (t_operations db)) \<and> run_exists db runId) ''dag_operations''
         (\<lambda>db. db\<lparr>t_operations := t_operations db @
           [\<lparr>o_operationId = i, o_runId = runId, o_kind = kind, o_createdAt = createdAt\<rparr>]\<rparr>))"

definition requireRunRow :: "string \<Rightarrow> RunRow dag_tx" where
  "requireRunRow runId = tx_bind (tx_gets (\<lambda>db. find_run db runId)) (\<lambda>row.
     case row of None \<Rightarrow> tx_throw (StoreError (''Unknown DAG run: '' @ runId)) | Some r \<Rightarrow> tx_return r)"

definition run_status_text :: "DagRunStatus \<Rightarrow> string" where
  "run_status_text st = (case st of
      RunPlanning \<Rightarrow> ''planning'' | RunRunning \<Rightarrow> ''running'' | RunPaused \<Rightarrow> ''paused'' | RunCompleted \<Rightarrow> ''completed''
    | RunFailed \<Rightarrow> ''failed'' | RunCancelled \<Rightarrow> ''cancelled'')"

definition requireMutableRun :: "string \<Rightarrow> RunRow dag_tx" where
  "requireMutableRun runId = tx_bind (requireRunRow runId) (\<lambda>run.
     tx_then (tx_check (r_status run = RunRunning) (StoreError (''DAG run is not mutable while '' @ run_status_text (r_status run))))
       (tx_return run))"

definition requireNode :: "string \<Rightarrow> string \<Rightarrow> DagNode dag_tx" where
  "requireNode runId nodeId = tx_bind (tx_gets (\<lambda>db. find_node db runId nodeId)) (\<lambda>row.
     case row of None \<Rightarrow> tx_throw (StoreError (''Unknown DAG node: '' @ nodeId)) | Some n \<Rightarrow> tx_return (nodeFromRow n))"

definition assertLease :: "string \<Rightarrow> string \<Rightarrow> string \<Rightarrow> timestamp \<Rightarrow> unit dag_tx" where
  "assertLease runId nodeId owner now =
     tx_bind (tx_gets (\<lambda>db. find (\<lambda>l. l_runId l = runId \<and> l_nodeId l = nodeId) (t_leases db))) (\<lambda>lease.
       case lease of
         None \<Rightarrow> tx_throw (StoreError ''DAG node lease is not owned by this worker'')
       | Some l \<Rightarrow>
           if l_owner l \<noteq> owner then tx_throw (StoreError ''DAG node lease is not owned by this worker'')
           else tx_check (\<not> l_expiresAt l \<le> now) (StoreError ''DAG node lease has expired''))"

text \<open>\<open>UPDATE dag_nodes SET ... WHERE run_id = ? AND id = ? AND status = ...\<close>, returning the changes.\<close>

definition node_where :: "string \<Rightarrow> string \<Rightarrow> (DagNodeStatus \<Rightarrow> bool) \<Rightarrow> DagNode \<Rightarrow> bool" where
  "node_where runId nodeId st n \<longleftrightarrow> n_runId n = runId \<and> n_id n = nodeId \<and> st (n_status n)"

definition update_node :: "string \<Rightarrow> string \<Rightarrow> (DagNodeStatus \<Rightarrow> bool) \<Rightarrow> (DagNode \<Rightarrow> DagNode) \<Rightarrow> nat dag_tx" where
  "update_node runId nodeId st f =
     tx_bind (tx_gets (\<lambda>db. changes (node_where runId nodeId st) (t_nodes db))) (\<lambda>n.
       tx_then (tx_modify (\<lambda>db. db\<lparr>t_nodes := update_where (node_where runId nodeId st) f (t_nodes db)\<rparr>)) (tx_return n))"

definition delete_lease :: "string \<Rightarrow> string \<Rightarrow> string \<Rightarrow> unit dag_tx" where
  "delete_lease runId nodeId owner =
     tx_modify (\<lambda>db. db\<lparr>t_leases := filter (\<lambda>l. \<not> (l_runId l = runId \<and> l_nodeId l = nodeId \<and> l_owner l = owner)) (t_leases db)\<rparr>)"

definition settleAttempt ::
  "string \<Rightarrow> string \<Rightarrow> nat \<Rightarrow> DagNodeAttemptStatus \<Rightarrow> timestamp \<Rightarrow> string option \<Rightarrow> string option \<Rightarrow> unit dag_tx" where
  "settleAttempt runId nodeId attempt st completedAt result err =
     (let sel = (\<lambda>a. at_runId a = runId \<and> at_nodeId a = nodeId \<and> at_attempt a = attempt \<and> at_status a = AtRunning)
      in tx_bind (tx_gets (\<lambda>db. changes sel (t_attempts db))) (\<lambda>n.
           tx_then (tx_modify (\<lambda>db. db\<lparr>t_attempts := update_where sel
                     (\<lambda>a. a\<lparr>at_status := st, at_completedAt := Some completedAt, at_result := result, at_error := err\<rparr>) (t_attempts db)\<rparr>))
             (tx_check (n = 1) (StoreError ''DAG node attempt could not be settled''))))"

definition promoteReadyNodes :: "string \<Rightarrow> unit dag_tx" where
  "promoteReadyNodes runId =
     tx_bind (tx_gets (\<lambda>db. readyNodeIds (map nodeFromRow (nodeRows db runId)) (map edgeFromRow (edgeRows db runId)))) (\<lambda>ids.
       tx_each (\<lambda>nodeId. tx_then
         (update_node runId nodeId (\<lambda>st. st = NPending) (\<lambda>n. n\<lparr>n_status := NReady, n_progress := Some ''Ready''\<rparr>)) (tx_return ())) ids)"

definition recoverExpiredLeases :: "string \<Rightarrow> timestamp \<Rightarrow> unit dag_tx" where
  "recoverExpiredLeases runId now =
     tx_bind (tx_gets (\<lambda>db. concat (map (\<lambda>l. map (\<lambda>n. (l_nodeId l, n_attempt n))
         (filter (\<lambda>n. n_runId n = l_runId l \<and> n_id n = l_nodeId l) (t_nodes db)))
         (filter (\<lambda>l. l_runId l = runId \<and> l_expiresAt l \<le> now) (t_leases db))))) (\<lambda>expired.
       tx_then (tx_each (\<lambda>lease. tx_seq
         [tx_then (update_node runId (fst lease) (\<lambda>st. st = NRunning)
            (\<lambda>n. n\<lparr>n_status := NReady, n_progress := Some ''Recovered after worker lease expired''\<rparr>)) (tx_return ()),
          settleAttempt runId (fst lease) (snd lease) AtInterrupted now None (Some ''Worker lease expired''),
          recordEvent runId EvLease ''Expired worker lease recovered'' (Some (fst lease)) now]) expired)
         (tx_modify (\<lambda>db. db\<lparr>t_leases := filter (\<lambda>l. \<not> (l_runId l = runId \<and> l_expiresAt l \<le> now)) (t_leases db)\<rparr>)))"

text \<open>
  The breadth-first search for the descendants of a node. \<open>desc_targets\<close> is the inner loop over the
  outgoing edges: it appends the targets not seen yet to both lists.
\<close>

fun desc_targets :: "string list \<Rightarrow> string list \<Rightarrow> string list \<Rightarrow> string list \<times> string list" where
  "desc_targets [] queue descendants = (queue, descendants)"
| "desc_targets (t # ts) queue descendants =
     (if t \<in> set descendants then desc_targets ts queue descendants
      else desc_targets ts (queue @ [t]) (descendants @ [t]))"

lemma desc_targets_measure:
  assumes "desc_targets ts q d = (q', d')" "set ts \<subseteq> T" "finite T"
  shows "length q' + card (T - set d') = length q + card (T - set d)"
  using assms(1,2)
proof (induction ts arbitrary: q d)
  case (Cons t ts)
  show ?case
  proof (cases "t \<in> set d")
    case True
    with Cons show ?thesis by simp
  next
    case False
    with Cons.prems(2) have "T - set d = insert t (T - set (d @ [t]))" by auto
    then have "card (T - set d) = Suc (card (T - set (d @ [t])))" using assms(3) by (metis Diff_iff UnCI card_insert_disjoint finite_Diff list.set_intros(1) set_append)
    moreover have "length q' + card (T - set d') = length (q @ [t]) + card (T - set (d @ [t]))"
      using Cons False by simp
    ultimately show ?thesis by simp
  qed
qed simp

function descend :: "DagEdge list \<Rightarrow> string list \<Rightarrow> string list \<Rightarrow> string list" where
  "descend edges [] descendants = descendants"
| "descend edges (source # queue) descendants =
     (case desc_targets (map e_target (filter (\<lambda>e. e_source e = source) edges)) queue descendants of
        (queue', descendants') \<Rightarrow> descend edges queue' descendants')"
  by pat_completeness auto
termination
proof (relation "measure (\<lambda>(es, q, d). length q + card (e_target ` set es - set d))")
  fix edges :: "DagEdge list" and source queue descendants q' d'
  assume "(q', d') = desc_targets (map e_target (filter (\<lambda>e. e_source e = source) edges)) queue descendants"
  then have "length q' + card (e_target ` set edges - set d') = length queue + card (e_target ` set edges - set descendants)"
    by (intro desc_targets_measure [of "map e_target (filter (\<lambda>e. e_source e = source) edges)"]) auto
  then show "((edges, q', d'), edges, source # queue, descendants) \<in> measure (\<lambda>(es, q, d). length q + card (e_target ` set es - set d))"
    by simp
qed simp

definition cancelBlockedDescendants :: "string \<Rightarrow> string \<Rightarrow> timestamp \<Rightarrow> unit dag_tx" where
  "cancelBlockedDescendants runId nodeId now =
     tx_bind (tx_gets (\<lambda>db. descend (edgeRows db runId) [nodeId] [])) (\<lambda>descendants.
       tx_each (\<lambda>descendant. tx_bind
         (update_node runId descendant (\<lambda>st. st = NPending \<or> st = NReady)
           (\<lambda>n. n\<lparr>n_status := NCancelled, n_progress := Some ''Cancelled because a dependency failed'',
                 n_error := Some ''Blocked by failed dependency'', n_completedAt := Some now\<rparr>))
         (\<lambda>ch. if ch = 1 then recordEvent runId EvNode ''Node cancelled because a dependency failed'' (Some descendant) now
               else tx_return ())) descendants)"

definition update_run :: "(RunRow \<Rightarrow> bool) \<Rightarrow> (RunRow \<Rightarrow> RunRow) \<Rightarrow> string \<Rightarrow> unit dag_tx" where
  "update_run sel f lost =
     tx_bind (tx_gets (\<lambda>db. changes sel (t_runs db))) (\<lambda>n.
       tx_then (tx_modify (\<lambda>db. db\<lparr>t_runs := update_where sel f (t_runs db)\<rparr>)) (tx_check (n = 1) (StoreError lost)))"

definition node_live :: "DagNode \<Rightarrow> bool" where
  "node_live n \<longleftrightarrow> n_status n \<in> set [NPending, NReady, NRunning, NWaitingUser]"

definition settleRun :: "string \<Rightarrow> timestamp \<Rightarrow> unit dag_tx" where
  "settleRun runId now =
     tx_bind (requireRunRow runId) (\<lambda>run.
     if r_status run \<noteq> RunRunning then tx_return ()
     else tx_bind (tx_gets (\<lambda>db. filter (\<lambda>n. n_status n \<noteq> NReplaced) (map nodeFromRow (nodeRows db runId)))) (\<lambda>nodes.
     if list_ex node_live nodes \<or> nodes = [] then tx_return ()
     else
       (let completed = \<not> list_ex (\<lambda>n. n_status n = NFailed) nodes
        in case find (\<lambda>n. Some (n_id n) = r_resultNodeId run) nodes of
             None \<Rightarrow> tx_throw (StoreError ''DAG result node is unavailable at settlement'')
           | Some resultNode \<Rightarrow>
               tx_bind (if completed then tx_lift (map_sum id Some (requiredText (coalesce (n_result resultNode) []) ''DAG run result''))
                        else tx_return None) (\<lambda>runResult.
               (let runError =
                  (if completed then None
                   else Some (case n_error resultNode of
                                Some e \<Rightarrow> e
                              | None \<Rightarrow> coalesce (Option.bind (find (\<lambda>n. n_status n = NFailed) nodes) n_error) ''DAG run failed''));
                  st = (if completed then RunCompleted else RunFailed)
                in tx_then (update_run (\<lambda>r. r_id r = runId \<and> r_status r = RunRunning)
                      (\<lambda>r. r\<lparr>r_status := st, r_result := runResult, r_error := runError, r_completedAt := Some now, r_updatedAt := now\<rparr>)
                      ''DAG run settlement lost its status fence'')
                    (recordEvent runId EvRun (''DAG run '' @ run_status_text st) None now))))))"

definition recordGraphVersion :: "string \<Rightarrow> nat \<Rightarrow> timestamp \<Rightarrow> unit dag_tx" where
  "recordGraphVersion runId version createdAt =
     tx_bind (tx_gets (\<lambda>db. map (\<lambda>n. \<lparr>gvn_id = n_id n, gvn_title = n_title n, gvn_instructions = n_instructions n,
          gvn_depth = n_depth n, gvn_writeScopes = n_writeScopes n, gvn_estimatedDurationMinutes = n_estimatedDurationMinutes n\<rparr>)
        (filter (\<lambda>n. n_status n \<noteq> NReplaced) (nodeRows db runId)))) (\<lambda>nodes.
     tx_bind (tx_gets (\<lambda>db. map (\<lambda>e. \<lparr>pe_source = e_source e, pe_target = e_target e\<rparr>) (edgeRows db runId))) (\<lambda>edges.
     tx_bind (requireRunRow runId) (\<lambda>run.
     tx_bind (tx_lift (requiredText (coalesce (r_resultNodeId run) []) ''DAG result node id'')) (\<lambda>resultNodeId.
       insert_version \<lparr>gv_runId = runId, gv_version = version, gv_resultNodeId = resultNodeId, gv_nodes = nodes,
                       gv_edges = edges, gv_createdAt = createdAt\<rparr>))))"

text \<open>\<open>uuid i\<close> is what the call of \<open>randomUUID\<close> for the edge at position \<open>i\<close> returns.\<close>

definition edge_row :: "(nat \<Rightarrow> string) \<Rightarrow> string \<Rightarrow> nat \<times> DagPlanEdgeInput \<Rightarrow> DagEdge" where
  "edge_row uuid runId x =
     \<lparr>e_id = uuid (fst x), e_runId = runId, e_source = pe_source (snd x), e_target = pe_target (snd x)\<rparr>"

definition insertEdges :: "(nat \<Rightarrow> string) \<Rightarrow> string \<Rightarrow> DagPlanEdgeInput list \<Rightarrow> unit dag_tx" where
  "insertEdges uuid runId edges = tx_each (\<lambda>x. insert_edge (edge_row uuid runId x)) (enumerate 0 edges)"

definition runningWriteScopes :: "dag_db \<Rightarrow> string \<Rightarrow> string list list" where
  "runningWriteScopes db runId = map n_writeScopes (filter (\<lambda>n. n_status n = NRunning) (nodeRows db runId))"

text \<open>The row inserted for a planned node.\<close>

definition plan_row :: "string \<Rightarrow> nat \<Rightarrow> string \<Rightarrow> string \<Rightarrow> string list \<Rightarrow> int option \<Rightarrow> string \<Rightarrow> DagNode" where
  "plan_row runId depth title instructions scopes estimate i =
     \<lparr>n_id = i, n_runId = runId, n_title = title, n_instructions = instructions, n_status = NPending,
      n_depth = depth, n_writeScopes = scopes, n_estimatedDurationMinutes = estimate, n_attempt = 0,
      n_childSessionId = None, n_progress = None, n_result = None, n_error = None, n_replacedBy = None,
      n_startedAt = None, n_completedAt = None, n_toolActivity = []\<rparr>"

definition insert_plan_node :: "string \<Rightarrow> (string \<Rightarrow> nat) \<Rightarrow> DagPlanNodeInput \<Rightarrow> unit dag_tx" where
  "insert_plan_node runId depth node =
     tx_bind (tx_lift (requiredText (pn_title node) ''DAG node title'')) (\<lambda>title.
     tx_bind (tx_lift (requiredText (pn_instructions node) ''DAG node instructions'')) (\<lambda>instructions.
     tx_bind (tx_lift (normalizedScopes (coalesce (pn_writeScopes node) []))) (\<lambda>scopes.
     tx_bind (tx_lift (normalizedEstimate (pn_estimatedDurationMinutes node))) (\<lambda>estimate.
       insert_node (plan_row runId (depth (pn_id node)) title instructions scopes estimate (pn_id node))))))"

section \<open>The public methods\<close>

text \<open>Run the transaction, then read the run back.\<close>

definition commit_run :: "unit dag_tx \<Rightarrow> string \<Rightarrow> dag_db \<Rightarrow> (dag_error + DagRun) \<times> dag_db" where
  "commit_run work runId db =
     (case run_tx work db of (Inl err, db') \<Rightarrow> (Inl err, db') | (Inr _, db') \<Rightarrow> (requireRun db' runId, db'))"

text \<open>The operations that carry an operation id: a repeated id returns the run it was recorded for.\<close>

definition once_run ::
  "string \<Rightarrow> OperationKind \<Rightarrow> string \<Rightarrow> (dag_db \<Rightarrow> (dag_error + DagRun) \<times> dag_db) \<Rightarrow> dag_db \<Rightarrow> (dag_error + DagRun) \<times> dag_db" where
  "once_run operationId kind runId work db =
     (case operationResult db operationId kind (Some runId) of
        Inl err \<Rightarrow> (Inl err, db)
      | Inr (Some existing) \<Rightarrow> (requireRun db existing, db)
      | Inr None \<Rightarrow> work db)"

definition createRun_tx :: "string \<Rightarrow> string \<Rightarrow> string \<Rightarrow> string \<Rightarrow> timestamp \<Rightarrow> unit dag_tx" where
  "createRun_tx uid parent objective operationId now = tx_seq
     [insert_run \<lparr>r_id = uid, r_parentSessionId = parent, r_objective = objective, r_status = RunPlanning, r_graphVersion = 0,
        r_resultNodeId = None, r_result = None, r_error = None, r_completedAt = None, r_createdAt = now, r_updatedAt = now\<rparr>,
      recordEvent uid EvRun ''DAG run created'' None now,
      recordOperation operationId uid OpCreateRun now]"

definition createRun :: "string \<Rightarrow> string \<Rightarrow> string \<Rightarrow> string \<Rightarrow> timestamp \<Rightarrow> dag_db \<Rightarrow> (dag_error + DagRun) \<times> dag_db" where
  "createRun uid parentSessionId objective operationId now db =
     (case requiredText parentSessionId ''DAG parent session id'' of
        Inl err \<Rightarrow> (Inl err, db)
      | Inr parent \<Rightarrow>
     (case requiredText objective ''DAG objective'' of
        Inl err \<Rightarrow> (Inl err, db)
      | Inr obj \<Rightarrow>
     (case operationResult db operationId OpCreateRun None of
        Inl err \<Rightarrow> (Inl err, db)
      | Inr (Some existing) \<Rightarrow>
          (case requireRun db existing of
             Inl err \<Rightarrow> (Inl err, db)
           | Inr run \<Rightarrow>
               if r_parentSessionId (run_row run) \<noteq> parent \<or> r_objective (run_row run) \<noteq> obj
               then (Inl (StoreError ''DAG operation id was already used for a different run''), db)
               else (Inr run, db))
      | Inr None \<Rightarrow> commit_run (createRun_tx uid parent obj operationId now) uid db)))"

definition installGraph_tx :: "(nat \<Rightarrow> string) \<Rightarrow> string \<Rightarrow> DagGraphPatch \<Rightarrow> string \<Rightarrow> timestamp \<Rightarrow> unit dag_tx" where
  "installGraph_tx uuid runId patch operationId now =
     tx_bind (requireRunRow runId) (\<lambda>run.
     tx_then (tx_check (\<not> (r_status run \<noteq> RunPlanning \<or> r_graphVersion run \<noteq> 0 \<or> gp_expectedGraphVersion patch \<noteq> Integer 0))
       (StoreError ''DAG initial graph can only be installed on a planning run at version 0''))
     (tx_bind (tx_lift (graphDepths (map pn_id (gp_nodes patch)) (gp_edges patch))) (\<lambda>depths.
       tx_seq
         [tx_each (insert_plan_node runId (\<lambda>i. coalesce (map_of depths i) 0)) (gp_nodes patch),
          insertEdges uuid runId (gp_edges patch),
          update_run (\<lambda>r. r_id r = runId \<and> r_status r = RunPlanning \<and> r_graphVersion r = 0)
            (\<lambda>r. r\<lparr>r_status := RunRunning, r_graphVersion := 1, r_resultNodeId := Some (gp_resultNodeId patch), r_updatedAt := now\<rparr>)
            ''DAG initial graph installation lost its run fence'',
          promoteReadyNodes runId,
          recordGraphVersion runId 1 now,
          recordEvent runId EvGraph ''Graph version 1 installed'' None now,
          recordOperation operationId runId OpInstallGraph now])))"

definition installGraph ::
  "(nat \<Rightarrow> string) \<Rightarrow> string \<Rightarrow> DagGraphPatch \<Rightarrow> string \<Rightarrow> timestamp \<Rightarrow> dag_db \<Rightarrow> (dag_error + DagRun) \<times> dag_db" where
  "installGraph uuid runId patch operationId now =
     once_run operationId OpInstallGraph runId (\<lambda>db.
       case validatePatch patch of
         Inl err \<Rightarrow> (Inl err, db)
       | Inr _ \<Rightarrow> commit_run (installGraph_tx uuid runId patch operationId now) runId db)"

definition replaceGraph ::
  "(nat \<Rightarrow> string) \<Rightarrow> string \<Rightarrow> DagGraphPatch \<Rightarrow> string \<Rightarrow> timestamp \<Rightarrow> dag_db \<Rightarrow> (dag_error + DagRun) \<times> dag_db" where
  "replaceGraph uuid runId patch operationId now = installGraph uuid runId patch operationId now"

text \<open>The edges of an expansion: what stays, and how the neighbours of the node are connected.\<close>

definition plan_edge :: "DagEdge \<Rightarrow> DagPlanEdgeInput" where
  "plan_edge e = \<lparr>pe_source = e_source e, pe_target = e_target e\<rparr>"

definition retained_edges :: "DagEdge list \<Rightarrow> string \<Rightarrow> DagPlanEdgeInput list" where
  "retained_edges currentEdges nodeId = map plan_edge (filter (\<lambda>e. e_source e \<noteq> nodeId \<and> e_target e \<noteq> nodeId) currentEdges)"

definition rewired_edges :: "DagEdge list \<Rightarrow> string \<Rightarrow> DagGraphPatch \<Rightarrow> string \<Rightarrow> DagPlanEdgeInput list" where
  "rewired_edges currentEdges nodeId patch entryId =
     (let incoming = filter (\<lambda>e. e_target e = nodeId) currentEdges;
          outgoing = filter (\<lambda>e. e_source e = nodeId) currentEdges;
          replacementSources = set (map pe_source (gp_edges patch));
          leafIds = filter (\<lambda>i. i \<notin> replacementSources) (map pn_id (gp_nodes patch))
      in map (\<lambda>e. \<lparr>pe_source = e_source e, pe_target = entryId\<rparr>) incoming @
         concat (map (\<lambda>e. map (\<lambda>leaf. \<lparr>pe_source = leaf, pe_target = e_target e\<rparr>) leafIds) outgoing))"

text \<open>
  The statements of \<open>expandNode\<close> after the checks: the graph is rewritten, then the node, its lease and
  its attempt are closed and the run moves to the next version.
\<close>

definition rewrite_graph ::
  "(nat \<Rightarrow> string) \<Rightarrow> string \<Rightarrow> string \<Rightarrow> nat \<Rightarrow> DagGraphPatch \<Rightarrow> string \<Rightarrow> DagPlanEdgeInput list \<Rightarrow> timestamp \<Rightarrow> unit dag_tx" where
  "rewrite_graph uuid runId nodeId depth patch entryId rewired now = tx_seq
     [tx_modify (\<lambda>db. db\<lparr>t_edges := filter (\<lambda>e. \<not> (e_runId e = runId \<and> (e_source e = nodeId \<or> e_target e = nodeId))) (t_edges db)\<rparr>),
      tx_each (insert_plan_node runId (\<lambda>_. depth + 1)) (gp_nodes patch),
      insertEdges uuid runId (uniqueEdges (gp_edges patch @ rewired)),
      tx_bind (update_node runId nodeId (\<lambda>st. st = NRunning)
        (\<lambda>n. n\<lparr>n_status := NReplaced, n_progress := Some ''Replaced by graph expansion'', n_replacedBy := Some entryId, n_completedAt := Some now\<rparr>))
        (\<lambda>ch. tx_check (ch = 1) (StoreError ''DAG graph expansion lost its node fence''))]"

definition next_version ::
  "string \<Rightarrow> string \<Rightarrow> string \<Rightarrow> nat \<Rightarrow> RunRow \<Rightarrow> string \<Rightarrow> string \<Rightarrow> timestamp \<Rightarrow> unit dag_tx" where
  "next_version runId nodeId workerId attempt run resultId operationId now =
     (let nextVersion = r_graphVersion run + 1;
          nextResultNodeId = (if r_resultNodeId run = Some nodeId then Some resultId else r_resultNodeId run)
      in tx_seq
        [delete_lease runId nodeId workerId,
         settleAttempt runId nodeId attempt AtReplaced now None None,
         update_run (\<lambda>r. r_id r = runId \<and> r_status r = RunRunning \<and> r_graphVersion r = r_graphVersion run)
           (\<lambda>r. r\<lparr>r_graphVersion := nextVersion, r_resultNodeId := nextResultNodeId, r_updatedAt := now\<rparr>)
           ''DAG graph expansion lost its version fence'',
         promoteReadyNodes runId,
         recordGraphVersion runId nextVersion now,
         recordEvent runId EvGraph (''Node replaced by graph version '' @ show_nat nextVersion) (Some nodeId) now,
         recordOperation operationId runId OpExpandNode now])"

definition expandNode_tx ::
  "(nat \<Rightarrow> string) \<Rightarrow> string \<Rightarrow> string \<Rightarrow> string \<Rightarrow> DagGraphPatch \<Rightarrow> string \<Rightarrow> string \<Rightarrow> timestamp \<Rightarrow> unit dag_tx" where
  "expandNode_tx uuid runId nodeId workerId patch entryId operationId now =
     tx_bind (requireMutableRun runId) (\<lambda>run.
     tx_then (tx_check (Integer (int (r_graphVersion run)) = gp_expectedGraphVersion patch) (StoreError ''DAG graph version conflict''))
     (tx_bind (requireNode runId nodeId) (\<lambda>original.
     tx_then (tx_check (n_status original = NRunning) (StoreError ''DAG graph expansion requires a running node''))
     (tx_then (assertLease runId nodeId workerId now)
     (tx_bind (tx_gets (\<lambda>db. nodeRows db runId)) (\<lambda>allNodes.
     tx_then (case find (\<lambda>n. pn_id n \<in> set (map n_id allNodes)) (gp_nodes patch) of
                Some n \<Rightarrow> tx_throw (StoreError (''DAG node id already exists in run history: '' @ pn_id n))
              | None \<Rightarrow> tx_return ())
     (tx_then (tx_check (\<not> length allNodes + length (gp_nodes patch) > MAX_GRAPH_NODES) (StoreError ''DAG run cannot exceed 100 nodes''))
     (tx_bind (tx_gets (\<lambda>db. edgeRows db runId)) (\<lambda>currentEdges.
       (let rewired = rewired_edges currentEdges nodeId patch entryId;
            candidateEdges = uniqueEdges (retained_edges currentEdges nodeId @ gp_edges patch @ rewired);
            candidateNodeIds = map n_id (filter (\<lambda>n. n_status n \<noteq> NReplaced \<and> n_id n \<noteq> nodeId) allNodes) @ map pn_id (gp_nodes patch)
        in tx_seq
          [tx_check (\<not> length candidateEdges > MAX_GRAPH_EDGES) (StoreError ''DAG graph cannot exceed 500 edges''),
           tx_lift (assertDag candidateNodeIds candidateEdges),
           rewrite_graph uuid runId nodeId (n_depth original) patch entryId rewired now,
           next_version runId nodeId workerId (n_attempt original) run (gp_resultNodeId patch) operationId now]))))))))))"

definition expandNode ::
  "(nat \<Rightarrow> string) \<Rightarrow> string \<Rightarrow> string \<Rightarrow> string \<Rightarrow> DagGraphPatch \<Rightarrow> string \<Rightarrow> timestamp \<Rightarrow> dag_db \<Rightarrow> (dag_error + DagRun) \<times> dag_db" where
  "expandNode uuid runId nodeId workerId patch operationId now =
     once_run operationId OpExpandNode runId (\<lambda>db.
       case validatePatch patch of
         Inl err \<Rightarrow> (Inl err, db)
       | Inr _ \<Rightarrow>
           (case assertSingleEntryReachability (map pn_id (gp_nodes patch)) (gp_edges patch) of
              Inl err \<Rightarrow> (Inl err, db)
            | Inr entryId \<Rightarrow> commit_run (expandNode_tx uuid runId nodeId workerId patch entryId operationId now) runId db))"

text \<open>The loop over the ready nodes; \<open>claimed\<close> and \<open>scopes\<close> are the arrays it extends.\<close>

definition claim_node :: "string \<Rightarrow> string \<Rightarrow> nat \<Rightarrow> timestamp \<Rightarrow> DagNode \<Rightarrow> bool dag_tx" where
  "claim_node runId owner leaseMs now node =
     (let attempt = n_attempt node + 1
      in tx_bind (update_node runId (n_id node) (\<lambda>st. st = NReady)
           (\<lambda>n. n\<lparr>n_status := NRunning, n_attempt := attempt, n_startedAt := Some now, n_completedAt := None,
                 n_progress := Some ''Running'', n_result := None, n_error := None\<rparr>)) (\<lambda>ch.
         if ch \<noteq> 1 then tx_return False
         else tx_then (tx_seq
           [insert_lease \<lparr>l_runId = runId, l_nodeId = n_id node, l_owner = owner, l_expiresAt = now + leaseMs, l_acquiredAt = now\<rparr>,
            insert_attempt \<lparr>at_runId = runId, at_nodeId = n_id node, at_attempt = attempt, at_workerId = owner, at_status = AtRunning,
              at_startedAt = now, at_completedAt = None, at_result = None, at_error = None\<rparr>,
            recordEvent runId EvLease (''Node claimed by '' @ owner @ '' for attempt '' @ show_nat attempt) (Some (n_id node)) now])
           (tx_return True)))"

fun claim_loop ::
  "string \<Rightarrow> string \<Rightarrow> nat \<Rightarrow> nat \<Rightarrow> timestamp \<Rightarrow> DagNode list \<Rightarrow> DagNode list \<Rightarrow> string list list \<Rightarrow> DagNode list dag_tx" where
  "claim_loop runId owner limit leaseMs now [] claimed scopes = tx_return claimed"
| "claim_loop runId owner limit leaseMs now (row # rows) claimed scopes =
     (if length claimed \<ge> limit then tx_return claimed
      else
        (let node = nodeFromRow row
         in tx_bind (tx_lift (scopesConflict (n_writeScopes node) (concat scopes))) (\<lambda>conflict.
              if conflict then claim_loop runId owner limit leaseMs now rows claimed scopes
              else tx_bind (claim_node runId owner leaseMs now node) (\<lambda>taken.
                if \<not> taken then claim_loop runId owner limit leaseMs now rows claimed scopes
                else claim_loop runId owner limit leaseMs now rows
                  (claimed @ [node\<lparr>n_status := NRunning, n_attempt := n_attempt node + 1, n_startedAt := Some now, n_progress := Some ''Running''\<rparr>])
                  (scopes @ [n_writeScopes node])))))"

definition claimReadyNodes_tx :: "string \<Rightarrow> string \<Rightarrow> nat \<Rightarrow> nat \<Rightarrow> timestamp \<Rightarrow> DagNode list dag_tx" where
  "claimReadyNodes_tx runId owner limit leaseMs now =
     tx_bind (requireMutableRun runId) (\<lambda>_.
     tx_then (recoverExpiredLeases runId now)
     (tx_then (promoteReadyNodes runId)
     (tx_bind (tx_gets (\<lambda>db. runningWriteScopes db runId)) (\<lambda>scopes.
     tx_bind (tx_gets (\<lambda>db. filter (\<lambda>n. n_status n = NReady) (nodeRows db runId))) (\<lambda>ready.
       claim_loop runId owner limit leaseMs now ready [] scopes)))))"

definition claimReadyNodes ::
  "string \<Rightarrow> string \<Rightarrow> js_number \<Rightarrow> js_number \<Rightarrow> timestamp \<Rightarrow> dag_db \<Rightarrow> (dag_error + DagNode list) \<times> dag_db" where
  "claimReadyNodes runId workerId limit leaseMs now db =
     (case requiredText workerId ''DAG worker id'' of
        Inl err \<Rightarrow> (Inl err, db)
      | Inr owner \<Rightarrow>
          (case limit of
             NonInteger _ \<Rightarrow> (Inl (StoreError ''DAG claim limit must be 1-32''), db)
           | Integer k \<Rightarrow>
               if k < 1 \<or> k > 32 then (Inl (StoreError ''DAG claim limit must be 1-32''), db)
               else (case leaseMs of
                  NonInteger _ \<Rightarrow> (Inl (StoreError ''DAG lease must be at least 1000ms''), db)
                | Integer ms \<Rightarrow>
                    if ms < 1000 then (Inl (StoreError ''DAG lease must be at least 1000ms''), db)
                    else run_tx (claimReadyNodes_tx runId owner (nat k) (nat ms) now) db)))"

definition attachChildSession_tx :: "string \<Rightarrow> string \<Rightarrow> string \<Rightarrow> string \<Rightarrow> timestamp \<Rightarrow> unit dag_tx" where
  "attachChildSession_tx runId nodeId workerId childSessionId now =
     tx_bind (requireMutableRun runId) (\<lambda>_.
     tx_then (assertLease runId nodeId workerId now)
     (tx_bind (tx_lift (requiredText childSessionId ''DAG child session id'')) (\<lambda>child.
     tx_bind (update_node runId nodeId (\<lambda>st. st = NRunning) (\<lambda>n. n\<lparr>n_childSessionId := Some child\<rparr>))
       (\<lambda>ch. tx_check (ch = 1) (StoreError ''DAG child session requires a running node'')))))"

definition attachChildSession ::
  "string \<Rightarrow> string \<Rightarrow> string \<Rightarrow> string \<Rightarrow> timestamp \<Rightarrow> dag_db \<Rightarrow> (dag_error + unit) \<times> dag_db" where
  "attachChildSession runId nodeId workerId childSessionId now =
     run_tx (attachChildSession_tx runId nodeId workerId childSessionId now)"

definition updateNodeProgress_tx :: "string \<Rightarrow> string \<Rightarrow> string \<Rightarrow> string \<Rightarrow> timestamp \<Rightarrow> unit dag_tx" where
  "updateNodeProgress_tx runId nodeId workerId progress now =
     tx_bind (requireMutableRun runId) (\<lambda>_.
     tx_then (assertLease runId nodeId workerId now)
     (tx_bind (tx_lift (requiredText progress ''DAG node progress'')) (\<lambda>normalized.
     tx_then (tx_bind (update_node runId nodeId (\<lambda>st. st = NRunning) (\<lambda>n. n\<lparr>n_progress := Some normalized\<rparr>))
       (\<lambda>ch. tx_check (ch = 1) (StoreError ''DAG progress requires a running node'')))
     (recordEvent runId EvNode (''Progress: '' @ normalized) (Some nodeId) now))))"

definition updateNodeProgress ::
  "string \<Rightarrow> string \<Rightarrow> string \<Rightarrow> string \<Rightarrow> timestamp \<Rightarrow> dag_db \<Rightarrow> (dag_error + DagRun) \<times> dag_db" where
  "updateNodeProgress runId nodeId workerId progress now =
     commit_run (updateNodeProgress_tx runId nodeId workerId progress now) runId"

definition renewLease_tx :: "string \<Rightarrow> string \<Rightarrow> string \<Rightarrow> nat \<Rightarrow> timestamp \<Rightarrow> unit dag_tx" where
  "renewLease_tx runId nodeId workerId leaseMs now =
     (let sel = (\<lambda>l. l_runId l = runId \<and> l_nodeId l = nodeId \<and> l_owner l = workerId)
      in tx_bind (requireMutableRun runId) (\<lambda>_.
         tx_then (assertLease runId nodeId workerId now)
         (tx_bind (tx_gets (\<lambda>db. changes sel (t_leases db))) (\<lambda>n.
         tx_then (tx_modify (\<lambda>db. db\<lparr>t_leases := update_where sel (\<lambda>l. l\<lparr>l_expiresAt := now + leaseMs\<rparr>) (t_leases db)\<rparr>))
           (tx_check (n = 1) (StoreError ''DAG node lease could not be renewed''))))))"

definition renewLease ::
  "string \<Rightarrow> string \<Rightarrow> string \<Rightarrow> js_number \<Rightarrow> timestamp \<Rightarrow> dag_db \<Rightarrow> (dag_error + unit) \<times> dag_db" where
  "renewLease runId nodeId workerId leaseMs now db =
     (case leaseMs of
        NonInteger _ \<Rightarrow> (Inl (StoreError ''DAG lease must be at least 1000ms''), db)
      | Integer ms \<Rightarrow>
          if ms < 1000 then (Inl (StoreError ''DAG lease must be at least 1000ms''), db)
          else run_tx (renewLease_tx runId nodeId workerId (nat ms) now) db)"

datatype NodeOutcome = OutSucceeded string | OutFailed string | OutCancelled string

primrec outcome_status :: "NodeOutcome \<Rightarrow> DagNodeStatus" where
  "outcome_status (OutSucceeded r) = NSucceeded"
| "outcome_status (OutFailed e) = NFailed"
| "outcome_status (OutCancelled e) = NCancelled"

primrec outcome_attempt :: "NodeOutcome \<Rightarrow> DagNodeAttemptStatus" where
  "outcome_attempt (OutSucceeded r) = AtSucceeded"
| "outcome_attempt (OutFailed e) = AtFailed"
| "outcome_attempt (OutCancelled e) = AtCancelled"

primrec outcome_result :: "NodeOutcome \<Rightarrow> string option" where
  "outcome_result (OutSucceeded r) = Some r"
| "outcome_result (OutFailed e) = None"
| "outcome_result (OutCancelled e) = None"

primrec outcome_error :: "NodeOutcome \<Rightarrow> string option" where
  "outcome_error (OutSucceeded r) = None"
| "outcome_error (OutFailed e) = Some e"
| "outcome_error (OutCancelled e) = Some e"

definition required_option :: "string option \<Rightarrow> string \<Rightarrow> dag_error + string option" where
  "required_option v label = (case v of None \<Rightarrow> Inr None | Some t \<Rightarrow> map_sum id Some (requiredText t label))"

definition completeNode_tx ::
  "string \<Rightarrow> string \<Rightarrow> string \<Rightarrow> NodeOutcome \<Rightarrow> DagToolActivity list \<Rightarrow> string \<Rightarrow> timestamp \<Rightarrow> unit dag_tx" where
  "completeNode_tx runId nodeId workerId outcome activity operationId now =
     tx_bind (requireMutableRun runId) (\<lambda>_.
     tx_then (assertLease runId nodeId workerId now)
     (tx_bind (requireNode runId nodeId) (\<lambda>node.
     tx_then (tx_lift (assertNodeTransition (n_status node) (outcome_status outcome)))
     (tx_bind (tx_lift (required_option (outcome_result outcome) ''DAG node result'')) (\<lambda>result.
     tx_bind (tx_lift (required_option (outcome_error outcome) ''DAG node error'')) (\<lambda>err.
       tx_seq
         [tx_bind (update_node runId nodeId (\<lambda>st. st = NRunning)
            (\<lambda>n. n\<lparr>n_status := outcome_status outcome,
                  n_progress := Some (if outcome_status outcome = NSucceeded then ''Completed'' else ''Stopped''),
                  n_result := result, n_error := err, n_completedAt := Some now, n_toolActivity := activity\<rparr>))
            (\<lambda>ch. tx_check (ch = 1) (StoreError ''DAG node completion lost its status fence'')),
          delete_lease runId nodeId workerId,
          settleAttempt runId nodeId (n_attempt node) (outcome_attempt outcome) now (outcome_result outcome) (outcome_error outcome),
          recordEvent runId EvNode (''Node '' @ node_status_text (outcome_status outcome)) (Some nodeId) now,
          (if outcome_status outcome = NFailed \<or> outcome_status outcome = NCancelled
           then cancelBlockedDescendants runId nodeId now else tx_return ()),
          promoteReadyNodes runId,
          settleRun runId now,
          recordOperation operationId runId OpCompleteNode now]))))))"

definition completeNode ::
  "string \<Rightarrow> string \<Rightarrow> string \<Rightarrow> NodeOutcome \<Rightarrow> DagToolActivity list option \<Rightarrow> string \<Rightarrow> timestamp \<Rightarrow> dag_db
   \<Rightarrow> (dag_error + DagRun) \<times> dag_db" where
  "completeNode runId nodeId workerId outcome toolActivity operationId now =
     once_run operationId OpCompleteNode runId
       (commit_run (completeNode_tx runId nodeId workerId outcome (coalesce toolActivity []) operationId now) runId)"

text \<open>The transaction of \<open>createDecision\<close>; its value is \<open>rejectedReason\<close>.\<close>

definition decision_limit_text :: string where
  "decision_limit_text = ''DAG node exceeded the '' @ show_nat MAX_DAG_DECISIONS_PER_NODE @ ''-decision safety limit''"

definition refuse_decision :: "string \<Rightarrow> string \<Rightarrow> nat \<Rightarrow> string \<Rightarrow> timestamp \<Rightarrow> string option dag_tx" where
  "refuse_decision runId nodeId attempt workerId createdAt =
     tx_then (tx_seq
       [tx_then (update_node runId nodeId (\<lambda>st. st = NRunning)
          (\<lambda>n. n\<lparr>n_status := NFailed, n_progress := Some ''Stopped'', n_error := Some decision_limit_text, n_completedAt := Some createdAt\<rparr>))
          (tx_return ()),
        delete_lease runId nodeId workerId,
        settleAttempt runId nodeId attempt AtFailed createdAt None (Some decision_limit_text),
        recordEvent runId EvDecision decision_limit_text (Some nodeId) createdAt,
        cancelBlockedDescendants runId nodeId createdAt,
        promoteReadyNodes runId,
        settleRun runId createdAt]) (tx_return (Some decision_limit_text))"

definition ask_decision :: "DagDecision \<Rightarrow> nat \<Rightarrow> string \<Rightarrow> timestamp \<Rightarrow> string option dag_tx" where
  "ask_decision input attempt workerId createdAt =
     (let runId = dc_runId input; nodeId = dc_nodeId input
      in tx_bind (tx_lift (requiredText (dc_question input) ''DAG decision question'')) (\<lambda>question.
         tx_then (tx_seq
           [insert_decision \<lparr>dc_id = dc_id input, dc_runId = runId, dc_nodeId = nodeId, dc_question = question,
              dc_context = dc_context input, dc_choices = dc_choices input, dc_allowFreeform = dc_allowFreeform input,
              dc_recommendation = dc_recommendation input, dc_reason = dc_reason input, dc_riskLevel = dc_riskLevel input,
              dc_status = DecPending, dc_answer = None, dc_createdAt = createdAt, dc_answeredAt = None\<rparr>,
            tx_then (update_node runId nodeId (\<lambda>st. st = NRunning)
              (\<lambda>n. n\<lparr>n_status := NWaitingUser, n_progress := Some ''Waiting for a decision''\<rparr>)) (tx_return ()),
            delete_lease runId nodeId workerId,
            settleAttempt runId nodeId attempt AtWaitingUser createdAt None None,
            recordEvent runId EvDecision ''Decision requested; worker lease released'' (Some nodeId) createdAt])
           (tx_return None)))"

definition createDecision_tx :: "DagDecision \<Rightarrow> string \<Rightarrow> timestamp \<Rightarrow> string option dag_tx" where
  "createDecision_tx input workerId createdAt =
     (let runId = dc_runId input; nodeId = dc_nodeId input
      in tx_bind (requireMutableRun runId) (\<lambda>_.
         tx_then (assertLease runId nodeId workerId createdAt)
         (tx_bind (requireNode runId nodeId) (\<lambda>node.
         tx_then (tx_check (n_status node = NRunning) (StoreError ''DAG decisions require a running node''))
         (tx_bind (tx_gets (\<lambda>db. length (filter (\<lambda>d. dc_runId d = runId \<and> dc_nodeId d = nodeId) (t_decisions db)))) (\<lambda>decisionCount.
         if decisionCount \<ge> MAX_DAG_DECISIONS_PER_NODE then refuse_decision runId nodeId (n_attempt node) workerId createdAt
         else ask_decision input (n_attempt node) workerId createdAt))))))"

definition createDecision :: "DagDecision \<Rightarrow> string \<Rightarrow> timestamp \<Rightarrow> dag_db \<Rightarrow> (dag_error + DagDecision) \<times> dag_db" where
  "createDecision input workerId createdAt db =
     (case run_tx (createDecision_tx input workerId createdAt) db of
        (Inl err, db') \<Rightarrow> (Inl err, db')
      | (Inr (Some rejectedReason), db') \<Rightarrow> (Inl (StoreError rejectedReason), db')
      | (Inr None, db') \<Rightarrow>
          (case requireRun db' (dc_runId input) of
             Inl err \<Rightarrow> (Inl err, db')
           | Inr run \<Rightarrow>
               (case find (\<lambda>d. dc_id d = dc_id input) (run_decisions run) of
                  Some d \<Rightarrow> (Inr d, db')
                | None \<Rightarrow> (Inl (StoreError ''undefined''), db'))))"

definition answerDecision_tx :: "string \<Rightarrow> string \<Rightarrow> string \<Rightarrow> string \<Rightarrow> timestamp \<Rightarrow> unit dag_tx" where
  "answerDecision_tx runId decisionId answer operationId now =
     tx_bind (requireMutableRun runId) (\<lambda>_.
     tx_bind (tx_gets (\<lambda>db. find (\<lambda>d. dc_runId d = runId \<and> dc_id d = decisionId) (t_decisions db))) (\<lambda>row.
     case row of
       None \<Rightarrow> tx_throw (StoreError ''DAG decision does not exist'')
     | Some decision \<Rightarrow>
         tx_then (tx_check (dc_status decision = DecPending) (StoreError ''DAG decision is already settled''))
         (tx_bind (requireNode runId (dc_nodeId decision)) (\<lambda>node.
         tx_then (tx_check (n_status node = NWaitingUser) (StoreError ''DAG decision node is not waiting for input''))
         (tx_bind (tx_lift (requiredText answer ''DAG decision answer'')) (\<lambda>text.
           tx_seq
             [tx_modify (\<lambda>db. db\<lparr>t_decisions := update_where (\<lambda>d. dc_runId d = runId \<and> dc_id d = decisionId)
                (\<lambda>d. d\<lparr>dc_status := DecAnswered, dc_answer := Some text, dc_answeredAt := Some now\<rparr>) (t_decisions db)\<rparr>),
              tx_then (update_node runId (dc_nodeId decision) (\<lambda>st. st = NWaitingUser)
                (\<lambda>n. n\<lparr>n_status := NReady, n_progress := Some ''Decision answered''\<rparr>)) (tx_return ()),
              recordEvent runId EvDecision ''Decision answered; node ready to rerun'' (Some (dc_nodeId decision)) now,
              recordOperation operationId runId OpAnswerDecision now]))))))"

definition answerDecision ::
  "string \<Rightarrow> string \<Rightarrow> string \<Rightarrow> string \<Rightarrow> timestamp \<Rightarrow> dag_db \<Rightarrow> (dag_error + DagRun) \<times> dag_db" where
  "answerDecision runId decisionId answer operationId now =
     once_run operationId OpAnswerDecision runId
       (commit_run (answerDecision_tx runId decisionId answer operationId now) runId)"

end
