(* ===== verification/Dag_Acyclic.thy ===== *)
theory Dag_Acyclic
  imports Dag_Graph
begin

text \<open>
  Correctness of the graph checks: \<open>assertDag\<close> accepts exactly the simple acyclic graphs over the
  given nodes, a graph with a single entry is reachable from it, and \<open>graphDepths\<close> computes the
  longest distance from an entry on every accepted graph.
\<close>

definition edge_rel :: "DagPlanEdgeInput list \<Rightarrow> (string \<times> string) set" where
  "edge_rel es = (\<lambda>e. (pe_source e, pe_target e)) ` set es"

definition succs :: "DagPlanEdgeInput list \<Rightarrow> string \<Rightarrow> string list" where
  "succs es x = map pe_target (filter (\<lambda>e. pe_source e = x) es)"

definition graph_over :: "string list \<Rightarrow> DagPlanEdgeInput list \<Rightarrow> bool" where
  "graph_over ids es \<longleftrightarrow> pe_source ` set es \<union> pe_target ` set es \<subseteq> set ids"

lemma edge_relI: "e \<in> set es \<Longrightarrow> (pe_source e, pe_target e) \<in> edge_rel es"
  by (auto simp: edge_rel_def)

lemma graph_overD: "graph_over ids es \<Longrightarrow> e \<in> set es \<Longrightarrow> pe_source e \<in> set ids \<and> pe_target e \<in> set ids"
  by (auto simp: graph_over_def)

lemma graph_over_edge: "graph_over ids es \<Longrightarrow> (a, b) \<in> edge_rel es \<Longrightarrow> a \<in> set ids \<and> b \<in> set ids"
  by (auto simp: graph_over_def edge_rel_def)

lemma finite_edge_rel [simp]: "finite (edge_rel es)"
  by (simp add: edge_rel_def)

text \<open>In a finite acyclic graph every non-empty set of nodes has a member without a predecessor in it.\<close>

lemma acyclic_minimal:
  assumes "acyclic (edge_rel es)" "x \<in> S"
  obtains m where "m \<in> S" "\<And>e. e \<in> set es \<Longrightarrow> pe_target e = m \<Longrightarrow> pe_source e \<notin> S"
proof -
  have "wf (edge_rel es)" using assms(1) by (simp add: finite_acyclic_wf)
  then obtain m where "m \<in> S" "\<And>y. (y, m) \<in> edge_rel es \<Longrightarrow> y \<notin> S"
    using assms(2) by (metis wfE_min)
  then show ?thesis using that edge_relI by metis
qed

section \<open>The scan of the edges\<close>

lemma map_of_update: "map_of (AList.update k v m) = (map_of m)(k \<mapsto> v)"
  by (rule update_conv')

lemma scan_edges_ok_iff:
  "(\<exists>r. scan_edges ids es keys ind out = Inr r) \<longleftrightarrow>
     graph_over ids es \<and> (\<forall>e \<in> set es. pe_source e \<noteq> pe_target e) \<and> distinct (map edge_key es) \<and>
     keys \<inter> set (map edge_key es) = {}"
proof (induction es arbitrary: keys ind out)
  case Nil
  then show ?case by (simp add: graph_over_def)
next
  case (Cons e es)
  have "(\<exists>r. scan_edges ids (e # es) keys ind out = Inr r) \<longleftrightarrow>
      pe_source e \<in> set ids \<and> pe_target e \<in> set ids \<and> pe_source e \<noteq> pe_target e \<and> edge_key e \<notin> keys \<and>
      (\<exists>r. scan_edges ids es (insert (edge_key e) keys)
             (AList.update (pe_target e) (coalesce (map_of ind (pe_target e)) 0 + 1) ind)
             (AList.update (pe_source e) (coalesce (map_of out (pe_source e)) [] @ [pe_target e]) out) = Inr r)"
    by auto
  then show ?case unfolding Cons.IH by (auto simp: graph_over_def)
qed

lemma scan_edges_Cons:
  assumes "scan_edges ids (e # es) keys ind out = Inr r"
  shows "scan_edges ids es (insert (edge_key e) keys)
     (AList.update (pe_target e) (coalesce (map_of ind (pe_target e)) 0 + 1) ind)
     (AList.update (pe_source e) (coalesce (map_of out (pe_source e)) [] @ [pe_target e]) out) = Inr r"
  using assms by (simp split: if_splits)

lemma scan_edges_indegree:
  "scan_edges ids es keys ind out = Inr (ind', out') \<Longrightarrow> map_of ind x = Some v \<Longrightarrow>
   map_of ind' x = Some (v + int (length (filter (\<lambda>e. pe_target e = x) es)))"
proof (induction es arbitrary: keys ind out v)
  case (Cons e es)
  show ?case
    using Cons.IH [OF scan_edges_Cons [OF Cons.prems(1)], of "if pe_target e = x then v + 1 else v"] Cons.prems(2)
    by (auto simp: map_of_update split: if_splits)
qed simp

lemma scan_edges_outgoing:
  "scan_edges ids es keys ind out = Inr (ind', out') \<Longrightarrow> map_of out x = Some ts \<Longrightarrow>
   map_of out' x = Some (ts @ succs es x)"
proof (induction es arbitrary: keys ind out ts)
  case (Cons e es)
  show ?case
    using Cons.IH [OF scan_edges_Cons [OF Cons.prems(1)], of "if pe_source e = x then ts @ [pe_target e] else ts"] Cons.prems(2)
    by (auto simp: map_of_update succs_def split: if_splits)
qed (simp add: succs_def)

section \<open>The visiting order\<close>

lemma relax_result:
  assumes "distinct ts" "\<forall>t \<in> set ts. map_of ind t \<noteq> None" "relax ts q ind = (q', ind')"
  shows "q' = q @ filter (\<lambda>t. map_of ind t = Some 1) ts \<and>
    (\<forall>x v. map_of ind x = Some v \<longrightarrow> map_of ind' x = Some (if x \<in> set ts then v - 1 else v))"
  using assms
proof (induction ts arbitrary: q ind)
  case (Cons t ts)
  then obtain v where v: "map_of ind t = Some v" by auto
  let ?ind = "AList.update t (v - 1) ind"
  have rel: "relax ts (if v = 1 then q @ [t] else q) ?ind = (q', ind')"
    using Cons.prems(3) v by (auto split: if_splits)
  have "\<forall>s \<in> set ts. map_of ?ind s \<noteq> None" using Cons.prems(2) by (auto simp: map_of_update)
  then have IH: "q' = (if v = 1 then q @ [t] else q) @ filter (\<lambda>s. map_of ?ind s = Some 1) ts \<and>
      (\<forall>x w. map_of ?ind x = Some w \<longrightarrow> map_of ind' x = Some (if x \<in> set ts then w - 1 else w))"
    using Cons.prems(1) rel by (intro Cons.IH) simp_all
  moreover have "filter (\<lambda>s. map_of ?ind s = Some 1) ts = filter (\<lambda>s. map_of ind s = Some 1) ts"
    using Cons.prems(1) by (intro filter_cong) (auto simp: map_of_update)
  ultimately show ?case
    using Cons.prems(1) v by (auto simp: map_of_update split: if_splits)
qed simp

text \<open>
  The invariant of the loop, with the nodes visited so far as a ghost: the indegree of a node counts
  its unvisited predecessors, and a node has entered the queue exactly when that count is zero.
\<close>

definition unvisited :: "DagPlanEdgeInput list \<Rightarrow> string list \<Rightarrow> string \<Rightarrow> nat" where
  "unvisited es V x = length (filter (\<lambda>e. pe_target e = x \<and> pe_source e \<notin> set V) es)"

definition topo :: "DagPlanEdgeInput list \<Rightarrow> string list \<Rightarrow> bool" where
  "topo es V \<longleftrightarrow> (\<forall>k < length V. \<forall>e \<in> set es. pe_target e = V ! k \<longrightarrow> pe_source e \<in> set (take k V))"

definition kahn_inv :: "string list \<Rightarrow> DagPlanEdgeInput list \<Rightarrow> string list \<Rightarrow> string list \<Rightarrow> (string \<times> int) list \<Rightarrow> bool" where
  "kahn_inv ids es V Q ind \<longleftrightarrow>
     distinct (V @ Q) \<and> set (V @ Q) \<subseteq> set ids \<and> topo es V \<and>
     (\<forall>x \<in> set ids. map_of ind x = Some (int (unvisited es V x)) \<and> (x \<in> set (V @ Q) \<longleftrightarrow> unvisited es V x = 0))"

lemma unvisited_0: "unvisited es V x = 0 \<longleftrightarrow> (\<forall>e \<in> set es. pe_target e = x \<longrightarrow> pe_source e \<in> set V)"
  by (auto simp: unvisited_def filter_empty_conv)

lemma topo_snoc: "topo es V \<Longrightarrow> unvisited es V x = 0 \<Longrightarrow> topo es (V @ [x])"
  by (auto simp: topo_def unvisited_0 nth_append less_Suc_eq)

lemma succs_distinct: "distinct (map edge_key es) \<Longrightarrow> distinct (succs es x)"
  by (induction es) (auto simp: succs_def edge_key_def image_iff)

lemma set_succs: "y \<in> set (succs es x) \<longleftrightarrow> (\<exists>e \<in> set es. pe_source e = x \<and> pe_target e = y)"
  by (auto simp: succs_def)

lemma unvisited_snoc:
  assumes "distinct (map edge_key es)" "x \<notin> set V"
  shows "unvisited es V y = unvisited es (V @ [x]) y + (if y \<in> set (succs es x) then 1 else 0)"
proof -
  have "length (filter (\<lambda>e. pe_source e = x \<and> pe_target e = y) es) = (if y \<in> set (succs es x) then 1 else 0)"
    using assms(1)
  proof (induction es)
    case (Cons e es)
    have "pe_source e = x \<Longrightarrow> pe_target e = y \<Longrightarrow> y \<notin> set (succs es x)"
      using Cons.prems by (auto simp: set_succs edge_key_def image_iff)
    with Cons show ?case by (auto simp: succs_def)
  qed (simp add: succs_def)
  moreover have "unvisited es V y = unvisited es (V @ [x]) y + length (filter (\<lambda>e. pe_source e = x \<and> pe_target e = y) es)"
    using assms(2) unfolding unvisited_def by (induction es) auto
  ultimately show ?thesis by simp
qed

lemma kahn_inv_step:
  assumes "kahn_inv ids es V (x # Q) ind" "graph_over ids es" "distinct (map edge_key es)"
    and "relax (succs es x) Q ind = (Q', ind')"
  shows "kahn_inv ids es (V @ [x]) Q' ind'"
proof -
  have inv: "distinct (V @ x # Q)" "set (V @ x # Q) \<subseteq> set ids" "topo es V"
    "\<And>y. y \<in> set ids \<Longrightarrow> map_of ind y = Some (int (unvisited es V y))"
    "\<And>y. y \<in> set ids \<Longrightarrow> y \<in> set (V @ x # Q) \<longleftrightarrow> unvisited es V y = 0"
    using assms(1) by (auto simp: kahn_inv_def)
  have sub: "set (succs es x) \<subseteq> set ids" using graph_overD [OF assms(2)] by (auto simp: set_succs)
  have snoc: "unvisited es V y = unvisited es (V @ [x]) y + (if y \<in> set (succs es x) then 1 else 0)" for y
    using assms(3) inv(1) by (intro unvisited_snoc) auto
  have "\<forall>t \<in> set (succs es x). map_of ind t \<noteq> None" using sub inv(4) by auto
  note rel = relax_result [OF succs_distinct [OF assms(3)] this assms(4)]
  have Q': "Q' = Q @ filter (\<lambda>t. map_of ind t = Some 1) (succs es x)"
    and ind': "\<And>y v. map_of ind y = Some v \<Longrightarrow> map_of ind' y = Some (if y \<in> set (succs es x) then v - 1 else v)"
    using rel by blast+
  have new: "y \<in> set Q' \<longleftrightarrow> y \<in> set Q \<or> y \<in> set (succs es x) \<and> unvisited es V y = 1" for y
    using inv(4) sub by (auto simp: Q')
  have iff: "y \<in> set ((V @ [x]) @ Q') \<longleftrightarrow> unvisited es (V @ [x]) y = 0" if "y \<in> set ids" for y
    using inv(5) [OF that] snoc [of y] new [of y] by auto
  have "t \<notin> set (V @ x # Q)" if "t \<in> set (succs es x)" "map_of ind t = Some 1" for t
    using that sub inv(4,5) [of t] by auto
  then have "distinct ((V @ [x]) @ Q')"
    using inv(1) succs_distinct [OF assms(3), of x] by (auto simp: Q')
  moreover have "set ((V @ [x]) @ Q') \<subseteq> set ids" using inv(2) sub new by auto
  moreover have "topo es (V @ [x])" using inv(2,3,5) by (intro topo_snoc) auto
  moreover have "map_of ind' y = Some (int (unvisited es (V @ [x]) y))" if "y \<in> set ids" for y
    using ind' [OF inv(4) [OF that]] snoc [of y] by auto
  ultimately show ?thesis using iff by (simp add: kahn_inv_def)
qed

lemma kahn_result:
  assumes "kahn_inv ids es V Q ind" "graph_over ids es" "distinct (map edge_key es)"
    and "\<And>x. x \<in> set ids \<Longrightarrow> map_of out x = Some (succs es x)"
  shows "\<exists>W. kahn out Q ind (length V) = length W \<and> distinct W \<and> set W \<subseteq> set ids \<and> topo es W \<and>
    (\<forall>x \<in> set ids. x \<in> set W \<longleftrightarrow> unvisited es W x = 0)"
  using assms(1)
proof (induction "length Q + positives ind" arbitrary: V Q ind rule: less_induct)
  case less
  show ?case
  proof (cases Q)
    case Nil
    then show ?thesis using less.prems by (intro exI [of _ V]) (auto simp: kahn_inv_def)
  next
    case (Cons x Q1)
    obtain Q' ind' where rel: "relax (succs es x) Q1 ind = (Q', ind')" by fastforce
    have "x \<in> set ids" using less.prems Cons by (simp add: kahn_inv_def)
    then have out: "map_of out x = Some (succs es x)" by (rule assms(4))
    have "kahn_inv ids es (V @ [x]) Q' ind'"
      using kahn_inv_step [OF _ assms(2,3) rel] less.prems Cons by blast
    moreover have "length Q' + positives ind' < length Q + positives ind"
      using relax_measure [OF rel] Cons by simp
    ultimately have "\<exists>W. kahn out Q' ind' (length (V @ [x])) = length W \<and> distinct W \<and> set W \<subseteq> set ids \<and> topo es W \<and>
        (\<forall>x \<in> set ids. x \<in> set W \<longleftrightarrow> unvisited es W x = 0)"
      by (intro less.hyps)
    then show ?thesis using Cons out rel by simp
  qed
qed

lemma topo_acyclic:
  assumes "topo es W" "pe_target ` set es \<subseteq> set W"
  shows "acyclic (edge_rel es)"
proof -
  define pos where "pos x = length (takeWhile (\<lambda>y. y \<noteq> x) W)" for x
  have before: "pos (pe_source e) < pos (pe_target e)" if "e \<in> set es" for e
  proof -
    let ?k = "pos (pe_target e)"
    have mem: "pe_target e \<in> set W" using assms(2) that by auto
    then have k: "?k < length W"
      unfolding pos_def by (metis (mono_tags, lifting) length_takeWhile_le order_le_imp_less_or_eq takeWhile_eq_all_conv takeWhile_eq_take take_all_iff order_refl)
    moreover have "W ! ?k = pe_target e"
      using nth_length_takeWhile [of "\<lambda>y. y \<noteq> pe_target e" W] k by (simp add: pos_def)
    ultimately have "?k < length W" "W ! ?k = pe_target e" by simp_all
    then have "pe_source e \<in> set (take ?k W)" using assms(1) that by (auto simp: topo_def)
    then obtain j where "j < ?k" "j < length W" "W ! j = pe_source e" by (auto simp: in_set_conv_nth)
    moreover have "pos (pe_source e) \<le> j"
    proof (rule ccontr)
      assume "\<not> pos (pe_source e) \<le> j"
      then have "j < length (takeWhile (\<lambda>y. y \<noteq> pe_source e) W)" by (simp add: pos_def)
      then have "W ! j \<noteq> pe_source e" using nth_mem set_takeWhileD takeWhile_nth by fastforce
      then show False using \<open>W ! j = pe_source e\<close> by simp
    qed
    ultimately show ?thesis by simp
  qed
  have "acyclic ((edge_rel es)\<inverse>)"
    by (rule acyclicI_order [where f = pos]) (auto simp: edge_rel_def before)
  then show ?thesis by simp
qed

lemma closed_all:
  assumes "acyclic (edge_rel es)" "graph_over ids es" "\<forall>x \<in> set ids. x \<in> set W \<longleftrightarrow> unvisited es W x = 0"
  shows "set ids \<subseteq> set W"
proof (rule ccontr)
  assume "\<not> set ids \<subseteq> set W"
  then obtain x where "x \<in> set ids - set W" by auto
  then obtain m where "m \<in> set ids - set W" "\<And>e. e \<in> set es \<Longrightarrow> pe_target e = m \<Longrightarrow> pe_source e \<notin> set ids - set W"
    by (rule acyclic_minimal [OF assms(1)]) blast
  then show False using graph_overD [OF assms(2)] assms(3) unfolding unvisited_0 by blast
qed

lemma assertDag_iff:
  "assertDag ids es = Inr () \<longleftrightarrow>
     distinct ids \<and> graph_over ids es \<and> distinct (map edge_key es) \<and> acyclic (edge_rel es)"
proof (cases "distinct ids \<and> graph_over ids es \<and> distinct (map edge_key es) \<and> (\<forall>e \<in> set es. pe_source e \<noteq> pe_target e)")
  case False
  have "\<forall>e \<in> set es. pe_source e \<noteq> pe_target e" if "acyclic (edge_rel es)"
    using that edge_relI [of _ es] by (metis acyclic_def trancl.r_into_trancl)
  moreover have "assertDag ids es \<noteq> Inr ()"
    using False scan_edges_ok_iff [of ids es "{}" "map (\<lambda>i. (i, 0)) ids" "map (\<lambda>i. (i, [])) ids"]
    by (auto simp: assertDag_def split: sum.splits)
  ultimately show ?thesis using False by blast
next
  case True
  then obtain ind out where sc: "scan_edges ids es {} (map (\<lambda>i. (i, 0)) ids) (map (\<lambda>i. (i, [])) ids) = Inr (ind, out)"
    using scan_edges_ok_iff [of ids es "{}" "map (\<lambda>i. (i, 0)) ids" "map (\<lambda>i. (i, [])) ids"] by auto
  have ind: "map_of ind x = Some (int (unvisited es [] x))" and out: "map_of out x = Some (succs es x)" if "x \<in> set ids" for x
  proof -
    have "map_of (map (\<lambda>i. (i, 0)) ids) x = Some (0::int)" "map_of (map (\<lambda>i. (i, [])) ids) x = Some ([] :: string list)"
      using that by (simp_all add: map_of_map_restrict)
    then show "map_of ind x = Some (int (unvisited es [] x))" "map_of out x = Some (succs es x)"
      using scan_edges_indegree [OF sc, of x] scan_edges_outgoing [OF sc, of x] by (simp_all add: unvisited_def)
  qed
  let ?Q = "filter (\<lambda>i. map_of ind i = Some 0) ids"
  have "kahn_inv ids es [] ?Q ind" using True ind by (auto simp: kahn_inv_def topo_def)
  then obtain W where W: "kahn out ?Q ind 0 = length W" "distinct W" "set W \<subseteq> set ids" "topo es W"
      "\<forall>x \<in> set ids. x \<in> set W \<longleftrightarrow> unvisited es W x = 0"
    using kahn_result [of ids es "[]" ?Q ind out] True out by auto
  have acc: "assertDag ids es = Inr () \<longleftrightarrow> length W = length ids" using True sc W(1) by (simp add: assertDag_def)
  have len: "length W = length ids \<longleftrightarrow> set W = set ids"
    using True W(2,3) by (metis card_subset_eq distinct_card finite_set)
  have "set W = set ids \<longleftrightarrow> acyclic (edge_rel es)"
    using topo_acyclic [OF W(4)] closed_all [OF _ _ W(5)] W(3) True by (auto simp: graph_over_def)
  then show ?thesis using acc len True by simp
qed

text \<open>
  C12: \<open>assertDag\<close> accepts exactly the graphs it is meant to accept: the node identifiers are
  distinct, every edge connects two of them, no two edges have the same key, and the edges have no
  cycle. Every other input is refused with an error, and the check always terminates.
\<close>

theorem assertDag_accepts_iff:
  "assertDag ids es = Inr () \<longleftrightarrow>
     distinct ids \<and> graph_over ids es \<and> distinct (map edge_key es) \<and> acyclic (edge_rel es)"
  by (rule assertDag_iff)

section \<open>Entry and reachability\<close>

lemma outgoing_map_succs: "x \<in> set ids \<Longrightarrow> map_of (outgoing_map ids es) x = Some (succs es x)"
proof -
  have "map_of m x = Some ts \<Longrightarrow>
      map_of (fold (\<lambda>e m. AList.update (pe_source e) (coalesce (map_of m (pe_source e)) [] @ [pe_target e]) m) es m) x
      = Some (ts @ succs es x)" for m ts
  proof (induction es arbitrary: m ts)
    case (Cons e es)
    then show ?case
      using Cons.IH [of "AList.update (pe_source e) (coalesce (map_of m (pe_source e)) [] @ [pe_target e]) m"
          "if pe_source e = x then ts @ [pe_target e] else ts"]
      by (auto simp: map_of_update succs_def split: if_splits)
  qed (simp add: succs_def)
  from this [of "map (\<lambda>i. (i, [])) ids" "[]"] show "x \<in> set ids \<Longrightarrow> ?thesis"
    by (simp add: outgoing_map_def map_of_map_restrict)
qed

text \<open>The breadth-first loop collects what is reachable: it closes the set it starts from.\<close>

lemma reach_loop_closed:
  assumes "Q \<noteq> [] \<or> R \<noteq> []" "\<forall>x \<in> set R. \<forall>y. (x, y) \<in> edge_rel es \<longrightarrow> y \<in> set R \<union> set Q"
    and "set Q \<union> set R \<subseteq> set ids" "graph_over ids es" "distinct R"
  shows "let S = reach_loop (outgoing_map ids es) Q R
    in distinct S \<and> set Q \<union> set R \<subseteq> set S \<and> set S \<subseteq> set ids \<and> (\<forall>x \<in> set S. \<forall>y. (x, y) \<in> edge_rel es \<longrightarrow> y \<in> set S)"
  using assms
proof (induction "outgoing_map ids es" Q R rule: reach_loop.induct)
  case (1 R)
  then show ?case by auto
next
  case (2 x Q R)
  show ?case
  proof (cases "x \<in> set R")
    case True
    then have "R \<noteq> []" "\<forall>x \<in> set R. \<forall>y. (x, y) \<in> edge_rel es \<longrightarrow> y \<in> set R \<union> set Q" using 2(4) by auto
    then show ?thesis using 2(1) [OF True] 2(5-) True by (auto simp: Let_def)
  next
    case False
    have "x \<in> set ids" using 2(5) by simp
    then have out: "coalesce (map_of (outgoing_map ids es) x) [] = succs es x" by (simp add: outgoing_map_succs)
    have sub: "set (succs es x) \<subseteq> set ids" using graph_overD [OF 2(6)] by (auto simp: set_succs)
    have "\<forall>y \<in> set (R @ [x]). \<forall>z. (y, z) \<in> edge_rel es \<longrightarrow> z \<in> set (R @ [x]) \<union> set (Q @ succs es x)"
      using 2(4) by (auto simp: set_succs edge_rel_def)
    then show ?thesis
      using 2(2) [OF False, unfolded out] 2(5-) sub False out by (auto simp: Let_def)
  qed
qed

lemma scan_edges_error:
  "scan_edges ids es keys ind out = Inl err \<Longrightarrow>
   err \<in> {DagGraphError ''DAG edge references an unknown node'', DagGraphError ''DAG self edges are not allowed'',
          DagGraphError ''DAG edges must be unique''}"
  by (induction es arbitrary: keys ind out) (auto split: if_splits)

lemma assertDag_not_reach_error:
  "assertDag ids es \<noteq> Inl (DagGraphError ''DAG replacement nodes must be reachable from its entry'')"
  by (auto simp: assertDag_def split: sum.splits dest!: scan_edges_error)

lemma edge_path_from_entry:
  assumes "acyclic (edge_rel es)" "graph_over ids es" "x \<in> set ids"
    and "filter (\<lambda>i. i \<notin> set (map pe_target es)) ids = [entry]"
  shows "(entry, x) \<in> (edge_rel es)\<^sup>*"
proof -
  let ?S = "{y \<in> set ids. (entry, y) \<notin> (edge_rel es)\<^sup>*}"
  have "False" if "y \<in> ?S" for y
  proof -
    from that obtain m where m: "m \<in> ?S" "\<And>e. e \<in> set es \<Longrightarrow> pe_target e = m \<Longrightarrow> pe_source e \<notin> ?S"
      by (rule acyclic_minimal [OF assms(1)]) blast
    have "m \<noteq> entry" using m(1) by auto
    then have "m \<in> set (map pe_target es)"
    proof -
      have "set (filter (\<lambda>i. i \<notin> set (map pe_target es)) ids) = {entry}" by (simp only: assms(4)) simp
      with m(1) \<open>m \<noteq> entry\<close> show ?thesis by auto
    qed
    then obtain e where e: "e \<in> set es" "pe_target e = m" by auto
    with m(2) graph_overD [OF assms(2)] have "(entry, pe_source e) \<in> (edge_rel es)\<^sup>*" by blast
    then have "(entry, m) \<in> (edge_rel es)\<^sup>*" using edge_relI [OF e(1)] e(2) by (metis rtrancl.rtrancl_into_rtrancl)
    then show False using m(1) by simp
  qed
  then show ?thesis using assms(3) by blast
qed

text \<open>
  A replacement graph is accepted exactly when it is an acyclic graph with a single node without
  predecessors, and that node is returned: in such a graph every node is reachable from the entry, so
  the reachability check of \<open>assertSingleEntryReachability\<close> never refuses a graph with one entry.
\<close>

theorem single_entry_accepts_iff:
  "(assertSingleEntryReachability ids es = Inr entry \<longleftrightarrow>
      assertDag ids es = Inr () \<and> filter (\<lambda>i. i \<notin> set (map pe_target es)) ids = [entry]) \<and>
   assertSingleEntryReachability ids es \<noteq> Inl (DagGraphError ''DAG replacement nodes must be reachable from its entry'')"
proof (cases "assertDag ids es = Inr () \<and> (\<exists>x. filter (\<lambda>i. i \<notin> set (map pe_target es)) ids = [x])")
  case False
  have dag_err: "assertDag ids es \<noteq> Inl (DagGraphError ''DAG replacement nodes must be reachable from its entry'')"
    by (rule assertDag_not_reach_error)
  with False show ?thesis
    by (auto simp: assertSingleEntryReachability_def Let_def split: sum.splits list.splits)
next
  case True
  then obtain x where x: "filter (\<lambda>i. i \<notin> set (map pe_target es)) ids = [x]" and dag: "assertDag ids es = Inr ()" by blast
  have g: "distinct ids" "graph_over ids es" "acyclic (edge_rel es)"
    using dag by (simp_all add: assertDag_iff)
  define S where "S = reach_loop (outgoing_map ids es) [x] []"
  have "x \<in> set ids" using x by (metis filter_is_subset list.set_intros(1) subset_iff)
  then have S: "distinct S" "x \<in> set S" "set S \<subseteq> set ids" "\<forall>a \<in> set S. \<forall>b. (a, b) \<in> edge_rel es \<longrightarrow> b \<in> set S"
    using reach_loop_closed [of "[x]" "[]" es ids] g(2) by (auto simp: S_def Let_def)
  have "y \<in> set S" if "(x, y) \<in> (edge_rel es)\<^sup>*" for y
    using that by (induction rule: rtrancl_induct) (use S in auto)
  then have "set S = set ids" using edge_path_from_entry [OF g(3,2) _ x] S(3) by blast
  then have "length S = length ids" using S(1) g(1) by (metis distinct_card)
  then show ?thesis using dag x by (auto simp: assertSingleEntryReachability_def S_def Let_def)
qed

section \<open>Depths\<close>

definition depth_eq :: "DagPlanEdgeInput list \<Rightarrow> (string \<times> nat) list \<Rightarrow> string \<Rightarrow> bool" where
  "depth_eq es d x \<longleftrightarrow>
     map_of d x = Some (if filter (\<lambda>e. pe_target e = x) es = [] then 0
       else Max (set (map (\<lambda>e. coalesce (map_of d (pe_source e)) 0) (filter (\<lambda>e. pe_target e = x) es))) + 1)"

lemma depth_pass_True: "depth_pass es xs rem d True = (rem', d', ch') \<Longrightarrow> ch'"
  by (induction xs arbitrary: rem d) (auto simp: Let_def split: if_splits)

text \<open>The nodes settled so far are closed under predecessors and their depths satisfy the equation.\<close>

definition depth_inv :: "string list \<Rightarrow> DagPlanEdgeInput list \<Rightarrow> string list \<Rightarrow> (string \<times> nat) list \<Rightarrow> bool" where
  "depth_inv ids es rem d \<longleftrightarrow>
     distinct rem \<and> set rem \<subseteq> set ids \<and>
     (\<forall>x \<in> set ids - set rem. depth_eq es d x \<and> (\<forall>e \<in> set es. pe_target e = x \<longrightarrow> pe_source e \<notin> set rem))"

lemma depth_eq_update:
  assumes "depth_eq es d y" "y \<noteq> x" "\<forall>e \<in> set es. pe_target e = y \<longrightarrow> pe_source e \<noteq> x"
  shows "depth_eq es (AList.update x v d) y"
proof -
  have "map (\<lambda>e. coalesce (map_of (AList.update x v d) (pe_source e)) 0) (filter (\<lambda>e. pe_target e = y) es)
      = map (\<lambda>e. coalesce (map_of d (pe_source e)) 0) (filter (\<lambda>e. pe_target e = y) es)"
    using assms(3) by (auto simp: map_of_update)
  then show ?thesis using assms(1,2) by (simp add: depth_eq_def map_of_update)
qed

lemma depth_inv_settle:
  assumes "depth_inv ids es rem d" "x \<in> set rem" "acyclic (edge_rel es)"
    and free: "\<not> list_ex (\<lambda>e. pe_source e \<in> set rem) (filter (\<lambda>e. pe_target e = x) es)"
  shows "depth_inv ids es (filter (\<lambda>y. y \<noteq> x) rem)
    (AList.update x (if filter (\<lambda>e. pe_target e = x) es = [] then 0
       else Max (set (map (\<lambda>e. coalesce (map_of d (pe_source e)) 0) (filter (\<lambda>e. pe_target e = x) es))) + 1) d)"
    (is "depth_inv ids es ?rem ?d")
proof -
  have pred: "pe_source e \<notin> set rem" if "e \<in> set es" "pe_target e = x" for e
    using free that by (auto simp: list_ex_iff)
  have ne: "pe_source e \<noteq> x" if "e \<in> set (filter (\<lambda>e. pe_target e = x) es)" for e
    using pred [of e] that assms(2) by auto
  have inv: "distinct rem" "set rem \<subseteq> set ids"
    "\<And>y. y \<in> set ids - set rem \<Longrightarrow> depth_eq es d y \<and> (\<forall>e \<in> set es. pe_target e = y \<longrightarrow> pe_source e \<notin> set rem)"
    using assms(1) by (auto simp: depth_inv_def)
  have "map (\<lambda>e. coalesce (map_of ?d (pe_source e)) 0) (filter (\<lambda>e. pe_target e = x) es)
      = map (\<lambda>e. coalesce (map_of d (pe_source e)) 0) (filter (\<lambda>e. pe_target e = x) es)"
    using ne by (intro map_cong refl) (simp add: map_of_update)
  then have dx: "depth_eq es ?d x"
    unfolding depth_eq_def by (simp only:) (simp add: map_of_update)
  have dy: "depth_eq es ?d y" if "y \<in> set ids - set rem" for y
    using inv(3) [OF that] that assms(2) by (intro depth_eq_update) auto
  have eq: "depth_eq es ?d y" if "y \<in> set ids - set ?rem" for y
  proof (cases "y = x")
    case False
    with that have "y \<in> set ids - set rem" by simp
    then show ?thesis by (rule dy)
  qed (use dx in simp)
  have "pe_source e \<notin> set ?rem" if "y \<in> set ids - set ?rem" "e \<in> set es" "pe_target e = y" for y e
    using that pred inv(3) [of y] by (cases "y = x") auto
  with eq inv(1,2) show ?thesis unfolding depth_inv_def by (intro conjI ballI impI) auto
qed

lemma depth_pass_inv:
  assumes "depth_inv ids es rem d" "set xs \<subseteq> set rem" "distinct xs" "acyclic (edge_rel es)"
    and "depth_pass es xs rem d ch = (rem', d', ch')"
  shows "depth_inv ids es rem' d' \<and>
    (ch' \<or> rem' = rem \<and> \<not> (\<exists>x \<in> set xs. \<not> list_ex (\<lambda>e. pe_source e \<in> set rem) (filter (\<lambda>e. pe_target e = x) es)))"
  using assms
proof (induction xs arbitrary: rem d ch)
  case (Cons x xs)
  show ?case
  proof (cases "list_ex (\<lambda>e. pe_source e \<in> set rem) (filter (\<lambda>e. pe_target e = x) es)")
    case True
    with Cons.prems have "depth_pass es xs rem d ch = (rem', d', ch')" by (simp add: Let_def)
    with Cons True show ?thesis by auto
  next
    case False
    let ?rem = "filter (\<lambda>y. y \<noteq> x) rem"
    let ?d = "AList.update x (if filter (\<lambda>e. pe_target e = x) es = [] then 0
       else Max (set (map (\<lambda>e. coalesce (map_of d (pe_source e)) 0) (filter (\<lambda>e. pe_target e = x) es))) + 1) d"
    have rest: "depth_pass es xs ?rem ?d True = (rem', d', ch')"
      using False Cons.prems(5) by (simp add: Let_def)
    moreover have "depth_inv ids es ?rem ?d"
      using Cons.prems False by (intro depth_inv_settle) auto
    ultimately have "depth_inv ids es rem' d'" using Cons.prems by (intro Cons.IH [THEN conjunct1]) auto
    moreover have "ch'" using rest by (rule depth_pass_True)
    ultimately show ?thesis by simp
  qed
qed auto

lemma depth_loop_correct:
  assumes "depth_inv ids es rem d" "acyclic (edge_rel es)"
  shows "\<exists>d'. depth_loop es rem d = Inr d' \<and> depth_inv ids es [] d'"
  using assms
proof (induction "length rem" arbitrary: rem d rule: less_induct)
  case less
  show ?case
  proof (cases "rem = []")
    case True
    with less.prems show ?thesis by (simp add: depth_loop.simps)
  next
    case False
    obtain rem' d' ch where p: "depth_pass es rem rem d False = (rem', d', ch)" by (metis prod_cases3)
    from False obtain y where "y \<in> set rem" by (cases rem) auto
    then obtain m where "m \<in> set rem" "\<And>e. e \<in> set es \<Longrightarrow> pe_target e = m \<Longrightarrow> pe_source e \<notin> set rem"
      by (rule acyclic_minimal [OF less.prems(2)]) blast
    then have free: "\<exists>x \<in> set rem. \<not> list_ex (\<lambda>e. pe_source e \<in> set rem) (filter (\<lambda>e. pe_target e = x) es)"
      by (intro bexI [of _ m]) (auto simp: list_ex_iff)
    have "distinct rem" using less.prems(1) by (simp add: depth_inv_def)
    then have inv: "depth_inv ids es rem' d'" "ch"
      using depth_pass_inv [OF less.prems(1) _ _ less.prems(2) p] free by auto
    then have "length rem' < length rem" using depth_pass_changed [of es rem rem d rem' d'] p by simp
    then have "\<exists>d''. depth_loop es rem' d' = Inr d'' \<and> depth_inv ids es [] d''"
      using inv(1) less.prems(2) by (rule less.hyps)
    then show ?thesis using False p inv(2) by (simp add: depth_loop.simps [of es rem])
  qed
qed

lemma depth_eq_less:
  assumes "depth_eq es d x" "depth_eq es d (pe_source e)" "e \<in> set es" "pe_target e = x"
  shows "the (map_of d (pe_source e)) < the (map_of d x)"
proof -
  let ?S = "set (map (\<lambda>e. coalesce (map_of d (pe_source e)) 0) (filter (\<lambda>e. pe_target e = x) es))"
  have ne: "filter (\<lambda>e. pe_target e = x) es \<noteq> []" using assms(3,4) by (auto simp: filter_empty_conv)
  obtain v where v: "map_of d (pe_source e) = Some v" using assms(2) by (simp add: depth_eq_def)
  then have "v \<in> ?S" using assms(3,4) by (force simp: image_iff)
  then have "v \<le> Max ?S" by (intro Max_ge) auto
  then show ?thesis using assms(1) ne v by (simp add: depth_eq_def)
qed

text \<open>
  On every graph that \<open>assertDag\<close> accepts, \<open>graphDepths\<close> succeeds and assigns every node
  its depth: zero without predecessors and otherwise one more than the largest depth of a predecessor,
  so depths strictly increase along the edges.
\<close>

theorem graphDepths_correct:
  assumes "assertDag ids es = Inr ()"
  shows "\<exists>d. graphDepths ids es = Inr d \<and> (\<forall>x \<in> set ids. depth_eq es d x) \<and>
    (\<forall>e \<in> set es. the (map_of d (pe_source e)) < the (map_of d (pe_target e)))"
proof -
  have g: "distinct ids" "graph_over ids es" "acyclic (edge_rel es)" using assms by (simp_all add: assertDag_iff)
  have "rev (remdups (rev ids)) = ids" using g(1) by (simp add: distinct_remdups_id)
  moreover have "depth_inv ids es ids (map (\<lambda>i. (i, 0)) ids)" using g(1) by (simp add: depth_inv_def)
  ultimately obtain d where d: "graphDepths ids es = Inr d" "depth_inv ids es [] d"
    using depth_loop_correct [OF _ g(3)] by (metis graphDepths_def)
  then have eq: "depth_eq es d x" if "x \<in> set ids" for x using that by (simp add: depth_inv_def)
  then show ?thesis using d(1) depth_eq_less graph_overD [OF g(2)] by blast
qed

theorem graphDepths_correct_witness:
  "\<exists>d. graphDepths [''a'', ''b'', ''c''] [\<lparr>pe_source = ''c'', pe_target = ''b''\<rparr>, \<lparr>pe_source = ''b'', pe_target = ''a''\<rparr>] = Inr d \<and>
    (\<forall>x \<in> set [''a'', ''b'', ''c'']. depth_eq [\<lparr>pe_source = ''c'', pe_target = ''b''\<rparr>, \<lparr>pe_source = ''b'', pe_target = ''a''\<rparr>] d x) \<and>
    (\<forall>e \<in> set [\<lparr>pe_source = ''c'', pe_target = ''b''\<rparr>, \<lparr>pe_source = ''b'', pe_target = ''a''\<rparr>].
       the (map_of d (pe_source e)) < the (map_of d (pe_target e)))"
  by (rule graphDepths_correct) code_simp

end
