(* ===== verification/Dag_Scopes.thy ===== *)
theory Dag_Scopes
  imports Dag_Graph "HOL-Library.Sublist"
begin

text \<open>
  Write scopes as paths: a normalized scope is a sequence of path components, the root \<open>.\<close> being the
  empty one, and two scopes conflict exactly when one path is a prefix of the other, that is, when one
  directory contains the other.
\<close>

fun join_slash :: "string list \<Rightarrow> string" where
  "join_slash [] = []"
| "join_slash [p] = p"
| "join_slash (p # ps) = p @ ''/'' @ join_slash ps"

lemma split_slash_ne [simp]: "split_slash s \<noteq> []"
  by (induction s) (auto split: list.split)

lemma join_split [simp]: "join_slash (split_slash s) = s"
proof (induction s)
  case (Cons c cs)
  obtain p ps where sp: "split_slash cs = p # ps" by (meson neq_Nil_conv split_slash_ne)
  show ?case
  proof (cases "c = CHR ''/''")
    case True
    with sp Cons show ?thesis by simp
  next
    case False
    with sp Cons show ?thesis by (cases ps) auto
  qed
qed simp

lemma split_append: "split_slash (p @ CHR ''/'' # r) = split_slash p @ split_slash r"
proof (induction p)
  case (Cons c p)
  then show ?case by (cases "split_slash p") auto
qed simp

lemma join_append: "xs \<noteq> [] \<Longrightarrow> ys \<noteq> [] \<Longrightarrow> join_slash (xs @ ys) = join_slash xs @ ''/'' @ join_slash ys"
proof (induction xs rule: join_slash.induct)
  case (2 p)
  then show ?case by (cases ys) auto
qed auto

lemma startsWith_iff: "startsWith s p \<longleftrightarrow> prefix p s"
  by (auto simp: startsWith_def prefix_def) (metis append_take_drop_id)

lemma split_prefix_iff: "prefix (split_slash p) (split_slash c) \<longleftrightarrow> p = c \<or> startsWith c (p @ ''/'')"
proof
  assume "prefix (split_slash p) (split_slash c)"
  then obtain ys where ys: "split_slash c = split_slash p @ ys" by (auto simp: prefix_def)
  show "p = c \<or> startsWith c (p @ ''/'')"
  proof (cases "ys = []")
    case True
    with ys show ?thesis by (metis append_Nil2 join_split)
  next
    case False
    have "c = join_slash (split_slash p @ ys)" by (metis ys join_split)
    also have "\<dots> = p @ ''/'' @ join_slash ys" using False by (simp add: join_append)
    finally show ?thesis by (simp add: startsWith_iff)
  qed
next
  assume "p = c \<or> startsWith c (p @ ''/'')"
  then show "prefix (split_slash p) (split_slash c)"
    by (auto simp: startsWith_iff prefix_def split_append)
qed

section \<open>Conflicts\<close>

definition valid_scope :: "string \<Rightarrow> bool" where
  "valid_scope s \<longleftrightarrow> (case normalizeScope s of Inr _ \<Rightarrow> True | Inl _ \<Rightarrow> False)"

definition scope_path :: "string \<Rightarrow> string list" where
  "scope_path s = (case normalizeScope s of Inr n \<Rightarrow> if n = ''.'' then [] else split_slash n | Inl _ \<Rightarrow> [])"

definition overlap :: "string \<Rightarrow> string \<Rightarrow> bool" where
  "overlap a b \<longleftrightarrow> prefix (scope_path a) (scope_path b) \<or> prefix (scope_path b) (scope_path a)"

definition scopes_overlap :: "string list \<Rightarrow> string list \<Rightarrow> bool" where
  "scopes_overlap xs ys \<longleftrightarrow> (\<exists>a \<in> set xs. \<exists>b \<in> set ys. overlap a b)"

lemma overlap_sym: "overlap a b = overlap b a"
  by (auto simp: overlap_def)

lemma scopes_overlap_sym: "scopes_overlap xs ys = scopes_overlap ys xs"
  unfolding scopes_overlap_def by (metis overlap_sym)

lemma scopes_overlap_concat: "scopes_overlap xs (concat yss) \<longleftrightarrow> (\<exists>ys \<in> set yss. scopes_overlap xs ys)"
  by (auto simp: scopes_overlap_def)

lemma scopeContains_iff:
  assumes "valid_scope a" "valid_scope b"
  shows "scopeContains a b = Inr (prefix (scope_path a) (scope_path b))"
proof -
  obtain p c where n: "normalizeScope a = Inr p" "normalizeScope b = Inr c" using assms by (auto simp: valid_scope_def split: sum.splits)
  have "\<not> startsWith ''.'' (p @ ''/'')" if "p \<noteq> ''.''"
    using that by (cases p) (auto simp: startsWith_iff prefix_def)
  then show ?thesis
    using n by (auto simp: scopeContains_def scope_path_def split_prefix_iff)
qed

lemma some_exn_pure: "(\<And>x. x \<in> set xs \<Longrightarrow> f x = Inr (P x)) \<Longrightarrow> some_exn f xs = Inr (\<exists>x \<in> set xs. P x)"
  by (induction xs) auto

lemma scopesConflict_valid:
  assumes "\<forall>s \<in> set xs \<union> set ys. valid_scope s"
  shows "scopesConflict xs ys = Inr (scopes_overlap xs ys)"
  unfolding scopesConflict_def scopes_overlap_def
proof (intro some_exn_pure)
  fix a b
  assume "a \<in> set xs" "b \<in> set ys"
  then show "(case scopeContains a b of Inl err \<Rightarrow> Inl err | Inr True \<Rightarrow> Inr True | Inr False \<Rightarrow> scopeContains b a) = Inr (overlap a b)"
    using assms by (auto simp: scopeContains_iff overlap_def split: bool.splits)
qed

text \<open>
  On scopes that normalize, \<open>scopesConflict\<close> raises no error and decides whether some scope of
  one list and some scope of the other are nested directories: the components of one path are a prefix
  of the components of the other. So it is symmetric, and the root conflicts with every scope.
\<close>

theorem scopesConflict_correct:
  assumes "\<forall>s \<in> set xs \<union> set ys. valid_scope s"
  shows "scopesConflict xs ys =
      Inr (\<exists>a \<in> set xs. \<exists>b \<in> set ys. prefix (scope_path a) (scope_path b) \<or> prefix (scope_path b) (scope_path a)) \<and>
    scopesConflict xs ys = scopesConflict ys xs"
proof -
  have "\<forall>s \<in> set ys \<union> set xs. valid_scope s" using assms by blast
  then show ?thesis
    using assms by (simp add: scopesConflict_valid scopes_overlap_sym [of xs] scopes_overlap_def overlap_def) blast
qed

theorem scopesConflict_correct_witness:
  "scopesConflict [''docs'', ''./src/''] [''src/a''] =
      Inr (\<exists>a \<in> set [''docs'', ''./src/'']. \<exists>b \<in> set [''src/a'']. prefix (scope_path a) (scope_path b) \<or> prefix (scope_path b) (scope_path a)) \<and>
   scopesConflict [''docs'', ''./src/''] [''src/a''] = scopesConflict [''src/a''] [''docs'', ''./src/'']"
  by (rule scopesConflict_correct) code_simp

end
