(* ===== verification/Dag_Invariants.thy ===== *)
theory Dag_Invariants
  imports Dag_Store Dag_Acyclic Dag_Scopes Kala_Machines
begin

text \<open>
  What every store of task graphs satisfies, whatever operations ran: the live graph of every run is
  acyclic and connects live nodes, a node has left \<open>pending\<close> only when all its prerequisites have
  succeeded, and nodes that run at the same time have disjoint write scopes. The transactions are
  analysed statement by statement; the invariant is a predicate of the tables of runs, nodes and edges,
  so the statements on the other tables keep it trivially.
\<close>

section \<open>The invariant\<close>

abbreviation node_key :: "DagNode \<Rightarrow> string \<times> string" where
  "node_key n \<equiv> (n_runId n, n_id n)"

definition started :: "DagNodeStatus \<Rightarrow> bool" where
  "started st \<longleftrightarrow> st \<in> {NReady, NRunning, NWaitingUser, NSucceeded, NFailed}"

definition run_rel :: "DagEdge list \<Rightarrow> string \<Rightarrow> (string \<times> string) set" where
  "run_rel es rid = {(e_source e, e_target e) | e. e \<in> set es \<and> e_runId e = rid}"

definition live_node :: "DagNode list \<Rightarrow> string \<Rightarrow> string \<Rightarrow> bool" where
  "live_node ns rid i \<longleftrightarrow> (\<exists>n \<in> set ns. node_key n = (rid, i) \<and> n_status n \<noteq> NReplaced)"

definition succeeded_node :: "DagNode list \<Rightarrow> string \<Rightarrow> string \<Rightarrow> bool" where
  "succeeded_node ns rid i \<longleftrightarrow> (\<exists>n \<in> set ns. node_key n = (rid, i) \<and> n_status n = NSucceeded)"

text \<open>Every prerequisite of the node has succeeded.\<close>

definition deps_done :: "DagNode list \<Rightarrow> DagEdge list \<Rightarrow> DagNode \<Rightarrow> bool" where
  "deps_done ns es n \<longleftrightarrow>
     (\<forall>e \<in> set es. e_runId e = n_runId n \<longrightarrow> e_target e = n_id n \<longrightarrow> succeeded_node ns (n_runId n) (e_source e))"

definition plain_id :: "string \<Rightarrow> bool" where
  "plain_id i \<longleftrightarrow> CHR 0x00 \<notin> set i"

text \<open>
  The rows refer to each other and a run at version zero has no nodes yet; the runs in \<open>X\<close> are exempt
  from the latter, as the run is while its first graph is being installed.
\<close>

definition rows_ok :: "string set \<Rightarrow> RunRow list \<Rightarrow> DagNode list \<Rightarrow> bool" where
  "rows_ok X rs ns \<longleftrightarrow> distinct (map r_id rs) \<and> distinct (map node_key ns) \<and>
     (\<forall>n \<in> set ns. n_runId n \<in> set (map r_id rs) \<and> plain_id (n_id n) \<and> (\<forall>s \<in> set (n_writeScopes n). valid_scope s)) \<and>
     (\<forall>r \<in> set rs. r_id r \<notin> X \<longrightarrow> r_graphVersion r = 0 \<longrightarrow> (\<forall>n \<in> set ns. n_runId n \<noteq> r_id r))"

definition edges_ok :: "DagNode list \<Rightarrow> DagEdge list \<Rightarrow> bool" where
  "edges_ok ns es \<longleftrightarrow>
     (\<forall>e \<in> set es. live_node ns (e_runId e) (e_source e) \<and> live_node ns (e_runId e) (e_target e)) \<and>
     (\<forall>rid. acyclic (run_rel es rid))"

definition deps_ok :: "DagNode list \<Rightarrow> DagEdge list \<Rightarrow> bool" where
  "deps_ok ns es \<longleftrightarrow> (\<forall>n \<in> set ns. started (n_status n) \<longrightarrow> deps_done ns es n)"

definition scopes_ok :: "DagNode list \<Rightarrow> bool" where
  "scopes_ok ns \<longleftrightarrow>
     (\<forall>n \<in> set ns. \<forall>m \<in> set ns. n_status n = NRunning \<longrightarrow> n_status m = NRunning \<longrightarrow> n_runId n = n_runId m \<longrightarrow>
        n_id n \<noteq> n_id m \<longrightarrow> \<not> scopes_overlap (n_writeScopes n) (n_writeScopes m))"

definition graph_inv_ex :: "string set \<Rightarrow> dag_db \<Rightarrow> bool" where
  "graph_inv_ex X db \<longleftrightarrow> rows_ok X (t_runs db) (t_nodes db) \<and> edges_ok (t_nodes db) (t_edges db) \<and>
     deps_ok (t_nodes db) (t_edges db) \<and> scopes_ok (t_nodes db)"

abbreviation graph_inv :: "dag_db \<Rightarrow> bool" where
  "graph_inv \<equiv> graph_inv_ex {}"

section \<open>Changing the status of a node\<close>

text \<open>What an update of node rows may do without breaking the invariant.\<close>

definition safe_update :: "DagNode list \<Rightarrow> DagEdge list \<Rightarrow> (DagNode \<Rightarrow> bool) \<Rightarrow> (DagNode \<Rightarrow> DagNode) \<Rightarrow> bool" where
  "safe_update ns es P f \<longleftrightarrow>
     (\<forall>n \<in> set ns. P n \<longrightarrow> node_key (f n) = node_key n \<and> n_writeScopes (f n) = n_writeScopes n \<and>
        (n_status n = NSucceeded \<longrightarrow> n_status (f n) = NSucceeded) \<and>
        (n_status n = NReplaced \<or> n_status (f n) \<noteq> NReplaced) \<and>
        (started (n_status (f n)) \<longrightarrow> started (n_status n) \<or> deps_done ns es n) \<and>
        (n_status (f n) = NRunning \<longrightarrow> n_status n = NRunning \<or>
           (\<forall>m \<in> set ns. n_runId m = n_runId n \<longrightarrow> n_status m = NRunning \<or> P m \<longrightarrow> n_id m \<noteq> n_id n \<longrightarrow>
              \<not> scopes_overlap (n_writeScopes n) (n_writeScopes m))))"

lemma safe_updateD:
  assumes "safe_update ns es P f" "n \<in> set ns" "P n"
  shows "n_runId (f n) = n_runId n" "n_id (f n) = n_id n" "n_writeScopes (f n) = n_writeScopes n"
    and "n_status n = NSucceeded \<Longrightarrow> n_status (f n) = NSucceeded"
    and "n_status (f n) = NReplaced \<Longrightarrow> n_status n = NReplaced"
    and "started (n_status (f n)) \<Longrightarrow> started (n_status n) \<or> deps_done ns es n"
    and "n_status (f n) = NRunning \<Longrightarrow> n_status n \<noteq> NRunning \<Longrightarrow> m \<in> set ns \<Longrightarrow> n_runId m = n_runId n \<Longrightarrow>
      n_status m = NRunning \<or> P m \<Longrightarrow> n_id m \<noteq> n_id n \<Longrightarrow> \<not> scopes_overlap (n_writeScopes n) (n_writeScopes m)"
  using assms by (auto simp: safe_update_def)

lemma update_memE:
  assumes "m \<in> set (update_where P f ns)"
  obtains n where "n \<in> set ns" "P n" "m = f n" | "m \<in> set ns" "\<not> P m"
  using assms by (auto simp: set_update_where split: if_splits)

lemma update_keys: "safe_update ns es P f \<Longrightarrow> map node_key (update_where P f ns) = map node_key ns"
  by (auto simp: update_where_def safe_updateD)

lemma update_rows_ok:
  assumes "safe_update ns es P f" "rows_ok X rs ns"
  shows "rows_ok X rs (update_where P f ns)"
proof -
  have row: "n_runId m \<in> set (map r_id rs) \<and> plain_id (n_id m) \<and> (\<forall>s \<in> set (n_writeScopes m). valid_scope s)"
    if "m \<in> set (update_where P f ns)" for m
    using that assms(2) by (cases rule: update_memE) (simp_all add: rows_ok_def safe_updateD [OF assms(1)])
  have "n_runId m \<noteq> r_id r" if "m \<in> set (update_where P f ns)" "r \<in> set rs" "r_id r \<notin> X" "r_graphVersion r = 0" for m r
    using that assms(2) by (cases rule: update_memE) (simp_all add: rows_ok_def safe_updateD [OF assms(1)])
  with row show ?thesis
    using assms(2) by (simp add: rows_ok_def update_keys [OF assms(1)])
qed

lemma update_memI: "n \<in> set ns \<Longrightarrow> (if P n then f n else n) \<in> set (update_where P f ns)"
  by (auto simp: set_update_where)

lemma update_live:
  assumes "safe_update ns es P f" "live_node ns rid i"
  shows "live_node (update_where P f ns) rid i"
proof -
  obtain n where n: "n \<in> set ns" "node_key n = (rid, i)" "n_status n \<noteq> NReplaced" using assms(2) by (auto simp: live_node_def)
  then show ?thesis
    using update_memI [of n ns P f] safe_updateD [OF assms(1) n(1)] unfolding live_node_def
    by (intro bexI [of _ "if P n then f n else n"]) auto
qed

lemma update_succeeded:
  assumes "safe_update ns es P f" "succeeded_node ns rid i"
  shows "succeeded_node (update_where P f ns) rid i"
proof -
  obtain n where n: "n \<in> set ns" "node_key n = (rid, i)" "n_status n = NSucceeded" using assms(2) by (auto simp: succeeded_node_def)
  then show ?thesis
    using update_memI [of n ns P f] safe_updateD [OF assms(1) n(1)] unfolding succeeded_node_def
    by (intro bexI [of _ "if P n then f n else n"]) auto
qed

lemma update_deps_done:
  "safe_update ns es P f \<Longrightarrow> deps_done ns es n \<Longrightarrow> n_runId m = n_runId n \<Longrightarrow> n_id m = n_id n \<Longrightarrow> deps_done (update_where P f ns) es m"
  by (simp add: deps_done_def update_succeeded)

lemma update_edges_ok: "safe_update ns es P f \<Longrightarrow> edges_ok ns es \<Longrightarrow> edges_ok (update_where P f ns) es"
  by (simp add: edges_ok_def update_live)

lemma update_deps_ok:
  assumes "safe_update ns es P f" "deps_ok ns es"
  shows "deps_ok (update_where P f ns) es"
  unfolding deps_ok_def
proof (intro ballI impI)
  fix m assume "m \<in> set (update_where P f ns)" and st: "started (n_status m)"
  then show "deps_done (update_where P f ns) es m"
  proof (cases rule: update_memE)
    case (1 n)
    then have "deps_done ns es n" using safe_updateD(6) [OF assms(1) 1(1,2)] assms(2) st by (auto simp: deps_ok_def)
    then show ?thesis using safe_updateD [OF assms(1) 1(1,2)] 1(3) by (intro update_deps_done [OF assms(1)]) auto
  next
    case 2
    then have "deps_done ns es m" using assms(2) st by (simp add: deps_ok_def)
    then show ?thesis by (intro update_deps_done [OF assms(1)]) auto
  qed
qed

text \<open>Where a running row comes from: it was running, or it was started by the update.\<close>

lemma update_running:
  assumes "safe_update ns es P f" "m \<in> set (update_where P f ns)" "n_status m = NRunning"
  obtains n where "n \<in> set ns" "n_runId n = n_runId m" "n_id n = n_id m" "n_writeScopes n = n_writeScopes m"
    "n_status n = NRunning \<or> P n \<and> (\<forall>k \<in> set ns. n_runId k = n_runId n \<longrightarrow> n_status k = NRunning \<or> P k \<longrightarrow> n_id k \<noteq> n_id n \<longrightarrow>
       \<not> scopes_overlap (n_writeScopes n) (n_writeScopes k))"
  using assms(2)
proof (cases rule: update_memE)
  case (1 n)
  then show ?thesis
    using safe_updateD [OF assms(1) 1(1,2)] assms(3) by (intro that [of n]) auto
next
  case 2
  then show ?thesis using assms(3) by (intro that [of m]) auto
qed

lemma update_scopes_ok:
  assumes "safe_update ns es P f" "scopes_ok ns"
  shows "scopes_ok (update_where P f ns)"
  unfolding scopes_ok_def
proof (intro ballI impI)
  fix x y
  assume x: "x \<in> set (update_where P f ns)" "n_status x = NRunning"
    and y: "y \<in> set (update_where P f ns)" "n_status y = NRunning"
    and same: "n_runId x = n_runId y" "n_id x \<noteq> n_id y"
  obtain n where n: "n \<in> set ns" "n_runId n = n_runId x" "n_id n = n_id x" "n_writeScopes n = n_writeScopes x"
    "n_status n = NRunning \<or> P n \<and> (\<forall>k \<in> set ns. n_runId k = n_runId n \<longrightarrow> n_status k = NRunning \<or> P k \<longrightarrow> n_id k \<noteq> n_id n \<longrightarrow>
       \<not> scopes_overlap (n_writeScopes n) (n_writeScopes k))"
    using assms(1) x by (rule update_running)
  obtain m where m: "m \<in> set ns" "n_runId m = n_runId y" "n_id m = n_id y" "n_writeScopes m = n_writeScopes y"
    "n_status m = NRunning \<or> P m \<and> (\<forall>k \<in> set ns. n_runId k = n_runId m \<longrightarrow> n_status k = NRunning \<or> P k \<longrightarrow> n_id k \<noteq> n_id m \<longrightarrow>
       \<not> scopes_overlap (n_writeScopes m) (n_writeScopes k))"
    using assms(1) y by (rule update_running)
  have "\<not> scopes_overlap (n_writeScopes n) (n_writeScopes m)"
  proof (cases "n_status n = NRunning \<and> n_status m = NRunning")
    case True
    then show ?thesis using assms(2) n(1-3) m(1-3) same unfolding scopes_ok_def by metis
  next
    case False
    then show ?thesis using n m same scopes_overlap_sym by metis
  qed
  then show "\<not> scopes_overlap (n_writeScopes x) (n_writeScopes y)" using n(4) m(4) by simp
qed

lemma graph_inv_update:
  assumes "graph_inv_ex X db" "safe_update (t_nodes db) (t_edges db) P f"
  shows "graph_inv_ex X (db\<lparr>t_nodes := update_where P f (t_nodes db)\<rparr>)"
  using assms by (simp add: graph_inv_ex_def update_rows_ok update_edges_ok update_deps_ok update_scopes_ok)

section \<open>Statements that keep the invariant\<close>

text \<open>An update that neither starts a node nor undoes a success keeps the invariant in every store.\<close>

definition quiet_change :: "(DagNodeStatus \<Rightarrow> bool) \<Rightarrow> (DagNode \<Rightarrow> DagNode) \<Rightarrow> bool" where
  "quiet_change st f \<longleftrightarrow>
     (\<forall>n. st (n_status n) \<longrightarrow> node_key (f n) = node_key n \<and> n_writeScopes (f n) = n_writeScopes n \<and>
        n_status n \<noteq> NSucceeded \<and> n_status (f n) \<noteq> NReplaced \<and>
        (started (n_status (f n)) \<longrightarrow> started (n_status n)) \<and> (n_status (f n) = NRunning \<longrightarrow> n_status n = NRunning))"

lemma quiet_change_safe: "quiet_change st f \<Longrightarrow> safe_update ns es (node_where rid nid st) f"
  by (auto simp: quiet_change_def safe_update_def node_where_def)

lemma update_node_Inr:
  "update_node rid nid st f db = Inr (a, db') \<longleftrightarrow>
     a = changes (node_where rid nid st) (t_nodes db) \<and> db' = db\<lparr>t_nodes := update_where (node_where rid nid st) f (t_nodes db)\<rparr>"
  by (auto simp: update_node_def tx_simps)

lemma keeps_update_node: "quiet_change st f \<Longrightarrow> tx_keeps (graph_inv_ex X) (update_node rid nid st f)"
  by (auto simp: tx_keeps_def update_node_Inr intro: graph_inv_update quiet_change_safe)

text \<open>Insertions into the other tables and updates of them.\<close>

lemma keeps_insert_row: "(\<And>db. ok db \<Longrightarrow> graph_inv_ex X db \<Longrightarrow> graph_inv_ex X (add db)) \<Longrightarrow> tx_keeps (graph_inv_ex X) (insert_row ok table add)"
  by (auto simp: tx_keeps_def insert_row_def tx_simps)

lemma keeps_other_tables [intro]:
  "tx_keeps (graph_inv_ex X) (recordEvent rid ty msg node now)"
  "tx_keeps (graph_inv_ex X) (insert_lease l)" "tx_keeps (graph_inv_ex X) (insert_attempt a)" "tx_keeps (graph_inv_ex X) (insert_version v)"
  "tx_keeps (graph_inv_ex X) (insert_decision d)" "tx_keeps (graph_inv_ex X) (delete_lease rid nid owner)"
  "tx_keeps (graph_inv_ex X) (recordOperation oid rid k now)" "tx_keeps (graph_inv_ex X) (settleAttempt rid nid att st now res err)"
  unfolding recordEvent_def insert_lease_def insert_attempt_def insert_version_def insert_decision_def delete_lease_def
    recordOperation_def settleAttempt_def Let_def
  by (intro keeps_insert_row tx_keeps_bind tx_keeps_then tx_keeps_modify tx_keeps_intros; simp add: graph_inv_ex_def)+

lemma keeps_reads [intro]:
  "tx_keeps P (requireRunRow rid)" "tx_keeps P (requireMutableRun rid)" "tx_keeps P (requireNode rid nid)"
  "tx_keeps P (assertLease rid nid owner now)"
  by (auto simp: tx_keeps_def requireRunRow_def requireMutableRun_def requireNode_def assertLease_def tx_simps
      split: option.splits if_splits)

lemma keeps_seq: "(\<And>m. m \<in> set ms \<Longrightarrow> tx_keeps P m) \<Longrightarrow> tx_keeps P (tx_seq ms)"
  by (induction ms) auto

lemma keeps_if: "(b \<Longrightarrow> tx_keeps P m) \<Longrightarrow> (\<not> b \<Longrightarrow> tx_keeps P n) \<Longrightarrow> tx_keeps P (if b then m else n)"
  by simp

lemma keeps_option: "tx_keeps P m \<Longrightarrow> (\<And>v. tx_keeps P (n v)) \<Longrightarrow> tx_keeps P (case x of None \<Rightarrow> m | Some v \<Rightarrow> n v)"
  by (simp split: option.split)

text \<open>The statements on runs never take a graph version back to zero.\<close>

lemma keeps_update_run:
  assumes "\<And>r. sel r \<Longrightarrow> r_id (f r) = r_id r \<and> (r_graphVersion (f r) = 0 \<longrightarrow> r_graphVersion r = 0)"
  shows "tx_keeps (graph_inv_ex X) (update_run sel f lost)"
proof -
  have "rows_ok X (update_where sel f rs) ns" if "rows_ok X rs ns" for rs ns
  proof -
    have ids: "map r_id (update_where sel f rs) = map r_id rs" using assms by (intro map_update_where) simp
    have "\<forall>r \<in> set (update_where sel f rs). r_id r \<notin> X \<longrightarrow> r_graphVersion r = 0 \<longrightarrow> (\<forall>n \<in> set ns. n_runId n \<noteq> r_id r)"
      using that assms by (auto simp: rows_ok_def set_update_where)
    with ids that show ?thesis by (simp add: rows_ok_def)
  qed
  then show ?thesis by (auto simp: tx_keeps_def update_run_def tx_simps graph_inv_ex_def)
qed

lemma keeps_cancel [intro]: "tx_keeps (graph_inv_ex X) (cancelBlockedDescendants rid nid now)"
  unfolding cancelBlockedDescendants_def
  by (intro tx_keeps_bind tx_keeps_each keeps_if keeps_update_node tx_keeps_intros keeps_other_tables)
     (simp add: quiet_change_def started_def)

lemma keeps_settleRun [intro]: "tx_keeps (graph_inv_ex X) (settleRun rid now)"
  unfolding settleRun_def Let_def
  by (intro tx_keeps_bind tx_keeps_then keeps_if keeps_option tx_keeps_intros keeps_reads keeps_update_run keeps_other_tables)
     simp_all

lemma keeps_recordGraphVersion [intro]: "tx_keeps (graph_inv_ex X) (recordGraphVersion rid v now)"
  unfolding recordGraphVersion_def by (intro tx_keeps_bind tx_keeps_intros keeps_reads keeps_other_tables)

lemma keeps_recover [intro]: "tx_keeps (graph_inv_ex X) (recoverExpiredLeases rid now)"
  unfolding recoverExpiredLeases_def
  by (intro tx_keeps_bind tx_keeps_then tx_keeps_each keeps_seq tx_keeps_intros tx_keeps_modify)
     (auto simp: graph_inv_ex_def quiet_change_def started_def intro!: keeps_update_node)

section \<open>Promotion\<close>

lemma nodeFromRow_fields [simp]:
  "n_id (nodeFromRow n) = n_id n" "n_status (nodeFromRow n) = n_status n" "n_runId (nodeFromRow n) = n_runId n"
  "n_writeScopes (nodeFromRow n) = n_writeScopes n" "n_attempt (nodeFromRow n) = n_attempt n" "n_depth (nodeFromRow n) = n_depth n"
  by (simp_all add: nodeFromRow_def)

lemma edgeFromRow_id [simp]: "edgeFromRow e = e"
  by (simp add: edgeFromRow_def)

lemma nodes_unique: "rows_ok X rs ns \<Longrightarrow> n \<in> set ns \<Longrightarrow> m \<in> set ns \<Longrightarrow> node_key n = node_key m \<Longrightarrow> n = m"
  by (auto simp: rows_ok_def distinct_map inj_on_def)

lemma ready_deps_done:
  assumes "graph_inv_ex X db" "i \<in> set (readyNodeIds (map nodeFromRow (nodeRows db rid)) (map edgeFromRow (edgeRows db rid)))"
    and "n \<in> set (t_nodes db)" "node_key n = (rid, i)"
  shows "deps_done (t_nodes db) (t_edges db) n"
  unfolding deps_done_def
proof (intro ballI impI)
  fix e assume e: "e \<in> set (t_edges db)" "e_runId e = n_runId n" "e_target e = n_id n"
  have "e_source e \<in> n_id ` {m \<in> set (nodeRows db rid). n_status m = NSucceeded \<or> n_status m = NReplaced}"
    using assms(2,4) e by (auto simp: readyNodeIds_def Let_def list_all_iff edgeRows_def image_image)
  then obtain m where m: "m \<in> set (t_nodes db)" "node_key m = (rid, e_source e)" "n_status m = NSucceeded \<or> n_status m = NReplaced"
    by (auto simp: nodeRows_def)
  moreover have "live_node (t_nodes db) rid (e_source e)"
    using assms(1,4) e by (auto simp: graph_inv_ex_def edges_ok_def)
  then obtain k where "k \<in> set (t_nodes db)" "node_key k = (rid, e_source e)" "n_status k \<noteq> NReplaced"
    by (auto simp: live_node_def)
  ultimately have "n_status m = NSucceeded"
    using assms(1) nodes_unique [of X "t_runs db" "t_nodes db" m k] by (auto simp: graph_inv_ex_def)
  then show "succeeded_node (t_nodes db) (n_runId n) (e_source e)" using m assms(4) by (auto simp: succeeded_node_def)
qed

definition promotable :: "string set \<Rightarrow> string \<Rightarrow> string list \<Rightarrow> dag_db \<Rightarrow> bool" where
  "promotable X rid ids db \<longleftrightarrow> graph_inv_ex X db \<and>
     (\<forall>n \<in> set (t_nodes db). n_runId n = rid \<longrightarrow> n_id n \<in> set ids \<longrightarrow> deps_done (t_nodes db) (t_edges db) n)"

lemma keeps_promote_one:
  assumes "i \<in> set ids"
  shows "tx_keeps (promotable X rid ids)
    (update_node rid i (\<lambda>st. st = NPending) (\<lambda>n. n\<lparr>n_status := NReady, n_progress := Some ''Ready''\<rparr>))"
    (is "tx_keeps _ (update_node _ _ ?st ?f)")
  unfolding tx_keeps_def update_node_Inr
proof (intro allI impI, elim conjE)
  fix db a db'
  assume inv: "promotable X rid ids db" and db': "db' = db\<lparr>t_nodes := update_where (node_where rid i ?st) ?f (t_nodes db)\<rparr>"
  have safe: "safe_update (t_nodes db) (t_edges db) (node_where rid i ?st) ?f"
    using inv assms by (auto simp: safe_update_def node_where_def promotable_def)
  have "deps_done (t_nodes db') (t_edges db') m" if "m \<in> set (t_nodes db')" "n_runId m = rid" "n_id m \<in> set ids" for m
  proof -
    from that(1) obtain n where n: "n \<in> set (t_nodes db)" "n_runId m = n_runId n" "n_id m = n_id n"
      by (auto simp: db' set_update_where split: if_splits)
    with that inv have "deps_done (t_nodes db) (t_edges db) n" by (simp add: promotable_def)
    then show ?thesis using update_deps_done [OF safe _ n(2,3)] by (simp add: db')
  qed
  then show "promotable X rid ids db'"
    using inv graph_inv_update [OF _ safe] by (simp add: promotable_def db')
qed

lemma keeps_promote [intro]: "tx_keeps (graph_inv_ex X) (promoteReadyNodes rid)"
  unfolding tx_keeps_def promoteReadyNodes_def tx_bind_Inr tx_gets_Inr
proof (intro allI impI, elim exE conjE)
  fix db a db' ids db1
  assume inv: "graph_inv_ex X db" and ids: "ids = readyNodeIds (map nodeFromRow (nodeRows db rid)) (map edgeFromRow (edgeRows db rid))"
    and "db1 = db"
    and run: "tx_each (\<lambda>i. tx_then (update_node rid i (\<lambda>st. st = NPending) (\<lambda>n. n\<lparr>n_status := NReady, n_progress := Some ''Ready''\<rparr>))
        (tx_return ())) ids db1 = Inr (a, db')"
  have "promotable X rid ids db"
    using inv ready_deps_done [OF inv] ids by (auto simp: promotable_def)
  moreover have "tx_keeps (promotable X rid ids) (tx_each (\<lambda>i. tx_then (update_node rid i (\<lambda>st. st = NPending)
      (\<lambda>n. n\<lparr>n_status := NReady, n_progress := Some ''Ready''\<rparr>)) (tx_return ())) ids)"
    by (intro tx_keeps_each tx_keeps_then keeps_promote_one tx_keeps_intros)
  ultimately show "graph_inv_ex X db'"
    using run \<open>db1 = db\<close> by (auto simp: promotable_def dest!: tx_keepsD)
qed

section \<open>Claiming\<close>

text \<open>
  During the loop, \<open>scopes\<close> holds the scopes of every running node of the run, and the rows still to
  be visited are rows of the table.
\<close>

definition claiming :: "string set \<Rightarrow> string \<Rightarrow> DagNode list \<Rightarrow> string list list \<Rightarrow> dag_db \<Rightarrow> bool" where
  "claiming X rid rows scopes db \<longleftrightarrow> graph_inv_ex X db \<and>
     (\<forall>n \<in> set (t_nodes db). n_runId n = rid \<longrightarrow> n_status n = NRunning \<longrightarrow> n_writeScopes n \<in> set scopes) \<and>
     (\<forall>sc \<in> set scopes. \<forall>x \<in> set sc. valid_scope x) \<and>
     (\<forall>row \<in> set rows. n_runId row = rid \<and> (\<exists>n \<in> set (t_nodes db). node_key n = (rid, n_id row) \<and> n_writeScopes n = n_writeScopes row))"

lemma claiming_rowE:
  assumes "claiming X rid rows scopes db" "row \<in> set rows"
  obtains n where "n \<in> set (t_nodes db)" "n_runId n = rid" "n_id n = n_id row" "n_writeScopes n = n_writeScopes row" "n_runId row = rid"
  using assms unfolding claiming_def by (metis prod.inject)

lemma claim_safe:
  assumes "claiming X rid (row # rows) scopes db" "scopesConflict (n_writeScopes row) (concat scopes) = Inr False"
    and "\<And>n. node_key (f n) = node_key n \<and> n_writeScopes (f n) = n_writeScopes n \<and> n_status (f n) = NRunning"
  shows "safe_update (t_nodes db) (t_edges db) (node_where rid (n_id row) (\<lambda>st. st = NReady)) f"
proof -
  obtain n0 where n0: "n0 \<in> set (t_nodes db)" "n_runId n0 = rid" "n_id n0 = n_id row" "n_writeScopes n0 = n_writeScopes row" "n_runId row = rid"
    using claiming_rowE [OF assms(1) list.set_intros(1)] .
  have rows: "rows_ok X (t_runs db) (t_nodes db)" using assms(1) by (simp add: claiming_def graph_inv_ex_def)
  have "\<forall>x \<in> set (n_writeScopes row) \<union> set (concat scopes). valid_scope x"
    using assms(1) n0 rows by (auto simp: claiming_def rows_ok_def)
  then have free: "\<not> scopes_overlap (n_writeScopes row) (concat scopes)"
    using assms(2) by (simp add: scopesConflict_valid)
  have scope: "n_writeScopes n = n_writeScopes row" if "n \<in> set (t_nodes db)" "node_where rid (n_id row) (\<lambda>st. st = NReady) n" for n
    using nodes_unique [OF rows that(1) n0(1)] that(2) n0 by (auto simp: node_where_def)
  have "\<not> scopes_overlap (n_writeScopes n) (n_writeScopes m)"
    if "n \<in> set (t_nodes db)" "node_where rid (n_id row) (\<lambda>st. st = NReady) n" "m \<in> set (t_nodes db)" "n_runId m = n_runId n"
      "n_status m = NRunning \<or> node_where rid (n_id row) (\<lambda>st. st = NReady) m" "n_id m \<noteq> n_id n" for n m
  proof -
    have "n_status m = NRunning" "n_runId m = rid" using that by (auto simp: node_where_def)
    then have "n_writeScopes m \<in> set scopes" using assms(1) that(3) by (auto simp: claiming_def)
    then show ?thesis using free scope [OF that(1,2)] by (auto simp: scopes_overlap_concat)
  qed
  then show ?thesis unfolding safe_update_def using assms(3) by (auto simp: node_where_def started_def)
qed

lemma claiming_update:
  assumes "claiming X rid rows scopes db" "safe_update (t_nodes db) (t_edges db) P f"
    and "\<And>n. n \<in> set (t_nodes db) \<Longrightarrow> P n \<Longrightarrow> n_status (f n) = NRunning \<Longrightarrow> n_writeScopes n \<in> set scopes'"
    and "set scopes \<subseteq> set scopes'" "\<forall>sc \<in> set scopes'. \<forall>x \<in> set sc. valid_scope x"
  shows "claiming X rid rows scopes' (db\<lparr>t_nodes := update_where P f (t_nodes db)\<rparr>)"
proof -
  let ?db = "db\<lparr>t_nodes := update_where P f (t_nodes db)\<rparr>"
  have "graph_inv_ex X ?db" using assms(1,2) by (intro graph_inv_update) (simp_all add: claiming_def)
  moreover have "n_writeScopes m \<in> set scopes'"
    if "m \<in> set (t_nodes ?db)" "n_runId m = rid" "n_status m = NRunning" for m
  proof -
    have "m \<in> set (update_where P f (t_nodes db))" using that(1) by simp
    then show ?thesis
    proof (cases rule: update_memE)
      case (1 n)
      then show ?thesis using assms(3) that(3) safe_updateD(3) [OF assms(2)] by auto
    next
      case 2
      then show ?thesis using assms(1,4) that(2,3) by (auto simp: claiming_def)
    qed
  qed
  moreover have "\<exists>n \<in> set (t_nodes ?db). node_key n = (rid, n_id row) \<and> n_writeScopes n = n_writeScopes row" if "row \<in> set rows" for row
  proof -
    obtain n where "n \<in> set (t_nodes db)" "n_runId n = rid" "n_id n = n_id row" "n_writeScopes n = n_writeScopes row" "n_runId row = rid"
      using claiming_rowE [OF assms(1) \<open>row \<in> set rows\<close>] .
    then show ?thesis
      using update_memI [of n "t_nodes db" P f] safe_updateD(1-3) [OF assms(2), of n]
      by (intro bexI [of _ "if P n then f n else n"]) auto
  qed
  ultimately show ?thesis using assms(1,5) by (auto simp: claiming_def)
qed

lemma claiming_other_tables [simp]:
  "claiming X rid rows scopes (db\<lparr>t_leases := a\<rparr>) = claiming X rid rows scopes db"
  "claiming X rid rows scopes (db\<lparr>t_attempts := b\<rparr>) = claiming X rid rows scopes db"
  "claiming X rid rows scopes (db\<lparr>t_events := c\<rparr>) = claiming X rid rows scopes db"
  by (simp_all add: claiming_def graph_inv_ex_def)

lemma keeps_claiming_other:
  "tx_keeps (claiming X rid rows scopes) (insert_lease l)" "tx_keeps (claiming X rid rows scopes) (insert_attempt a)"
  "tx_keeps (claiming X rid rows scopes) (recordEvent rid2 ty msg node now)"
  by (simp_all add: tx_keeps_def insert_lease_def insert_attempt_def recordEvent_def insert_row_def tx_simps)

lemma changes_le_1: "rows_ok X rs ns \<Longrightarrow> changes (node_where rid i st) ns \<le> 1"
proof -
  assume "rows_ok X rs ns"
  then have "distinct (map node_key (filter (node_where rid i st) ns))"
    by (intro distinct_map_filterI) (simp add: rows_ok_def)
  moreover have "set (map node_key (filter (node_where rid i st) ns)) \<subseteq> {(rid, i)}" by (auto simp: node_where_def)
  ultimately have "length (map node_key (filter (node_where rid i st) ns)) \<le> card {(rid, i)}"
    by (metis card_mono distinct_card finite.emptyI finite.insertI)
  then show ?thesis by (simp add: changes_def)
qed

lemma changes_0: "changes P rows = 0 \<Longrightarrow> update_where P f rows = rows"
  by (auto simp: changes_def update_where_def filter_empty_conv intro: map_idI)

lemma claim_node_claiming:
  assumes "claiming X rid (row # rows) scopes db" "scopesConflict (n_writeScopes row) (concat scopes) = Inr False"
    and "claim_node rid owner ms now (nodeFromRow row) db = Inr (taken, db')"
  shows "claiming X rid rows (if taken then scopes @ [n_writeScopes row] else scopes) db'"
proof -
  let ?P = "node_where rid (n_id row) (\<lambda>st. st = NReady)"
  let ?f = "\<lambda>n. n\<lparr>n_status := NRunning, n_attempt := n_attempt row + 1, n_startedAt := Some now, n_completedAt := None,
      n_progress := Some ''Running'', n_result := None, n_error := None\<rparr>"
  define db1 where "db1 = db\<lparr>t_nodes := update_where ?P ?f (t_nodes db)\<rparr>"
  have rows: "rows_ok X (t_runs db) (t_nodes db)" using assms(1) by (simp add: claiming_def graph_inv_ex_def)
  have safe: "safe_update (t_nodes db) (t_edges db) ?P ?f" using assms(1,2) by (rule claim_safe) simp
  obtain n0 where n0: "n0 \<in> set (t_nodes db)" "n_runId n0 = rid" "n_id n0 = n_id row" "n_writeScopes n0 = n_writeScopes row" "n_runId row = rid"
    using claiming_rowE [OF assms(1) list.set_intros(1)] .
  have tail: "claiming X rid rows scopes db" using assms(1) by (simp add: claiming_def)
  have same: "n_writeScopes n = n_writeScopes row" if "n \<in> set (t_nodes db)" "?P n" for n
    using nodes_unique [OF rows that(1) n0(1)] that(2) n0 by (auto simp: node_where_def)
  have "\<forall>x \<in> set (n_writeScopes row). valid_scope x" using rows n0 by (auto simp: rows_ok_def)
  then have claimed: "claiming X rid rows (scopes @ [n_writeScopes row]) db1"
    unfolding db1_def using tail same by (intro claiming_update [OF tail safe]) (auto simp: claiming_def)
  show ?thesis
  proof (cases "changes ?P (t_nodes db) = 1")
    case True
    then have taken: "taken" and rest: "\<exists>u. tx_seq
           [insert_lease \<lparr>l_runId = rid, l_nodeId = n_id row, l_owner = owner, l_expiresAt = now + ms, l_acquiredAt = now\<rparr>,
            insert_attempt \<lparr>at_runId = rid, at_nodeId = n_id row, at_attempt = n_attempt row + 1, at_workerId = owner, at_status = AtRunning,
              at_startedAt = now, at_completedAt = None, at_result = None, at_error = None\<rparr>,
            recordEvent rid EvLease (''Node claimed by '' @ owner @ '' for attempt '' @ show_nat (n_attempt row + 1)) (Some (n_id row)) now]
          db1 = Inr (u, db')"
      using assms(3) by (auto simp: claim_node_def Let_def tx_simps update_node_Inr db1_def split: if_splits)
    have K: "tx_keeps (claiming X rid rows (scopes @ [n_writeScopes row])) (tx_seq [insert_lease l, insert_attempt a, recordEvent r ty msg nd t])"
      for l a r ty msg nd t by (simp only: tx_seq.simps) (intro tx_keeps_then keeps_claiming_other tx_keeps_intros)
    from rest have "claiming X rid rows (scopes @ [n_writeScopes row]) db'" by (elim exE) (rule tx_keepsD [OF K claimed])
    with taken show ?thesis by (simp only: if_True)
  next
    case False
    then have "changes ?P (t_nodes db) = 0" using changes_le_1 [OF rows, of rid "n_id row" "\<lambda>st. st = NReady"] by linarith
    then have "db1 = db" by (simp add: db1_def changes_0)
    with False assms(3) tail show ?thesis
      by (auto simp: claim_node_def Let_def tx_simps update_node_Inr db1_def split: if_splits)
  qed
qed

lemma claim_loop_keeps:
  "claim_loop rid owner lim ms now rows claimed scopes db = Inr (cl, db') \<Longrightarrow> claiming X rid rows scopes db \<Longrightarrow> graph_inv_ex X db'"
proof (induction rows arbitrary: claimed scopes db)
  case Nil
  then show ?case by (simp add: tx_simps claiming_def)
next
  case (Cons row rows)
  have tail: "claiming X rid rows scopes db" using Cons.prems(2) by (simp add: claiming_def)
  show ?case
  proof (cases "length claimed \<ge> lim")
    case True
    with Cons.prems show ?thesis by (simp add: tx_simps claiming_def)
  next
    case False
    then obtain b where b: "scopesConflict (n_writeScopes row) (concat scopes) = Inr b"
      using Cons.prems(1) by (auto simp: tx_simps Let_def)
    show ?thesis
    proof (cases b)
      case True
      with b False Cons.prems(1) have "claim_loop rid owner lim ms now rows claimed scopes db = Inr (cl, db')"
        by (simp add: tx_bind_def tx_lift_def Let_def)
      then show ?thesis using tail by (rule Cons.IH)
    next
      case nb: False
      with b False Cons.prems(1) obtain taken db1 claimed' where
        c: "claim_node rid owner ms now (nodeFromRow row) db = Inr (taken, db1)"
        and l: "claim_loop rid owner lim ms now rows claimed' (if taken then scopes @ [n_writeScopes row] else scopes) db1 = Inr (cl, db')"
        by (auto simp: tx_simps Let_def split: if_splits)
      have "claiming X rid rows (if taken then scopes @ [n_writeScopes row] else scopes) db1"
        using claim_node_claiming [OF Cons.prems(2) _ c] b nb by simp
      with l show ?thesis by (rule Cons.IH)
    qed
  qed
qed

lemma keeps_claim: "tx_keeps (graph_inv_ex X) (claimReadyNodes_tx rid owner lim ms now)"
proof -
  have "graph_inv_ex X db'" if inv: "graph_inv_ex X db"
    and "claim_loop rid owner lim ms now (filter (\<lambda>n. n_status n = NReady) (nodeRows db rid)) [] (runningWriteScopes db rid) db = Inr (a, db')"
    for db a db'
  proof -
    have "claiming X rid (filter (\<lambda>n. n_status n = NReady) (nodeRows db rid)) (runningWriteScopes db rid) db"
      using inv by (auto simp: claiming_def runningWriteScopes_def nodeRows_def graph_inv_ex_def rows_ok_def)
    with that(2) show ?thesis by (rule claim_loop_keeps)
  qed
  then have "tx_keeps (graph_inv_ex X) (tx_bind (tx_gets (\<lambda>db. runningWriteScopes db rid)) (\<lambda>scopes.
     tx_bind (tx_gets (\<lambda>db. filter (\<lambda>n. n_status n = NReady) (nodeRows db rid))) (\<lambda>ready.
       claim_loop rid owner lim ms now ready [] scopes)))"
    by (simp add: tx_keeps_def tx_simps)
  then show ?thesis
    unfolding claimReadyNodes_tx_def by (intro tx_keeps_bind [OF keeps_reads(2)] tx_keeps_then [OF keeps_recover] tx_keeps_then [OF keeps_promote])
qed

end
