(* ===== verification/Dag_Expansion.thy ===== *)
theory Dag_Expansion
  imports Dag_Invariants
begin

text \<open>
  The operations that grow a graph, \<open>installGraph\<close> and \<open>expandNode\<close>, keep the invariant of the store
  when the identifiers of the planned nodes contain no NUL character, which the edge keys of
  \<open>assertDag\<close> and \<open>uniqueEdges\<close> use as a separator. With them every operation of the store keeps it,
  so it holds along every sequence of operations from an empty database.
\<close>

section \<open>Inserted rows\<close>

lemma insert_node_Inr:
  "insert_node n db = Inr (u, db') \<longleftrightarrow>
     run_exists db (n_runId n) \<and> \<not> node_exists db (n_runId n) (n_id n) \<and> db' = db\<lparr>t_nodes := t_nodes db @ [n]\<rparr>"
  by (auto simp: insert_node_def insert_row_def tx_simps)

definition planned :: "string \<Rightarrow> DagNode \<Rightarrow> bool" where
  "planned rid n \<longleftrightarrow> n_runId n = rid \<and> n_status n = NPending \<and> (\<forall>s \<in> set (n_writeScopes n). valid_scope s)"

lemma check_scopes_valid: "check_scopes ss = Inr u \<Longrightarrow> s \<in> set ss \<Longrightarrow> valid_scope s"
proof (induction ss)
  case (Cons a ss)
  have "valid_scope a" if "scopesConflict [a] [a] = Inr b" for b
    using that by (auto simp: scopesConflict_def scopeContains_def valid_scope_def split: sum.splits)
  with Cons show ?case by (auto split: sum.splits)
qed simp

lemma normalizedScopes_valid: "normalizedScopes ss = Inr ts \<Longrightarrow> s \<in> set ts \<Longrightarrow> valid_scope s"
  by (auto simp: normalizedScopes_def Let_def split: sum.splits dest!: check_scopes_valid)

lemma plan_row_fields [simp]:
  "n_id (plan_row rid d t ins scs est i) = i" "n_runId (plan_row rid d t ins scs est i) = rid"
  "n_status (plan_row rid d t ins scs est i) = NPending" "n_writeScopes (plan_row rid d t ins scs est i) = scs"
  by (simp_all add: plan_row_def)

lemma insert_plan_node_Inr:
  assumes "insert_plan_node rid depth p db = Inr (u, db')"
  shows "\<exists>n. planned rid n \<and> n_id n = pn_id p \<and> run_exists db rid \<and> \<not> node_exists db rid (pn_id p) \<and>
    db' = db\<lparr>t_nodes := t_nodes db @ [n]\<rparr>"
proof -
  obtain t ins scs est where "normalizedScopes (coalesce (pn_writeScopes p) []) = Inr scs"
    and ins: "insert_node (plan_row rid (depth (pn_id p)) t ins scs est (pn_id p)) db = Inr (u, db')"
    using assms unfolding insert_plan_node_def tx_bind_Inr tx_lift_Inr by blast
  then have "planned rid (plan_row rid (depth (pn_id p)) t ins scs est (pn_id p))"
    by (simp add: planned_def normalizedScopes_valid)
  with ins show ?thesis unfolding insert_node_Inr by (intro exI [of _ "plan_row rid (depth (pn_id p)) t ins scs est (pn_id p)"]) simp
qed

lemma insert_plan_nodes_Inr:
  "tx_each (insert_plan_node rid depth) ps db = Inr (u, db') \<Longrightarrow>
   \<exists>news. db' = db\<lparr>t_nodes := t_nodes db @ news\<rparr> \<and> map n_id news = map pn_id ps \<and> (\<forall>n \<in> set news. planned rid n) \<and>
     (distinct (map node_key (t_nodes db)) \<longrightarrow> distinct (map node_key (t_nodes db @ news))) \<and> (ps \<noteq> [] \<longrightarrow> run_exists db rid)"
proof (induction ps arbitrary: db)
  case Nil
  then show ?case by (auto simp: tx_simps)
next
  case (Cons p ps)
  then obtain v db1 where one: "insert_plan_node rid depth p db = Inr (v, db1)"
    and rest: "tx_each (insert_plan_node rid depth) ps db1 = Inr (u, db')"
    by (auto simp: tx_simps)
  obtain n where n: "planned rid n" "n_id n = pn_id p" "run_exists db rid" "\<not> node_exists db rid (pn_id p)"
      "db1 = db\<lparr>t_nodes := t_nodes db @ [n]\<rparr>"
    using insert_plan_node_Inr [OF one] by blast
  obtain news where news: "db' = db1\<lparr>t_nodes := t_nodes db1 @ news\<rparr>" "map n_id news = map pn_id ps" "\<forall>n \<in> set news. planned rid n"
      "distinct (map node_key (t_nodes db1)) \<longrightarrow> distinct (map node_key (t_nodes db1 @ news))"
    using Cons.IH [OF rest] by blast
  have "distinct (map node_key (t_nodes db)) \<longrightarrow> distinct (map node_key (t_nodes db1))"
    using n by (auto simp: node_exists_def planned_def)
  with n news show ?case
    by (intro exI [of _ "n # news"]) simp
qed

lemma insert_edge_Inr:
  "insert_edge e db = Inr (u, db') \<longleftrightarrow>
     e_id e \<notin> set (map e_id (t_edges db)) \<and>
     (e_runId e, e_source e, e_target e) \<notin> set (map (\<lambda>x. (e_runId x, e_source x, e_target x)) (t_edges db)) \<and>
     node_exists db (e_runId e) (e_source e) \<and> node_exists db (e_runId e) (e_target e) \<and>
     db' = db\<lparr>t_edges := t_edges db @ [e]\<rparr>"
  by (auto simp: insert_edge_def insert_row_def tx_simps)

lemma insert_edges_Inr:
  "tx_each (\<lambda>x. insert_edge (g x)) xs db = Inr (u, db') \<Longrightarrow> db' = db\<lparr>t_edges := t_edges db @ map g xs\<rparr>"
proof (induction xs arbitrary: db)
  case (Cons x xs)
  then obtain db1 where "db1 = db\<lparr>t_edges := t_edges db @ [g x]\<rparr>" "tx_each (\<lambda>x. insert_edge (g x)) xs db1 = Inr (u, db')"
    by (auto simp: tx_simps insert_edge_Inr)
  with Cons.IH [of db1] show ?case by simp
qed (simp add: tx_simps)

lemma insertEdges_Inr:
  assumes "insertEdges uuid rid es db = Inr (u, db')"
  obtains news where "db' = db\<lparr>t_edges := t_edges db @ news\<rparr>" "map plan_edge news = es" "\<forall>e \<in> set news. e_runId e = rid"
proof -
  have "plan_edge (edge_row uuid rid x) = snd x" for x by (simp add: plan_edge_def edge_row_def)
  then have "map plan_edge (map (edge_row uuid rid) (enumerate 0 es)) = es" by (simp add: o_def)
  then show ?thesis
    using insert_edges_Inr [OF assms [unfolded insertEdges_def]]
    by (intro that [of "map (edge_row uuid rid) (enumerate 0 es)"]) (auto simp: edge_row_def)
qed

section \<open>Adding nodes, adding and removing edges\<close>

lemma deps_ok_transfer:
  "deps_ok ns es \<Longrightarrow> (\<And>n. n \<in> set ns' \<Longrightarrow> started (n_status n) \<Longrightarrow> n \<in> set ns) \<Longrightarrow>
   (\<And>r i. succeeded_node ns r i \<Longrightarrow> succeeded_node ns' r i) \<Longrightarrow> deps_ok ns' es"
  by (simp add: deps_ok_def deps_done_def)

lemma not_started_pending [simp]: "\<not> started NPending" "\<not> started NReplaced"
  by (simp_all add: started_def)

lemma add_nodes_inv:
  assumes "graph_inv_ex X db" "\<forall>n \<in> set news. planned rid n \<and> plain_id (n_id n)" "rid \<in> set (map r_id (t_runs db))"
    and "distinct (map node_key (t_nodes db @ news))"
    and "rid \<in> X \<or> (\<forall>r \<in> set (t_runs db). r_id r = rid \<longrightarrow> r_graphVersion r \<noteq> 0)"
  shows "graph_inv_ex X (db\<lparr>t_nodes := t_nodes db @ news\<rparr>)"
proof -
  let ?ns = "t_nodes db @ news"
  have live: "live_node ?ns r i" if "live_node (t_nodes db) r i" for r i using that by (auto simp: live_node_def)
  have succ: "succeeded_node ?ns r i" if "succeeded_node (t_nodes db) r i" for r i using that by (auto simp: succeeded_node_def)
  have "rows_ok X (t_runs db) ?ns"
    using assms by (auto simp: graph_inv_ex_def rows_ok_def planned_def)
  moreover have "edges_ok ?ns (t_edges db)" using assms(1) live by (auto simp: graph_inv_ex_def edges_ok_def)
  moreover have "deps_ok ?ns (t_edges db)"
  proof (rule deps_ok_transfer)
    show "deps_ok (t_nodes db) (t_edges db)" using assms(1) by (simp add: graph_inv_ex_def)
    show "n \<in> set (t_nodes db)" if "n \<in> set ?ns" "started (n_status n)" for n using that assms(2) by (auto simp: planned_def)
  qed (rule succ)
  moreover have "scopes_ok ?ns" using assms(1,2) by (auto simp: graph_inv_ex_def scopes_ok_def planned_def)
  ultimately show ?thesis by (simp add: graph_inv_ex_def)
qed

lemma remove_edges_inv:
  assumes "graph_inv_ex X db"
  shows "graph_inv_ex X (db\<lparr>t_edges := filter P (t_edges db)\<rparr>)"
proof -
  have "acyclic (run_rel (filter P (t_edges db)) rid)" for rid
  proof -
    have "acyclic (run_rel (t_edges db) rid)" using assms by (simp add: graph_inv_ex_def edges_ok_def)
    then show ?thesis by (rule acyclic_subset) (auto simp: run_rel_def)
  qed
  then show ?thesis using assms by (auto simp: graph_inv_ex_def edges_ok_def deps_ok_def deps_done_def)
qed

lemma add_edges_inv:
  assumes "graph_inv_ex X db" "\<forall>e \<in> set news. e_runId e = rid"
    and "\<forall>e \<in> set news. live_node (t_nodes db) rid (e_source e) \<and> live_node (t_nodes db) rid (e_target e)"
    and "\<forall>e \<in> set news. \<forall>n \<in> set (t_nodes db). node_key n = (rid, e_target e) \<longrightarrow> \<not> started (n_status n)"
    and "acyclic (run_rel (t_edges db @ news) rid)"
  shows "graph_inv_ex X (db\<lparr>t_edges := t_edges db @ news\<rparr>)"
proof -
  let ?es = "t_edges db @ news"
  have "run_rel ?es r = run_rel (t_edges db) r" if "r \<noteq> rid" for r using that assms(2) by (auto simp: run_rel_def)
  then have "acyclic (run_rel ?es r)" for r using assms(1,5) by (cases "r = rid") (auto simp: graph_inv_ex_def edges_ok_def)
  then have "edges_ok (t_nodes db) ?es" using assms(1-3) by (auto simp: graph_inv_ex_def edges_ok_def)
  moreover have "deps_ok (t_nodes db) ?es"
    using assms(1,2,4) by (auto simp: graph_inv_ex_def deps_ok_def deps_done_def)
  ultimately show ?thesis using assms(1) by (simp add: graph_inv_ex_def)
qed

lemma replace_node_inv:
  assumes "graph_inv_ex X db" "\<forall>e \<in> set (t_edges db). e_runId e = rid \<longrightarrow> e_source e \<noteq> nid \<and> e_target e \<noteq> nid"
    and "\<And>n. node_key (f n) = node_key n \<and> n_writeScopes (f n) = n_writeScopes n \<and> n_status (f n) = NReplaced"
  shows "graph_inv_ex X (db\<lparr>t_nodes := update_where (node_where rid nid (\<lambda>st. st = NRunning)) f (t_nodes db)\<rparr>)"
proof -
  let ?P = "node_where rid nid (\<lambda>st. st = NRunning)"
  let ?ns = "update_where ?P f (t_nodes db)"
  have keys: "map node_key ?ns = map node_key (t_nodes db)" using assms(3) by (intro map_update_where) blast
  have mem: "n_status m = NReplaced \<or> m \<in> set (t_nodes db)" if "m \<in> set ?ns" for m
    using that assms(3) by (auto simp: set_update_where split: if_splits)
  have stay: "m \<in> set ?ns" if "m \<in> set (t_nodes db)" "\<not> ?P m" for m using that update_memI [of m _ ?P f] by simp
  have other: "live_node ?ns r i" if "live_node (t_nodes db) r i" "(r, i) \<noteq> (rid, nid)" for r i
    using that stay unfolding live_node_def node_where_def by blast
  have succ: "succeeded_node ?ns r i" if s: "succeeded_node (t_nodes db) r i" for r i
  proof -
    obtain n where n: "n \<in> set (t_nodes db)" "node_key n = (r, i)" "n_status n = NSucceeded" using s by (auto simp: succeeded_node_def)
    then have "n \<in> set ?ns" by (intro stay) (simp_all add: node_where_def)
    with n show ?thesis by (auto simp: succeeded_node_def)
  qed
  have row: "n_runId m \<in> set (map r_id (t_runs db)) \<and> plain_id (n_id m) \<and> (\<forall>s \<in> set (n_writeScopes m). valid_scope s) \<and>
      (\<forall>r \<in> set (t_runs db). r_id r \<notin> X \<longrightarrow> r_graphVersion r = 0 \<longrightarrow> n_runId m \<noteq> r_id r)" if "m \<in> set ?ns" for m
    using that assms(1,3) by (cases rule: update_memE) (simp_all add: graph_inv_ex_def rows_ok_def)
  have "rows_ok X (t_runs db) ?ns"
    using assms(1) keys row by (auto simp: graph_inv_ex_def rows_ok_def)
  moreover have "edges_ok ?ns (t_edges db)"
    using assms(1,2) other by (auto simp: graph_inv_ex_def edges_ok_def)
  moreover have "n \<in> set (t_nodes db)" if "n \<in> set ?ns" "started (n_status n)" for n using mem [OF that(1)] that(2) by auto
  then have "deps_ok ?ns (t_edges db)"
    by (rule deps_ok_transfer [rotated]) (use assms(1) succ in \<open>simp_all add: graph_inv_ex_def\<close>)
  moreover have run: "m \<in> set (t_nodes db)" if "m \<in> set ?ns" "n_status m = NRunning" for m using mem [OF that(1)] that(2) by simp
  then have "scopes_ok ?ns" using assms(1) unfolding graph_inv_ex_def scopes_ok_def by blast
  ultimately show ?thesis by (simp add: graph_inv_ex_def)
qed

section \<open>Installing the first graph\<close>

definition plain_patch :: "DagGraphPatch \<Rightarrow> bool" where
  "plain_patch patch \<longleftrightarrow> (\<forall>n \<in> set (gp_nodes patch). plain_id (pn_id n))"

lemma edge_rel_run_rel:
  "map plan_edge news = es \<Longrightarrow> \<forall>e \<in> set news. e_runId e = rid \<Longrightarrow> run_rel news rid = edge_rel es"
proof -
  assume es: "map plan_edge news = es" and rid: "\<forall>e \<in> set news. e_runId e = rid"
  have "edge_rel (map plan_edge news) = (\<lambda>e. (e_source e, e_target e)) ` set news"
    by (simp add: edge_rel_def plan_edge_def image_image)
  moreover have "run_rel news rid = (\<lambda>e. (e_source e, e_target e)) ` set news" using rid by (auto simp: run_rel_def)
  ultimately show ?thesis using es by simp
qed

lemma run_rel_append: "run_rel (es @ fs) rid = run_rel es rid \<union> run_rel fs rid"
  by (auto simp: run_rel_def)

lemma no_nodes_no_edges: "edges_ok ns es \<Longrightarrow> \<forall>n \<in> set ns. n_runId n \<noteq> rid \<Longrightarrow> run_rel es rid = {}"
  by (auto simp: edges_ok_def run_rel_def live_node_def)

lemma graph_inv_mono: "graph_inv db \<Longrightarrow> graph_inv_ex X db"
  by (auto simp: graph_inv_ex_def rows_ok_def)

text \<open>The planned nodes and edges in the tables, before the run is updated.\<close>

lemma install_rows_inv:
  assumes "graph_inv db" "r \<in> set (t_runs db)" "r_id r = rid" "r_graphVersion r = 0"
    and "assertDag (map pn_id ps) es = Inr ()" "\<forall>n \<in> set ps. plain_id (pn_id n)"
    and "tx_each (insert_plan_node rid depth) ps db = Inr (u, db1)" "insertEdges uuid rid es db1 = Inr (v, db2)"
  shows "graph_inv_ex {rid} db2"
proof -
  have none: "\<forall>n \<in> set (t_nodes db). n_runId n \<noteq> rid"
    using assms(1-4) by (auto simp: graph_inv_ex_def rows_ok_def)
  obtain ns where ns: "db1 = db\<lparr>t_nodes := t_nodes db @ ns\<rparr>" "map n_id ns = map pn_id ps" "\<forall>n \<in> set ns. planned rid n"
      "distinct (map node_key (t_nodes db)) \<longrightarrow> distinct (map node_key (t_nodes db @ ns))"
    using insert_plan_nodes_Inr [OF assms(7)] by blast
  obtain new where new: "db2 = db1\<lparr>t_edges := t_edges db1 @ new\<rparr>" "map plan_edge new = es" "\<forall>e \<in> set new. e_runId e = rid"
    using assms(8) by (rule insertEdges_Inr)
  have ids: "n_id ` set ns = pn_id ` set ps" by (metis ns(2) set_map)
  have plain: "plain_id (n_id n)" if "n \<in> set ns" for n using that assms(6) ids by (metis imageE imageI)
  have dist: "distinct (map node_key (t_nodes db @ ns))" using ns(4) assms(1) by (simp add: graph_inv_ex_def rows_ok_def)
  have "\<forall>n \<in> set ns. planned rid n \<and> plain_id (n_id n)" "rid \<in> set (map r_id (t_runs db))"
    using ns(3) plain assms(2,3) by auto
  then have inv1: "graph_inv_ex {rid} db1"
    unfolding ns(1) by (rule add_nodes_inv [OF graph_inv_mono [OF assms(1)] _ _ dist]) simp
  have live: "live_node (t_nodes db1) rid i" if "i \<in> set (map pn_id ps)" for i
  proof -
    have "i \<in> n_id ` set ns" unfolding ids using that by simp
    then obtain n where n: "n \<in> set ns" "n_id n = i" by (auto simp only:)
    then have "planned rid n" using ns(3) by blast
    with n show ?thesis unfolding live_node_def ns(1) by (intro bexI [of _ n]) (simp_all add: planned_def)
  qed
  have g: "graph_over (map pn_id ps) es" "acyclic (edge_rel es)" using assms(5) by (simp_all add: assertDag_iff)
  have ends: "e_source e \<in> set (map pn_id ps) \<and> e_target e \<in> set (map pn_id ps)" if "e \<in> set new" for e
    using graph_overD [OF g(1), of "plan_edge e"] new(2) that by (auto simp: plan_edge_def)
  have "run_rel (t_edges db) rid = {}"
    using assms(1) none by (intro no_nodes_no_edges [of "t_nodes db"]) (simp_all add: graph_inv_ex_def)
  then have "acyclic (run_rel (t_edges db1 @ new) rid)"
    using g(2) edge_rel_run_rel [OF new(2,3)] by (simp add: run_rel_append ns(1))
  moreover have "\<not> started (n_status n)" if "n \<in> set (t_nodes db1)" "n_runId n = rid" for n
    using that none ns(1,3) by (auto simp: planned_def started_def)
  ultimately show ?thesis
    unfolding new(1) using inv1 new(3) live ends by (intro add_edges_inv [where rid = rid]) auto
qed

lemma update_run_leaves_zero:
  assumes "graph_inv_ex {rid} db" "update_run sel f lost db = Inr (u, db')"
    and "\<And>r. sel r \<Longrightarrow> r_id r = rid \<and> r_id (f r) = rid \<and> r_graphVersion (f r) \<noteq> 0"
  shows "graph_inv db'"
proof -
  have one: "changes sel (t_runs db) = 1" and db': "db' = db\<lparr>t_runs := update_where sel f (t_runs db)\<rparr>"
    using assms(2) by (auto simp: update_run_def tx_simps)
  have rows: "rows_ok {rid} (t_runs db) (t_nodes db)" using assms(1) by (simp add: graph_inv_ex_def)
  obtain r0 where r0: "r0 \<in> set (t_runs db)" "sel r0"
    using one unfolding changes_def by (metis filter_False length_0_conv one_neq_zero)
  have ids: "map r_id (update_where sel f (t_runs db)) = map r_id (t_runs db)"
    using assms(3) by (intro map_update_where) metis
  have "\<forall>n \<in> set (t_nodes db). n_runId n \<noteq> r_id r" if "r \<in> set (update_where sel f (t_runs db))" "r_graphVersion r = 0" for r
  proof -
    have "r \<in> set (t_runs db)" "\<not> sel r"
      using update_memE [OF that(1)] assms(3) that(2) by metis+
    moreover have "r_id r \<noteq> rid"
      using rows r0 calculation assms(3) [OF r0(2)] by (auto simp: rows_ok_def distinct_map inj_on_def)
    ultimately show ?thesis using rows that(2) by (auto simp: rows_ok_def)
  qed
  then have "rows_ok {} (update_where sel f (t_runs db)) (t_nodes db)" using rows ids by (auto simp: rows_ok_def)
  then show ?thesis using assms(1) by (simp add: graph_inv_ex_def db')
qed

lemma keeps_installGraph:
  assumes "validatePatch patch = Inr v" "plain_patch patch"
  shows "tx_keeps graph_inv (installGraph_tx uuid rid patch oid now)"
proof -
  let ?ids = "map pn_id (gp_nodes patch)"
  have dag: "assertDag ?ids (gp_edges patch) = Inr ()"
    using assms(1) by (auto simp: validatePatch_def split: if_splits sum.splits)
  have "graph_inv db'" if inv: "graph_inv db" and ok: "installGraph_tx uuid rid patch oid now db = Inr (u, db')" for db u db'
  proof -
    obtain r depths u1 db1 u2 db2 u3 db3 where
      r: "r \<in> set (t_runs db)" "r_id r = rid" "r_graphVersion r = 0"
      and n: "tx_each (insert_plan_node rid (\<lambda>i. coalesce (map_of depths i) 0)) (gp_nodes patch) db = Inr (u1, db1)"
      and e: "insertEdges uuid rid (gp_edges patch) db1 = Inr (u2, db2)"
      and run: "update_run (\<lambda>r. r_id r = rid \<and> r_status r = RunPlanning \<and> r_graphVersion r = 0)
            (\<lambda>r. r\<lparr>r_status := RunRunning, r_graphVersion := 1, r_resultNodeId := Some (gp_resultNodeId patch), r_updatedAt := now\<rparr>)
            ''DAG initial graph installation lost its run fence'' db2 = Inr (u3, db3)"
      and rest: "tx_seq [promoteReadyNodes rid, recordGraphVersion rid 1 now,
          recordEvent rid EvGraph ''Graph version 1 installed'' None now, recordOperation oid rid OpInstallGraph now] db3 = Inr (u, db')"
      using ok unfolding installGraph_tx_def requireRunRow_def find_run_def tx_simps tx_seq.simps
      by (auto simp: tx_simps dest!: find_Some_iff_first split: option.splits)
    have "graph_inv_ex {rid} db2"
      using install_rows_inv [OF inv r dag _ n e] assms(2) by (simp add: plain_patch_def)
    then have "graph_inv db3" using run by (rule update_run_leaves_zero) simp
    moreover have "tx_keeps graph_inv (tx_seq [promoteReadyNodes rid, recordGraphVersion rid 1 now,
          recordEvent rid EvGraph ''Graph version 1 installed'' None now, recordOperation oid rid OpInstallGraph now])"
      by (intro keeps_seq) auto
    ultimately show ?thesis using rest by (auto dest: tx_keepsD)
  qed
  then show ?thesis by (auto simp: tx_keeps_def)
qed

section \<open>Expanding a node\<close>

lemma edge_key_inj:
  assumes "edge_key e = edge_key f" "plain_id (pe_source e)" "plain_id (pe_source f)"
  shows "e = f"
proof -
  have "takeWhile (\<lambda>c. c \<noteq> CHR 0x00) (edge_key x) = pe_source x" if "plain_id (pe_source x)" for x :: DagPlanEdgeInput
  proof -
    have "\<And>c. c \<in> set (pe_source x) \<Longrightarrow> c \<noteq> CHR 0x00" using that unfolding plain_id_def by metis
    then show ?thesis by (simp add: edge_key_def takeWhile_append2)
  qed
  then have "pe_source e = pe_source f" using assms by metis
  with assms(1) show ?thesis by (simp add: edge_key_def)
qed

lemma unique_loop_set:
  "\<forall>e \<in> set es. plain_id (pe_source e) \<Longrightarrow> seen \<subseteq> edge_key ` K \<Longrightarrow> \<forall>e \<in> K. plain_id (pe_source e) \<Longrightarrow>
   set (unique_loop seen es) \<subseteq> set es \<and> set es \<subseteq> set (unique_loop seen es) \<union> K"
proof (induction es arbitrary: seen K)
  case (Cons e es)
  show ?case
  proof (cases "edge_key e \<in> seen")
    case True
    with Cons.prems have "e \<in> K" by (auto dest: edge_key_inj)
    with True Cons.IH [of seen K] Cons.prems show ?thesis by auto
  next
    case False
    with Cons.IH [of "insert (edge_key e) seen" "insert e K"] Cons.prems show ?thesis by auto
  qed
qed simp

lemma uniqueEdges_set: "\<forall>e \<in> set es. plain_id (pe_source e) \<Longrightarrow> set (uniqueEdges es) = set es"
  using unique_loop_set [of es "{}" "{}"] by (auto simp: uniqueEdges_def)

lemma edge_rel_cong: "set es = set fs \<Longrightarrow> edge_rel es = edge_rel fs"
  by (simp add: edge_rel_def)

lemma rewired_edgeD:
  assumes "e \<in> set (rewired_edges cur nid patch entry)" "entry \<in> pn_id ` set (gp_nodes patch)"
  shows "pe_source e \<in> e_source ` set cur \<union> pn_id ` set (gp_nodes patch)"
    and "pe_target e \<in> pn_id ` set (gp_nodes patch) \<or> (\<exists>c \<in> set cur. e_source c = nid \<and> e_target c = pe_target e)"
  using assms by (auto simp: rewired_edges_def Let_def)

lemma reachable_entry:
  assumes "assertSingleEntryReachability ids es = Inr entry"
  shows "entry \<in> set ids"
proof -
  have "entry \<in> set (filter P ids)" if "filter P ids = [entry]" for P using that by simp
  with assms show ?thesis
    by (fastforce simp: assertSingleEntryReachability_def Let_def split: sum.splits if_splits list.splits)
qed

text \<open>The tables when the statements of an expansion run, and what the checks before them have established.\<close>

abbreviation exp_edges :: "dag_db \<Rightarrow> string \<Rightarrow> string \<Rightarrow> string \<Rightarrow> DagGraphPatch \<Rightarrow> DagPlanEdgeInput list" where
  "exp_edges db rid nid entry patch \<equiv> gp_edges patch @ rewired_edges (edgeRows db rid) nid patch entry"

abbreviation cand_edges :: "dag_db \<Rightarrow> string \<Rightarrow> string \<Rightarrow> string \<Rightarrow> DagGraphPatch \<Rightarrow> DagPlanEdgeInput list" where
  "cand_edges db rid nid entry patch \<equiv> retained_edges (edgeRows db rid) nid @ exp_edges db rid nid entry patch"

abbreviation cand_ids :: "dag_db \<Rightarrow> string \<Rightarrow> string \<Rightarrow> DagGraphPatch \<Rightarrow> string list" where
  "cand_ids db rid nid patch \<equiv>
     map n_id (filter (\<lambda>n. n_status n \<noteq> NReplaced \<and> n_id n \<noteq> nid) (nodeRows db rid)) @ map pn_id (gp_nodes patch)"

definition expanding :: "dag_db \<Rightarrow> string \<Rightarrow> string \<Rightarrow> string \<Rightarrow> DagGraphPatch \<Rightarrow> bool" where
  "expanding db rid nid entry patch \<longleftrightarrow> graph_inv db \<and>
     (\<exists>n0 \<in> set (t_nodes db). node_key n0 = (rid, nid) \<and> n_status n0 = NRunning) \<and>
     pn_id ` set (gp_nodes patch) \<inter> n_id ` set (nodeRows db rid) = {} \<and>
     entry \<in> pn_id ` set (gp_nodes patch) \<and> plain_patch patch \<and>
     graph_over (map pn_id (gp_nodes patch)) (gp_edges patch) \<and>
     assertDag (cand_ids db rid nid patch) (uniqueEdges (cand_edges db rid nid entry patch)) = Inr ()"

definition cut :: "string \<Rightarrow> string \<Rightarrow> dag_db \<Rightarrow> dag_db" where
  "cut rid nid db = db\<lparr>t_edges := filter (\<lambda>e. \<not> (e_runId e = rid \<and> (e_source e = nid \<or> e_target e = nid))) (t_edges db)\<rparr>"

definition planned_rows :: "dag_db \<Rightarrow> string \<Rightarrow> DagGraphPatch \<Rightarrow> DagNode list \<Rightarrow> bool" where
  "planned_rows db rid patch ns \<longleftrightarrow> map n_id ns = map pn_id (gp_nodes patch) \<and> (\<forall>n \<in> set ns. planned rid n) \<and>
     (distinct (map node_key (t_nodes db)) \<longrightarrow> distinct (map node_key (t_nodes db @ ns)))"

lemma expandingD:
  assumes "expanding db rid nid entry patch"
  shows "rows_ok {} (t_runs db) (t_nodes db)" "edges_ok (t_nodes db) (t_edges db)" "deps_ok (t_nodes db) (t_edges db)" "graph_inv db"
    and "pn_id ` set (gp_nodes patch) \<inter> n_id ` set (nodeRows db rid) = {}" "entry \<in> pn_id ` set (gp_nodes patch)"
    and "graph_over (map pn_id (gp_nodes patch)) (gp_edges patch)"
    and "assertDag (cand_ids db rid nid patch) (uniqueEdges (cand_edges db rid nid entry patch)) = Inr ()"
  using assms by (simp_all add: expanding_def graph_inv_ex_def)

lemma expanding_node:
  assumes "expanding db rid nid entry patch"
  obtains n0 where "n0 \<in> set (t_nodes db)" "node_key n0 = (rid, nid)" "n_status n0 = NRunning"
  using assms unfolding expanding_def by blast

lemma nodeRows_mem: "n \<in> set (nodeRows db rid) \<longleftrightarrow> n \<in> set (t_nodes db) \<and> n_runId n = rid"
  by (auto simp: nodeRows_def)

lemma plan_ids: "planned_rows db rid patch ns \<Longrightarrow> n_id ` set ns = pn_id ` set (gp_nodes patch)"
  unfolding planned_rows_def by (metis list.set_map)

lemma plan_plain: "expanding db rid nid entry patch \<Longrightarrow> i \<in> pn_id ` set (gp_nodes patch) \<Longrightarrow> plain_id i"
  by (auto simp: plain_patch_def expanding_def)

lemma cur_plain:
  assumes "expanding db rid nid entry patch" "c \<in> set (edgeRows db rid)"
  shows "plain_id (e_source c)"
proof -
  have "live_node (t_nodes db) rid (e_source c)" using assms(2) expandingD(2) [OF assms(1)] by (auto simp: edgeRows_def edges_ok_def)
  then show ?thesis using expandingD(1) [OF assms(1)] by (auto simp: live_node_def rows_ok_def)
qed

lemma sources_plain:
  assumes E: "expanding db rid nid entry patch" and e: "e \<in> set (cand_edges db rid nid entry patch)"
  shows "plain_id (pe_source e)"
proof -
  consider "pe_source e \<in> e_source ` set (edgeRows db rid)" | "pe_source e \<in> pn_id ` set (gp_nodes patch)"
    using e rewired_edgeD(1) [OF _ expandingD(6) [OF E], of e] graph_overD [OF expandingD(7) [OF E], of e]
    by (auto simp: retained_edges_def plan_edge_def)
  then show ?thesis
    by cases (use plan_plain [OF E] cur_plain [OF E] in auto)
qed

lemma candidates_set:
  assumes "expanding db rid nid entry patch"
  shows "set (uniqueEdges (cand_edges db rid nid entry patch)) = set (cand_edges db rid nid entry patch)"
    and "set (uniqueEdges (exp_edges db rid nid entry patch)) = set (exp_edges db rid nid entry patch)"
proof -
  show "set (uniqueEdges (cand_edges db rid nid entry patch)) = set (cand_edges db rid nid entry patch)"
    by (rule uniqueEdges_set) (use sources_plain [OF assms] in blast)
  show "set (uniqueEdges (exp_edges db rid nid entry patch)) = set (exp_edges db rid nid entry patch)"
    by (rule uniqueEdges_set) (use sources_plain [OF assms] in simp)
qed

lemma candidates_acyclic: "expanding db rid nid entry patch \<Longrightarrow> acyclic (edge_rel (cand_edges db rid nid entry patch))"
  using expandingD(8) edge_rel_cong [OF candidates_set(1)] unfolding assertDag_iff by metis

text \<open>The ends of the new edges are among the candidate nodes: live nodes other than the replaced one.\<close>

lemma candidate_live:
  assumes E: "expanding db rid nid entry patch" and "planned_rows db rid patch ns" "i \<in> set (cand_ids db rid nid patch)"
  shows "live_node (t_nodes db @ ns) rid i" "i \<noteq> nid"
proof -
  obtain n0 where n0: "n0 \<in> set (t_nodes db)" "node_key n0 = (rid, nid)" using expanding_node [OF E] .
  then have "nid \<in> n_id ` set (nodeRows db rid)" by (intro image_eqI [of _ _ n0]) (simp_all add: nodeRows_mem)
  then show "i \<noteq> nid" using assms(3) expandingD(5) [OF E] by auto
  show "live_node (t_nodes db @ ns) rid i"
  proof (cases "i \<in> pn_id ` set (gp_nodes patch)")
    case True
    then obtain n where n: "n \<in> set ns" "n_id n = i" unfolding plan_ids [OF assms(2), symmetric] by blast
    with assms(2) have "planned rid n" unfolding planned_rows_def by blast
    with n show ?thesis unfolding live_node_def by (intro bexI [of _ n]) (simp_all add: planned_def)
  next
    case False
    with assms(3) show ?thesis by (auto simp: live_node_def nodeRows_def)
  qed
qed

lemma new_ends:
  assumes E: "expanding db rid nid entry patch" and "planned_rows db rid patch ns" "e \<in> set (exp_edges db rid nid entry patch)"
  shows "live_node (t_nodes db @ ns) rid (pe_source e)" "live_node (t_nodes db @ ns) rid (pe_target e)"
    "pe_source e \<noteq> nid" "pe_target e \<noteq> nid"
proof -
  have "e \<in> set (uniqueEdges (cand_edges db rid nid entry patch))"
    unfolding candidates_set(1) [OF E] using assms(3) by simp
  then have "pe_source e \<in> set (cand_ids db rid nid patch) \<and> pe_target e \<in> set (cand_ids db rid nid patch)"
    using expandingD(8) [OF E] unfolding assertDag_iff by (blast dest: graph_overD)
  then show "live_node (t_nodes db @ ns) rid (pe_source e)" "live_node (t_nodes db @ ns) rid (pe_target e)"
    "pe_source e \<noteq> nid" "pe_target e \<noteq> nid"
    using candidate_live [OF E assms(2)] by blast+
qed

lemma planned_nodes_inv:
  assumes E: "expanding db rid nid entry patch" and ns: "planned_rows db rid patch ns"
  shows "graph_inv ((cut rid nid db)\<lparr>t_nodes := t_nodes db @ ns\<rparr>)"
proof -
  have inv1: "graph_inv (cut rid nid db)" unfolding cut_def by (rule remove_edges_inv [OF expandingD(4) [OF E]])
  obtain n0 where n0: "n0 \<in> set (t_nodes db)" "node_key n0 = (rid, nid)" using expanding_node [OF E] .
  have versions: "\<forall>r \<in> set (t_runs db). r_id r = rid \<longrightarrow> r_graphVersion r \<noteq> 0"
    using expandingD(1) [OF E] n0 unfolding rows_ok_def by (metis empty_iff prod.inject)
  have news: "\<forall>n \<in> set ns. planned rid n \<and> plain_id (n_id n)"
    using ns plan_plain [OF E] plan_ids [OF ns] unfolding planned_rows_def by blast
  have run: "rid \<in> set (map r_id (t_runs (cut rid nid db)))" using expandingD(1) [OF E] n0 by (auto simp: rows_ok_def cut_def)
  have dist: "distinct (map node_key (t_nodes (cut rid nid db) @ ns))"
    using ns expandingD(1) [OF E] by (simp add: rows_ok_def cut_def planned_rows_def)
  have "graph_inv ((cut rid nid db)\<lparr>t_nodes := t_nodes (cut rid nid db) @ ns\<rparr>)"
    using versions by (intro add_nodes_inv [OF inv1 news run dist]) (simp add: cut_def)
  then show ?thesis by (simp add: cut_def)
qed

text \<open>A target of a new edge is a planned node or followed the running node, so it has not started.\<close>

lemma targets_idle:
  assumes E: "expanding db rid nid entry patch" and ns: "planned_rows db rid patch ns"
    and e: "e \<in> set (exp_edges db rid nid entry patch)" "n \<in> set (t_nodes db @ ns)" "node_key n = (rid, pe_target e)"
  shows "\<not> started (n_status n)"
proof (cases "n \<in> set ns")
  case True
  then show ?thesis using ns by (auto simp: planned_def planned_rows_def)
next
  case False
  then have n: "n \<in> set (t_nodes db)" using e(2) by simp
  then have "pe_target e \<in> n_id ` set (nodeRows db rid)" using e(3) by (intro image_eqI [of _ _ n]) (simp_all add: nodeRows_mem)
  then have old: "pe_target e \<notin> pn_id ` set (gp_nodes patch)" using disjoint_iff [THEN iffD1, OF expandingD(5) [OF E]] by metis
  then have "e \<notin> set (gp_edges patch)" using graph_overD [OF expandingD(7) [OF E], of e] by (auto simp only: list.set_map)
  with e(1) have "e \<in> set (rewired_edges (edgeRows db rid) nid patch entry)" by simp
  then obtain c where c: "c \<in> set (edgeRows db rid)" "e_source c = nid" "e_target c = pe_target e"
    using rewired_edgeD(2) [OF _ expandingD(6) [OF E], of e] old by blast
  obtain n0 where n0: "n0 \<in> set (t_nodes db)" "node_key n0 = (rid, nid)" "n_status n0 = NRunning" using expanding_node [OF E] .
  have "\<not> succeeded_node (t_nodes db) rid nid"
  proof
    assume "succeeded_node (t_nodes db) rid nid"
    then obtain m where "m \<in> set (t_nodes db)" "node_key m = (rid, nid)" "n_status m = NSucceeded" by (auto simp: succeeded_node_def)
    with nodes_unique [OF expandingD(1) [OF E], of m n0] n0 show False by simp
  qed
  then have "\<not> deps_done (t_nodes db) (t_edges db) n"
    using c e(3) unfolding deps_done_def edgeRows_def by auto
  then show ?thesis using expandingD(3) [OF E] n by (auto simp: deps_ok_def)
qed

lemma cut_rel: "run_rel (t_edges (cut rid nid db)) rid = edge_rel (retained_edges (edgeRows db rid) nid)"
  by (auto simp: run_rel_def edge_rel_def cut_def retained_edges_def plan_edge_def edgeRows_def image_iff)

lemma expansion_inv:
  assumes E: "expanding db rid nid entry patch" and ns: "planned_rows db rid patch ns"
    and new: "map plan_edge new = uniqueEdges (exp_edges db rid nid entry patch)" "\<forall>e \<in> set new. e_runId e = rid"
    and db3: "db3 = (cut rid nid db)\<lparr>t_nodes := t_nodes db @ ns, t_edges := t_edges (cut rid nid db) @ new\<rparr>"
  shows "graph_inv db3" "\<forall>e \<in> set (t_edges db3). e_runId e = rid \<longrightarrow> e_source e \<noteq> nid \<and> e_target e \<noteq> nid"
proof -
  let ?db = "(cut rid nid db)\<lparr>t_nodes := t_nodes db @ ns\<rparr>"
  have plan: "plan_edge e \<in> set (exp_edges db rid nid entry patch)" if "e \<in> set new" for e
    using that new(1) candidates_set(2) [OF E] by (metis image_eqI list.set_map)
  have ends: "live_node (t_nodes ?db) rid (e_source e) \<and> live_node (t_nodes ?db) rid (e_target e)" "e_source e \<noteq> nid" "e_target e \<noteq> nid"
    if "e \<in> set new" for e
    using new_ends [OF E ns plan [OF that]] by (simp_all add: plan_edge_def)
  have idle: "\<not> started (n_status n)" if "e \<in> set new" "n \<in> set (t_nodes ?db)" "node_key n = (rid, e_target e)" for e n
    using targets_idle [OF E ns plan [OF that(1)], of n] that(2,3) by (simp add: plan_edge_def)
  have "run_rel new rid = edge_rel (exp_edges db rid nid entry patch)"
    using edge_rel_run_rel [OF new] edge_rel_cong [OF candidates_set(2) [OF E]] by simp
  then have "run_rel (t_edges ?db @ new) rid = edge_rel (cand_edges db rid nid entry patch)"
    using cut_rel [of rid nid db] by (simp add: run_rel_append edge_rel_def image_Un)
  then have acy: "acyclic (run_rel (t_edges ?db @ new) rid)" using candidates_acyclic [OF E] by (simp only:)
  have "graph_inv (?db\<lparr>t_edges := t_edges ?db @ new\<rparr>)"
  proof (rule add_edges_inv [OF planned_nodes_inv [OF E ns] new(2) _ _ acy])
    show "\<forall>e \<in> set new. live_node (t_nodes ?db) rid (e_source e) \<and> live_node (t_nodes ?db) rid (e_target e)" using ends(1) by blast
    show "\<forall>e \<in> set new. \<forall>n \<in> set (t_nodes ?db). node_key n = (rid, e_target e) \<longrightarrow> \<not> started (n_status n)" using idle by blast
  qed
  then show "graph_inv db3" by (simp add: db3 cut_def)
  show "\<forall>e \<in> set (t_edges db3). e_runId e = rid \<longrightarrow> e_source e \<noteq> nid \<and> e_target e \<noteq> nid"
    using ends(2,3) by (auto simp: db3 cut_def)
qed

lemma requireNode_Inr:
  "requireNode rid nid db = Inr (n, db') \<longleftrightarrow> (\<exists>row. find_node db rid nid = Some row \<and> n = nodeFromRow row) \<and> db' = db"
  by (auto simp: requireNode_def tx_simps split: option.splits)

lemma find_node_Some: "find_node db rid nid = Some n \<Longrightarrow> n \<in> set (t_nodes db) \<and> node_key n = (rid, nid)"
  by (auto simp: find_node_def find_Some_iff)

lemma read_same:
  "requireMutableRun rid db = Inr (r, db') \<Longrightarrow> db' = db" "assertLease rid nid w now db = Inr (u, db') \<Longrightarrow> db' = db"
  by (auto simp: requireRunRow_def requireMutableRun_def assertLease_def tx_simps split: option.splits if_splits)

lemma keeps_next_version: "tx_keeps graph_inv (next_version rid nid w att run res oid now)"
proof -
  have "tx_keeps graph_inv (update_run (\<lambda>r. r_id r = rid \<and> r_status r = RunRunning \<and> r_graphVersion r = v)
        (\<lambda>r. r\<lparr>r_graphVersion := v + 1, r_resultNodeId := x, r_updatedAt := now\<rparr>) lost)" for lost v x
    by (rule keeps_update_run) simp
  then show ?thesis unfolding next_version_def Let_def by (intro keeps_seq) auto
qed

lemma rewrite_graph_inv:
  assumes E: "expanding db rid nid entry patch"
    and ok: "rewrite_graph uuid rid nid depth patch entry (rewired_edges (edgeRows db rid) nid patch entry) now db = Inr (u, db')"
  shows "graph_inv db'"
proof -
  let ?f = "\<lambda>n. n\<lparr>n_status := NReplaced, n_progress := Some ''Replaced by graph expansion'', n_replacedBy := Some entry, n_completedAt := Some now\<rparr>"
  obtain u2 db2 u3 db3 u4 where
    n: "tx_each (insert_plan_node rid (\<lambda>_. depth + 1)) (gp_nodes patch) (cut rid nid db) = Inr (u2, db2)"
    and e: "insertEdges uuid rid (uniqueEdges (exp_edges db rid nid entry patch)) db2 = Inr (u3, db3)"
    and rep: "update_node rid nid (\<lambda>st. st = NRunning) ?f db3 = Inr (u4, db')"
    using ok unfolding rewrite_graph_def tx_seq.simps tx_simps cut_def by blast
  obtain ns where ns: "db2 = (cut rid nid db)\<lparr>t_nodes := t_nodes (cut rid nid db) @ ns\<rparr>" and pl: "planned_rows db rid patch ns"
    using insert_plan_nodes_Inr [OF n] by (auto simp: planned_rows_def cut_def)
  obtain new where new: "db3 = db2\<lparr>t_edges := t_edges db2 @ new\<rparr>" "map plan_edge new = uniqueEdges (exp_edges db rid nid entry patch)"
      "\<forall>e \<in> set new. e_runId e = rid"
    using e by (rule insertEdges_Inr)
  have "db3 = (cut rid nid db)\<lparr>t_nodes := t_nodes db @ ns, t_edges := t_edges (cut rid nid db) @ new\<rparr>"
    using ns new(1) by (simp add: cut_def)
  note x = expansion_inv [OF E pl new(2,3) this]
  have "db' = db3\<lparr>t_nodes := update_where (node_where rid nid (\<lambda>st. st = NRunning)) ?f (t_nodes db3)\<rparr>"
    using rep by (simp add: update_node_Inr)
  then show ?thesis using replace_node_inv [OF x, of ?f] by simp
qed

lemma keeps_expandNode:
  assumes "validatePatch patch = Inr v" "plain_patch patch"
    "assertSingleEntryReachability (map pn_id (gp_nodes patch)) (gp_edges patch) = Inr entry"
  shows "tx_keeps graph_inv (expandNode_tx uuid rid nid w patch entry oid now)"
proof -
  have over: "graph_over (map pn_id (gp_nodes patch)) (gp_edges patch)"
    using assms(1) by (auto simp: validatePatch_def assertDag_iff split: if_splits sum.splits)
  have entry: "entry \<in> pn_id ` set (gp_nodes patch)" using reachable_entry [OF assms(3)] by simp
  have "graph_inv db'" if inv: "graph_inv db" and ok: "expandNode_tx uuid rid nid w patch entry oid now db = Inr (u, db')" for db u db'
  proof -
    obtain run row u1 db1 where
      row: "find_node db rid nid = Some row" "n_status row = NRunning"
      and fresh: "find (\<lambda>n. pn_id n \<in> set (map n_id (nodeRows db rid))) (gp_nodes patch) = None"
      and dag: "assertDag (cand_ids db rid nid patch) (uniqueEdges (cand_edges db rid nid entry patch)) = Inr ()"
      and g: "rewrite_graph uuid rid nid (n_depth (nodeFromRow row)) patch entry (rewired_edges (edgeRows db rid) nid patch entry) now db = Inr (u1, db1)"
      and rest: "next_version rid nid w (n_attempt (nodeFromRow row)) run (gp_resultNodeId patch) oid now db1 = Inr (u, db')"
      using ok unfolding expandNode_tx_def Let_def tx_simps tx_seq.simps requireNode_Inr append_assoc
      by (auto simp: tx_simps dest!: read_same split: option.splits)
    have E: "expanding db rid nid entry patch"
      using inv find_node_Some [OF row(1)] row(2) fresh entry assms(2) over dag
      by (auto simp: expanding_def find_None_iff)
    show ?thesis by (rule tx_keepsD [OF keeps_next_version rewrite_graph_inv [OF E g] rest])
  qed
  then show ?thesis by (auto simp: tx_keeps_def)
qed

end
