(* ===== verification/Dag_Commands.thy ===== *)
theory Dag_Commands
  imports Dag_Expansion
begin

text \<open>
  The store as a machine whose events are the calls of its public methods. Along every sequence of
  calls from an empty database the live graphs stay acyclic, no node starts before its prerequisites
  have succeeded, and nodes that run together write to disjoint places.
\<close>

datatype dag_cmd =
    CreateRun string string string string timestamp
  | InstallGraph "nat \<Rightarrow> string" string DagGraphPatch string timestamp
  | ExpandNode "nat \<Rightarrow> string" string string string DagGraphPatch string timestamp
  | ClaimReadyNodes string string js_number js_number timestamp
  | AttachChildSession string string string string timestamp
  | UpdateNodeProgress string string string string timestamp
  | RenewLease string string string js_number timestamp
  | CompleteNode string string string NodeOutcome "DagToolActivity list option" string timestamp
  | CreateDecision DagDecision string timestamp
  | AnswerDecision string string string string timestamp

text \<open>A call, as the error it raises, if any, and the database it leaves.\<close>

definition raised :: "('e + 'a) \<times> 's \<Rightarrow> 'e option \<times> 's" where
  "raised r = (case fst r of Inl err \<Rightarrow> Some err | Inr _ \<Rightarrow> None, snd r)"

fun dag_call :: "dag_db \<Rightarrow> dag_cmd \<Rightarrow> dag_error option \<times> dag_db" where
  "dag_call db (CreateRun uid parent objective oid now) = raised (createRun uid parent objective oid now db)"
| "dag_call db (InstallGraph uuid rid patch oid now) = raised (installGraph uuid rid patch oid now db)"
| "dag_call db (ExpandNode uuid rid nid w patch oid now) = raised (expandNode uuid rid nid w patch oid now db)"
| "dag_call db (ClaimReadyNodes rid w limit ms now) = raised (claimReadyNodes rid w limit ms now db)"
| "dag_call db (AttachChildSession rid nid w child now) = raised (attachChildSession rid nid w child now db)"
| "dag_call db (UpdateNodeProgress rid nid w progress now) = raised (updateNodeProgress rid nid w progress now db)"
| "dag_call db (RenewLease rid nid w ms now) = raised (renewLease rid nid w ms now db)"
| "dag_call db (CompleteNode rid nid w outcome act oid now) = raised (completeNode rid nid w outcome act oid now db)"
| "dag_call db (CreateDecision input w now) = raised (createDecision input w now db)"
| "dag_call db (AnswerDecision rid did answer oid now) = raised (answerDecision rid did answer oid now db)"

definition dag_step :: "dag_db \<Rightarrow> dag_cmd \<Rightarrow> dag_db" where
  "dag_step db c = snd (dag_call db c)"

text \<open>The identifiers of planned nodes contain no NUL character.\<close>

fun plain_cmd :: "dag_db \<Rightarrow> dag_cmd \<Rightarrow> bool" where
  "plain_cmd db (InstallGraph uuid rid patch oid now) = plain_patch patch"
| "plain_cmd db (ExpandNode uuid rid nid w patch oid now) = plain_patch patch"
| "plain_cmd db c = True"

section \<open>What a call does to the database\<close>

lemma snd_raised [simp]: "snd (raised r) = snd r"
  by (simp add: raised_def)

lemma commit_run_keeps: "tx_keeps P work \<Longrightarrow> P db \<Longrightarrow> P (snd (commit_run work rid db))"
  using run_tx_keeps [of P work db] by (auto simp: commit_run_def split: prod.split sum.split)

lemma once_run_keeps: "(P db \<Longrightarrow> P (snd (work db))) \<Longrightarrow> P db \<Longrightarrow> P (snd (once_run oid k rid work db))"
  by (simp add: once_run_def split: sum.split option.split)

lemma createDecision_snd: "snd (createDecision input w now db) = snd (run_tx (createDecision_tx input w now) db)"
  by (auto simp: createDecision_def split: prod.split sum.split option.split)

text \<open>
  A predicate that the transactions keep is kept by the calls; the transactions of \<open>installGraph\<close> and
  \<open>expandNode\<close> run after the checks of the patch.
\<close>

lemma dag_step_keeps:
  assumes "\<And>uid parent obj oid now. tx_keeps P (createRun_tx uid parent obj oid now)"
    and "\<And>uuid rid patch oid now v. c = InstallGraph uuid rid patch oid now \<Longrightarrow> validatePatch patch = Inr v \<Longrightarrow>
      tx_keeps P (installGraph_tx uuid rid patch oid now)"
    and "\<And>uuid rid nid w patch oid now v entry. c = ExpandNode uuid rid nid w patch oid now \<Longrightarrow> validatePatch patch = Inr v \<Longrightarrow>
      assertSingleEntryReachability (map pn_id (gp_nodes patch)) (gp_edges patch) = Inr entry \<Longrightarrow>
      tx_keeps P (expandNode_tx uuid rid nid w patch entry oid now)"
    and "\<And>rid owner k ms now. tx_keeps P (claimReadyNodes_tx rid owner k ms now)"
    and "\<And>rid nid w child now. tx_keeps P (attachChildSession_tx rid nid w child now)"
    and "\<And>rid nid w progress now. tx_keeps P (updateNodeProgress_tx rid nid w progress now)"
    and "\<And>rid nid w ms now. tx_keeps P (renewLease_tx rid nid w ms now)"
    and "\<And>rid nid w outcome act oid now. tx_keeps P (completeNode_tx rid nid w outcome act oid now)"
    and "\<And>input w now. tx_keeps P (createDecision_tx input w now)"
    and "\<And>rid did answer oid now. tx_keeps P (answerDecision_tx rid did answer oid now)"
    and "P db"
  shows "P (dag_step db c)"
proof (cases c)
  case (CreateRun uid parent objective oid now)
  then show ?thesis
    using assms(1,11) by (auto simp: dag_step_def createRun_def commit_run_keeps split: sum.split option.split)
next
  case (InstallGraph uuid rid patch oid now)
  have "tx_keeps P (installGraph_tx uuid rid patch oid now)" if "validatePatch patch = Inr v" for v
    using InstallGraph that by (rule assms(2))
  then have "P (snd (installGraph uuid rid patch oid now db))"
    unfolding installGraph_def using assms(11)
    by - (rule once_run_keeps [where P = P], simp_all add: commit_run_keeps split: sum.split)
  then show ?thesis by (simp add: dag_step_def InstallGraph)
next
  case (ExpandNode uuid rid nid w patch oid now)
  have "tx_keeps P (expandNode_tx uuid rid nid w patch entry oid now)"
    if "validatePatch patch = Inr v" "assertSingleEntryReachability (map pn_id (gp_nodes patch)) (gp_edges patch) = Inr entry" for v entry
    using ExpandNode that by (rule assms(3))
  then have "P (snd (expandNode uuid rid nid w patch oid now db))"
    unfolding expandNode_def using assms(11)
    by - (rule once_run_keeps [where P = P], simp_all add: commit_run_keeps split: sum.split)
  then show ?thesis by (simp add: dag_step_def ExpandNode)
next
  case (ClaimReadyNodes rid w limit ms now)
  then show ?thesis
    using assms(4,11) by (auto simp: dag_step_def claimReadyNodes_def run_tx_keeps split: sum.split js_number.split)
next
  case (AttachChildSession rid nid w child now)
  then show ?thesis using assms(5,11) by (simp add: dag_step_def attachChildSession_def run_tx_keeps)
next
  case (UpdateNodeProgress rid nid w progress now)
  then show ?thesis using assms(6,11) by (simp add: dag_step_def updateNodeProgress_def commit_run_keeps)
next
  case (RenewLease rid nid w ms now)
  then show ?thesis using assms(7,11) by (simp add: dag_step_def renewLease_def run_tx_keeps split: js_number.split)
next
  case (CompleteNode rid nid w outcome act oid now)
  then show ?thesis using assms(8,11) by (simp add: dag_step_def completeNode_def once_run_keeps commit_run_keeps)
next
  case (CreateDecision input w now)
  then show ?thesis using assms(9,11) by (simp add: dag_step_def createDecision_snd run_tx_keeps)
next
  case (AnswerDecision rid did answer oid now)
  then show ?thesis using assms(10,11) by (simp add: dag_step_def answerDecision_def once_run_keeps commit_run_keeps)
qed

section \<open>The graph invariant along every sequence of calls\<close>

lemma keeps_insert_run: "tx_keeps graph_inv (insert_run r)" if "r_graphVersion r = 0"
proof -
  have "rows_ok {} (rs @ [r]) ns" if ok: "rows_ok {} rs ns" "r_id r \<notin> set (map r_id rs)" for rs ns
  proof -
    have "n_runId n \<noteq> r_id r" if "n \<in> set ns" for n using ok that unfolding rows_ok_def by metis
    with ok show ?thesis by (simp add: rows_ok_def)
  qed
  then show ?thesis
    by (auto simp: insert_run_def run_exists_def graph_inv_ex_def intro!: keeps_insert_row)
qed

lemma keeps_createRun: "tx_keeps graph_inv (createRun_tx uid parent obj oid now)"
  unfolding createRun_tx_def by (intro keeps_seq) (auto intro: keeps_insert_run)

lemma keeps_small_ops:
  "tx_keeps graph_inv (attachChildSession_tx rid nid w child now)"
  "tx_keeps graph_inv (updateNodeProgress_tx rid nid w progress now)"
  "tx_keeps graph_inv (renewLease_tx rid nid w ms now)"
  unfolding attachChildSession_tx_def updateNodeProgress_tx_def renewLease_tx_def Let_def
  by (intro tx_keeps_bind tx_keeps_then tx_keeps_intros keeps_reads keeps_update_node keeps_other_tables tx_keeps_modify;
      simp add: quiet_change_def graph_inv_ex_def)+

lemma keeps_completeNode: "tx_keeps graph_inv (completeNode_tx rid nid w outcome act oid now)"
proof -
  have "quiet_change (\<lambda>st. st = NRunning) (\<lambda>n. n\<lparr>n_status := outcome_status outcome, n_progress := p, n_result := r, n_error := e,
      n_completedAt := t, n_toolActivity := act\<rparr>)" for p r e t
    by (cases outcome) (auto simp: quiet_change_def started_def)
  then show ?thesis
    unfolding completeNode_tx_def tx_seq.simps
    by (intro tx_keeps_bind tx_keeps_then tx_keeps_intros keeps_reads keeps_update_node keeps_other_tables keeps_if keeps_cancel
        keeps_promote keeps_settleRun) auto
qed

lemma keeps_decisions:
  "tx_keeps graph_inv (createDecision_tx input w now)"
  "tx_keeps graph_inv (answerDecision_tx rid did answer oid now)"
  unfolding createDecision_tx_def refuse_decision_def ask_decision_def answerDecision_tx_def tx_seq.simps Let_def
  by (intro tx_keeps_bind tx_keeps_then tx_keeps_intros keeps_reads keeps_update_node keeps_other_tables keeps_if keeps_cancel
        keeps_promote keeps_settleRun keeps_option tx_keeps_modify; simp add: quiet_change_def started_def graph_inv_ex_def)+

interpretation graphs: guarded_machine dag_step plain_cmd graph_inv
proof unfold_locales
  fix db c
  assume inv: "graph_inv db" and plain: "plain_cmd db c"
  show "graph_inv (dag_step db c)"
  proof (rule dag_step_keeps [where P = graph_inv, OF keeps_createRun _ _ keeps_claim keeps_small_ops keeps_completeNode keeps_decisions inv])
    fix uuid rid patch oid now v
    assume "c = InstallGraph uuid rid patch oid now" "validatePatch patch = Inr v"
    then show "tx_keeps graph_inv (installGraph_tx uuid rid patch oid now)"
      using plain by (intro keeps_installGraph [of patch v]) simp_all
  next
    fix uuid rid nid w patch oid now v entry
    assume "c = ExpandNode uuid rid nid w patch oid now" "validatePatch patch = Inr v"
      "assertSingleEntryReachability (map pn_id (gp_nodes patch)) (gp_edges patch) = Inr entry"
    then show "tx_keeps graph_inv (expandNode_tx uuid rid nid w patch entry oid now)"
      using plain by (intro keeps_expandNode [of patch v]) simp_all
  qed
qed

lemma graph_inv_empty: "graph_inv empty_dag_db"
  by (simp add: graph_inv_ex_def empty_dag_db_def rows_ok_def edges_ok_def deps_ok_def scopes_ok_def run_rel_def acyclic_def)

end
