(* ===== verification/Dag_Ledger.thy ===== *)
theory Dag_Ledger
  imports Dag_Commands
begin

text \<open>
  Properties of the store that do not depend on the graph: operations with an operation id take effect
  once, a call that raises an error changes nothing, and a node asks at most eight questions. Each is a
  predicate of the runs, decisions and operations that the statements on the other tables cannot affect;
  the locale \<open>ledger\<close> states what such a predicate needs and derives that every call keeps it.
\<close>

section \<open>Predicates of runs, decisions and operations\<close>

locale ledger =
  fixes P :: "dag_db \<Rightarrow> bool"
  assumes frame [simp]:
    "P (db\<lparr>t_nodes := a\<rparr>) = P db" "P (db\<lparr>t_edges := b\<rparr>) = P db" "P (db\<lparr>t_events := c\<rparr>) = P db"
    "P (db\<lparr>t_leases := d\<rparr>) = P db" "P (db\<lparr>t_versions := f\<rparr>) = P db" "P (db\<lparr>t_attempts := g\<rparr>) = P db"
    and run_insert: "P db \<Longrightarrow> P (db\<lparr>t_runs := t_runs db @ [r]\<rparr>)"
    and run_update: "P db \<Longrightarrow> (\<And>r. r_id (h r) = r_id r) \<Longrightarrow> P (db\<lparr>t_runs := update_where sel h (t_runs db)\<rparr>)"
    and operation_insert: "P db \<Longrightarrow> o_operationId x \<notin> set (map o_operationId (t_operations db)) \<Longrightarrow>
      P (db\<lparr>t_operations := t_operations db @ [x]\<rparr>)"
    and decision_insert: "P db \<Longrightarrow>
      length (filter (\<lambda>q. dc_runId q = dc_runId y \<and> dc_nodeId q = dc_nodeId y) (t_decisions db)) < MAX_DAG_DECISIONS_PER_NODE \<Longrightarrow>
      P (db\<lparr>t_decisions := t_decisions db @ [y]\<rparr>)"
    and decision_update: "P db \<Longrightarrow> (\<And>y. dc_id (k y) = dc_id y \<and> dc_runId (k y) = dc_runId y \<and> dc_nodeId (k y) = dc_nodeId y) \<Longrightarrow>
      P (db\<lparr>t_decisions := update_where dsel k (t_decisions db)\<rparr>)"
begin

lemma insert_row_keeps: "(\<And>db. ok db \<Longrightarrow> P db \<Longrightarrow> P (add db)) \<Longrightarrow> tx_keeps P (insert_row ok table add)"
  by (auto simp: tx_keeps_def insert_row_def tx_simps)

lemma statements:
  "tx_keeps P (recordEvent rid ty msg node now)" "tx_keeps P (insert_lease l)" "tx_keeps P (insert_attempt at)"
  "tx_keeps P (insert_version v)" "tx_keeps P (delete_lease rid nid owner)" "tx_keeps P (insert_node n)" "tx_keeps P (insert_edge e)"
  unfolding recordEvent_def insert_lease_def insert_attempt_def insert_version_def delete_lease_def insert_node_def insert_edge_def
  by (intro insert_row_keeps tx_keeps_modify; simp)+

lemma settleAttempt_keeps: "tx_keeps P (settleAttempt rid nid att st now res err)"
  unfolding settleAttempt_def Let_def by (intro tx_keeps_bind tx_keeps_then tx_keeps_modify tx_keeps_intros) simp

lemma recordOperation_keeps: "tx_keeps P (recordOperation oid rid kd now)"
  unfolding recordOperation_def by (intro tx_keeps_bind insert_row_keeps tx_keeps_intros) (simp add: operation_insert)

lemma update_node_keeps: "tx_keeps P (update_node rid nid st h)"
  by (simp add: tx_keeps_def update_node_Inr)

lemma update_run_keeps: "(\<And>r. r_id (h r) = r_id r) \<Longrightarrow> tx_keeps P (update_run sel h lost)"
  unfolding update_run_def by (intro tx_keeps_bind tx_keeps_then tx_keeps_modify tx_keeps_intros) (rule run_update)

lemmas basics = tx_keeps_bind tx_keeps_then tx_keeps_intros tx_keeps_each keeps_seq keeps_if keeps_option keeps_reads statements
  settleAttempt_keeps recordOperation_keeps update_node_keeps

lemma promote_keeps: "tx_keeps P (promoteReadyNodes rid)"
  unfolding promoteReadyNodes_def by (intro basics)

lemma cancel_keeps: "tx_keeps P (cancelBlockedDescendants rid nid now)"
  unfolding cancelBlockedDescendants_def by (intro basics)

lemma recover_keeps: "tx_keeps P (recoverExpiredLeases rid now)"
  unfolding recoverExpiredLeases_def tx_seq.simps by (intro basics tx_keeps_modify) simp

lemma settleRun_keeps: "tx_keeps P (settleRun rid now)"
  unfolding settleRun_def Let_def by (intro basics update_run_keeps) simp_all

lemma recordGraphVersion_keeps: "tx_keeps P (recordGraphVersion rid v now)"
  unfolding recordGraphVersion_def by (intro basics)

lemma insert_plan_node_keeps: "tx_keeps P (insert_plan_node rid depth n)"
  unfolding insert_plan_node_def by (intro basics)

lemma insertEdges_keeps: "tx_keeps P (insertEdges uuid rid es)"
  unfolding insertEdges_def by (intro basics)

lemmas parts = basics promote_keeps cancel_keeps recover_keeps settleRun_keeps recordGraphVersion_keeps insert_plan_node_keeps
  insertEdges_keeps

lemma createRun_keeps: "tx_keeps P (createRun_tx uid parent obj oid now)"
  unfolding createRun_tx_def tx_seq.simps insert_run_def by (intro parts insert_row_keeps) (simp add: run_insert)

lemma installGraph_keeps: "tx_keeps P (installGraph_tx uuid rid patch oid now)"
  unfolding installGraph_tx_def tx_seq.simps by (intro parts update_run_keeps) simp

lemma expandNode_keeps: "tx_keeps P (expandNode_tx uuid rid nid w patch entry oid now)"
  unfolding expandNode_tx_def rewrite_graph_def next_version_def tx_seq.simps Let_def
  by (intro parts update_run_keeps tx_keeps_modify) simp_all

lemma claim_node_keeps: "tx_keeps P (claim_node rid owner ms now n)"
  unfolding claim_node_def tx_seq.simps Let_def by (intro parts)

lemma claim_loop_keeps_P: "tx_keeps P (claim_loop rid owner lim ms now rows claimed scopes)"
proof (induction rows arbitrary: claimed scopes)
  case (Cons row rows)
  show ?case unfolding claim_loop.simps Let_def by (intro parts claim_node_keeps Cons)
qed (simp add: tx_keeps_intros)

lemma claim_keeps: "tx_keeps P (claimReadyNodes_tx rid owner lim ms now)"
  unfolding claimReadyNodes_tx_def by (intro parts claim_loop_keeps_P)

lemma small_keeps:
  "tx_keeps P (attachChildSession_tx rid nid w child now)" "tx_keeps P (updateNodeProgress_tx rid nid w progress now)"
  "tx_keeps P (renewLease_tx rid nid w ms now)"
  unfolding attachChildSession_tx_def updateNodeProgress_tx_def renewLease_tx_def Let_def
  by (intro parts tx_keeps_modify; simp)+

lemma completeNode_keeps: "tx_keeps P (completeNode_tx rid nid w outcome act oid now)"
  unfolding completeNode_tx_def tx_seq.simps by (intro parts)

text \<open>The insertion of a decision relies on the count the transaction has read.\<close>

lemma insert_decision_counted:
  assumes "tx_then (tx_seq (insert_decision y # ms)) (tx_return a) db = Inr (b, db')" "P db"
    and "length (filter (\<lambda>q. dc_runId q = dc_runId y \<and> dc_nodeId q = dc_nodeId y) (t_decisions db)) < MAX_DAG_DECISIONS_PER_NODE"
    and "\<And>m. m \<in> set ms \<Longrightarrow> tx_keeps P m"
  shows "P db'"
proof -
  obtain u where "tx_seq ms (db\<lparr>t_decisions := t_decisions db @ [y]\<rparr>) = Inr (u, db')"
    using assms(1) by (auto simp: tx_simps insert_decision_def insert_row_def)
  with keeps_seq [OF assms(4)] decision_insert [OF assms(2,3)] show ?thesis by (auto dest: tx_keepsD)
qed

lemma refuse_keeps: "tx_keeps P (refuse_decision rid nid att w now)"
  unfolding refuse_decision_def tx_seq.simps by (intro parts)

lemma ask_keeps:
  assumes "ask_decision input att w now db = Inr (r, db')" "P db"
    "length (filter (\<lambda>q. dc_runId q = dc_runId input \<and> dc_nodeId q = dc_nodeId input) (t_decisions db)) < MAX_DAG_DECISIONS_PER_NODE"
  shows "P db'"
proof -
  have counted: "P db'" if "tx_then (tx_seq (insert_decision y # ms)) (tx_return a) s = Inr (b, db')" "s = db"
      "dc_runId y = dc_runId input" "dc_nodeId y = dc_nodeId input" "\<And>m. m \<in> set ms \<Longrightarrow> tx_keeps P m" for y ms a b s
    using insert_decision_counted [OF that(1) _ _ that(5)] assms(2,3) that(2-4) by simp
  have "\<And>m. m \<in> set [tx_then (update_node rid nid st h) (tx_return ()), delete_lease rid nid w,
      settleAttempt rid nid att AtWaitingUser now None None, recordEvent rid EvDecision msg (Some nid) now] \<Longrightarrow> tx_keeps P m" for rid nid st h msg
    by (auto intro: parts)
  with assms(1) show ?thesis
    unfolding ask_decision_def Let_def tx_bind_Inr tx_lift_Inr by (elim exE conjE) (rule counted, assumption, assumption, simp_all)
qed

lemma createDecision_keeps: "tx_keeps P (createDecision_tx input w now)"
proof -
  have "tx_keeps P (tx_bind (tx_gets (\<lambda>db. length (filter (\<lambda>d. dc_runId d = dc_runId input \<and> dc_nodeId d = dc_nodeId input) (t_decisions db))))
      (\<lambda>decisionCount. if decisionCount \<ge> MAX_DAG_DECISIONS_PER_NODE then refuse_decision rid nid att w now else ask_decision input att w now))"
    for rid nid att
    using refuse_keeps [of rid nid att w now] ask_keeps [of input att w now]
    by (auto simp: tx_keeps_def tx_simps not_le)
  then show ?thesis unfolding createDecision_tx_def Let_def by (intro tx_keeps_bind [OF keeps_reads(2)] tx_keeps_then [OF keeps_reads(4)]
      tx_keeps_bind [OF keeps_reads(3)] tx_keeps_then [OF tx_keeps_intros(5)])
qed

lemma answerDecision_keeps: "tx_keeps P (answerDecision_tx rid did answer oid now)"
  unfolding answerDecision_tx_def tx_seq.simps by (intro parts tx_keeps_modify decision_update) simp_all

lemma step_keeps: "P db \<Longrightarrow> P (dag_step db c)"
  by (rule dag_step_keeps [where P = P]) (rule createRun_keeps installGraph_keeps expandNode_keeps claim_keeps small_keeps
      completeNode_keeps createDecision_keeps answerDecision_keeps | assumption)+

end

section \<open>Idempotent operations\<close>

text \<open>
  The contract of operations that carry a key: once an operation with a key has succeeded the machine
  remembers the key for ever, and an operation whose key it remembers changes nothing.
\<close>

locale once_keyed =
  fixes stp :: "'s \<Rightarrow> 'c \<Rightarrow> 's" and fails :: "'s \<Rightarrow> 'c \<Rightarrow> bool" and key :: "'c \<Rightarrow> 'k option" and remembers :: "'k \<Rightarrow> 's \<Rightarrow> bool"
  assumes remembers_step: "remembers k s \<Longrightarrow> remembers k (stp s c)"
    and remembers_after: "key c = Some k \<Longrightarrow> \<not> fails s c \<Longrightarrow> remembers k (stp s c)"
    and remembered_noop: "key c = Some k \<Longrightarrow> remembers k s \<Longrightarrow> stp s c = s"
begin

lemma remembers_run: "remembers k s \<Longrightarrow> remembers k (run_events stp s cs)"
  by (induction cs arbitrary: s) (simp_all add: remembers_step)

lemma repeat_noop:
  assumes "key c = Some k" "\<not> fails s c" "key c' = Some k"
  shows "stp (run_events stp (stp s c) cs) c' = run_events stp (stp s c) cs"
  using remembered_noop [OF assms(3) remembers_run [OF remembers_after [OF assms(1,2)]]] .

end

text \<open>The key of a call: the trimmed operation id with the kind, and the run it must belong to.\<close>

type_synonym op_key = "string \<times> OperationKind \<times> string option"

fun cmd_key :: "dag_cmd \<Rightarrow> op_key option" where
  "cmd_key (CreateRun uid parent objective oid now) = Some (trim oid, OpCreateRun, None)"
| "cmd_key (InstallGraph uuid rid patch oid now) = Some (trim oid, OpInstallGraph, Some rid)"
| "cmd_key (ExpandNode uuid rid nid w patch oid now) = Some (trim oid, OpExpandNode, Some rid)"
| "cmd_key (CompleteNode rid nid w outcome act oid now) = Some (trim oid, OpCompleteNode, Some rid)"
| "cmd_key (AnswerDecision rid did answer oid now) = Some (trim oid, OpAnswerDecision, Some rid)"
| "cmd_key _ = None"

definition remembered :: "op_key \<Rightarrow> dag_db \<Rightarrow> bool" where
  "remembered k db = (case k of (i, kd, r) \<Rightarrow>
     \<exists>x. find (\<lambda>x. o_operationId x = i) (t_operations db) = Some x \<and> o_kind x = kd \<and> (r = None \<or> r = Some (o_runId x)))"

definition call_fails :: "dag_db \<Rightarrow> dag_cmd \<Rightarrow> bool" where
  "call_fails db c \<longleftrightarrow> fst (dag_call db c) \<noteq> None"

lemma find_append: "find p (xs @ ys) = (case find p xs of None \<Rightarrow> find p ys | Some x \<Rightarrow> Some x)"
  by (induction xs) auto

interpretation remembered_ops: ledger "remembered k" for k
  by unfold_locales (auto simp: remembered_def find_append split: prod.splits option.splits)

lemma remembered_result:
  assumes "remembered (trim oid, kd, r) db" "trim oid \<noteq> []"
  shows "\<exists>x. operationResult db oid kd r = Inr (Some x)"
  using assms by (auto simp: remembered_def operationResult_def requiredText_def Let_def split: option.splits)

lemma result_remembered:
  "operationResult db oid kd r = Inr (Some x) \<Longrightarrow> remembered (trim oid, kd, r) db"
  by (auto simp: remembered_def operationResult_def requiredText_def Let_def split: option.splits if_splits)

lemma find_Some_mem: "find p xs = Some x \<Longrightarrow> x \<in> set xs \<and> p x"
  by (auto simp: find_Some_iff)

lemma recordOperation_remembers:
  "r = None \<or> r = Some rid \<Longrightarrow> tx_ensures (\<lambda>db. remembered (trim oid, kd, r) db \<and> run_exists db rid) (recordOperation oid rid kd now)"
  by (auto simp: tx_ensures_def recordOperation_def insert_row_def tx_simps remembered_def requiredText_def Let_def find_append run_exists_def
      image_iff split: option.splits if_splits dest!: find_Some_mem)

text \<open>The keyed transactions end with the record of their operation.\<close>

lemma keyed_transactions:
  "tx_ensures (\<lambda>db. remembered (trim oid, OpCreateRun, None) db \<and> run_exists db uid) (createRun_tx uid parent obj oid now)"
  "tx_ensures (\<lambda>db. remembered (trim oid, OpInstallGraph, Some rid) db \<and> run_exists db rid) (installGraph_tx uuid rid patch oid now)"
  "tx_ensures (\<lambda>db. remembered (trim oid, OpExpandNode, Some rid) db \<and> run_exists db rid) (expandNode_tx uuid rid nid w patch entry oid now)"
  "tx_ensures (\<lambda>db. remembered (trim oid, OpCompleteNode, Some rid) db \<and> run_exists db rid) (completeNode_tx rid nid w outcome act oid now)"
  unfolding createRun_tx_def installGraph_tx_def expandNode_tx_def completeNode_tx_def next_version_def Let_def
  by (intro tx_ensures_rules recordOperation_remembers; simp)+

lemma tx_ensures_option: "(\<And>x. tx_ensures P (f x)) \<Longrightarrow> tx_ensures P (case d of None \<Rightarrow> tx_throw e | Some x \<Rightarrow> f x)"
  by (simp add: tx_ensures_throw split: option.split)

lemma keyed_answer:
  "tx_ensures (\<lambda>db. remembered (trim oid, OpAnswerDecision, Some rid) db \<and> run_exists db rid) (answerDecision_tx rid did answer oid now)"
  unfolding answerDecision_tx_def
  by (intro tx_ensures_rules tx_ensures_option recordOperation_remembers) simp

lemma requireRun_exists: "run_exists db rid \<Longrightarrow> \<exists>run. requireRun db rid = Inr run"
proof -
  assume "run_exists db rid"
  then have "find (\<lambda>r. r_id r = rid) (t_runs db) \<noteq> None" by (auto simp: run_exists_def find_None_iff)
  then show ?thesis by (auto simp: requireRun_def getRun_def find_run_def)
qed

lemma commit_run_result:
  assumes "commit_run work rid db = (r, db')" "tx_ensures (\<lambda>db. Q db \<and> run_exists db rid) work"
  obtains err where "r = Inl err" "db' = db" | run where "r = Inr run" "Q db'"
proof (cases rule: run_tx_cases [of work db])
  case (aborted e)
  with assms(1) show ?thesis by (intro that(1) [of e]) (simp_all add: commit_run_def)
next
  case (committed a t)
  with assms(2) have "Q t" "run_exists t rid" by (auto dest: tx_ensuresD)
  moreover obtain run where "requireRun t rid = Inr run" using requireRun_exists [OF \<open>run_exists t rid\<close>] by blast
  ultimately show ?thesis using committed assms(1) by (intro that(2) [of run]) (simp_all add: commit_run_def)
qed

text \<open>A keyed call fails without a change, or its key is remembered afterwards.\<close>

definition keyed_result :: "op_key \<Rightarrow> dag_db \<Rightarrow> (dag_error + DagRun) \<times> dag_db \<Rightarrow> bool" where
  "keyed_result k db r \<longleftrightarrow> (case fst r of Inl _ \<Rightarrow> snd r = db | Inr _ \<Rightarrow> remembered k (snd r)) \<and> (remembered k db \<longrightarrow> snd r = db)"

lemma keyed_commit:
  assumes "tx_ensures (\<lambda>db. remembered k db \<and> run_exists db rid) work" "\<not> remembered k db"
  shows "keyed_result k db (commit_run work rid db)"
  by (rule commit_run_result [OF prod.collapse [symmetric] assms(1), of db]) (use assms(2) in \<open>auto simp: keyed_result_def\<close>)

lemma keyed_once:
  assumes "\<not> remembered (trim oid, kd, Some rid) db \<Longrightarrow> keyed_result (trim oid, kd, Some rid) db (work db)"
  shows "keyed_result (trim oid, kd, Some rid) db (once_run oid kd rid work db)"
proof (cases "operationResult db oid kd (Some rid)")
  case (Inl e)
  then show ?thesis by (simp add: once_run_def keyed_result_def)
next
  case (Inr r)
  show ?thesis
  proof (cases r)
    case None
    with Inr have "\<not> remembered (trim oid, kd, Some rid) db"
      by (auto simp: operationResult_def requiredText_def Let_def remembered_def split: option.splits if_splits)
    with None Inr assms show ?thesis by (simp add: once_run_def)
  next
    case (Some x)
    with Inr show ?thesis by (auto simp: once_run_def keyed_result_def dest: result_remembered split: sum.split)
  qed
qed

lemma keyed_createRun: "keyed_result (trim oid, OpCreateRun, None) db (createRun uid parent objective oid now db)"
proof -
  have commit: "keyed_result (trim oid, OpCreateRun, None) db (commit_run (createRun_tx uid p obj oid now) uid db)"
    if "operationResult db oid OpCreateRun None = Inr None" for p obj
    using that by (intro keyed_commit keyed_transactions)
      (auto simp: operationResult_def requiredText_def Let_def remembered_def split: option.splits if_splits)
  show ?thesis
    by (auto simp: createRun_def commit keyed_result_def [of _ _ "(_, _)"] dest: result_remembered split: sum.split option.split)
qed

lemma keyed_calls:
  "keyed_result (trim oid, OpInstallGraph, Some rid) db (installGraph uuid rid patch oid now db)"
  "keyed_result (trim oid, OpExpandNode, Some rid) db (expandNode uuid rid nid w patch oid now db)"
  "keyed_result (trim oid, OpCompleteNode, Some rid) db (completeNode rid nid w outcome act oid now db)"
  "keyed_result (trim oid, OpAnswerDecision, Some rid) db (answerDecision rid did answer oid now db)"
  unfolding installGraph_def expandNode_def completeNode_def answerDecision_def
  by (rule keyed_once, auto simp: keyed_result_def [of _ _ "(_, _)"] intro: keyed_commit keyed_transactions keyed_answer split: sum.split)+

lemma keyed_call:
  assumes "cmd_key c = Some k"
  shows "(call_fails db c \<longrightarrow> dag_step db c = db) \<and> (\<not> call_fails db c \<longrightarrow> remembered k (dag_step db c)) \<and> (remembered k db \<longrightarrow> dag_step db c = db)"
proof -
  have r: "keyed_result k db r \<Longrightarrow> \<exists>r'. keyed_result k db r' \<and> raised r = raised r'" for k r by blast
  have "\<exists>r. keyed_result k db r \<and> dag_call db c = raised r"
    using assms by (cases c) (auto simp del: split_paired_Ex intro!: r keyed_createRun keyed_calls)
  then obtain x db' where "keyed_result k db (x, db')" "dag_call db c = raised (x, db')" by auto
  then show ?thesis
    by (cases x) (auto simp: keyed_result_def call_fails_def dag_step_def raised_def)
qed

interpretation operations: once_keyed dag_step call_fails cmd_key remembered
  by unfold_locales (use remembered_ops.step_keeps keyed_call in blast)+

section \<open>Decisions\<close>

definition decision_counts :: "dag_db \<Rightarrow> bool" where
  "decision_counts db \<longleftrightarrow>
     (\<forall>rid nid. length (filter (\<lambda>d. dc_runId d = rid \<and> dc_nodeId d = nid) (t_decisions db)) \<le> MAX_DAG_DECISIONS_PER_NODE)"

lemma filter_update_where: "(\<And>y. Q (h y) = Q y) \<Longrightarrow> length (filter Q (update_where sel h xs)) = length (filter Q xs)"
  by (induction xs) (auto simp: update_where_def)

interpretation counted_decisions: ledger decision_counts
proof unfold_locales
  fix db and y :: DagDecision
  assume "decision_counts db"
    "length (filter (\<lambda>q. dc_runId q = dc_runId y \<and> dc_nodeId q = dc_nodeId y) (t_decisions db)) < MAX_DAG_DECISIONS_PER_NODE"
  then show "decision_counts (db\<lparr>t_decisions := t_decisions db @ [y]\<rparr>)" by (auto simp: decision_counts_def)
qed (simp_all add: decision_counts_def filter_update_where)

interpretation decisions: machine dag_step decision_counts
  by unfold_locales (rule counted_decisions.step_keeps)

section \<open>Atomicity\<close>

definition has_decision :: "string \<Rightarrow> string \<Rightarrow> dag_db \<Rightarrow> bool" where
  "has_decision rid did db \<longleftrightarrow> (\<exists>d \<in> set (t_decisions db). dc_runId d = rid \<and> dc_id d = did)"

interpretation kept_decision: ledger "has_decision rid did" for rid did
proof unfold_locales
  fix db dsel and k :: "DagDecision \<Rightarrow> DagDecision"
  assume "has_decision rid did db" and k: "\<And>y. dc_id (k y) = dc_id y \<and> dc_runId (k y) = dc_runId y \<and> dc_nodeId (k y) = dc_nodeId y"
  then obtain d where d: "d \<in> set (t_decisions db)" "dc_runId d = rid" "dc_id d = did" by (auto simp: has_decision_def)
  then show "has_decision rid did (db\<lparr>t_decisions := update_where dsel k (t_decisions db)\<rparr>)"
    using k unfolding has_decision_def by (intro bexI [of _ "if dsel d then k d else d"]) (auto simp: set_update_where)
qed (auto simp: has_decision_def)

text \<open>A recorded event or operation refers to a run that exists.\<close>

lemma recordEvent_exists: "tx_ensures (\<lambda>db. run_exists db rid) (recordEvent rid ty msg node now)"
  by (auto simp: tx_ensures_def recordEvent_def insert_row_def tx_simps run_exists_def)

lemma tx_ensures_return: "tx_ensures P m \<Longrightarrow> tx_ensures P (tx_then m (tx_return a))"
  by (intro tx_ensures_then_keeps tx_keeps_intros)

lemma ask_ensures:
  "tx_ensures (\<lambda>db. run_exists db (dc_runId input)) (ask_decision input att w now)"
  "tx_ensures (has_decision (dc_runId input) (dc_id input)) (ask_decision input att w now)"
proof -
  show "tx_ensures (\<lambda>db. run_exists db (dc_runId input)) (ask_decision input att w now)"
    unfolding ask_decision_def Let_def by (intro tx_ensures_bind tx_ensures_return tx_ensures_Cons tx_ensures_last recordEvent_exists)
  have "tx_ensures (has_decision (dc_runId y) (dc_id y)) (insert_decision y)" for y
    by (auto simp: tx_ensures_def insert_decision_def insert_row_def tx_simps has_decision_def)
  then have "tx_ensures (has_decision (dc_runId input) (dc_id input)) (insert_decision y)"
    if "dc_runId y = dc_runId input" "dc_id y = dc_id input" for y using that by metis
  then show "tx_ensures (has_decision (dc_runId input) (dc_id input)) (ask_decision input att w now)"
    unfolding ask_decision_def Let_def tx_seq.simps
    by (intro tx_ensures_bind tx_ensures_return tx_ensures_then_keeps kept_decision.parts) simp_all
qed

lemma ask_result:
  assumes "ask_decision input att w now db = Inr (r, db')"
  shows "r = None \<and> run_exists db' (dc_runId input) \<and> has_decision (dc_runId input) (dc_id input) db'"
proof -
  have "r = None" using assms unfolding ask_decision_def Let_def tx_bind_Inr tx_then_Inr [of "tx_seq _"] tx_return_Inr by blast
  with ask_ensures [THEN tx_ensuresD, OF assms] show ?thesis by simp
qed

lemma refuse_result: "refuse_decision rid nid att w now db = Inr (r, db') \<Longrightarrow> r = Some decision_limit_text"
  unfolding refuse_decision_def tx_then_Inr [of "tx_seq _"] tx_return_Inr by blast

lemma createDecision_tx_result:
  assumes "createDecision_tx input w now db = Inr (r, db')"
  shows "r = Some decision_limit_text \<or> r = None \<and> run_exists db' (dc_runId input) \<and> has_decision (dc_runId input) (dc_id input) db'"
proof -
  obtain att db1 where "refuse_decision (dc_runId input) (dc_nodeId input) att w now db1 = Inr (r, db') \<or> ask_decision input att w now db1 = Inr (r, db')"
    using assms unfolding createDecision_tx_def Let_def tx_bind_Inr tx_then_Inr by (auto split: if_splits)
  then show ?thesis using refuse_result ask_result by blast
qed

lemma hydrate_has_decision:
  assumes "has_decision rid did db" "requireRun db rid = Inr run"
  shows "find (\<lambda>d. dc_id d = did) (run_decisions run) \<noteq> None"
proof -
  obtain d where d: "d \<in> set (t_decisions db)" "dc_runId d = rid" "dc_id d = did" using assms(1) by (auto simp: has_decision_def)
  obtain row where row: "r_id row = rid" "run = hydrate db row"
    using assms(2) by (auto simp: requireRun_def getRun_def find_run_def split: option.splits dest!: find_Some_mem)
  then have "decisionFromRow d \<in> set (run_decisions run)" using d by (simp add: hydrate_def)
  moreover have "dc_id (decisionFromRow d) = did" using d by (simp add: decisionFromRow_def)
  ultimately show ?thesis by (auto simp: find_None_iff)
qed

lemma createDecision_atomic:
  assumes "createDecision input w now db = (Inl err, db')"
  shows "db' = db \<or> err = StoreError decision_limit_text"
proof (cases rule: run_tx_cases [of "createDecision_tx input w now" db])
  case (aborted e)
  with assms show ?thesis by (simp add: createDecision_def)
next
  case (committed a t)
  note ct = committed
  show ?thesis
  proof (cases a)
    case (Some reason)
    with createDecision_tx_result [OF ct(1)] assms ct(2) show ?thesis by (simp add: createDecision_def)
  next
    case None
    with createDecision_tx_result [OF ct(1)] have x: "run_exists t (dc_runId input)" "has_decision (dc_runId input) (dc_id input) t" by simp_all
    obtain run where run: "requireRun t (dc_runId input) = Inr run" using requireRun_exists [OF x(1)] by blast
    then obtain d where "find (\<lambda>d. dc_id d = dc_id input) (run_decisions run) = Some d" using hydrate_has_decision [OF x(2) run] by blast
    with assms ct(2) None run show ?thesis by (simp add: createDecision_def)
  qed
qed

lemma progress_exists: "tx_ensures (\<lambda>db. True \<and> run_exists db rid) (updateNodeProgress_tx rid nid w progress now)"
  unfolding updateNodeProgress_tx_def simp_thms by (intro tx_ensures_rules recordEvent_exists)

lemma run_tx_atomic: "run_tx m db = (Inl err, db') \<Longrightarrow> db' = db"
  by (auto simp: run_tx_def split: sum.splits)

lemma call_atomic:
  assumes "dag_call db c = (Some err, db')"
  shows "db' = db \<or> (\<exists>input w now. c = CreateDecision input w now \<and> err = StoreError decision_limit_text)"
proof (cases "cmd_key c")
  case (Some k)
  then show ?thesis using keyed_call [OF Some, of db] assms by (simp add: call_fails_def dag_step_def)
next
  case None
  have raised: "\<exists>e. r = (Inl e, db') \<and> e = err" if "raised r = (Some err, db')" for r :: "(dag_error + 'a) \<times> dag_db"
    using that by (cases r) (auto simp: raised_def split: sum.splits)
  from None assms show ?thesis
    by (cases c) (auto dest!: raised run_tx_atomic createDecision_atomic simp: claimReadyNodes_def attachChildSession_def renewLease_def
        updateNodeProgress_def split: sum.splits js_number.splits if_splits elim!: commit_run_result [OF _ progress_exists])
qed

end
