(* ===== verification/Dag_Properties.thy ===== *)
theory Dag_Properties
  imports Dag_Ledger
begin

text \<open>
  The safety properties of the store along every sequence of calls, read off the invariant, with a
  sample run: two nodes in sequence and a third that writes beside the first.
\<close>

section \<open>A sample run\<close>

definition sample_plan :: DagGraphPatch where
  "sample_plan = \<lparr>gp_expectedGraphVersion = Integer 0, gp_resultNodeId = ''b'',
     gp_nodes = [\<lparr>pn_id = ''a'', pn_title = ''A'', pn_instructions = ''do a'', pn_writeScopes = Some [''src/a''], pn_estimatedDurationMinutes = None\<rparr>,
                 \<lparr>pn_id = ''b'', pn_title = ''B'', pn_instructions = ''do b'', pn_writeScopes = Some [''src''], pn_estimatedDurationMinutes = None\<rparr>,
                 \<lparr>pn_id = ''c'', pn_title = ''C'', pn_instructions = ''do c'', pn_writeScopes = Some [''doc''], pn_estimatedDurationMinutes = None\<rparr>],
     gp_edges = [\<lparr>pe_source = ''a'', pe_target = ''b''\<rparr>]\<rparr>"

definition sample_uuid :: "nat \<Rightarrow> string" where
  "sample_uuid i = ''e'' @ show_nat i"

definition sample_cmds :: "dag_cmd list" where
  "sample_cmds =
     [CreateRun ''r'' ''s'' ''goal'' ''op1'' 1, InstallGraph sample_uuid ''r'' sample_plan ''op2'' 2,
      ClaimReadyNodes ''r'' ''w'' (Integer 4) (Integer 5000) 3]"

abbreviation store_after :: "dag_cmd list \<Rightarrow> dag_db" where
  "store_after cmds \<equiv> run_events dag_step empty_dag_db cmds"

lemma sample_plain: "run_guarded plain_cmd dag_step empty_dag_db sample_cmds"
  by (simp add: sample_cmds_def plain_patch_def sample_plan_def plain_id_def)

lemma sample_store:
  "(map (\<lambda>n. (n_runId n, n_id n, n_status n, n_writeScopes n)) (t_nodes (store_after sample_cmds)),
    map (\<lambda>e. (e_runId e, e_source e, e_target e)) (t_edges (store_after sample_cmds))) =
     ([(''r'', ''a'', NRunning, [''src/a'']), (''r'', ''b'', NPending, [''src'']), (''r'', ''c'', NRunning, [''doc''])], [(''r'', ''a'', ''b'')])"
  by code_simp

lemma sample_nodes:
  obtains a b c where "t_nodes (store_after sample_cmds) = [a, b, c]" "n_runId a = ''r''" "n_id a = ''a''" "n_status a = NRunning"
    "n_writeScopes a = [''src/a'']" "n_runId c = ''r''" "n_id c = ''c''" "n_status c = NRunning" "n_writeScopes c = [''doc'']"
  using sample_store by (auto simp: map_eq_Cons_conv)

lemma sample_edge:
  obtains e where "t_edges (store_after sample_cmds) = [e]" "e_runId e = ''r''" "e_source e = ''a''" "e_target e = ''b''"
  using sample_store by (auto simp: map_eq_Cons_conv)

lemma reachable_graph_inv: "run_guarded plain_cmd dag_step empty_dag_db cmds \<Longrightarrow> graph_inv (store_after cmds)"
  by (rule graphs.inv_run [OF graph_inv_empty])

section \<open>Safety\<close>

text \<open>
  C7: Whatever calls are made, the edges of every run form an acyclic graph and connect nodes of that
  run that have not been replaced, as long as the identifiers of planned nodes contain no NUL character
  (the separator of the edge keys). In particular an expansion never closes a cycle through the
  neighbours of the node it replaces and leaves no edge to it behind.
\<close>

theorem store_graphs_acyclic:
  assumes "run_guarded plain_cmd dag_step empty_dag_db cmds"
  shows "acyclic (run_rel (t_edges (store_after cmds)) rid) \<and>
    (\<forall>e \<in> set (t_edges (store_after cmds)).
      live_node (t_nodes (store_after cmds)) (e_runId e) (e_source e) \<and> live_node (t_nodes (store_after cmds)) (e_runId e) (e_target e))"
  using reachable_graph_inv [OF assms] by (simp_all add: graph_inv_ex_def edges_ok_def)

theorem store_graphs_acyclic_witness:
  "acyclic (run_rel (t_edges (store_after sample_cmds)) ''r'') \<and>
   live_node (t_nodes (store_after sample_cmds)) ''r'' ''a'' \<and> live_node (t_nodes (store_after sample_cmds)) ''r'' ''b''"
proof -
  obtain e where "t_edges (store_after sample_cmds) = [e]" "e_runId e = ''r''" "e_source e = ''a''" "e_target e = ''b''"
    by (rule sample_edge)
  then show ?thesis using store_graphs_acyclic [OF sample_plain] by force
qed

text \<open>
  C8: No node starts before its prerequisites: whatever calls are made, if a node has left
  \<open>pending\<close> for \<open>ready\<close>, \<open>running\<close>, \<open>waiting_user\<close>, \<open>succeeded\<close> or \<open>failed\<close>, then the source of
  every edge into it has succeeded. This includes the edges that an expansion rewires, the nodes that
  return to \<open>ready\<close> after a lost lease, and those that a decision resumes.
\<close>

theorem store_prerequisites_first:
  assumes "run_guarded plain_cmd dag_step empty_dag_db cmds"
    and "n \<in> set (t_nodes (store_after cmds))" "started (n_status n)"
    and "e \<in> set (t_edges (store_after cmds))" "e_runId e = n_runId n" "e_target e = n_id n"
  shows "succeeded_node (t_nodes (store_after cmds)) (n_runId n) (e_source e)"
  using reachable_graph_inv [OF assms(1)] assms(2-) by (auto simp: graph_inv_ex_def deps_ok_def deps_done_def)

text \<open>
  C9: Nodes of a run that are running at the same time have disjoint write scopes: no scope of one
  contains a scope of the other, whichever workers claimed them and however the graph was expanded in
  between.
\<close>

theorem store_scopes_disjoint:
  assumes "run_guarded plain_cmd dag_step empty_dag_db cmds"
    and "n \<in> set (t_nodes (store_after cmds))" "n_status n = NRunning"
    and "m \<in> set (t_nodes (store_after cmds))" "n_status m = NRunning"
    and "n_runId n = n_runId m" "n_id n \<noteq> n_id m"
  shows "scopesConflict (n_writeScopes n) (n_writeScopes m) = Inr False"
proof -
  have inv: "rows_ok {} (t_runs (store_after cmds)) (t_nodes (store_after cmds))" "scopes_ok (t_nodes (store_after cmds))"
    using reachable_graph_inv [OF assms(1)] by (simp_all add: graph_inv_ex_def)
  have "\<forall>s \<in> set (n_writeScopes n) \<union> set (n_writeScopes m). valid_scope s" using inv(1) assms(2,4) by (auto simp: rows_ok_def)
  moreover have "\<not> scopes_overlap (n_writeScopes n) (n_writeScopes m)" using inv(2) assms(2-) unfolding scopes_ok_def by blast
  ultimately show ?thesis by (simp add: scopesConflict_valid)
qed

theorem store_scopes_disjoint_witness: "scopesConflict [''src/a''] [''doc''] = Inr False"
proof -
  obtain a b c where s: "t_nodes (store_after sample_cmds) = [a, b, c]" "n_runId a = ''r''" "n_id a = ''a''" "n_status a = NRunning"
    "n_writeScopes a = [''src/a'']" "n_runId c = ''r''" "n_id c = ''c''" "n_status c = NRunning" "n_writeScopes c = [''doc'']"
    by (rule sample_nodes)
  show ?thesis using store_scopes_disjoint [OF sample_plain, of a c] s by simp
qed

text \<open>A run of two nodes in sequence; after the first has succeeded the second may run.\<close>

definition pair_plan :: DagGraphPatch where
  "pair_plan = \<lparr>gp_expectedGraphVersion = Integer 0, gp_resultNodeId = ''b'',
     gp_nodes = [\<lparr>pn_id = ''a'', pn_title = ''A'', pn_instructions = ''i'', pn_writeScopes = None, pn_estimatedDurationMinutes = None\<rparr>,
                 \<lparr>pn_id = ''b'', pn_title = ''B'', pn_instructions = ''i'', pn_writeScopes = None, pn_estimatedDurationMinutes = None\<rparr>],
     gp_edges = [\<lparr>pe_source = ''a'', pe_target = ''b''\<rparr>]\<rparr>"

definition sample_more :: "dag_cmd list" where
  "sample_more =
     [CreateRun ''r'' ''s'' ''g'' ''1'' 1, InstallGraph sample_uuid ''r'' pair_plan ''2'' 2,
      ClaimReadyNodes ''r'' ''w'' (Integer 1) (Integer 1000) 3, CompleteNode ''r'' ''a'' ''w'' (OutSucceeded ''k'') None ''3'' 4]"

lemma sample_more_plain: "run_guarded plain_cmd dag_step empty_dag_db sample_more"
  by (simp add: sample_more_def plain_patch_def pair_plan_def plain_id_def)

lemma sample_more_store:
  "(map (\<lambda>n. (n_runId n, n_id n, n_status n)) (t_nodes (store_after sample_more)),
    map (\<lambda>e. (e_runId e, e_source e, e_target e)) (t_edges (store_after sample_more))) =
     ([(''r'', ''a'', NSucceeded), (''r'', ''b'', NReady)], [(''r'', ''a'', ''b'')])"
  by code_simp

theorem store_prerequisites_first_witness: "succeeded_node (t_nodes (store_after sample_more)) ''r'' ''a''"
proof -
  obtain a b where n: "t_nodes (store_after sample_more) = [a, b]" "n_runId b = ''r''" "n_id b = ''b''" "n_status b = NReady"
    using sample_more_store by (auto simp: map_eq_Cons_conv)
  obtain e where e: "t_edges (store_after sample_more) = [e]" "e_runId e = ''r''" "e_source e = ''a''" "e_target e = ''b''"
    using sample_more_store by (auto simp: map_eq_Cons_conv)
  have "n_runId b = ''r''" "n_id b = e_target e" by (simp_all add: n e)
  then show ?thesis
    using store_prerequisites_first [OF sample_more_plain, of b e] n e by (simp add: started_def)
qed

section \<open>Settlement\<close>


definition solo_run :: RunRow where
  "solo_run = \<lparr>r_id = ''r'', r_parentSessionId = ''s'', r_objective = ''g'', r_status = RunRunning, r_graphVersion = 1,
     r_resultNodeId = Some ''a'', r_result = None, r_error = None, r_completedAt = None, r_createdAt = 1, r_updatedAt = 2\<rparr>"

definition solo_db :: "DagNodeStatus \<Rightarrow> dag_db" where
  "solo_db st = empty_dag_db\<lparr>t_runs := [solo_run], t_nodes := [(plan_row ''r'' 0 ''A'' ''i'' [] None ''a'')\<lparr>n_status := st, n_attempt := 1\<rparr>],
     t_leases := [\<lparr>l_runId = ''r'', l_nodeId = ''a'', l_owner = ''w'', l_expiresAt = 9, l_acquiredAt = 3\<rparr>],
     t_attempts := [\<lparr>at_runId = ''r'', at_nodeId = ''a'', at_attempt = 1, at_workerId = ''w'', at_status = AtRunning, at_startedAt = 3,
       at_completedAt = None, at_result = None, at_error = None\<rparr>]\<rparr>"

lemma solo_cancel_fails:
  "dag_call (solo_db NRunning) (CompleteNode ''r'' ''a'' ''w'' (OutCancelled ''x'') None ''1'' 4) =
     (Some (StoreError ''DAG run result is required''), solo_db NRunning)"
  by code_simp


section \<open>Operations and errors\<close>

text \<open>
  C10: An operation with an operation id takes effect once. After a call that succeeded, whatever other
  calls follow, a call with the same operation id, of the same kind and for the same run, changes nothing:
  \<open>createRun\<close>, \<open>installGraph\<close>, \<open>expandNode\<close>, \<open>completeNode\<close> and \<open>answerDecision\<close> can be retried safely.
\<close>

theorem operations_idempotent:
  assumes "cmd_key c = Some k" "fst (dag_call db c) = None" "cmd_key c' = Some k"
  shows "dag_step (run_events dag_step (dag_step db c) cs) c' = run_events dag_step (dag_step db c) cs"
  using operations.repeat_noop [OF assms(1) _ assms(3)] assms(2) by (simp add: call_fails_def)

definition sample_create :: "string \<Rightarrow> dag_cmd" where
  "sample_create uid = CreateRun uid ''s'' ''g'' '' op '' 1"

lemma sample_create_ok: "fst (dag_call empty_dag_db (sample_create ''r'')) = None"
  by code_simp

theorem operations_idempotent_witness:
  "dag_step (run_events dag_step (dag_step empty_dag_db (sample_create ''r'')) [CreateRun ''q'' ''s'' ''h'' ''op2'' 2]) (sample_create ''r2'') =
   run_events dag_step (dag_step empty_dag_db (sample_create ''r'')) [CreateRun ''q'' ''s'' ''h'' ''op2'' 2]"
  by (rule operations_idempotent [OF _ sample_create_ok, where k = "(trim '' op '', OpCreateRun, None)"]) (simp_all add: sample_create_def)



text \<open>
  A node never has more than eight decisions, answered or not, whatever calls are made.
\<close>

theorem decisions_bounded:
  "length (filter (\<lambda>d. dc_runId d = rid \<and> dc_nodeId d = nid) (t_decisions (store_after cmds))) \<le> MAX_DAG_DECISIONS_PER_NODE"
proof -
  have "decision_counts empty_dag_db" by (simp add: decision_counts_def empty_dag_db_def)
  then show ?thesis using decisions.inv_run_all [of empty_dag_db cmds] by (simp add: decision_counts_def)
qed

end
