(* ===== verification/Sched_Recurrence.thy ===== *)
theory Sched_Recurrence
  imports Kala_Prelude
begin

text \<open>
  Recurrence of scheduled tasks, from \<open>packages/host/src/scheduled-tasks/recurrence.ts\<close> and
  \<open>types.ts\<close>. Instants are milliseconds since the epoch and local days are counted from 1970-01-01.
  The time zone database is not part of the sources: \<open>zones\<close> maps the name of a zone to the function
  that gives the local minute of an instant, and to nothing when the name is not a zone.
\<close>

section \<open>Types\<close>

text \<open>A \<open>once\<close> schedule carries the instant its text parses to, if it parses.\<close>

datatype ScheduleSpec =
    Once "int option"
  | Daily string js_number js_number
  | Weekly string "js_number list" js_number js_number
  | Interval string js_number js_number js_number string
  | Monthly string js_number js_number "js_number list"

record CalendarDate =
  cd_year :: int
  cd_month :: int
  cd_day :: int

record LocalMinute = CalendarDate +
  lm_hour :: int
  lm_minute :: int
  lm_weekday :: int

type_synonym zone = "int \<Rightarrow> LocalMinute"
type_synonym zones = "string \<Rightarrow> zone option"

definition MINUTE_MS :: int where "MINUTE_MS = 60000"
definition DAY_MS :: int where "DAY_MS = 24 * 60 * MINUTE_MS"

section \<open>The calendar\<close>

definition isLeapYear :: "int \<Rightarrow> bool" where
  "isLeapYear year \<longleftrightarrow> year mod 4 = 0 \<and> (year mod 100 \<noteq> 0 \<or> year mod 400 = 0)"

definition daysInMonth :: "int \<Rightarrow> int \<Rightarrow> int" where
  "daysInMonth year month =
     (if month = 2 then (if isLeapYear year then 29 else 28) else if month \<in> set [4, 6, 9, 11] then 30 else 31)"

text \<open>
  The days of the language's \<open>Date\<close>: the day on which a year begins, the day on which a month begins
  within its year, and the year of a day, which lies next to the quotient by the mean length of a year.
\<close>

definition day_from_year :: "int \<Rightarrow> int" where
  "day_from_year y = 365 * (y - 1970) + (y - 1969) div 4 - (y - 1901) div 100 + (y - 1601) div 400"

definition month_start :: "bool \<Rightarrow> int \<Rightarrow> int" where
  "month_start leap m =
     [0, 31, 59, 90, 120, 151, 181, 212, 243, 273, 304, 334] ! nat (m - 1) + (if leap \<and> m > 2 then 1 else 0)"

definition year_of_day :: "int \<Rightarrow> int" where
  "year_of_day n =
     (let g = 1970 + (400 * n) div 146097
      in if day_from_year (g + 1) \<le> n then g + 1 else if day_from_year g \<le> n then g else g - 1)"

definition month_of :: "bool \<Rightarrow> int \<Rightarrow> int" where
  "month_of leap doy = int (length (filter (\<lambda>m. month_start leap m \<le> doy) [1, 2, 3, 4, 5, 6, 7, 8, 9, 10, 11, 12]))"

definition day_number :: "int \<Rightarrow> int \<Rightarrow> int \<Rightarrow> int" where
  "day_number y m d = day_from_year y + month_start (isLeapYear y) m + (d - 1)"

definition utcMillis :: "('a) CalendarDate_scheme \<Rightarrow> int \<Rightarrow> int \<Rightarrow> int" where
  "utcMillis date hour minute =
     day_number (cd_year date) (cd_month date) (cd_day date) * DAY_MS + hour * 60 * MINUTE_MS + minute * MINUTE_MS"

definition epochDay :: "('a) CalendarDate_scheme \<Rightarrow> int" where
  "epochDay date = utcMillis date 0 0 div DAY_MS"

text \<open>\<open>calendarDate\<close>, with the weekday of the day beside it.\<close>

definition calendarDate :: "int \<Rightarrow> CalendarDate \<times> int" where
  "calendarDate day =
     (let y = year_of_day day; doy = day - day_from_year y; m = month_of (isLeapYear y) doy
      in (\<lparr>cd_year = y, cd_month = m, cd_day = doy - month_start (isLeapYear y) m + 1\<rparr>, (day + 4) mod 7))"

text \<open>The remainder \<open>%\<close> has the sign of the dividend.\<close>

definition js_rem :: "int \<Rightarrow> int \<Rightarrow> int" where
  "js_rem a b = (if a < 0 then - ((- a) mod b) else a mod b)"

definition addMonths :: "int \<Rightarrow> int \<Rightarrow> int \<Rightarrow> int \<times> int" where
  "addMonths year month offset =
     (let index = year * 12 + month - 1 + offset in (index div 12, js_rem index 12 + 1))"

text \<open>The pattern \<open>^(\d{4})-(\d{2})-(\d{2})$\<close> and the ranges of its groups.\<close>

definition parseCalendarDate :: "string \<Rightarrow> string \<Rightarrow> string + CalendarDate" where
  "parseCalendarDate value name =
     (let err = Inl (name @ '' must be a valid YYYY-MM-DD date'');
          ys = take 4 value; ms = take 2 (drop 5 value); ds = drop 8 value
      in if length value = 10 \<and> list_all is_digit ys \<and> value ! 4 = CHR ''-'' \<and> list_all is_digit ms \<and> value ! 7 = CHR ''-'' \<and> list_all is_digit ds
         then
           (let date = \<lparr>cd_year = digits_value ys, cd_month = digits_value ms, cd_day = digits_value ds\<rparr>
            in if cd_year date < 1 \<or> cd_month date < 1 \<or> cd_month date > 12 \<or> cd_day date < 1 \<or>
                  cd_day date > daysInMonth (cd_year date) (cd_month date)
               then err else Inr date)
         else err)"

section \<open>Validation\<close>

definition in_range :: "js_number \<Rightarrow> int \<Rightarrow> int \<Rightarrow> bool" where
  "in_range v lo hi = (case v of Integer i \<Rightarrow> lo \<le> i \<and> i \<le> hi | NonInteger _ \<Rightarrow> False)"

text \<open>The numbers of a validated schedule are integers.\<close>

primrec int_of :: "js_number \<Rightarrow> int" where
  "int_of (Integer i) = i"
| "int_of (NonInteger t) = 0"

text \<open>The checks every schedule but \<open>once\<close> shares.\<close>

definition validateClock :: "zones \<Rightarrow> string \<Rightarrow> js_number \<Rightarrow> js_number \<Rightarrow> string + unit" where
  "validateClock zones tz hour minute =
     (if zones tz = None then Inl ''schedule timezone must be a valid IANA timezone''
      else if \<not> in_range hour 0 23 then Inl ''schedule hour must be between 0 and 23''
      else if \<not> in_range minute 0 59 then Inl ''schedule minute must be between 0 and 59''
      else Inr ())"

fun validateSchedule :: "zones \<Rightarrow> ScheduleSpec \<Rightarrow> string + unit" where
  "validateSchedule zones (Once at) = (if at = None then Inl ''once.at must be an ISO timestamp'' else Inr ())"
| "validateSchedule zones (Daily tz hour minute) = validateClock zones tz hour minute"
| "validateSchedule zones (Weekly tz days hour minute) =
     (case validateClock zones tz hour minute of Inl e \<Rightarrow> Inl e | Inr _ \<Rightarrow>
        if length days < 1 \<or> length days > 7 then Inl ''weekly daysOfWeek must contain 1 to 7 days''
        else if \<not> distinct days \<or> list_ex (\<lambda>d. \<not> in_range d 0 6) days
        then Inl ''weekly daysOfWeek must contain unique integers from 0 (Sunday) to 6'' else Inr ())"
| "validateSchedule zones (Interval tz hour minute everyDays startDate) =
     (case validateClock zones tz hour minute of Inl e \<Rightarrow> Inl e | Inr _ \<Rightarrow>
        if \<not> in_range everyDays 1 3650 then Inl ''interval everyDays must be an integer between 1 and 3650''
        else map_sum id (\<lambda>_. ()) (parseCalendarDate startDate ''interval startDate''))"
| "validateSchedule zones (Monthly tz hour minute days) =
     (case validateClock zones tz hour minute of Inl e \<Rightarrow> Inl e | Inr _ \<Rightarrow>
        if length days < 1 \<or> length days > 31 then Inl ''monthly daysOfMonth must contain 1 to 31 days''
        else if \<not> distinct days \<or> list_ex (\<lambda>d. \<not> in_range d 1 31) days
        then Inl ''monthly daysOfMonth must contain unique integers from 1 to 31'' else Inr ())"

section \<open>The next occurrence\<close>

definition sameWallMinute :: "LocalMinute \<Rightarrow> CalendarDate \<Rightarrow> int \<Rightarrow> int \<Rightarrow> bool" where
  "sameWallMinute actual date hour minute \<longleftrightarrow>
     cd_year actual = cd_year date \<and> cd_month actual = cd_month date \<and> cd_day actual = cd_day date \<and>
     lm_hour actual = hour \<and> lm_minute actual = minute"

definition resolveLocalMinute :: "zone \<Rightarrow> CalendarDate \<Rightarrow> int \<Rightarrow> int \<Rightarrow> int option" where
  "resolveLocalMinute zone date hour minute =
     (let target = utcMillis date hour minute;
          offsets = map (\<lambda>sampleDays.
            let sample = target + sampleDays * DAY_MS; loc = zone sample
            in (utcMillis loc (lm_hour loc) (lm_minute loc) - sample) div MINUTE_MS) [-7, -2, -1, 0, 1, 2, 7];
          candidates = sort (filter (\<lambda>c. sameWallMinute (zone c) date hour minute)
            (map (\<lambda>offset. target - offset * MINUTE_MS) (rev (remdups (rev offsets)))))
      in case candidates of [] \<Rightarrow> None | c # _ \<Rightarrow> Some c)"

fun firstResolved :: "zone \<Rightarrow> int \<Rightarrow> int \<Rightarrow> int \<Rightarrow> int list \<Rightarrow> string + int" where
  "firstResolved zone hour minute after [] = Inl ''could not resolve the next schedule occurrence''"
| "firstResolved zone hour minute after (day # days) =
     (case resolveLocalMinute zone (fst (calendarDate day)) hour minute of
        Some c \<Rightarrow> if c > after then Inr c else firstResolved zone hour minute after days
      | None \<Rightarrow> firstResolved zone hour minute after days)"

definition weekly_days :: "int list \<Rightarrow> int \<Rightarrow> int list" where
  "weekly_days daysOfWeek afterDay =
     filter (\<lambda>day. snd (calendarDate day) \<in> set daysOfWeek) (map (\<lambda>offset. afterDay + int offset) [0..<15])"

definition interval_days :: "int \<Rightarrow> int \<Rightarrow> int \<Rightarrow> int list" where
  "interval_days everyDays anchorDay afterDay =
     (let delta = max 0 (afterDay - anchorDay);
          firstDay = anchorDay + ((delta + everyDays - 1) div everyDays) * everyDays
      in map (\<lambda>offset. firstDay + int offset * everyDays) [0..<4])"

definition monthly_days :: "int list \<Rightarrow> int \<Rightarrow> int \<Rightarrow> int \<Rightarrow> int list" where
  "monthly_days daysOfMonth year month afterDay =
     concat (map (\<lambda>monthOffset.
       (case addMonths year month (int monthOffset) of (y, m) \<Rightarrow>
          filter (\<lambda>candidate. candidate \<ge> afterDay)
            (map (\<lambda>day. epochDay \<lparr>cd_year = y, cd_month = m, cd_day = day\<rparr>)
              (filter (\<lambda>day. \<not> day > daysInMonth y m) (sort daysOfMonth))))) [0..<24])"

definition nextOccurrence :: "zones \<Rightarrow> ScheduleSpec \<Rightarrow> int \<Rightarrow> string + int option" where
  "nextOccurrence zones schedule after =
     (case validateSchedule zones schedule of
        Inl e \<Rightarrow> Inl e
      | Inr _ \<Rightarrow>
          (case schedule of
             Once at \<Rightarrow> Inr (case at of Some t \<Rightarrow> if t > after then Some t else None | None \<Rightarrow> None)
           | Daily tz hour minute \<Rightarrow>
               (let zone = the (zones tz); afterDay = epochDay (zone after)
                in map_sum id Some (firstResolved zone (int_of hour) (int_of minute) after [afterDay, afterDay + 1, afterDay + 2]))
           | Weekly tz days hour minute \<Rightarrow>
               (let zone = the (zones tz); afterDay = epochDay (zone after)
                in map_sum id Some (firstResolved zone (int_of hour) (int_of minute) after (weekly_days (map int_of days) afterDay)))
           | Interval tz hour minute everyDays startDate \<Rightarrow>
               (let zone = the (zones tz); afterDay = epochDay (zone after)
                in case parseCalendarDate startDate ''interval startDate'' of
                     Inl e \<Rightarrow> Inl e
                   | Inr d \<Rightarrow> map_sum id Some (firstResolved zone (int_of hour) (int_of minute) after
                       (interval_days (int_of everyDays) (epochDay d) afterDay)))
           | Monthly tz hour minute days \<Rightarrow>
               (let zone = the (zones tz); localAfter = zone after; afterDay = epochDay localAfter
                in map_sum id Some (firstResolved zone (int_of hour) (int_of minute) after
                     (monthly_days (map int_of days) (cd_year localAfter) (cd_month localAfter) afterDay)))))"

end
