(* ===== verification/Sched_Store.thy ===== *)
theory Sched_Store
  imports Sched_Recurrence Kala_Tx
begin

text \<open>
  The store of scheduled tasks, from \<open>packages/host/src/scheduled-tasks/store.ts\<close>: its state is the
  content of the state file, one definition per method. Every write goes through \<open>serialize\<close>, which
  reads the file, runs the operation on a copy and writes it back when the operation did not throw.
  Timestamps are milliseconds; a method reads the clock once, as its argument \<open>now\<close>. The digest of a task
  and an instant, computed by SHA-256 in the sources, is the parameter \<open>digest\<close>.
\<close>

section \<open>Types\<close>

datatype ScheduledTaskTarget = SessionTarget string | WorkspaceTarget string "string option" "string option"

datatype ScheduledTaskStatus = Active | Paused

record ScheduledTask =
  st_id :: string
  st_generation :: nat
  st_ownerKey :: string
  st_createdBy :: string
  st_status :: ScheduledTaskStatus
  st_prompt :: string
  st_target :: ScheduledTaskTarget
  st_schedule :: ScheduleSpec
  st_nextRunAt :: "int option"
  st_createdAt :: int
  st_updatedAt :: int

record ScheduledTaskSnapshot =
  sn_id :: string
  sn_generation :: nat
  sn_ownerKey :: string
  sn_createdBy :: string
  sn_prompt :: string
  sn_target :: ScheduledTaskTarget

datatype ScheduledRunStatus = Claimed | Enqueued | RFailed | NeedsReview | Skipped

record ScheduledRun =
  sr_occurrenceId :: string
  sr_taskId :: string
  sr_operationId :: string
  sr_scheduledFor :: int
  sr_status :: ScheduledRunStatus
  sr_claimedAt :: int
  sr_updatedAt :: int
  sr_task :: ScheduledTaskSnapshot
  sr_sessionId :: "string option"
  sr_error :: "string option"

record ScheduledInboxItem =
  in_occurrenceId :: string
  in_taskId :: string
  in_status :: ScheduledRunStatus
  in_scheduledFor :: int
  in_updatedAt :: int
  in_seen :: bool
  in_sessionId :: "string option"

record ScheduledInbox =
  ib_items :: "ScheduledInboxItem list"
  ib_unreadCount :: nat

record InboxReceipt =
  ir_ownerKey :: string
  ir_principal :: string
  ir_occurrenceIds :: "string list"
  ir_updatedAt :: int

record sched_state =
  s_revision :: nat
  s_tasks :: "ScheduledTask list"
  s_runs :: "ScheduledRun list"
  s_receipts :: "InboxReceipt list"

definition empty_sched :: sched_state where
  "empty_sched = \<lparr>s_revision = 0, s_tasks = [], s_runs = [], s_receipts = []\<rparr>"

definition MAX_RUNS :: nat where "MAX_RUNS = 10000"

type_synonym 'a sched_tx = "(string, sched_state, 'a) tx"
type_synonym digest = "string \<Rightarrow> int \<Rightarrow> string"

section \<open>Helpers\<close>

definition serialize :: "'a sched_tx \<Rightarrow> sched_state \<Rightarrow> (string + 'a) \<times> sched_state" where
  "serialize operation st =
     run_tx (tx_bind operation (\<lambda>value.
       tx_then (tx_modify (\<lambda>s. s\<lparr>s_revision := s_revision s + 1\<rparr>)) (tx_return value))) st"

text \<open>Once the store is closing no operation starts.\<close>

definition serialize_open :: "bool \<Rightarrow> 'a sched_tx \<Rightarrow> sched_state \<Rightarrow> (string + 'a) \<times> sched_state" where
  "serialize_open closing operation st =
     (if closing then (Inl ''scheduled task store is closing'', st) else serialize operation st)"

definition validateTaskInput :: "zones \<Rightarrow> string \<Rightarrow> ScheduledTaskTarget \<Rightarrow> ScheduleSpec \<Rightarrow> string + unit" where
  "validateTaskInput zones prompt target schedule =
     (if length (trim prompt) = 0 \<or> length prompt > 100000 then Inl ''prompt is required and must not exceed 100000 characters''
      else case target of
        SessionTarget sid \<Rightarrow> if sid = [] then Inl ''sessionId is required'' else validateSchedule zones schedule
      | WorkspaceTarget wid wname cwd \<Rightarrow> if wid = [] then Inl ''workspaceId is required'' else validateSchedule zones schedule)"

definition owned :: "string \<Rightarrow> string \<Rightarrow> ScheduledTask \<Rightarrow> bool" where
  "owned ownerKey taskId t \<longleftrightarrow> st_id t = taskId \<and> st_ownerKey t = ownerKey"

definition requiredTask :: "string \<Rightarrow> string \<Rightarrow> ScheduledTask sched_tx" where
  "requiredTask ownerKey taskId =
     tx_bind (tx_gets (\<lambda>s. find (owned ownerKey taskId) (s_tasks s))) (\<lambda>task.
       case task of None \<Rightarrow> tx_throw ''scheduled task not found'' | Some t \<Rightarrow> tx_return t)"

text \<open>The assignment to the object that \<open>find\<close> returned: the first row that satisfies the predicate.\<close>

fun update_first :: "('r \<Rightarrow> bool) \<Rightarrow> 'r \<Rightarrow> 'r list \<Rightarrow> 'r list" where
  "update_first P v [] = []"
| "update_first P v (r # rs) = (if P r then v # rs else r # update_first P v rs)"

definition stableId :: "digest \<Rightarrow> string \<Rightarrow> string \<Rightarrow> int \<Rightarrow> string" where
  "stableId digest prefix taskId scheduledFor = prefix @ ''_'' @ digest taskId scheduledFor"

definition snapshot :: "ScheduledTask \<Rightarrow> ScheduledTaskSnapshot" where
  "snapshot task = \<lparr>sn_id = st_id task, sn_generation = st_generation task, sn_ownerKey = st_ownerKey task,
     sn_createdBy = st_createdBy task, sn_prompt = st_prompt task, sn_target = st_target task\<rparr>"

definition trimRuns :: "sched_state \<Rightarrow> sched_state" where
  "trimRuns st =
     (if length (s_runs st) \<le> MAX_RUNS then st
      else
        (let removable = sort_key sr_updatedAt (filter (\<lambda>r. sr_status r \<noteq> Claimed) (s_runs st));
             remove = set (map sr_occurrenceId (take (length (s_runs st) - MAX_RUNS) removable))
         in st\<lparr>s_runs := filter (\<lambda>r. sr_occurrenceId r \<notin> remove) (s_runs st),
               s_receipts := map (\<lambda>q. q\<lparr>ir_occurrenceIds := filter (\<lambda>i. i \<notin> remove) (ir_occurrenceIds q)\<rparr>) (s_receipts st)\<rparr>))"

definition inboxRuns :: "sched_state \<Rightarrow> string \<Rightarrow> string \<Rightarrow> ScheduledRun list" where
  "inboxRuns st ownerKey who =
     filter (\<lambda>r. sn_ownerKey (sr_task r) = ownerKey \<and> sn_createdBy (sr_task r) = who \<and>
       (sr_status r = Enqueued \<or> sr_status r = RFailed \<or> sr_status r = NeedsReview)) (s_runs st)"

definition receipt_for :: "string \<Rightarrow> string \<Rightarrow> InboxReceipt \<Rightarrow> bool" where
  "receipt_for ownerKey who q \<longleftrightarrow> ir_ownerKey q = ownerKey \<and> ir_principal q = who"

definition seen_ids :: "sched_state \<Rightarrow> string \<Rightarrow> string \<Rightarrow> string set" where
  "seen_ids st ownerKey who =
     (case find (receipt_for ownerKey who) (s_receipts st) of None \<Rightarrow> {} | Some q \<Rightarrow> set (ir_occurrenceIds q))"

text \<open>
  Newest first, and by descending identifier among equal times. The order of identifiers is the parameter
  \<open>rank\<close>, for \<open>localeCompare\<close>.
\<close>

definition inbox_item :: "string set \<Rightarrow> ScheduledRun \<Rightarrow> ScheduledInboxItem" where
  "inbox_item seen r = \<lparr>in_occurrenceId = sr_occurrenceId r, in_taskId = sr_taskId r, in_status = sr_status r,
     in_scheduledFor = sr_scheduledFor r, in_updatedAt = sr_updatedAt r, in_seen = (sr_occurrenceId r \<in> seen),
     in_sessionId = truthy (sr_sessionId r)\<rparr>"

definition inboxFor :: "(string \<Rightarrow> int) \<Rightarrow> sched_state \<Rightarrow> string \<Rightarrow> string \<Rightarrow> ScheduledInbox" where
  "inboxFor rank st ownerKey who =
     (let seen = seen_ids st ownerKey who;
          items = map (inbox_item seen)
            (sort_key (\<lambda>r. - sr_updatedAt r) (sort_key (\<lambda>r. - rank (sr_occurrenceId r)) (inboxRuns st ownerKey who)))
      in \<lparr>ib_items = items, ib_unreadCount = fold (\<lambda>i n. n + (if in_seen i then 0 else 1)) items 0\<rparr>)"

section \<open>Reading\<close>

definition listTasks :: "sched_state \<Rightarrow> string \<Rightarrow> ScheduledTask list" where
  "listTasks st ownerKey = filter (\<lambda>t. st_ownerKey t = ownerKey) (s_tasks st)"

definition getTask :: "sched_state \<Rightarrow> string \<Rightarrow> string \<Rightarrow> ScheduledTask option" where
  "getTask st ownerKey taskId = find (owned ownerKey taskId) (s_tasks st)"

definition getTaskById :: "sched_state \<Rightarrow> string \<Rightarrow> ScheduledTask option" where
  "getTaskById st taskId = find (\<lambda>t. st_id t = taskId) (s_tasks st)"

definition history :: "sched_state \<Rightarrow> string \<Rightarrow> string \<Rightarrow> ScheduledRun list option" where
  "history st ownerKey taskId =
     (if list_ex (owned ownerKey taskId) (s_tasks st) \<or>
         list_ex (\<lambda>r. sr_taskId r = taskId \<and> sn_ownerKey (sr_task r) = ownerKey) (s_runs st)
      then Some (sort_key (\<lambda>r. - sr_scheduledFor r) (filter (\<lambda>r. sr_taskId r = taskId) (s_runs st)))
      else None)"

definition origins :: "sched_state \<Rightarrow> string \<Rightarrow> string \<Rightarrow> (string \<rightharpoonup> string)" where
  "origins st ownerKey sessionId =
     fold (\<lambda>r m. if sn_ownerKey (sr_task r) = ownerKey \<and> sr_sessionId r = Some sessionId then m(sr_operationId r \<mapsto> sr_taskId r) else m)
       (s_runs st) Map.empty"

definition due :: "sched_state \<Rightarrow> int \<Rightarrow> nat \<Rightarrow> ScheduledTask list" where
  "due st now limit =
     take limit (sort_key (\<lambda>t. coalesce (st_nextRunAt t) 0)
       (filter (\<lambda>t. st_status t = Active \<and> (case st_nextRunAt t of None \<Rightarrow> False | Some n \<Rightarrow> n \<le> now)) (s_tasks st)))"

definition claimedRuns :: "sched_state \<Rightarrow> ScheduledRun list" where
  "claimedRuns st = filter (\<lambda>r. sr_status r = Claimed) (s_runs st)"

section \<open>Writing\<close>

text \<open>The set of seen identifiers in the order of insertion.\<close>

definition add_new :: "string list \<Rightarrow> string list \<Rightarrow> string list" where
  "add_new xs ys = fold (\<lambda>y acc. if y \<in> set acc then acc else acc @ [y]) ys xs"

definition markInboxSeen :: "(string \<Rightarrow> int) \<Rightarrow> string \<Rightarrow> string \<Rightarrow> string list \<Rightarrow> int \<Rightarrow> (string list \<times> nat) sched_tx" where
  "markInboxSeen rank ownerKey who occurrenceIds now =
     tx_bind (tx_gets (\<lambda>st. map sr_occurrenceId
       (filter (\<lambda>r. sr_occurrenceId r \<in> set occurrenceIds) (inboxRuns st ownerKey who)))) (\<lambda>acknowledged.
     tx_then (if acknowledged = [] then tx_return ()
       else tx_modify (\<lambda>st.
         (let receipts = (if list_ex (receipt_for ownerKey who) (s_receipts st) then s_receipts st
                          else s_receipts st @ [\<lparr>ir_ownerKey = ownerKey, ir_principal = who, ir_occurrenceIds = [], ir_updatedAt = now\<rparr>])
          in case find (receipt_for ownerKey who) receipts of
               None \<Rightarrow> st
             | Some q \<Rightarrow> st\<lparr>s_receipts := update_first (receipt_for ownerKey who)
                 (q\<lparr>ir_occurrenceIds := add_new (ir_occurrenceIds q) acknowledged, ir_updatedAt := now\<rparr>) receipts\<rparr>)))
     (tx_bind (tx_gets (\<lambda>st. inboxFor rank st ownerKey who)) (\<lambda>inbox.
       tx_return (acknowledged, ib_unreadCount inbox))))"

text \<open>\<open>uid\<close> is what \<open>randomUUID\<close> returns.\<close>

definition create :: "zones \<Rightarrow> string \<Rightarrow> string \<Rightarrow> string \<Rightarrow> string \<Rightarrow> ScheduledTaskTarget \<Rightarrow> ScheduleSpec \<Rightarrow> int \<Rightarrow> ScheduledTask sched_tx" where
  "create zones uid ownerKey createdBy prompt target schedule now =
     tx_then (tx_lift (validateTaskInput zones prompt target schedule))
     (tx_bind (tx_lift (nextOccurrence zones schedule (now - 1))) (\<lambda>next.
       case next of
         None \<Rightarrow> tx_throw ''once schedule must be in the future''
       | Some n \<Rightarrow>
           (let task = \<lparr>st_id = uid, st_generation = 1, st_ownerKey = ownerKey, st_createdBy = createdBy, st_status = Active,
                        st_prompt = prompt, st_target = target, st_schedule = schedule, st_nextRunAt = Some n,
                        st_createdAt = now, st_updatedAt = now\<rparr>
            in tx_then (tx_modify (\<lambda>st. st\<lparr>s_tasks := s_tasks st @ [task]\<rparr>)) (tx_return task))))"

definition update :: "zones \<Rightarrow> string \<Rightarrow> string \<Rightarrow> string option \<Rightarrow> ScheduledTaskTarget option \<Rightarrow> ScheduleSpec option \<Rightarrow> int \<Rightarrow> ScheduledTask sched_tx" where
  "update zones ownerKey taskId patchPrompt patchTarget patchSchedule now =
     tx_bind (requiredTask ownerKey taskId) (\<lambda>task.
       (let prompt = coalesce patchPrompt (st_prompt task); target = coalesce patchTarget (st_target task);
            schedule = coalesce patchSchedule (st_schedule task)
        in tx_then (tx_lift (validateTaskInput zones prompt target schedule))
           (tx_bind (case patchSchedule of
                None \<Rightarrow> tx_return (st_nextRunAt task)
              | Some _ \<Rightarrow> tx_lift (nextOccurrence zones schedule (now - 1))) (\<lambda>next.
             (let task' = task\<lparr>st_prompt := prompt, st_target := target, st_schedule := schedule, st_updatedAt := now,
                               st_generation := st_generation task + 1, st_nextRunAt := next\<rparr>
              in tx_then (tx_modify (\<lambda>st. st\<lparr>s_tasks := update_first (owned ownerKey taskId) task' (s_tasks st)\<rparr>)) (tx_return task'))))))"

definition setPaused :: "zones \<Rightarrow> string \<Rightarrow> string \<Rightarrow> bool \<Rightarrow> int \<Rightarrow> ScheduledTask sched_tx" where
  "setPaused zones ownerKey taskId paused now =
     tx_bind (requiredTask ownerKey taskId) (\<lambda>task.
     tx_bind (if \<not> paused \<and> st_nextRunAt task = None then tx_lift (nextOccurrence zones (st_schedule task) (now - 1))
              else tx_return (st_nextRunAt task)) (\<lambda>next.
       (let task' = task\<lparr>st_status := (if paused then Paused else Active), st_updatedAt := now, st_nextRunAt := next\<rparr>
        in tx_then (tx_modify (\<lambda>st. st\<lparr>s_tasks := update_first (owned ownerKey taskId) task' (s_tasks st)\<rparr>)) (tx_return task'))))"

definition targets_session :: "string set \<Rightarrow> ScheduledTask \<Rightarrow> bool" where
  "targets_session sessionIds t = (case st_target t of SessionTarget sid \<Rightarrow> sid \<in> sessionIds | _ \<Rightarrow> False)"

definition pauseSessionTargets :: "string \<Rightarrow> string set \<Rightarrow> int \<Rightarrow> nat sched_tx" where
  "pauseSessionTargets ownerKey sessionIds now =
     (let sel = (\<lambda>t. \<not> (st_ownerKey t \<noteq> ownerKey \<or> st_status t \<noteq> Active \<or> \<not> targets_session sessionIds t))
      in tx_bind (tx_gets (\<lambda>st. changes sel (s_tasks st))) (\<lambda>paused.
         tx_then (tx_modify (\<lambda>st. st\<lparr>s_tasks := update_where sel (\<lambda>t. t\<lparr>st_status := Paused, st_updatedAt := now\<rparr>) (s_tasks st)\<rparr>))
           (tx_return paused)))"

fun remove_first :: "('r \<Rightarrow> bool) \<Rightarrow> 'r list \<Rightarrow> 'r list" where
  "remove_first P [] = []"
| "remove_first P (r # rs) = (if P r then rs else r # remove_first P rs)"

definition delete :: "string \<Rightarrow> string \<Rightarrow> bool sched_tx" where
  "delete ownerKey taskId =
     tx_bind (tx_gets (\<lambda>st. find (owned ownerKey taskId) (s_tasks st))) (\<lambda>task.
       case task of
         None \<Rightarrow> tx_return False
       | Some t \<Rightarrow>
           tx_then (tx_check (st_status t = Paused) ''scheduled task must be paused before deletion'')
           (tx_bind (tx_gets (\<lambda>st. list_ex (\<lambda>r. sr_taskId r = taskId \<and> sr_status r = Claimed) (s_runs st))) (\<lambda>pending.
            tx_then (tx_check (\<not> pending) ''scheduled task has a claimed occurrence and cannot be deleted'')
            (tx_then (tx_modify (\<lambda>st. st\<lparr>s_tasks := remove_first (owned ownerKey taskId) (s_tasks st)\<rparr>)) (tx_return True)))))"

text \<open>The run recorded for an occurrence of a task.\<close>

definition run_record :: "digest \<Rightarrow> ScheduledTask \<Rightarrow> int \<Rightarrow> ScheduledRunStatus \<Rightarrow> string option \<Rightarrow> int \<Rightarrow> ScheduledRun" where
  "run_record digest task scheduledFor status err now =
     \<lparr>sr_occurrenceId = stableId digest ''occ'' (st_id task) scheduledFor, sr_taskId = st_id task,
      sr_operationId = stableId digest ''schedule'' (st_id task) scheduledFor, sr_scheduledFor = scheduledFor,
      sr_status = status, sr_claimedAt = now, sr_updatedAt = now, sr_task = snapshot task, sr_sessionId = None, sr_error = err\<rparr>"

text \<open>The loop over the overdue occurrences after the claimed one.\<close>

function catchup ::
  "zones \<Rightarrow> digest \<Rightarrow> ScheduledTask \<Rightarrow> int \<Rightarrow> int option \<Rightarrow> nat \<Rightarrow> ScheduledRun list \<Rightarrow> string + (int option \<times> ScheduledRun list)" where
  "catchup zones digest task now next missed runs =
     (case next of
        None \<Rightarrow> Inr (None, runs)
      | Some n \<Rightarrow>
          if \<not> n \<le> now then Inr (Some n, runs)
          else if missed + 1 \<ge> 10000 then Inl ''schedule catchup exceeds safety bound''
          else
            (case nextOccurrence zones (st_schedule task) n of
               Inl e \<Rightarrow> Inl e
             | Inr next' \<Rightarrow> catchup zones digest task now next' (missed + 1)
                 (if missed + 1 \<le> 9
                  then runs @ [run_record digest task n Skipped (Some ''bounded catchup skipped overdue occurrence'') now] else runs)))"
  by pat_completeness auto
termination by (relation "measure (\<lambda>(z, d, t, now, next, missed, runs). 10000 - missed)") auto

definition claim :: "zones \<Rightarrow> digest \<Rightarrow> string \<Rightarrow> int \<Rightarrow> int \<Rightarrow> ScheduledRun option sched_tx" where
  "claim zones digest taskId scheduledFor now =
     tx_bind (tx_gets (\<lambda>st. find (\<lambda>t. st_id t = taskId) (s_tasks st))) (\<lambda>found.
       case found of
         None \<Rightarrow> tx_return None
       | Some task \<Rightarrow>
           if st_status task \<noteq> Active \<or> st_nextRunAt task \<noteq> Some scheduledFor then tx_return None
           else
             (let occurrenceId = stableId digest ''occ'' taskId scheduledFor
              in tx_bind (tx_gets (\<lambda>st. find (\<lambda>r. sr_occurrenceId r = occurrenceId) (s_runs st))) (\<lambda>existing.
                 case existing of
                   Some r \<Rightarrow> tx_return (Some r)
                 | None \<Rightarrow>
                     (let run = run_record digest task scheduledFor Claimed None now
                      in tx_bind (tx_lift (nextOccurrence zones (st_schedule task) scheduledFor)) (\<lambda>next.
                         tx_bind (tx_gets s_runs) (\<lambda>runs.
                         tx_bind (tx_lift (catchup zones digest task now next 0 (runs @ [run]))) (\<lambda>(next', runs').
                         tx_then (tx_modify (\<lambda>st. trimRuns (st\<lparr>s_runs := runs',
                           s_tasks := update_first (\<lambda>t. st_id t = taskId) (task\<lparr>st_nextRunAt := next', st_updatedAt := now\<rparr>) (s_tasks st)\<rparr>)))
                           (tx_return (Some run)))))))))"

definition finish :: "string \<Rightarrow> ScheduledRunStatus \<Rightarrow> string option \<Rightarrow> string option \<Rightarrow> int \<Rightarrow> ScheduledRun sched_tx" where
  "finish occurrenceId status sessionId err now =
     tx_bind (tx_gets (\<lambda>st. find (\<lambda>r. sr_occurrenceId r = occurrenceId) (s_runs st))) (\<lambda>found.
       case found of
         None \<Rightarrow> tx_throw ''scheduled run not found''
       | Some run \<Rightarrow>
           if sr_status run \<noteq> Claimed then tx_return run
           else
             (let run' = run\<lparr>sr_status := status, sr_updatedAt := now,
                    sr_sessionId := (case sessionId of None \<Rightarrow> sr_sessionId run | Some _ \<Rightarrow> sessionId),
                    sr_error := (case err of None \<Rightarrow> sr_error run | Some _ \<Rightarrow> err)\<rparr>
              in tx_then (tx_modify (\<lambda>st. st\<lparr>s_runs := update_first (\<lambda>r. sr_occurrenceId r = occurrenceId) run' (s_runs st)\<rparr>))
                   (tx_return run')))"

end
