(* ===== verification/Sched_Calendar.thy ===== *)
theory Sched_Calendar
  imports Sched_Recurrence
begin

text \<open>
  The calendar of the recurrences: days and dates correspond one to one, in order, and months of a year
  follow each other without a gap.
\<close>

section \<open>Years\<close>

lemma div_bounds: "0 < k \<Longrightarrow> k * (x div k) \<le> x" "0 < k \<Longrightarrow> x < k * (x div k) + k" for x k :: int
  using pos_mod_bound [of k x] pos_mod_sign [of k x] mult_div_mod_eq [of k x] by linarith+

lemma div_Suc: "0 < k \<Longrightarrow> (x + 1) div k = x div k + (if (x + 1) mod k = 0 then 1 else 0)" for x k :: int
proof -
  assume k: "0 < k"
  have x: "x = k * (x div k) + x mod k" by simp
  show ?thesis
  proof (cases "x mod k = k - 1")
    case True
    with x have "x + 1 = k * (x div k + 1)" by (simp add: algebra_simps)
    then show ?thesis using k by simp
  next
    case False
    then have r: "0 \<le> x mod k + 1" "x mod k + 1 < k" using k pos_mod_bound [of k x] pos_mod_sign [of k x] by linarith+
    have "x + 1 = k * (x div k) + (x mod k + 1)" using x by linarith
    with r have "(x + 1) div k = x div k" "(x + 1) mod k = x mod k + 1" by (metis int_div_pos_eq, metis int_mod_pos_eq)
    moreover have "x mod k + 1 \<noteq> 0" using pos_mod_sign [of k x] k by linarith
    ultimately show ?thesis by simp
  qed
qed

lemma day_from_year_bounds:
  "146097 * y \<le> 400 * day_from_year y + 287811596" "400 * day_from_year y + 287810501 \<le> 146097 * y"
proof -
  define a b c where abc: "a = (y - 1969) div 4" "b = (y - 1901) div 100" "c = (y - 1601) div 400"
  have "4 * a \<le> y - 1969" "y - 1969 < 4 * a + 4" "100 * b \<le> y - 1901" "y - 1901 < 100 * b + 100" "400 * c \<le> y - 1601" "y - 1601 < 400 * c + 400"
    unfolding abc by (rule div_bounds; simp)+
  moreover have "day_from_year y = 365 * y - 719050 + a - b + c" by (simp add: day_from_year_def abc)
  ultimately show "146097 * y \<le> 400 * day_from_year y + 287811596" "400 * day_from_year y + 287810501 \<le> 146097 * y"
    by linarith+
qed

lemma year_steps:
  "(y + 1 - 1969) div 4 = (y - 1969) div 4 + (if y mod 4 = 0 then 1 else 0)"
  "(y + 1 - 1901) div 100 = (y - 1901) div 100 + (if y mod 100 = 0 then 1 else 0)"
  "(y + 1 - 1601) div 400 = (y - 1601) div 400 + (if y mod 400 = 0 then 1 else 0)" for y :: int
proof -
  have e: "y + 1 - 1969 = y - 1969 + 1" "y + 1 - 1901 = y - 1901 + 1" "y + 1 - 1601 = y - 1601 + 1" by simp_all
  have m: "(y - 1969 + 1) mod 4 = 0 \<longleftrightarrow> y mod 4 = 0" "(y - 1901 + 1) mod 100 = 0 \<longleftrightarrow> y mod 100 = 0"
    "(y - 1601 + 1) mod 400 = 0 \<longleftrightarrow> y mod 400 = 0" by presburger+
  show "(y + 1 - 1969) div 4 = (y - 1969) div 4 + (if y mod 4 = 0 then 1 else 0)"
    unfolding e m [symmetric] by (rule div_Suc) simp
  show "(y + 1 - 1901) div 100 = (y - 1901) div 100 + (if y mod 100 = 0 then 1 else 0)"
    unfolding e m [symmetric] by (rule div_Suc) simp
  show "(y + 1 - 1601) div 400 = (y - 1601) div 400 + (if y mod 400 = 0 then 1 else 0)"
    unfolding e m [symmetric] by (rule div_Suc) simp
qed

lemma mod_mult_zero: "y mod (a * b) = 0 \<Longrightarrow> y mod b = 0" for y a b :: int
  by (metis dvd_mult_right mod_0_imp_dvd dvd_imp_mod_0)

lemma leap_step:
  "(if y mod 4 = 0 then 1 else 0) - (if y mod 100 = 0 then 1 else 0) + (if y mod 400 = 0 then 1 else 0) =
   (if isLeapYear y then 1 else 0 :: int)"
proof -
  have b: "(if A then 1 else 0) - (if B then 1 else 0) + (if C then 1 else 0) = (if A \<and> (\<not> B \<or> C) then 1 else 0 :: int)"
    if "C \<Longrightarrow> B" "B \<Longrightarrow> A" for A B C using that by (cases A; cases B; cases C) simp_all
  have m: "y mod 400 = 0 \<Longrightarrow> y mod 100 = 0" "y mod 100 = 0 \<Longrightarrow> y mod 4 = 0"
    using mod_mult_zero [of y 4 100] mod_mult_zero [of y 25 4] by (simp_all only: mult_numeral_1 numeral_times_numeral semiring_norm)
  show ?thesis unfolding isLeapYear_def by (rule b [OF m])
qed

lemma day_from_year_Suc: "day_from_year (y + 1) = day_from_year y + (if isLeapYear y then 366 else 365)"
  using leap_step [of y] unfolding day_from_year_def year_steps by (cases "isLeapYear y") simp_all

lemma year_of_day: "day_from_year (year_of_day n) \<le> n \<and> n < day_from_year (year_of_day n + 1)"
proof -
  define q where "q = (400 * n) div 146097"
  have q: "146097 * q \<le> 400 * n" "400 * n < 146097 * q + 146097" unfolding q_def by (rule div_bounds; simp)+
  have lo: "day_from_year (1970 + q - 1) \<le> n" using q(1) day_from_year_bounds(2) [of "1970 + q - 1"] by simp
  have hi: "n < day_from_year (1970 + q + 1 + 1)" using q(2) day_from_year_bounds(1) [of "1970 + q + 1 + 1"] by simp
  from lo hi show ?thesis unfolding year_of_day_def q_def [symmetric] Let_def by simp
qed

lemma day_from_year_mono: "y \<le> z \<Longrightarrow> day_from_year y + 365 * (z - y) \<le> day_from_year z"
proof (induction "nat (z - y)" arbitrary: z)
  case (Suc k)
  then have "day_from_year y + 365 * (z - 1 - y) \<le> day_from_year (z - 1)" by (intro Suc.hyps(1)) linarith+
  then show ?case using day_from_year_Suc [of "z - 1"] by (simp split: if_splits)
qed simp

lemma year_of_day_unique: "day_from_year y \<le> n \<Longrightarrow> n < day_from_year (y + 1) \<Longrightarrow> year_of_day n = y"
proof (rule ccontr)
  assume y: "day_from_year y \<le> n" "n < day_from_year (y + 1)" and "year_of_day n \<noteq> y"
  then consider "year_of_day n + 1 \<le> y" | "y + 1 \<le> year_of_day n" by linarith
  then show False
    using y year_of_day [of n] by cases (use day_from_year_mono in \<open>fastforce+\<close>)
qed

section \<open>Months\<close>

abbreviation months :: "int list" where
  "months \<equiv> [1, 2, 3, 4, 5, 6, 7, 8, 9, 10, 11, 12]"

lemma month_table [simp]:
  "month_start leap 1 = 0" "month_start leap 2 = 31" "month_start leap 3 = (if leap then 60 else 59)"
  "month_start leap 4 = (if leap then 91 else 90)" "month_start leap 5 = (if leap then 121 else 120)"
  "month_start leap 6 = (if leap then 152 else 151)" "month_start leap 7 = (if leap then 182 else 181)"
  "month_start leap 8 = (if leap then 213 else 212)" "month_start leap 9 = (if leap then 244 else 243)"
  "month_start leap 10 = (if leap then 274 else 273)" "month_start leap 11 = (if leap then 305 else 304)"
  "month_start leap 12 = (if leap then 335 else 334)"
  by (simp_all add: month_start_def)

lemma month_mem: "1 \<le> m \<Longrightarrow> m \<le> 12 \<Longrightarrow> m \<in> set months" for m :: int
proof -
  assume "1 \<le> m" "m \<le> 12"
  then have "m \<in> {1..12}" by simp
  also have "{1..12} = set months" by (simp add: simp_from_to)
  finally show ?thesis .
qed

lemma month_year_end:
  "m \<in> set months \<Longrightarrow> month_start (isLeapYear y) m + daysInMonth y m \<le> (if isLeapYear y then 366 else 365)"
  by (simp add: daysInMonth_def) (elim disjE; simp)

lemma month_length:
  "m \<in> set months \<Longrightarrow>
     (if m = 12 then (if isLeapYear y then 366 else 365) else month_start (isLeapYear y) (m + 1)) =
     month_start (isLeapYear y) m + daysInMonth y m"
  by (simp add: daysInMonth_def) (elim disjE; simp)

lemma month_of_start:
  assumes "m \<in> set months" "1 \<le> d" "d \<le> daysInMonth y m"
  shows "month_of (isLeapYear y) (month_start (isLeapYear y) m + (d - 1)) = m"
proof (cases "isLeapYear y")
  case True
  with assms show ?thesis by (simp add: month_of_def daysInMonth_def) (elim disjE; simp)
next
  case False
  with assms show ?thesis by (simp add: month_of_def daysInMonth_def) (elim disjE; simp)
qed

section \<open>Dates\<close>

definition valid_date :: "CalendarDate \<Rightarrow> bool" where
  "valid_date d \<longleftrightarrow> 1 \<le> cd_month d \<and> cd_month d \<le> 12 \<and> 1 \<le> cd_day d \<and> cd_day d \<le> daysInMonth (cd_year d) (cd_month d)"

lemma epochDay_number: "epochDay d = day_number (cd_year d) (cd_month d) (cd_day d)"
  by (simp add: epochDay_def utcMillis_def DAY_MS_def MINUTE_MS_def)

lemma month_of_bounds:
  assumes "0 \<le> doy" "doy < (if leap then 366 else 365)"
  obtains "month_of leap doy \<in> set months" "month_start leap (month_of leap doy) \<le> doy"
    "month_of leap doy = 12 \<or> doy < month_start leap (month_of leap doy + 1)"
proof -
  let ?m = "int (length (filter (\<lambda>m. month_start leap m \<le> doy) months))"
  have "?m \<in> set months \<and> month_start leap ?m \<le> doy \<and> (?m = 12 \<or> doy < month_start leap (?m + 1))"
    using assms by (cases leap) simp_all
  then show ?thesis using that by (simp add: month_of_def)
qed

lemma day_number_bounds:
  assumes "valid_date d"
  shows "day_from_year (cd_year d) \<le> epochDay d" "epochDay d < day_from_year (cd_year d + 1)"
    and "month_of (isLeapYear (cd_year d)) (epochDay d - day_from_year (cd_year d)) = cd_month d"
proof -
  let ?l = "isLeapYear (cd_year d)"
  have m: "cd_month d \<in> set months" and d: "1 \<le> cd_day d" "cd_day d \<le> daysInMonth (cd_year d) (cd_month d)"
    using assms month_mem by (auto simp: valid_date_def)
  have doy: "epochDay d - day_from_year (cd_year d) = month_start ?l (cd_month d) + (cd_day d - 1)"
    by (simp add: epochDay_number day_number_def)
  have "0 \<le> month_start ?l (cd_month d)" "month_start ?l (cd_month d) + daysInMonth (cd_year d) (cd_month d) \<le> (if ?l then 366 else 365)"
    using m month_year_end by (auto simp: month_start_def)
  then show "day_from_year (cd_year d) \<le> epochDay d" "epochDay d < day_from_year (cd_year d + 1)"
    using doy d day_from_year_Suc [of "cd_year d"] by linarith+
  show "month_of ?l (epochDay d - day_from_year (cd_year d)) = cd_month d"
    unfolding doy by (rule month_of_start [OF m d])
qed

lemma calendar_epoch: "valid_date d \<Longrightarrow> fst (calendarDate (epochDay d)) = d"
proof -
  assume v: "valid_date d"
  have y: "year_of_day (epochDay d) = cd_year d" using day_number_bounds(1,2) [OF v] by (rule year_of_day_unique)
  have doy: "epochDay d - day_from_year (cd_year d) = month_start (isLeapYear (cd_year d)) (cd_month d) + (cd_day d - 1)"
    by (simp add: epochDay_number day_number_def)
  show ?thesis
    unfolding calendarDate_def Let_def y day_number_bounds(3) [OF v] unfolding doy by simp
qed

lemma calendar_valid: "valid_date (fst (calendarDate n))" and epoch_calendar: "epochDay (fst (calendarDate n)) = n"
proof -
  define y where "y = year_of_day n"
  define doy where "doy = n - day_from_year y"
  let ?l = "isLeapYear y"
  have "0 \<le> doy" "doy < (if ?l then 366 else 365)"
    using year_of_day [of n] day_from_year_Suc [of y] by (simp_all add: doy_def y_def)
  then obtain m: "month_of ?l doy \<in> set months" "month_start ?l (month_of ?l doy) \<le> doy"
      "month_of ?l doy = 12 \<or> doy < month_start ?l (month_of ?l doy + 1)"
    by (rule month_of_bounds)
  have c: "fst (calendarDate n) = \<lparr>cd_year = y, cd_month = month_of ?l doy, cd_day = doy - month_start ?l (month_of ?l doy) + 1\<rparr>"
    by (simp add: calendarDate_def Let_def y_def doy_def)
  have "doy < month_start ?l (month_of ?l doy) + daysInMonth y (month_of ?l doy)"
    using month_length [OF m(1), of y] m(3) \<open>doy < (if ?l then 366 else 365)\<close> by (auto split: if_splits)
  then show "valid_date (fst (calendarDate n))" using m(1,2) unfolding c valid_date_def by auto
  show "epochDay (fst (calendarDate n)) = n" unfolding c epochDay_number by (simp add: day_number_def doy_def)
qed

lemma calendarDate_weekday: "snd (calendarDate n) = (n + 4) mod 7"
  by (simp add: calendarDate_def Let_def)

text \<open>
  Days since the epoch and dates of the proleptic Gregorian calendar correspond one to one: the date of
  a day is the only valid date whose day number it is. So a candidate day and the local date of its instant
  can be compared either way, in every year.
\<close>

theorem calendar_roundtrip: "fst (calendarDate n) = d \<longleftrightarrow> valid_date d \<and> epochDay d = n"
  using calendar_epoch [of d] calendar_valid [of n] epoch_calendar [of n] by auto

end
