(* ===== verification/Sched_Next.thy ===== *)
theory Sched_Next
  imports Sched_Calendar
begin

text \<open>
  Correctness of \<open>nextOccurrence\<close>: in every time zone its result lies after the given instant and shows
  the scheduled wall-clock minute on a scheduled day; in a zone with a fixed offset it is the first such
  instant, and there always is one.
\<close>

section \<open>Scheduled days\<close>

text \<open>The days on which a schedule is due, apart from \<open>once\<close>.\<close>

fun due_day :: "ScheduleSpec \<Rightarrow> int \<Rightarrow> bool" where
  "due_day (Once at) d = False"
| "due_day (Daily tz h m) d = True"
| "due_day (Weekly tz days h m) d = ((d + 4) mod 7 \<in> int_of ` set days)"
| "due_day (Interval tz h m every start) d =
     (case parseCalendarDate start ''interval startDate'' of
        Inl e \<Rightarrow> False | Inr a \<Rightarrow> epochDay a \<le> d \<and> int_of every dvd d - epochDay a)"
| "due_day (Monthly tz h m days) d = (cd_day (fst (calendarDate d)) \<in> int_of ` set days)"

primrec sched_zone :: "ScheduleSpec \<Rightarrow> string" where
  "sched_zone (Once at) = []" | "sched_zone (Daily tz h m) = tz" | "sched_zone (Weekly tz ds h m) = tz"
| "sched_zone (Interval tz h m e st) = tz" | "sched_zone (Monthly tz h m ds) = tz"

primrec sched_hour :: "ScheduleSpec \<Rightarrow> int" where
  "sched_hour (Once at) = 0" | "sched_hour (Daily tz h m) = int_of h" | "sched_hour (Weekly tz ds h m) = int_of h"
| "sched_hour (Interval tz h m e st) = int_of h" | "sched_hour (Monthly tz h m ds) = int_of h"

primrec sched_minute :: "ScheduleSpec \<Rightarrow> int" where
  "sched_minute (Once at) = 0" | "sched_minute (Daily tz h m) = int_of m" | "sched_minute (Weekly tz ds h m) = int_of m"
| "sched_minute (Interval tz h m e st) = int_of m" | "sched_minute (Monthly tz h m ds) = int_of m"

text \<open>The days \<open>nextOccurrence\<close> tries, in order.\<close>

definition tried_days :: "ScheduleSpec \<Rightarrow> int \<Rightarrow> int \<Rightarrow> int \<Rightarrow> int list" where
  "tried_days s year month afterDay =
     (case s of
        Once at \<Rightarrow> []
      | Daily tz h m \<Rightarrow> [afterDay, afterDay + 1, afterDay + 2]
      | Weekly tz days h m \<Rightarrow> weekly_days (map int_of days) afterDay
      | Interval tz h m every start \<Rightarrow>
          (case parseCalendarDate start ''interval startDate'' of
             Inl e \<Rightarrow> [] | Inr a \<Rightarrow> interval_days (int_of every) (epochDay a) afterDay)
      | Monthly tz h m days \<Rightarrow> monthly_days (map int_of days) year month afterDay)"

definition recurs :: "ScheduleSpec \<Rightarrow> bool" where
  "recurs s \<longleftrightarrow> (case s of Once at \<Rightarrow> False | _ \<Rightarrow> True)"

lemma validate_interval:
  "validateSchedule zones (Interval tz h m every start) = Inr u \<Longrightarrow> \<exists>a. parseCalendarDate start ''interval startDate'' = Inr a"
  by (cases "parseCalendarDate start ''interval startDate''") (simp_all split: sum.splits if_splits)

lemma nextOccurrence_recurs:
  assumes "validateSchedule zones s = Inr u" "recurs s"
  shows "nextOccurrence zones s after =
    (let zone = the (zones (sched_zone s)); loc = zone after
     in map_sum id Some (firstResolved zone (sched_hour s) (sched_minute s) after
          (tried_days s (cd_year loc) (cd_month loc) (epochDay loc))))"
proof (cases s)
  case (Interval tz h m every start)
  with assms validate_interval obtain a where "parseCalendarDate start ''interval startDate'' = Inr a" by blast
  with Interval assms show ?thesis by (simp add: nextOccurrence_def tried_days_def Let_def split: sum.split)
qed (use assms in \<open>auto simp: nextOccurrence_def tried_days_def Let_def recurs_def split: sum.split\<close>)

lemma map_sum_Some: "map_sum id Some x = Inr (Some t) \<longleftrightarrow> x = Inr t"
  by (cases x) auto

lemma due_day_fun:
  "due_day (Daily tz h m) = (\<lambda>d. True)"
  "due_day (Weekly tz days h m) = (\<lambda>d. (d + 4) mod 7 \<in> int_of ` set days)"
  "parseCalendarDate start ''interval startDate'' = Inr a \<Longrightarrow>
   due_day (Interval tz h m every start) = (\<lambda>d. epochDay a \<le> d \<and> int_of every dvd d - epochDay a)"
  "due_day (Monthly tz h m days) = (\<lambda>d. cd_day (fst (calendarDate d)) \<in> int_of ` set days)"
  by (simp_all add: fun_eq_iff)

section \<open>Soundness in every zone\<close>

lemma first_filtered: "(case sort (filter P L) of [] \<Rightarrow> None | c # _ \<Rightarrow> Some c) = Some c \<Longrightarrow> P c"
proof (cases "sort (filter P L)")
  case (Cons b bs)
  moreover assume "(case sort (filter P L) of [] \<Rightarrow> None | c # _ \<Rightarrow> Some c) = Some c"
  ultimately have "c \<in> set (sort (filter P L))" by simp
  then show ?thesis by simp
qed simp

lemma resolve_sound: "resolveLocalMinute zone date h m = Some c \<Longrightarrow> sameWallMinute (zone c) date h m"
  unfolding resolveLocalMinute_def Let_def by (rule first_filtered)

lemma firstResolved_sound:
  assumes "firstResolved zone h m after days = Inr t"
  shows "after < t \<and> lm_hour (zone t) = h \<and> lm_minute (zone t) = m \<and> epochDay (zone t) \<in> set days"
  using assms
proof (induction days)
  case (Cons day days)
  show ?case
  proof (cases "resolveLocalMinute zone (fst (calendarDate day)) h m")
    case None
    with Cons show ?thesis by simp
  next
    case (Some c)
    show ?thesis
    proof (cases "c > after")
      case False
      with Some Cons show ?thesis by simp
    next
      case True
      with Some Cons.prems have t: "t = c" by simp
      have w: "sameWallMinute (zone c) (fst (calendarDate day)) h m" using Some by (rule resolve_sound)
      then have "epochDay (zone c) = epochDay (fst (calendarDate day))"
        by (simp add: sameWallMinute_def epochDay_number)
      with w True show ?thesis by (simp add: t sameWallMinute_def epoch_calendar)
    qed
  qed
qed simp

lemma monthly_day_due:
  assumes "d \<in> set (monthly_days D y m A)" "\<forall>x \<in> set D. 1 \<le> x" "0 \<le> y * 12 + m - 1"
  shows "A \<le> d \<and> cd_day (fst (calendarDate d)) \<in> set D"
proof -
  obtain i yy mm day where a: "addMonths y m (int i) = (yy, mm)" "day \<in> set D" "day \<le> daysInMonth yy mm"
      "d = epochDay \<lparr>cd_year = yy, cd_month = mm, cd_day = day\<rparr>" "A \<le> d"
    using assms(1) by (force simp: monthly_days_def not_less split: prod.splits)
  have "valid_date \<lparr>cd_year = yy, cd_month = mm, cd_day = day\<rparr>"
    using a(1-3) assms(2,3) by (auto simp: valid_date_def addMonths_def Let_def js_rem_def)
  then show ?thesis using a by (simp add: calendar_epoch)
qed

lemma in_range_int: "in_range v lo hi \<Longrightarrow> lo \<le> int_of v \<and> int_of v \<le> hi"
  by (cases v) (simp_all add: in_range_def)

lemma all_in_range: "\<not> list_ex (\<lambda>d. \<not> in_range d lo hi) days \<Longrightarrow> int_of ` set days \<subseteq> {lo..hi}"
  using in_range_int by (fastforce simp: list_ex_iff)

lemma validate_weekly:
  assumes "validateSchedule zones (Weekly tz days h m) = Inr u"
  shows "days \<noteq> []" "int_of ` set days \<subseteq> {0..6}"
proof -
  have "\<not> length days < 1" "\<not> list_ex (\<lambda>d. \<not> in_range d 0 6) days" using assms by (simp_all split: sum.splits if_splits)
  then show "days \<noteq> []" "int_of ` set days \<subseteq> {0..6}" by (auto dest!: all_in_range)
qed

lemma validate_monthly:
  assumes "validateSchedule zones (Monthly tz h m days) = Inr u"
  shows "days \<noteq> []" "int_of ` set days \<subseteq> {1..31}"
proof -
  have "\<not> length days < 1" "\<not> list_ex (\<lambda>d. \<not> in_range d 1 31) days" using assms by (simp_all split: sum.splits if_splits)
  then show "days \<noteq> []" "int_of ` set days \<subseteq> {1..31}" by (auto dest!: all_in_range)
qed

lemma validate_every: "validateSchedule zones (Interval tz h m every start) = Inr u \<Longrightarrow> 1 \<le> int_of every"
  using in_range_int [of every 1 3650] by (simp split: sum.splits if_splits)

lemma validate_clock:
  assumes "validateSchedule zones s = Inr u" "recurs s"
  shows "zones (sched_zone s) \<noteq> None" "0 \<le> sched_hour s" "sched_hour s \<le> 23" "0 \<le> sched_minute s" "sched_minute s \<le> 59"
proof -
  have "zones tz \<noteq> None \<and> 0 \<le> int_of h \<and> int_of h \<le> 23 \<and> 0 \<le> int_of m \<and> int_of m \<le> 59" if "validateClock zones tz h m = Inr v" for tz h m v
    using that in_range_int [of h 0 23] in_range_int [of m 0 59] by (simp add: validateClock_def split: if_splits)
  then have "zones (sched_zone s) \<noteq> None \<and> 0 \<le> sched_hour s \<and> sched_hour s \<le> 23 \<and> 0 \<le> sched_minute s \<and> sched_minute s \<le> 59"
    using assms by (cases s) (simp_all add: recurs_def split: sum.splits)
  then show "zones (sched_zone s) \<noteq> None" "0 \<le> sched_hour s" "sched_hour s \<le> 23" "0 \<le> sched_minute s" "sched_minute s \<le> 59" by simp_all
qed

lemma tried_due:
  assumes "validateSchedule zones s = Inr u" "0 \<le> y * 12 + mo - 1" "d \<in> set (tried_days s y mo A)"
  shows "due_day s d"
proof (cases s)
  case (Weekly tz days h m)
  with assms(3) show ?thesis by (auto simp: tried_days_def weekly_days_def calendarDate_weekday)
next
  case (Interval tz h m every start)
  with assms(1) validate_interval obtain a where a: "parseCalendarDate start ''interval startDate'' = Inr a" by blast
  have "1 \<le> int_of every" using assms(1) Interval validate_every by blast
  with Interval a assms(3) show ?thesis
    by (auto simp: tried_days_def interval_days_def Let_def pos_imp_zdiv_nonneg_iff)
next
  case (Monthly tz h m days)
  have "int_of ` set days \<subseteq> {1..31}" using assms(1) Monthly validate_monthly(2) by blast
  then have "\<forall>x \<in> set (map int_of days). 1 \<le> x" by auto
  from monthly_day_due [OF _ this assms(2)] assms(3) Monthly show ?thesis
    by (simp add: tried_days_def)
qed (use assms(3) in \<open>simp_all add: tried_days_def\<close>)

section \<open>A fixed offset\<close>

text \<open>The local minute of the instant \<open>u\<close> of a clock that counts from the epoch.\<close>

definition wall :: "int \<Rightarrow> LocalMinute" where
  "wall u =
     (let c = fst (calendarDate (u div DAY_MS)); r = u mod DAY_MS
      in \<lparr>cd_year = cd_year c, cd_month = cd_month c, cd_day = cd_day c, lm_hour = r div (60 * MINUTE_MS),
          lm_minute = r div MINUTE_MS mod 60, lm_weekday = snd (calendarDate (u div DAY_MS))\<rparr>)"

definition fixed_zone :: "int \<Rightarrow> zone" where
  "fixed_zone off t = wall (t + off * MINUTE_MS)"

lemma epochDay_wall: "epochDay (wall u) = u div DAY_MS"
proof -
  have "epochDay (wall u) = epochDay (fst (calendarDate (u div DAY_MS)))" by (simp add: wall_def Let_def epochDay_number)
  then show ?thesis by (simp add: epoch_calendar)
qed

definition clock_ms :: "int \<Rightarrow> int \<Rightarrow> int" where
  "clock_ms h m = h * 60 * MINUTE_MS + m * MINUTE_MS"

lemma utcMillis_day: "utcMillis (fst (calendarDate d)) h m = d * DAY_MS + clock_ms h m"
  using epoch_calendar [of d] by (simp add: utcMillis_def epochDay_number clock_ms_def)

lemma clock_bounds:
  assumes "0 \<le> h" "h \<le> 23" "0 \<le> m" "m \<le> 59"
  shows "0 \<le> clock_ms h m" "clock_ms h m < DAY_MS" "clock_ms h m div (60 * MINUTE_MS) = h" "clock_ms h m div MINUTE_MS mod 60 = m"
proof -
  show "0 \<le> clock_ms h m" "clock_ms h m < DAY_MS" using assms by (simp_all add: clock_ms_def DAY_MS_def MINUTE_MS_def)
  have "clock_ms h m = h * 3600000 + m * 60000" "clock_ms h m = (h * 60 + m) * 60000" by (simp_all add: clock_ms_def MINUTE_MS_def)
  then show "clock_ms h m div (60 * MINUTE_MS) = h" "clock_ms h m div MINUTE_MS mod 60 = m"
    using assms by (simp_all add: MINUTE_MS_def)
qed

lemma wall_at:
  assumes "0 \<le> h" "h \<le> 23" "0 \<le> m" "m \<le> 59"
  shows "sameWallMinute (wall (d * DAY_MS + clock_ms h m)) (fst (calendarDate d)) h m"
proof -
  note b = clock_bounds [OF assms]
  have "(d * DAY_MS + clock_ms h m) div DAY_MS = d" "(d * DAY_MS + clock_ms h m) mod DAY_MS = clock_ms h m"
    using b(1,2) by (simp_all add: DAY_MS_def MINUTE_MS_def)
  then show ?thesis using b(3,4) by (simp add: wall_def Let_def sameWallMinute_def)
qed

lemma utcMillis_wall: "u mod MINUTE_MS = 0 \<Longrightarrow> utcMillis (wall u) (lm_hour (wall u)) (lm_minute (wall u)) = u"
proof -
  assume u: "u mod MINUTE_MS = 0"
  let ?r = "u mod DAY_MS"
  have "utcMillis (wall u) (lm_hour (wall u)) (lm_minute (wall u)) = utcMillis (fst (calendarDate (u div DAY_MS))) (lm_hour (wall u)) (lm_minute (wall u))"
    by (simp add: utcMillis_def wall_def Let_def)
  also have "\<dots> = (u div DAY_MS) * DAY_MS + clock_ms (?r div (60 * MINUTE_MS)) (?r div MINUTE_MS mod 60)"
    unfolding utcMillis_day by (simp add: wall_def Let_def)
  also have "clock_ms (?r div (60 * MINUTE_MS)) (?r div MINUTE_MS mod 60) = ?r"
  proof -
    define q where "q = ?r div MINUTE_MS"
    have "?r mod MINUTE_MS = 0" using u by (simp add: DAY_MS_def mod_mod_cancel)
    then have r: "?r = q * MINUTE_MS" unfolding q_def by (metis add.right_neutral div_mult_mod_eq)
    have d: "?r div (60 * MINUTE_MS) = q div 60"
      unfolding q_def by (metis MINUTE_MS_def mult.commute zdiv_zmult2_eq zero_le_numeral)
    have "(q div 60) * 60 + q mod 60 = q" by (rule div_mult_mod_eq)
    then have "(q div 60) * 60 * MINUTE_MS + q mod 60 * MINUTE_MS = q * MINUTE_MS" by (metis distrib_right)
    then show ?thesis unfolding clock_ms_def d q_def [symmetric] using r by simp
  qed
  finally show ?thesis by simp
qed

lemma resolve_fixed:
  assumes "0 \<le> h" "h \<le> 23" "0 \<le> m" "m \<le> 59"
  shows "resolveLocalMinute (fixed_zone off) (fst (calendarDate d)) h m = Some (d * DAY_MS + clock_ms h m - off * MINUTE_MS)"
proof -
  let ?t = "d * DAY_MS + clock_ms h m"
  have o: "(utcMillis (fixed_zone off x) (lm_hour (fixed_zone off x)) (lm_minute (fixed_zone off x)) - x) div MINUTE_MS = off"
    if "x mod MINUTE_MS = 0" for x
  proof -
    have "(x + off * MINUTE_MS) mod MINUTE_MS = 0" using that by simp
    then show ?thesis by (simp add: fixed_zone_def utcMillis_wall MINUTE_MS_def)
  qed
  have x: "(?t + k * DAY_MS) mod MINUTE_MS = 0" for k
    by (simp add: clock_ms_def DAY_MS_def MINUTE_MS_def flip: mod_eq_0_iff_dvd) (simp add: mod_eq_0_iff_dvd)
  have "sameWallMinute (fixed_zone off (?t - off * MINUTE_MS)) (fst (calendarDate d)) h m"
    using wall_at [OF assms, of d] by (simp add: fixed_zone_def)
  then show ?thesis
    unfolding resolveLocalMinute_def utcMillis_day Let_def list.map(2) list.map(1) o [OF x] by simp
qed

abbreviation instant :: "int \<Rightarrow> ScheduleSpec \<Rightarrow> int \<Rightarrow> int" where
  "instant off s d \<equiv> d * DAY_MS + clock_ms (sched_hour s) (sched_minute s) - off * MINUTE_MS"

lemma firstResolved_fixed:
  assumes "0 \<le> h" "h \<le> 23" "0 \<le> m" "m \<le> 59" "sorted days"
    and "e \<in> set days" "after < e * DAY_MS + clock_ms h m - off * MINUTE_MS"
  obtains d where "firstResolved (fixed_zone off) h m after days = Inr (d * DAY_MS + clock_ms h m - off * MINUTE_MS)"
    "d \<in> set days" "after < d * DAY_MS + clock_ms h m - off * MINUTE_MS"
    "\<And>e. e \<in> set days \<Longrightarrow> after < e * DAY_MS + clock_ms h m - off * MINUTE_MS \<Longrightarrow> d \<le> e"
  using assms(5-7)
proof (induction days arbitrary: thesis)
  case (Cons a days)
  show ?case
  proof (cases "after < a * DAY_MS + clock_ms h m - off * MINUTE_MS")
    case True
    then show ?thesis
      using Cons.prems(2) by (intro Cons.prems(1) [of a]) (auto simp: resolve_fixed [OF assms(1-4)])
  next
    case False
    with Cons.prems have "e \<in> set days" by auto
    with Cons.prems obtain d where d: "firstResolved (fixed_zone off) h m after days = Inr (d * DAY_MS + clock_ms h m - off * MINUTE_MS)"
      "d \<in> set days" "after < d * DAY_MS + clock_ms h m - off * MINUTE_MS"
      "\<And>e. e \<in> set days \<Longrightarrow> after < e * DAY_MS + clock_ms h m - off * MINUTE_MS \<Longrightarrow> d \<le> e"
      using Cons.IH by auto
    with False show ?thesis
      by (intro Cons.prems(1) [of d]) (auto simp: resolve_fixed [OF assms(1-4)])
  qed
qed simp

text \<open>The days tried cover the due days from the day of \<open>after\<close> on, up to a later one.\<close>

definition covers :: "(int \<Rightarrow> bool) \<Rightarrow> int \<Rightarrow> int list \<Rightarrow> bool" where
  "covers due A days \<longleftrightarrow> sorted days \<and> (\<exists>e \<in> set days. A < e) \<and>
     (\<forall>d. due d \<longrightarrow> A \<le> d \<longrightarrow> d \<in> set days \<or> (\<exists>e \<in> set days. A < e \<and> e < d))"

lemma firstResolved_least:
  assumes "0 \<le> h" "h \<le> 23" "0 \<le> m" "m \<le> 59" "covers due ((after + off * MINUTE_MS) div DAY_MS) days" "\<forall>d \<in> set days. due d"
  obtains d where "firstResolved (fixed_zone off) h m after days = Inr (d * DAY_MS + clock_ms h m - off * MINUTE_MS)"
    "due d" "after < d * DAY_MS + clock_ms h m - off * MINUTE_MS"
    "\<And>e. due e \<Longrightarrow> after < e * DAY_MS + clock_ms h m - off * MINUTE_MS \<Longrightarrow> d \<le> e"
proof -
  let ?A = "(after + off * MINUTE_MS) div DAY_MS" and ?t = "\<lambda>d. d * DAY_MS + clock_ms h m - off * MINUTE_MS"
  note b = clock_bounds(1,2) [OF assms(1-4)]
  have pos: "0 < DAY_MS" by (simp add: DAY_MS_def MINUTE_MS_def)
  note A = div_bounds [OF pos, of "after + off * MINUTE_MS"]
  have late: "after < ?t e" if "?A < e" for e
  proof -
    have "DAY_MS * (?A + 1) \<le> DAY_MS * e" using that pos by (intro mult_left_mono) simp_all
    with A(2) b(1) show ?thesis by (simp add: algebra_simps)
  qed
  have early: "?A \<le> e" if "after < ?t e" for e
  proof (rule ccontr)
    assume "\<not> ?A \<le> e"
    then have "DAY_MS * (e + 1) \<le> DAY_MS * ?A" using pos by (intro mult_left_mono) simp_all
    with A(1) b(2) that show False by (simp add: algebra_simps)
  qed
  obtain e where e: "e \<in> set days" "?A < e" and srt: "sorted days" using assms(5) by (auto simp: covers_def)
  obtain d where d: "firstResolved (fixed_zone off) h m after days = Inr (?t d)" "d \<in> set days" "after < ?t d"
      "\<And>e. e \<in> set days \<Longrightarrow> after < ?t e \<Longrightarrow> d \<le> e"
    using firstResolved_fixed [OF assms(1-4) srt e(1) late [OF e(2)]] by blast
  have "d \<le> x" if x: "due x" "after < ?t x" for x
  proof (cases "x \<in> set days")
    case True
    then show ?thesis using d(4) x(2) by blast
  next
    case False
    then obtain y where "y \<in> set days" "?A < y" "y < x" 
      using assms(5) x(1) early [OF x(2)] False unfolding covers_def by blast
    then show ?thesis using d(4) [of y] late [of y] by simp
  qed
  with d assms(6) show ?thesis by (intro that [of d]) auto
qed

section \<open>The days tried cover the due days\<close>

lemma covers_daily: "covers (\<lambda>d. True) A [A, A + 1, A + 2]"
proof -
  have "d \<in> set [A, A + 1, A + 2] \<or> A + 1 < d" if "A \<le> d" for d using that by auto
  then show ?thesis by (fastforce simp: covers_def)
qed

lemma weekday_soon: "0 \<le> w \<Longrightarrow> w \<le> 6 \<Longrightarrow> \<exists>k \<in> {1..7}. (A + k + 4) mod 7 = w" for A w :: int
proof (intro bexI [of _ "1 + (w - A - 5) mod 7"])
  assume w: "0 \<le> w" "w \<le> 6"
  have "A + (1 + (w - A - 5) mod 7) + 4 = (A + 5) + (w - A - 5) mod 7" by simp
  then have "(A + (1 + (w - A - 5) mod 7) + 4) mod 7 = (A + 5 + (w - A - 5)) mod 7" by (metis mod_add_right_eq)
  then show "(A + (1 + (w - A - 5) mod 7) + 4) mod 7 = w" using w by simp
  show "1 + (w - A - 5) mod 7 \<in> {1..7}" using pos_mod_bound [of 7 "w - A - 5"] pos_mod_sign [of 7 "w - A - 5"] by simp
qed

lemma covers_weekly:
  assumes "W \<noteq> {}" "W \<subseteq> {0..6}" "W = set ws"
  shows "covers (\<lambda>d. (d + 4) mod 7 \<in> W) A (weekly_days ws A)"
proof -
  have mem: "d \<in> set (weekly_days ws A) \<longleftrightarrow> A \<le> d \<and> d < A + 15 \<and> (d + 4) mod 7 \<in> W" for d
  proof -
    have "d \<in> (\<lambda>i. A + int i) ` {0..<15} \<longleftrightarrow> A \<le> d \<and> d < A + 15"
    proof
      assume "A \<le> d \<and> d < A + 15"
      then show "d \<in> (\<lambda>i. A + int i) ` {0..<15}" by (intro image_eqI [of _ _ "nat (d - A)"]) auto
    qed auto
    then show ?thesis by (auto simp: weekly_days_def calendarDate_weekday assms(3))
  qed
  obtain w where "w \<in> W" "0 \<le> w" "w \<le> 6" using assms(1,2) by fastforce
  then obtain k where "k \<in> {1..7}" "(A + k + 4) mod 7 \<in> W" using weekday_soon [of w A] by metis
  then have e: "A + k \<in> set (weekly_days ws A)" "A < A + k" "A + k < A + 15" by (simp_all add: mem)
  have "sorted (weekly_days ws A)"
    unfolding weekly_days_def by (intro sorted_wrt_filter sorted_wrt_map_mono [of "(<)"]) (simp_all add: sorted_wrt_iff_nth_less)
  moreover have "d \<in> set (weekly_days ws A) \<or> A + k < d" if "(d + 4) mod 7 \<in> W" "A \<le> d" for d
    using that e(3) by (auto simp: mem)
  ultimately show ?thesis using e(1,2) unfolding covers_def by blast
qed

lemma covers_interval:
  assumes "1 \<le> k"
  shows "covers (\<lambda>d. a \<le> d \<and> k dvd d - a) A (interval_days k a A)"
proof -
  define c where "c = (max 0 (A - a) + k - 1) div k"
  define f where "f = a + c * k"
  have days: "interval_days k a A = map (\<lambda>i. f + int i * k) [0..<4]" by (simp add: interval_days_def Let_def f_def c_def)
  have c: "k * c \<le> max 0 (A - a) + k - 1" "max 0 (A - a) + k - 1 < k * c + k"
    using div_bounds [of k "max 0 (A - a) + k - 1"] assms by (simp_all add: c_def)
  have fA: "A \<le> f" "a \<le> f" using c(2) by (simp_all add: f_def mult.commute)
  have "sorted (interval_days k a A)"
    unfolding days using assms by (intro sorted_wrt_map_mono [of "(<)"]) (simp_all add: sorted_wrt_iff_nth_less)
  moreover have e: "f + k \<in> set (interval_days k a A)" "A < f + k"
    unfolding days using fA assms by (auto intro!: image_eqI [of _ _ 1])
  moreover have "d \<in> set (interval_days k a A) \<or> f + k < d" if d: "a \<le> d" "k dvd d - a" "A \<le> d" for d
  proof -
    obtain j where j: "d = a + k * j" using d(2) by (metis dvdE diff_add_cancel add.commute)
    have "max 0 (A - a) \<le> k * j" using d(1,3) j by simp
    then have "k * c < k * j + k" using c(1) by linarith
    then have "k * c < k * (j + 1)" by (simp add: distrib_left)
    then have "c \<le> j" using assms by (simp add: mult_less_cancel_left_pos)
    then obtain n where "j - c = int n" by (metis diff_ge_0_iff_ge nonneg_int_cases)
    then have df: "d = f + int n * k" by (simp add: j f_def flip: \<open>j - c = int n\<close>) (simp add: algebra_simps)
    show ?thesis
    proof (cases "n < 4")
      case True
      with df show ?thesis unfolding days by auto
    next
      case False
      then have "k < int n * k" using assms by (simp add: mult_less_cancel_right1)
      with df show ?thesis by simp
    qed
  qed
  ultimately show ?thesis unfolding covers_def by blast
qed

text \<open>Months by their index from the year zero, and the day on which a month begins.\<close>

definition month_date :: "int \<Rightarrow> int \<Rightarrow> CalendarDate" where
  "month_date i d = \<lparr>cd_year = i div 12, cd_month = i mod 12 + 1, cd_day = d\<rparr>"

abbreviation month_days :: "int \<Rightarrow> int" where
  "month_days i \<equiv> daysInMonth (i div 12) (i mod 12 + 1)"

lemma month_mod: "i mod 12 + 1 \<in> set months" for i :: int
  using pos_mod_bound [of 12 i] pos_mod_sign [of 12 i] by (intro month_mem) simp_all

lemma month_days_pos: "28 \<le> month_days i"
  by (simp add: daysInMonth_def)

lemma epoch_day_of_month: "epochDay (month_date i d) = epochDay (month_date i 1) + (d - 1)"
  by (simp add: month_date_def epochDay_number day_number_def)

lemma month_after: "(i + 1) mod 12 = (if i mod 12 = 11 then 0 else i mod 12 + 1)" "(i + 1) div 12 = (if i mod 12 = 11 then i div 12 + 1 else i div 12)"
  for i :: int
proof -
  have i: "i = 12 * (i div 12) + i mod 12" by simp
  have b: "0 \<le> i mod 12" "i mod 12 < 12" by simp_all
  have "(i + 1) mod 12 = (if i mod 12 = 11 then 0 else i mod 12 + 1) \<and> (i + 1) div 12 = (if i mod 12 = 11 then i div 12 + 1 else i div 12)"
  proof (cases "i mod 12 = 11")
    case True
    with i have "i + 1 = 12 * (i div 12 + 1) + 0" by (simp add: distrib_left)
    then show ?thesis using True by (metis int_div_pos_eq int_mod_pos_eq order_refl zero_less_numeral)
  next
    case False
    with i have "i + 1 = 12 * (i div 12) + (i mod 12 + 1)" "0 \<le> i mod 12 + 1" "i mod 12 + 1 < 12" using b by linarith+
    then show ?thesis using False by (metis int_div_pos_eq int_mod_pos_eq)
  qed
  then show "(i + 1) mod 12 = (if i mod 12 = 11 then 0 else i mod 12 + 1)" "(i + 1) div 12 = (if i mod 12 = 11 then i div 12 + 1 else i div 12)"
    by blast+
qed

lemma next_month: "epochDay (month_date (i + 1) 1) = epochDay (month_date i 1) + month_days i"
proof (cases "i mod 12 = 11")
  case True
  then have "(i + 1) div 12 = i div 12 + 1" "(i + 1) mod 12 = 0" by (simp_all add: month_after)
  then show ?thesis
    using True month_length [of 12 "i div 12"] by (simp add: month_date_def epochDay_number day_number_def day_from_year_Suc)
next
  case False
  then have "(i + 1) div 12 = i div 12" "(i + 1) mod 12 = i mod 12 + 1" by (simp_all add: month_after)
  then show ?thesis
    using False month_length [OF month_mod, of i "i div 12"] by (simp add: month_date_def epochDay_number day_number_def)
qed

lemma month_start_mono: "i \<le> j \<Longrightarrow> epochDay (month_date i 1) \<le> epochDay (month_date j 1)"
proof (induction "nat (j - i)" arbitrary: j)
  case (Suc k)
  then have "epochDay (month_date i 1) \<le> epochDay (month_date (j - 1) 1)" by (intro Suc.hyps(1)) linarith+
  then show ?case using next_month [of "j - 1"] month_days_pos [of "j - 1"] by simp
qed simp

lemma month_order:
  "i < j \<Longrightarrow> d \<le> month_days i \<Longrightarrow> 1 \<le> e \<Longrightarrow> epochDay (month_date i d) < epochDay (month_date j e)"
  using month_start_mono [of "i + 1" j] next_month [of i] by (simp add: epoch_day_of_month [of i d] epoch_day_of_month [of j e])

definition month_index :: "CalendarDate \<Rightarrow> int" where
  "month_index c = cd_year c * 12 + cd_month c - 1"

lemma month_index_date:
  assumes "valid_date c"
  shows "c = month_date (month_index c) (cd_day c)" "cd_day c \<le> month_days (month_index c)" "1 \<le> cd_day c"
proof -
  have m: "1 \<le> cd_month c" "cd_month c \<le> 12" using assms by (simp_all add: valid_date_def)
  have i: "month_index c = (cd_month c - 1) + cd_year c * 12" by (simp add: month_index_def)
  have "month_index c div 12 = cd_year c" "month_index c mod 12 = cd_month c - 1" unfolding i using m by simp_all
  then show "c = month_date (month_index c) (cd_day c)" "cd_day c \<le> month_days (month_index c)" "1 \<le> cd_day c"
    using assms by (simp_all add: month_date_def valid_date_def)
qed

lemma long_month: "month_days i = 31 \<or> month_days (i + 1) = 31"
proof -
  have "m = 31 \<or> n = 31" if "m = daysInMonth y (j + 1)" "n = daysInMonth z ((if j = 11 then 0 else j + 1) + 1)" "j + 1 \<in> set months" for y z j m n
    using that by (auto simp: daysInMonth_def)
  then show ?thesis using month_mod [of i] unfolding month_after by blast
qed

definition month_block :: "int list \<Rightarrow> int \<Rightarrow> int \<Rightarrow> int list" where
  "month_block D A i = filter (\<lambda>c. c \<ge> A) (map (\<lambda>day. epochDay (month_date i day)) (filter (\<lambda>day. \<not> day > month_days i) (sort D)))"

lemma monthly_blocks:
  assumes "0 \<le> y * 12 + m - 1"
  shows "monthly_days D y m A = concat (map (\<lambda>k. month_block D A (y * 12 + m - 1 + int k)) [0..<24])"
proof -
  have "addMonths y m (int k) = ((y * 12 + m - 1 + int k) div 12, (y * 12 + m - 1 + int k) mod 12 + 1)" for k
    using assms by (simp add: addMonths_def js_rem_def Let_def)
  then show ?thesis by (simp add: monthly_days_def month_block_def month_date_def)
qed

lemma sorted_blocks:
  assumes "\<And>i. sorted (f i)" "\<And>i j x y. i < j \<Longrightarrow> x \<in> set (f i) \<Longrightarrow> y \<in> set (f j) \<Longrightarrow> x \<le> y"
  shows "sorted (concat (map f [0..<n]))"
proof (induction n)
  case (Suc n)
  then show ?case using assms by (auto simp: sorted_append)
qed simp

lemma month_block_mem:
  "d \<in> set (month_block D A i) \<longleftrightarrow> (\<exists>w \<in> set D. w \<le> month_days i \<and> A \<le> d \<and> d = epochDay (month_date i w))"
  by (auto simp: month_block_def not_less)

lemma sorted_filter_sort: "sorted (filter P (sort D))" for D :: "int list"
  by (rule sorted_wrt_filter) simp

lemma month_block_sorted: "sorted (month_block D A i)"
proof -
  have mono: "epochDay (month_date i x) \<le> epochDay (month_date i y)" if "x \<le> y" for x y
    using that epoch_day_of_month [of i x] epoch_day_of_month [of i y] by linarith
  have "sorted (map (\<lambda>day. epochDay (month_date i day)) (filter P (sort D)))" for P
    using mono by (auto simp: sorted_map intro: sorted_wrt_mono_rel [of _ "(\<le>)"] sorted_filter_sort)
  then show ?thesis unfolding month_block_def by (rule sorted_wrt_filter)
qed

lemma covers_monthly:
  assumes D: "D \<noteq> []" "set D \<subseteq> {1..31}" and c: "c = fst (calendarDate A)" "0 \<le> month_index c"
  shows "covers (\<lambda>d. cd_day (fst (calendarDate d)) \<in> set D) A (monthly_days D (cd_year c) (cd_month c) A)"
proof -
  let ?i = "month_index c" and ?due = "\<lambda>d. cd_day (fst (calendarDate d)) \<in> set D"
  let ?days = "monthly_days D (cd_year c) (cd_month c) A"
  have days: "?days = concat (map (\<lambda>k. month_block D A (?i + int k)) [0..<24])"
    using monthly_blocks [of "cd_year c" "cd_month c"] c(2) by (simp add: month_index_def)
  have mem: "d \<in> set (month_block D A (?i + int k)) \<Longrightarrow> k < 24 \<Longrightarrow> d \<in> set ?days" for d k unfolding days by auto
  have pos: "1 \<le> w" "w \<le> 31" if "w \<in> set D" for w using D(2) that by auto
  have date: "x = epochDay (month_date (month_index (fst (calendarDate x))) (cd_day (fst (calendarDate x))))"
    "1 \<le> cd_day (fst (calendarDate x))" "cd_day (fst (calendarDate x)) \<le> month_days (month_index (fst (calendarDate x)))" for x
    using month_index_date [OF calendar_valid [of x]] epoch_calendar [of x] by metis+
  obtain w where w: "w \<in> set D" using D(1) by (meson last_in_set)
  obtain k where k: "k \<in> {1, 2}" "month_days (?i + int k) = 31" 
    using long_month [of "?i + 1"] that [of 1] that [of 2] by (auto simp: add.assoc)
  define e where "e = epochDay (month_date (?i + int k) w)"
  have "A < e"
    unfolding e_def using date [of A] k(1) pos [OF w] c(1) by (subst date(1) [of A], intro month_order) auto
  moreover have "e \<in> set (month_block D A (?i + int k))"
    unfolding month_block_mem e_def using \<open>A < e\<close> k(2) w pos [OF w] by (intro bexI [of _ w]) (simp_all add: e_def)
  then have "e \<in> set ?days" using k(1) by (intro mem [of e k]) auto
  ultimately have e: "e \<in> set ?days" "A < e" by simp_all
  have "sorted ?days"
    unfolding days
  proof (rule sorted_blocks)
    fix k j x y assume "k < j" "x \<in> set (month_block D A (?i + int k))" "y \<in> set (month_block D A (?i + int j))"
    then obtain w v where "x = epochDay (month_date (?i + int k) w)" "w \<le> month_days (?i + int k)" "y = epochDay (month_date (?i + int j) v)" "v \<in> set D"
      by (auto simp only: month_block_mem)
    then show "x \<le> y" using \<open>k < j\<close> pos by (simp add: less_imp_le month_order)
  qed (rule month_block_sorted)
  moreover have "d \<in> set ?days \<or> e < d" if d: "?due d" "A \<le> d" for d
  proof -
    let ?j = "month_index (fst (calendarDate d))"
    have "\<not> ?j < ?i"
    proof
      assume "?j < ?i"
      then have "epochDay (month_date ?j (cd_day (fst (calendarDate d)))) < epochDay (month_date ?i (cd_day c))"
        using date(3) [of d] date(2) [of A] by (intro month_order) (simp_all add: c(1))
      then show False using date(1) [of d] date(1) [of A] d(2) c(1) by simp
    qed
    then obtain n where n: "?j = ?i + int n" by (metis add_diff_cancel_left' diff_add_cancel int_nat_eq not_less diff_ge_0_iff_ge add.commute)
    show ?thesis
    proof (cases "n < 24")
      case True
      have "d \<in> set (month_block D A (?i + int n))"
        using d date [of d] n unfolding month_block_mem by (intro bexI [of _ "cd_day (fst (calendarDate d))"]) auto
      then show ?thesis using mem True by blast
    next
      case False
      then have "e < epochDay (month_date ?j (cd_day (fst (calendarDate d))))"
        unfolding e_def using k pos [OF w] date(2) [of d] n by (intro month_order) auto
      then show ?thesis using date(1) [of d] by simp
    qed
  qed
  ultimately show ?thesis using e unfolding covers_def by blast
qed

section \<open>Properties\<close>

text \<open>
  In every time zone, the instant \<open>nextOccurrence\<close> returns lies strictly after the given one. For a
  recurring schedule its local time shows the scheduled hour and minute, and its local day is one of the
  scheduled days: a selected weekday, a multiple of the interval from the start date on, or a selected day
  of the month. The zone may shift its offset at any time; only its years must not be negative.
\<close>

theorem next_occurrence_sound:
  assumes "nextOccurrence zones s after = Inr (Some t)" "recurs s" "0 \<le> month_index (CalendarDate.truncate (the (zones (sched_zone s)) after))"
  shows "after < t \<and> lm_hour (the (zones (sched_zone s)) t) = sched_hour s \<and> lm_minute (the (zones (sched_zone s)) t) = sched_minute s \<and>
    due_day s (epochDay (the (zones (sched_zone s)) t))"
proof -
  let ?z = "the (zones (sched_zone s))"
  obtain u where v: "validateSchedule zones s = Inr u" using assms(1) by (auto simp: nextOccurrence_def split: sum.splits)
  have "firstResolved ?z (sched_hour s) (sched_minute s) after (tried_days s (cd_year (?z after)) (cd_month (?z after)) (epochDay (?z after))) = Inr t"
    using assms(1) unfolding nextOccurrence_recurs [OF v assms(2)] Let_def by (simp add: map_sum_Some)
  note sound = firstResolved_sound [OF this]
  have "0 \<le> cd_year (?z after) * 12 + cd_month (?z after) - 1" using assms(3) by (simp add: month_index_def CalendarDate.truncate_def)
  from sound tried_due [OF v this] show ?thesis by blast
qed

text \<open>
  C28: In a zone with a fixed offset \<open>nextOccurrence\<close> always returns the first occurrence: every recurring
  schedule that validates has a next occurrence, and no scheduled instant lies between the given instant
  and it. For monthly schedules this includes days that not every month has.
\<close>

theorem next_occurrence_first:
  assumes "validateSchedule zones s = Inr ()" "recurs s" "zones (sched_zone s) = Some (fixed_zone off)"
    and "0 \<le> month_index (fst (calendarDate ((after + off * MINUTE_MS) div DAY_MS)))"
  shows "\<exists>d. nextOccurrence zones s after = Inr (Some (instant off s d)) \<and> due_day s d \<and> after < instant off s d \<and>
    (\<forall>e. due_day s e \<longrightarrow> after < instant off s e \<longrightarrow> d \<le> e)"
proof -
  let ?A = "(after + off * MINUTE_MS) div DAY_MS" and ?c = "fst (calendarDate ((after + off * MINUTE_MS) div DAY_MS))"
  let ?days = "tried_days s (cd_year ?c) (cd_month ?c) ?A"
  note clock = validate_clock [OF assms(1,2)]
  have z: "cd_year (fixed_zone off after) = cd_year ?c" "cd_month (fixed_zone off after) = cd_month ?c" "epochDay (fixed_zone off after) = ?A"
    unfolding fixed_zone_def epochDay_wall by (simp_all add: wall_def Let_def)
  have due: "\<forall>d \<in> set ?days. due_day s d" using tried_due [OF assms(1)] assms(4) by (auto simp: month_index_def)
  have "covers (due_day s) ?A ?days"
  proof (cases s)
    case (Weekly tz days h m)
    have "covers (\<lambda>d. (d + 4) mod 7 \<in> int_of ` set days) ?A (weekly_days (map int_of days) ?A)"
      using validate_weekly [of zones tz days h m "()"] assms(1) Weekly by (intro covers_weekly) auto
    then show ?thesis by (simp add: Weekly tried_days_def due_day_fun)
  next
    case (Interval tz h m every start)
    with assms(1) validate_interval obtain a where "parseCalendarDate start ''interval startDate'' = Inr a" by blast
    with covers_interval [of "int_of every" "epochDay a" ?A] validate_every [of zones tz h m every start "()"] assms(1) Interval
    show ?thesis by (simp add: tried_days_def due_day_fun)
  next
    case (Monthly tz h m days)
    have "covers (\<lambda>d. cd_day (fst (calendarDate d)) \<in> set (map int_of days)) ?A (monthly_days (map int_of days) (cd_year ?c) (cd_month ?c) ?A)"
      using validate_monthly [of zones tz h m days "()"] assms(1,4) Monthly by (intro covers_monthly) auto
    then show ?thesis by (simp add: Monthly tried_days_def due_day_fun)
  qed (use assms(2) covers_daily in \<open>simp_all add: tried_days_def recurs_def due_day_fun\<close>)
  then obtain d where "firstResolved (fixed_zone off) (sched_hour s) (sched_minute s) after ?days = Inr (instant off s d)"
    "due_day s d" "after < instant off s d" "\<And>e. due_day s e \<Longrightarrow> after < instant off s e \<Longrightarrow> d \<le> e"
    using firstResolved_least [OF clock(2-5) _ due] by blast
  then show ?thesis
    unfolding nextOccurrence_recurs [OF assms(1,2)] Let_def assms(3) option.sel z by (intro exI [of _ d]) auto
qed

text \<open>A zone two hours east, and the last day of a month at noon.\<close>

definition sample_zones :: zones where
  "sample_zones tz = (if tz = ''UTC+2'' then Some (fixed_zone 120) else None)"

definition month_end :: ScheduleSpec where
  "month_end = Monthly ''UTC+2'' (Integer 12) (Integer 30) [Integer 31]"

lemma month_end_ok: "validateSchedule sample_zones month_end = Inr ()"
  by (simp add: month_end_def sample_zones_def validateClock_def in_range_def)

theorem next_occurrence_first_witness:
  "\<exists>d. nextOccurrence sample_zones month_end 1700000000000 = Inr (Some (instant 120 month_end d)) \<and> due_day month_end d \<and>
    1700000000000 < instant 120 month_end d \<and> (\<forall>e. due_day month_end e \<longrightarrow> 1700000000000 < instant 120 month_end e \<longrightarrow> d \<le> e)"
  by (rule next_occurrence_first [OF month_end_ok]) (simp add: month_end_def recurs_def, simp add: month_end_def sample_zones_def, code_simp)

definition every_noon :: ScheduleSpec where
  "every_noon = Daily ''UTC+2'' (Integer 12) (Integer 30)"

theorem next_occurrence_sound_witness:
  "1700000000000 < (1700044200000 :: int) \<and> lm_hour (fixed_zone 120 1700044200000) = 12 \<and> lm_minute (fixed_zone 120 1700044200000) = 30"
proof -
  have v: "validateSchedule sample_zones every_noon = Inr ()" "recurs every_noon"
    by (simp_all add: every_noon_def sample_zones_def validateClock_def in_range_def recurs_def)
  have A: "epochDay (fixed_zone 120 1700000000000) = 19676" unfolding fixed_zone_def epochDay_wall by (simp add: MINUTE_MS_def DAY_MS_def)
  have r: "resolveLocalMinute (fixed_zone 120) (fst (calendarDate d)) 12 30 = Some (d * DAY_MS + clock_ms 12 30 - 120 * MINUTE_MS)" for d
    by (rule resolve_fixed) simp_all
  have "nextOccurrence sample_zones every_noon 1700000000000 = Inr (Some 1700044200000)"
    unfolding nextOccurrence_recurs [OF v] Let_def
    by (simp add: every_noon_def tried_days_def sample_zones_def A r) (simp add: clock_ms_def DAY_MS_def MINUTE_MS_def)
  moreover have "0 \<le> month_index (CalendarDate.truncate (the (sample_zones (sched_zone every_noon)) 1700000000000))"
    by (simp add: every_noon_def sample_zones_def fixed_zone_def wall_def Let_def CalendarDate.truncate_def month_index_def calendarDate_def
        year_of_day_def day_from_year_def MINUTE_MS_def DAY_MS_def month_of_def)
  ultimately show ?thesis
    using next_occurrence_sound [of sample_zones every_noon 1700000000000 1700044200000] by (simp add: every_noon_def recurs_def sample_zones_def)
qed

end
