(* ===== verification/Sched_Properties.thy ===== *)
theory Sched_Properties
  imports Sched_Store Sched_Next Kala_Machines
begin

text \<open>
  The store of scheduled tasks as a machine: what a claim records, that a settled run is final, that the
  history is bounded and never loses a claimed run, and how the inbox counts what is unread.
\<close>

datatype sched_cmd =
    MarkSeen string string "string list" int
  | Create string string string string ScheduledTaskTarget ScheduleSpec int
  | Update string string "string option" "ScheduledTaskTarget option" "ScheduleSpec option" int
  | SetPaused string string bool int
  | PauseSessions string "string set" int
  | Delete string string
  | Claim string int int
  | Finish string ScheduledRunStatus "string option" "string option" int

text \<open>The parameters: the time zones, the digest and the order of identifiers.\<close>

type_synonym sched_env = "zones \<times> digest \<times> (string \<Rightarrow> int)"

fun sched_tx_of :: "sched_env \<Rightarrow> sched_cmd \<Rightarrow> unit sched_tx" where
  "sched_tx_of (z, d, rank) (MarkSeen ownerKey who ids now) = tx_then (markInboxSeen rank ownerKey who ids now) (tx_return ())"
| "sched_tx_of (z, d, rank) (Create uid ownerKey by prompt target schedule now) =
     tx_then (create z uid ownerKey by prompt target schedule now) (tx_return ())"
| "sched_tx_of (z, d, rank) (Update ownerKey tid p t s now) = tx_then (update z ownerKey tid p t s now) (tx_return ())"
| "sched_tx_of (z, d, rank) (SetPaused ownerKey tid paused now) = tx_then (setPaused z ownerKey tid paused now) (tx_return ())"
| "sched_tx_of (z, d, rank) (PauseSessions ownerKey ids now) = tx_then (pauseSessionTargets ownerKey ids now) (tx_return ())"
| "sched_tx_of (z, d, rank) (Delete ownerKey tid) = tx_then (delete ownerKey tid) (tx_return ())"
| "sched_tx_of (z, d, rank) (Claim tid scheduledFor now) = tx_then (claim z d tid scheduledFor now) (tx_return ())"
| "sched_tx_of (z, d, rank) (Finish occ status sid err now) = tx_then (finish occ status sid err now) (tx_return ())"

definition sched_step :: "sched_env \<Rightarrow> sched_state \<Rightarrow> sched_cmd \<Rightarrow> sched_state" where
  "sched_step env st c = snd (serialize (sched_tx_of env c) st)"

section \<open>Rows\<close>

lemma find_update_first: "find P rs = Some r \<Longrightarrow> P v \<Longrightarrow> find P (update_first P v rs) = Some v"
  by (induction rs) (auto split: if_splits)

lemma find_SomeD: "find P xs = Some x \<Longrightarrow> P x \<and> x \<in> set xs"
  by (auto simp: find_Some_iff)

lemma update_first_other: "key v \<noteq> i \<Longrightarrow> j \<noteq> i \<Longrightarrow> find (\<lambda>r. key r = i) (update_first (\<lambda>r. key r = j) v rs) = find (\<lambda>r. key r = i) rs"
  by (induction rs) auto

lemma set_update_first: "set (update_first P v rs) \<subseteq> insert v (set rs)"
  by (induction rs) auto

lemma map_update_first: "(\<And>r. find P rs = Some r \<Longrightarrow> key v = key r) \<Longrightarrow> map key (update_first P v rs) = map key rs"
  by (induction rs) auto

lemma find_append_None: "find P (xs @ ys) = (case find P xs of None \<Rightarrow> find P ys | Some x \<Rightarrow> Some x)"
  by (induction xs) auto

section \<open>Catching up\<close>

lemma nextOccurrence_after: "nextOccurrence zones s after = Inr (Some t) \<Longrightarrow> after < t"
proof (cases "recurs s")
  case True
  assume n: "nextOccurrence zones s after = Inr (Some t)"
  then obtain u where v: "validateSchedule zones s = Inr u" by (auto simp: nextOccurrence_def split: sum.splits)
  show ?thesis
    using n unfolding nextOccurrence_recurs [OF v True] Let_def map_sum_Some by (blast dest: firstResolved_sound)
next
  case False
  moreover assume "nextOccurrence zones s after = Inr (Some t)"
  ultimately show ?thesis by (auto simp: nextOccurrence_def recurs_def split: sum.splits ScheduleSpec.splits option.splits if_splits)
qed

declare catchup.simps [simp del]

text \<open>The skipped runs: at most nine, for increasing instants after the claimed one and not later than now.\<close>

lemma catchup_result:
  assumes "catchup zones digest task now next missed runs = Inr (next', runs')"
    and "\<And>n. next = Some n \<Longrightarrow> lo < n"
  shows "(next' = None \<or> (\<exists>n. next' = Some n \<and> now < n)) \<and>
    (\<exists>ts. runs' = runs @ map (\<lambda>t. run_record digest task t Skipped (Some ''bounded catchup skipped overdue occurrence'') now) ts \<and>
       length ts \<le> 9 - missed \<and> (\<forall>t \<in> set ts. lo < t \<and> t \<le> now))"
  using assms
proof (induction zones digest task now "next" missed runs arbitrary: lo rule: catchup.induct)
  case (1 zones digest task now "next" missed runs)
  show ?case
  proof (cases "next")
    case None
    with 1(2) show ?thesis by (simp add: catchup.simps)
  next
    case (Some n)
    show ?thesis
    proof (cases "n \<le> now")
      case False
      with Some 1(2) have "next' = Some n" "runs' = runs" by (simp_all add: catchup.simps)
      with False show ?thesis by simp
    next
      case True
      then have m: "\<not> missed + 1 \<ge> 10000" using 1(2) Some by (auto simp: catchup.simps [of _ _ _ _ _ missed])
      then obtain nx where nx: "nextOccurrence zones (st_schedule task) n = Inr nx"
        using 1(2) Some True by (auto simp: catchup.simps [of _ _ _ _ _ missed] split: sum.splits)
      let ?sk = "\<lambda>t. run_record digest task t Skipped (Some ''bounded catchup skipped overdue occurrence'') now"
      let ?runs = "if missed + 1 \<le> 9 then runs @ [?sk n] else runs"
      have rec: "catchup zones digest task now nx (missed + 1) ?runs = Inr (next', runs')"
        using 1(2) Some True m nx by (simp add: catchup.simps [of _ _ _ _ _ missed])
      have "n < k" if "nx = Some k" for k using nx that nextOccurrence_after by blast
      then obtain ts where ih: "next' = None \<or> (\<exists>n. next' = Some n \<and> now < n)" "runs' = ?runs @ map ?sk ts" "length ts \<le> 9 - (missed + 1)"
          "\<forall>t \<in> set ts. n < t \<and> t \<le> now"
        using 1(1) [OF Some _ _ nx rec, of n] True m by auto
      have lo: "lo < n" using 1(3) Some by simp
      show ?thesis
      proof (cases "missed + 1 \<le> 9")
        case True
        with ih lo \<open>n \<le> now\<close> show ?thesis by (intro conjI exI [of _ "n # ts"]) auto
      next
        case False
        with ih show ?thesis by (intro conjI exI [of _ ts]) auto
      qed
    qed
  qed
qed

section \<open>Trimming\<close>

lemma trim_candidate:
  "x \<in> set (take k (sort_key sr_updatedAt (filter (\<lambda>r. sr_status r \<noteq> Claimed) rs))) \<Longrightarrow> x \<in> set rs \<and> sr_status x \<noteq> Claimed"
  by (drule in_set_takeD) simp

lemma trim_keeps_claimed:
  assumes "distinct (map sr_occurrenceId (s_runs st))"
  shows "claimedRuns (trimRuns st) = claimedRuns st"
proof -
  let ?R = "\<lambda>k. sr_occurrenceId ` set (take k (sort_key sr_updatedAt (filter (\<lambda>r. sr_status r \<noteq> Claimed) (s_runs st))))"
  have "sr_occurrenceId r \<notin> ?R k" if r: "r \<in> set (s_runs st)" "sr_status r = Claimed" for r k
  proof
    assume "sr_occurrenceId r \<in> ?R k"
    then obtain x where x: "x \<in> set (s_runs st)" "sr_status x \<noteq> Claimed" "sr_occurrenceId r = sr_occurrenceId x"
      by (auto dest: trim_candidate)
    with r assms have "r = x" unfolding distinct_map inj_on_def by blast
    with r x show False by simp
  qed
  then show ?thesis
    by (auto simp: trimRuns_def claimedRuns_def Let_def simp del: take_map intro!: filter_cong)
qed

lemma filter_notin_length:
  assumes "distinct (map key xs)" "set ys \<subseteq> set xs" "distinct ys"
  shows "length (filter (\<lambda>x. key x \<notin> key ` set ys) xs) = length xs - length ys"
proof -
  have inj: "inj_on key (set xs)" and d: "distinct xs" using assms(1) by (simp_all add: distinct_map)
  have "set (filter (\<lambda>x. key x \<notin> key ` set ys) xs) = set xs - set ys"
    using inj assms(2) by (auto simp: inj_on_def)
  then have "length (filter (\<lambda>x. key x \<notin> key ` set ys) xs) = card (set xs - set ys)"
    using d by (metis distinct_card distinct_filter)
  also have "\<dots> = length xs - length ys" using assms(2,3) d by (simp add: card_Diff_subset distinct_card)
  finally show ?thesis .
qed

lemma trim_length:
  assumes "distinct (map sr_occurrenceId (s_runs st))"
  shows "length (s_runs (trimRuns st)) \<le> max MAX_RUNS (length (claimedRuns st))"
proof (cases "length (s_runs st) \<le> MAX_RUNS")
  case True
  then show ?thesis by (simp add: trimRuns_def)
next
  case False
  let ?rs = "sort_key sr_updatedAt (filter (\<lambda>r. sr_status r \<noteq> Claimed) (s_runs st))"
  let ?k = "length (s_runs st) - MAX_RUNS"
  have "distinct (s_runs st)" using assms by (simp add: distinct_map)
  then have "distinct (take ?k ?rs)" by simp
  moreover have "set (take ?k ?rs) \<subseteq> set (s_runs st)" by (auto dest: in_set_takeD)
  ultimately have "length (s_runs (trimRuns st)) = length (s_runs st) - length (take ?k ?rs)"
    using False filter_notin_length [OF assms, of "take ?k ?rs"] by (simp add: trimRuns_def Let_def)
  moreover have "length ?rs + length (claimedRuns st) = length (s_runs st)"
    using sum_length_filter_compl [of "\<lambda>r. sr_status r = Claimed" "s_runs st"] by (simp add: claimedRuns_def)
  ultimately show ?thesis by simp
qed

section \<open>Claims\<close>

lemma serialize_Inr: "serialize m st = (Inr v, st') \<longleftrightarrow> (\<exists>s. m st = Inr (v, s) \<and> st' = s\<lparr>s_revision := s_revision s + 1\<rparr>)"
  by (auto simp: serialize_def run_tx_def tx_bind_def tx_then_def tx_modify_def tx_return_def split: sum.splits)

abbreviation skipped_run :: "digest \<Rightarrow> ScheduledTask \<Rightarrow> int \<Rightarrow> int \<Rightarrow> ScheduledRun" where
  "skipped_run digest task now t \<equiv> run_record digest task t Skipped (Some ''bounded catchup skipped overdue occurrence'') now"

lemma claim_fresh:
  assumes "find (\<lambda>t. st_id t = tid) (s_tasks st) = Some task" "st_status task = Active" "st_nextRunAt task = Some sf"
    and "find (\<lambda>r. sr_occurrenceId r = stableId digest ''occ'' tid sf) (s_runs st) = None"
    and "claim zones digest tid sf now st = Inr (res, st')"
  obtains next' ts where "res = Some (run_record digest task sf Claimed None now)"
    "st' = trimRuns (st\<lparr>s_runs := s_runs st @ run_record digest task sf Claimed None now # map (skipped_run digest task now) ts,
       s_tasks := update_first (\<lambda>t. st_id t = tid) (task\<lparr>st_nextRunAt := next', st_updatedAt := now\<rparr>) (s_tasks st)\<rparr>)"
    "next' = None \<or> (\<exists>n. next' = Some n \<and> now < n)" "length ts \<le> 9" "\<forall>t \<in> set ts. sf < t \<and> t \<le> now"
proof -
  let ?run = "run_record digest task sf Claimed None now"
  obtain nx next' runs' where nx: "nextOccurrence zones (st_schedule task) sf = Inr nx"
    and c: "catchup zones digest task now nx 0 (s_runs st @ [?run]) = Inr (next', runs')"
    and r: "res = Some ?run" "st' = trimRuns (st\<lparr>s_runs := runs',
       s_tasks := update_first (\<lambda>t. st_id t = tid) (task\<lparr>st_nextRunAt := next', st_updatedAt := now\<rparr>) (s_tasks st)\<rparr>)"
    using assms by (auto simp: claim_def tx_simps Let_def split: if_splits)
  have "sf < n" if "nx = Some n" for n using nx that nextOccurrence_after by blast
  from catchup_result [OF c this] obtain ts where "next' = None \<or> (\<exists>n. next' = Some n \<and> now < n)"
    "runs' = (s_runs st @ [?run]) @ map (skipped_run digest task now) ts" "length ts \<le> 9" "\<forall>t \<in> set ts. sf < t \<and> t \<le> now"
    by auto
  with r show ?thesis by (intro that [of next' ts]) simp_all
qed

lemma trim_tasks [simp]: "s_tasks (trimRuns st) = s_tasks st" "s_revision (trimRuns st) = s_revision st"
  by (simp_all add: trimRuns_def Let_def)

lemma trim_shrinks: "length (s_runs (trimRuns st)) \<le> length (s_runs st)"
  by (simp add: trimRuns_def Let_def length_filter_le)

lemma trim_keeps_run:
  assumes "r \<in> set (s_runs st)" "\<forall>x \<in> set (s_runs st). sr_status x \<noteq> Claimed \<longrightarrow> sr_occurrenceId x \<noteq> sr_occurrenceId r"
  shows "r \<in> set (s_runs (trimRuns st))"
proof -
  have "sr_occurrenceId r \<notin> sr_occurrenceId ` set (take k (sort_key sr_updatedAt (filter (\<lambda>r. sr_status r \<noteq> Claimed) (s_runs st))))" for k
  proof (rule notI, erule imageE)
    fix x assume x: "sr_occurrenceId r = sr_occurrenceId x" "x \<in> set (take k (sort_key sr_updatedAt (filter (\<lambda>r. sr_status r \<noteq> Claimed) (s_runs st))))"
    from trim_candidate [OF x(2)] have "x \<in> set (s_runs st)" "sr_status x \<noteq> Claimed" by blast+
    with assms(2) x(1) show False by auto
  qed
  then show ?thesis using assms(1) by (auto simp: trimRuns_def Let_def)
qed

lemma stableId_inj: "stableId digest p tid t = stableId digest p tid u \<longleftrightarrow> digest tid t = digest tid u"
  by (simp add: stableId_def)

lemma run_record_simps [simp]:
  "sr_occurrenceId (run_record digest task t s e now) = stableId digest ''occ'' (st_id task) t"
  "sr_status (run_record digest task t s e now) = s" "sr_taskId (run_record digest task t s e now) = st_id task"
  by (simp_all add: run_record_def)

text \<open>
  Claiming a due occurrence that is not recorded yet records it, marked as claimed, with the definition
  of the task at that time; overdue occurrences after it are collapsed into at most nine skipped records;
  and the task moves on to an instant in the future, or to none. However long the outage, one claim makes
  the task current again, and the trimming of the history cannot drop the new claim. The digest is assumed
  to tell apart the instants of a task.
\<close>

theorem claim_records:
  assumes "inj (digest tid)" "find (\<lambda>t. st_id t = tid) (s_tasks st) = Some task" "st_status task = Active" "st_nextRunAt task = Some sf"
    and "find (\<lambda>r. sr_occurrenceId r = stableId digest ''occ'' tid sf) (s_runs st) = None"
    and "serialize (claim zones digest tid sf now) st = (Inr res, st')"
  shows "\<exists>run task'. res = Some run \<and> run \<in> set (s_runs st') \<and> sr_status run = Claimed \<and> sr_scheduledFor run = sf \<and> sr_task run = snapshot task \<and>
    find (\<lambda>t. st_id t = tid) (s_tasks st') = Some task' \<and> (st_nextRunAt task' = None \<or> (\<exists>n. st_nextRunAt task' = Some n \<and> now < n)) \<and>
    length (s_runs st') \<le> length (s_runs st) + 10"
proof -
  let ?run = "run_record digest task sf Claimed None now"
  obtain s where s: "claim zones digest tid sf now st = Inr (res, s)" "st' = s\<lparr>s_revision := s_revision s + 1\<rparr>"
    using assms(6) by (auto simp: serialize_Inr)
  obtain next' ts where r: "res = Some ?run"
    and st': "s = trimRuns (st\<lparr>s_runs := s_runs st @ ?run # map (skipped_run digest task now) ts,
       s_tasks := update_first (\<lambda>t. st_id t = tid) (task\<lparr>st_nextRunAt := next', st_updatedAt := now\<rparr>) (s_tasks st)\<rparr>)" (is "s = trimRuns ?st")
    and n: "next' = None \<or> (\<exists>n. next' = Some n \<and> now < n)" "length ts \<le> 9" "\<forall>t \<in> set ts. sf < t \<and> t \<le> now"
    by (rule claim_fresh [OF assms(2-5) s(1)])
  have tid: "st_id task = tid" using assms(2) by (auto simp: find_Some_iff)
  have "?run \<in> set (s_runs (trimRuns ?st))"
    using assms(1,5) n(3) by (intro trim_keeps_run) (auto simp: tid find_None_iff stableId_inj inj_eq)
  moreover have "find (\<lambda>t. st_id t = tid) (s_tasks ?st) = Some (task\<lparr>st_nextRunAt := next', st_updatedAt := now\<rparr>)"
    using find_update_first [OF assms(2), of "task\<lparr>st_nextRunAt := next', st_updatedAt := now\<rparr>"] by (simp add: tid)
  moreover have "length (s_runs (trimRuns ?st)) \<le> length (s_runs ?st)" by (rule trim_shrinks)
  ultimately show ?thesis
    using n(1,2) by (intro exI [of _ ?run] exI [of _ "task\<lparr>st_nextRunAt := next', st_updatedAt := now\<rparr>"])
      (auto simp: r s(2) st' run_record_def)
qed

text \<open>A task that runs once, and a digest that writes an instant in unary.\<close>

definition sample_digest :: digest where
  "sample_digest tid t = (if t < 0 then CHR ''-'' else CHR ''+'') # replicate (nat \<bar>t\<bar>) CHR ''1''"

lemma sample_digest_inj: "inj (sample_digest tid)"
  by (rule injI) (auto simp: sample_digest_def split: if_splits dest!: arg_cong [of "replicate _ _" _ length])

definition sample_task :: ScheduledTask where
  "sample_task = \<lparr>st_id = ''t1'', st_generation = 1, st_ownerKey = ''owner'', st_createdBy = ''ann'', st_status = Active,
     st_prompt = ''report'', st_target = SessionTarget ''s1'', st_schedule = Once (Some 1000), st_nextRunAt = Some 1000,
     st_createdAt = 0, st_updatedAt = 0\<rparr>"

definition sample_sched :: sched_state where
  "sample_sched = empty_sched\<lparr>s_tasks := [sample_task]\<rparr>"

lemmas sample_sched_simps = sample_sched_def empty_sched_def sample_task_def

theorem claim_records_witness:
  "\<exists>run task' st'. serialize (claim (\<lambda>_. None) sample_digest ''t1'' 1000 5000) sample_sched = (Inr (Some run), st') \<and>
    run \<in> set (s_runs st') \<and> sr_status run = Claimed \<and> sr_scheduledFor run = 1000 \<and>
    find (\<lambda>t. st_id t = ''t1'') (s_tasks st') = Some task' \<and> (st_nextRunAt task' = None \<or> (\<exists>n. st_nextRunAt task' = Some n \<and> 5000 < n))"
proof -
  have "\<exists>r st'. serialize (claim (\<lambda>_. None) sample_digest ''t1'' 1000 5000) sample_sched = (Inr r, st')"
    by (simp add: serialize_Inr claim_def tx_simps sample_sched_simps nextOccurrence_def catchup.simps Let_def)
  then obtain r st' where c: "serialize (claim (\<lambda>_. None) sample_digest ''t1'' 1000 5000) sample_sched = (Inr r, st')" by blast
  show ?thesis
    using claim_records [OF sample_digest_inj _ _ _ _ c, of sample_task] c by (auto simp: sample_sched_simps)
qed

section \<open>Settled runs\<close>

lemma claim_cases:
  assumes "claim zones digest tid sf now st = Inr (res, st')"
  obtains (kept) "st' = st" "\<forall>run. res = Some run \<longrightarrow> run \<in> set (s_runs st)"
  | (recorded) task next' ts where "find (\<lambda>t. st_id t = tid) (s_tasks st) = Some task" "st_id task = tid"
    "st' = trimRuns (st\<lparr>s_runs := s_runs st @ run_record digest task sf Claimed None now # map (skipped_run digest task now) ts,
       s_tasks := update_first (\<lambda>t. st_id t = tid) (task\<lparr>st_nextRunAt := next', st_updatedAt := now\<rparr>) (s_tasks st)\<rparr>)"
    "find (\<lambda>r. sr_occurrenceId r = stableId digest ''occ'' tid sf) (s_runs st) = None"
    "res = Some (run_record digest task sf Claimed None now)"
proof (cases "\<exists>task. find (\<lambda>t. st_id t = tid) (s_tasks st) = Some task \<and> st_status task = Active \<and> st_nextRunAt task = Some sf \<and>
    find (\<lambda>r. sr_occurrenceId r = stableId digest ''occ'' tid sf) (s_runs st) = None")
  case True
  then obtain task where t: "find (\<lambda>t. st_id t = tid) (s_tasks st) = Some task" "st_status task = Active" "st_nextRunAt task = Some sf"
    "find (\<lambda>r. sr_occurrenceId r = stableId digest ''occ'' tid sf) (s_runs st) = None" by blast
  moreover have "st_id task = tid" using t(1) by (auto simp: find_Some_iff)
  ultimately show ?thesis using claim_fresh [OF t assms] recorded by metis
next
  case False
  then have "st' = st \<and> (\<forall>run. res = Some run \<longrightarrow> run \<in> set (s_runs st))"
    using assms by (auto simp: claim_def tx_simps Let_def dest: find_SomeD split: option.splits if_splits)
  then show ?thesis by (intro kept) simp_all
qed

lemma find_filter_key: "find (\<lambda>r. key r = i) (filter (\<lambda>r. key r \<notin> X) rs) = (if i \<in> X then None else find (\<lambda>r. key r = i) rs)"
  by (induction rs) auto

lemma trim_find:
  "find (\<lambda>r. sr_occurrenceId r = i) (s_runs (trimRuns st)) \<in> {find (\<lambda>r. sr_occurrenceId r = i) (s_runs st), None}"
  by (simp add: trimRuns_def Let_def find_filter_key)

lemma finish_cases:
  assumes "finish occ s sid err now st = Inr (r, st')"
  obtains (kept) "st' = st" "find (\<lambda>r. sr_occurrenceId r = occ) (s_runs st) = Some r" "sr_status r \<noteq> Claimed"
  | (settled) run where "find (\<lambda>r. sr_occurrenceId r = occ) (s_runs st) = Some run" "sr_status run = Claimed"
    "sr_occurrenceId r = occ" "sr_status r = s" "st' = st\<lparr>s_runs := update_first (\<lambda>r. sr_occurrenceId r = occ) r (s_runs st)\<rparr>"
proof -
  obtain run where run: "find (\<lambda>r. sr_occurrenceId r = occ) (s_runs st) = Some run"
    using assms by (auto simp: finish_def tx_simps split: option.splits)
  then have "sr_occurrenceId run = occ" by (auto simp: find_Some_iff)
  with assms run show ?thesis
    by (cases "sr_status run = Claimed") (auto simp: finish_def tx_simps Let_def intro: kept settled)
qed

text \<open>Only claims and settlements touch the runs.\<close>

lemma other_runs:
  "sched_tx_of env c st = Inr (u, st') \<Longrightarrow> (\<forall>tid sf now. c \<noteq> Claim tid sf now) \<Longrightarrow> (\<forall>occ s sid e now. c \<noteq> Finish occ s sid e now) \<Longrightarrow>
   s_runs st' = s_runs st"
  by (cases c; cases env)
    (auto simp: tx_simps markInboxSeen_def create_def update_def setPaused_def pauseSessionTargets_def delete_def requiredTask_def Let_def
      split: option.splits if_splits)

lemma sched_step_cases:
  obtains (failed) "sched_step env st c = st"
  | (committed) u st' where "sched_tx_of env c st = Inr (u, st')" "sched_step env st c = st'\<lparr>s_revision := s_revision st' + 1\<rparr>"
proof (cases "sched_tx_of env c st")
  case (Inl e)
  then show ?thesis by (intro failed) (simp add: sched_step_def serialize_def run_tx_def tx_bind_def)
next
  case (Inr r)
  obtain u st' where r: "r = (u, st')" by (cases r)
  with Inr have "serialize (sched_tx_of env c) st = (Inr u, st'\<lparr>s_revision := s_revision st' + 1\<rparr>)" unfolding serialize_Inr by blast
  with Inr r show ?thesis by (intro committed [of u st']) (simp_all add: sched_step_def)
qed

text \<open>
  A run that has been settled is final: no operation of the store changes its record any more; the
  record is at most dropped when the history is trimmed.
\<close>

theorem settled_runs_final:
  assumes "find (\<lambda>r. sr_occurrenceId r = i) (s_runs st) = Some run" "sr_status run \<noteq> Claimed"
  shows "find (\<lambda>r. sr_occurrenceId r = i) (s_runs (sched_step env st c)) \<in> {Some run, None}"
proof (cases rule: sched_step_cases [of env st c])
  case failed
  with assms show ?thesis by simp
next
  case (committed u st')
  obtain z d rank where env: "env = (z, d, rank)" by (cases env)
  show ?thesis
  proof (cases c)
    case (Claim tid sf now)
    then obtain r where "claim z d tid sf now st = Inr (r, st')" using committed(1) by (auto simp: env tx_simps)
    then show ?thesis
    proof (cases rule: claim_cases)
      case kept
      with assms committed(2) show ?thesis by simp
    next
      case (recorded task next' ts)
      show ?thesis
        using trim_find [of i "st\<lparr>s_runs := s_runs st @ run_record d task sf Claimed None now # map (skipped_run d task now) ts,
            s_tasks := update_first (\<lambda>t. st_id t = tid) (task\<lparr>st_nextRunAt := next', st_updatedAt := now\<rparr>) (s_tasks st)\<rparr>"] assms(1)
        by (simp add: committed(2) recorded(3) find_append_None)
    qed
  next
    case (Finish occ s sid e now)
    then obtain r where f: "finish occ s sid e now st = Inr (r, st')" using committed(1) by (auto simp: env tx_simps)
    from f have "find (\<lambda>r. sr_occurrenceId r = i) (s_runs st') = Some run"
    proof (cases rule: finish_cases)
      case kept
      with assms show ?thesis by simp
    next
      case (settled run')
      with assms have "occ \<noteq> i" by auto
      with settled assms show ?thesis by (simp add: update_first_other)
    qed
    then show ?thesis by (simp add: committed(2))
  qed (use other_runs [OF committed(1)] assms committed(2) in simp_all)
qed

definition one_shot :: sched_state where
  "one_shot = snd (serialize (finish (stableId sample_digest ''occ'' ''t1'' 1) Enqueued (Some ''s1'') None 7)
     (snd (serialize (claim (\<lambda>_. None) sample_digest ''t1'' 1 5)
        (sample_sched\<lparr>s_tasks := [sample_task\<lparr>st_schedule := Once (Some 1), st_nextRunAt := Some 1\<rparr>]\<rparr>))))"

theorem settled_runs_final_witness:
  "find (\<lambda>r. sr_occurrenceId r = ''occ_+1'') (s_runs (sched_step ((\<lambda>_. None), sample_digest, \<lambda>_. 0) one_shot (Finish ''occ_+1'' RFailed None None 9)))
     \<in> {Some \<lparr>sr_occurrenceId = ''occ_+1'', sr_taskId = ''t1'', sr_operationId = ''schedule_+1'', sr_scheduledFor = 1, sr_status = Enqueued,
       sr_claimedAt = 5, sr_updatedAt = 7, sr_task = snapshot sample_task, sr_sessionId = Some ''s1'', sr_error = None\<rparr>, None}"
  by (rule settled_runs_final) code_simp+

section \<open>Inbox receipts\<close>

text \<open>One receipt for an owner and a principal, with distinct identifiers of recorded runs.\<close>

definition receipt_known :: "string set \<Rightarrow> InboxReceipt \<Rightarrow> bool" where
  "receipt_known recorded q \<longleftrightarrow> distinct (ir_occurrenceIds q) \<and> set (ir_occurrenceIds q) \<subseteq> recorded"

definition receipts_ok :: "sched_state \<Rightarrow> bool" where
  "receipts_ok st \<longleftrightarrow> distinct (map (\<lambda>q. (ir_ownerKey q, ir_principal q)) (s_receipts st)) \<and>
     (\<forall>q \<in> set (s_receipts st). receipt_known (sr_occurrenceId ` set (s_runs st)) q)"

lemma add_new_result [simp]: "set (add_new xs ys) = set xs \<union> set ys" "distinct xs \<Longrightarrow> distinct (add_new xs ys)"
  unfolding add_new_def by (induction ys arbitrary: xs) auto

lemma receipts_ok_mono:
  "receipts_ok st \<Longrightarrow> s_receipts st' = s_receipts st \<Longrightarrow> sr_occurrenceId ` set (s_runs st) \<subseteq> sr_occurrenceId ` set (s_runs st') \<Longrightarrow> receipts_ok st'"
  by (fastforce simp: receipts_ok_def receipt_known_def)

lemma image_filter_key: "key ` {r \<in> A. key r \<notin> X} = key ` A - X"
  by auto

lemma receipts_ok_trim: "receipts_ok st \<Longrightarrow> receipts_ok (trimRuns st)"
  by (auto simp: receipts_ok_def receipt_known_def trimRuns_def Let_def comp_def image_filter_key simp del: set_take_subset)

lemma receipts_ok_put:
  assumes "receipts_ok st" "find (receipt_for ownerKey who) (s_receipts st) = Some q"
    and "ir_ownerKey q' = ownerKey" "ir_principal q' = who" "receipt_known (sr_occurrenceId ` set (s_runs st)) q'"
  shows "receipts_ok (st\<lparr>s_receipts := update_first (receipt_for ownerKey who) q' (s_receipts st)\<rparr>)"
proof -
  have "map (\<lambda>q. (ir_ownerKey q, ir_principal q)) (update_first (receipt_for ownerKey who) q' (s_receipts st)) =
      map (\<lambda>q. (ir_ownerKey q, ir_principal q)) (s_receipts st)"
    using assms(3,4) by (intro map_update_first) (auto simp: find_Some_iff receipt_for_def)
  moreover have "receipt_known (sr_occurrenceId ` set (s_runs st)) r" if "r \<in> set (update_first (receipt_for ownerKey who) q' (s_receipts st))" for r
    using that assms(1,5) set_update_first [of "receipt_for ownerKey who" q' "s_receipts st"] unfolding receipts_ok_def by blast
  ultimately show ?thesis using assms(1) by (simp add: receipts_ok_def)
qed

lemma receipts_ok_push:
  assumes "receipts_ok st" "\<not> list_ex (receipt_for ownerKey who) (s_receipts st)"
  shows "receipts_ok (st\<lparr>s_receipts := s_receipts st @ [\<lparr>ir_ownerKey = ownerKey, ir_principal = who, ir_occurrenceIds = [], ir_updatedAt = now\<rparr>]\<rparr>)"
  using assms by (auto simp: receipts_ok_def receipt_for_def receipt_known_def list_ex_iff)

lemma markInboxSeen_receipts:
  assumes "receipts_ok st" "markInboxSeen rank ownerKey who ids now st = Inr (r, st')"
  shows "receipts_ok st'"
proof -
  let ?ack = "map sr_occurrenceId (filter (\<lambda>r. sr_occurrenceId r \<in> set ids) (inboxRuns st ownerKey who))"
  let ?new = "\<lparr>ir_ownerKey = ownerKey, ir_principal = who, ir_occurrenceIds = [], ir_updatedAt = now\<rparr>"
  define mid where "mid = (if list_ex (receipt_for ownerKey who) (s_receipts st) then st else st\<lparr>s_receipts := s_receipts st @ [?new]\<rparr>)"
  have mid: "receipts_ok mid" "s_runs mid = s_runs st" using assms(1) by (simp_all add: mid_def receipts_ok_push)
  consider "st' = st" | q where "find (receipt_for ownerKey who) (s_receipts mid) = Some q"
      "st' = mid\<lparr>s_receipts := update_first (receipt_for ownerKey who) (q\<lparr>ir_occurrenceIds := add_new (ir_occurrenceIds q) ?ack, ir_updatedAt := now\<rparr>) (s_receipts mid)\<rparr>"
    using assms(2) by (auto simp: markInboxSeen_def tx_simps Let_def mid_def split: option.splits if_splits)
  then show ?thesis
  proof cases
    case 1
    with assms(1) show ?thesis by simp
  next
    case (2 q)
    have "q \<in> set (s_receipts mid)" "receipt_for ownerKey who q" using 2(1) by (auto simp: find_Some_iff)
    moreover have "set ?ack \<subseteq> sr_occurrenceId ` set (s_runs st)" by (auto simp: inboxRuns_def)
    ultimately show ?thesis
      using mid unfolding 2(2) by (intro receipts_ok_put [OF mid(1) 2(1)]) (auto simp: receipt_for_def receipts_ok_def receipt_known_def)
  qed
qed

lemma finish_receipts:
  assumes "finish occ s sid err now st = Inr (r, st')" "receipts_ok st"
  shows "receipts_ok st'"
  using assms(1)
proof (cases rule: finish_cases)
  case kept
  with assms(2) show ?thesis by simp
next
  case (settled run)
  have "map sr_occurrenceId (update_first (\<lambda>r. sr_occurrenceId r = occ) r (s_runs st)) = map sr_occurrenceId (s_runs st)"
    by (rule map_update_first) (use settled(3) in \<open>auto simp: find_Some_iff\<close>)
  then have "set (map sr_occurrenceId (update_first (\<lambda>r. sr_occurrenceId r = occ) r (s_runs st))) = set (map sr_occurrenceId (s_runs st))"
    by (simp only:)
  then show ?thesis by (intro receipts_ok_mono [OF assms(2)]) (simp_all add: settled(5))
qed

lemma claim_receipts:
  assumes "claim zones digest tid sf now st = Inr (res, st')" "receipts_ok st"
  shows "receipts_ok st'"
  using assms(1)
proof (cases rule: claim_cases)
  case kept
  with assms(2) show ?thesis by simp
next
  case (recorded task next' ts)
  show ?thesis unfolding recorded(3) by (rule receipts_ok_trim, rule receipts_ok_mono [OF assms(2)]) auto
qed

lemma other_receipts:
  "sched_tx_of env c st = Inr (u, st') \<Longrightarrow> (\<forall>tid sf now. c \<noteq> Claim tid sf now) \<Longrightarrow> (\<forall>occ s sid e now. c \<noteq> Finish occ s sid e now) \<Longrightarrow>
   (\<forall>ok who ids now. c \<noteq> MarkSeen ok who ids now) \<Longrightarrow> s_receipts st' = s_receipts st"
  by (cases c; cases env)
    (auto simp: tx_simps create_def update_def setPaused_def pauseSessionTargets_def delete_def requiredTask_def Let_def split: option.splits if_splits)

lemma receipts_ok_revision [simp]: "receipts_ok (st\<lparr>s_revision := n\<rparr>) = receipts_ok st"
  by (simp add: receipts_ok_def)

interpretation receipts: machine "sched_step env" receipts_ok for env
proof unfold_locales
  fix st c assume ok: "receipts_ok st"
  obtain z d rank where env: "env = (z, d, rank)" by (cases env)
  show "receipts_ok (sched_step env st c)"
  proof (cases rule: sched_step_cases [of env st c])
    case (committed u st')
    have "receipts_ok st'"
    proof (cases "\<exists>ok who ids now. c = MarkSeen ok who ids now")
      case True
      then show ?thesis using committed(1) ok by (auto simp: env tx_simps dest: markInboxSeen_receipts)
    next
      case seen: False
      show ?thesis
      proof (cases "(\<exists>tid sf now. c = Claim tid sf now) \<or> (\<exists>occ s sid e now. c = Finish occ s sid e now)")
        case True
        then show ?thesis using committed(1) ok by (auto simp: env tx_simps dest: claim_receipts finish_receipts)
      next
        case False
        with seen other_runs [OF committed(1)] other_receipts [OF committed(1)] ok show ?thesis by (auto intro: receipts_ok_mono)
      qed
    qed
    then show ?thesis by (simp add: committed(2))
  qed (simp add: ok)
qed

text \<open>
  Whatever operations the store has run, an owner and a principal have one receipt, its identifiers are
  distinct, and each is the identifier of a run that is still recorded: the receipts cannot outgrow the
  history, which is trimmed.
\<close>

theorem inbox_receipts_known: "receipts_ok (run_events (sched_step env) empty_sched cs)"
  by (rule receipts.inv_run_all) (simp add: receipts_ok_def empty_sched_def)

section \<open>Reading the inbox\<close>

lemma fold_count: "fold (\<lambda>i n. n + (if P i then 0 else 1)) xs k = k + length (filter (\<lambda>i. \<not> P i) xs)"
  by (induction xs arbitrary: k) auto

lemma unread_count:
  "ib_unreadCount (inboxFor rank st ownerKey who) = length (filter (\<lambda>r. sr_occurrenceId r \<notin> seen_ids st ownerKey who) (inboxRuns st ownerKey who))"
proof -
  have "filter P (sort_key f xs) = sort_key f (filter P xs)" for P and f :: "ScheduledRun \<Rightarrow> int" and xs by (simp add: filter_sort)
  then show ?thesis by (simp add: inboxFor_def Let_def fold_count filter_map comp_def inbox_item_def)
qed

lemma find_update_other:
  "find P rs = Some r \<Longrightarrow> (\<And>x. P x \<Longrightarrow> \<not> Q x) \<Longrightarrow> \<not> Q v \<Longrightarrow> find Q (update_first P v rs) = find Q rs"
  by (induction rs) (auto split: if_splits)

lemma markInboxSeen_seen:
  assumes "markInboxSeen rank ownerKey who ids now st = Inr ((ack, n), st')"
  shows "ack = map sr_occurrenceId (filter (\<lambda>r. sr_occurrenceId r \<in> set ids) (inboxRuns st ownerKey who))"
    and "seen_ids st' ownerKey who = seen_ids st ownerKey who \<union> set ack"
    and "n = ib_unreadCount (inboxFor rank st' ownerKey who)" and "s_runs st' = s_runs st"
    and "(ownerKey', who') \<noteq> (ownerKey, who) \<Longrightarrow> seen_ids st' ownerKey' who' = seen_ids st ownerKey' who'"
proof -
  let ?R = "receipt_for ownerKey who"
  let ?new = "\<lparr>ir_ownerKey = ownerKey, ir_principal = who, ir_occurrenceIds = [], ir_updatedAt = now\<rparr>"
  show ack: "ack = map sr_occurrenceId (filter (\<lambda>r. sr_occurrenceId r \<in> set ids) (inboxRuns st ownerKey who))"
    and "n = ib_unreadCount (inboxFor rank st' ownerKey who)"
    using assms by (auto simp: markInboxSeen_def tx_simps)
  define rs where "rs = (if list_ex ?R (s_receipts st) then s_receipts st else s_receipts st @ [?new])"
  have seen: "(case find Q rs of None \<Rightarrow> {} | Some q \<Rightarrow> set (ir_occurrenceIds q)) = (case find Q (s_receipts st) of None \<Rightarrow> {} | Some q \<Rightarrow> set (ir_occurrenceIds q))" for Q
    by (auto simp: rs_def find_append_None split: option.splits)
  have "find ?R rs \<noteq> None"
    by (auto simp: rs_def find_None_iff list_ex_iff) (auto simp: receipt_for_def intro: exI [of _ ?new])
  then obtain q where q: "find ?R rs = Some q" by auto
  consider "ack = []" "st' = st" | q where "find ?R rs = Some q"
      "st' = st\<lparr>s_receipts := update_first ?R (q\<lparr>ir_occurrenceIds := add_new (ir_occurrenceIds q) ack, ir_updatedAt := now\<rparr>) rs\<rparr>"
    using assms ack q by (auto simp: markInboxSeen_def tx_simps Let_def rs_def split: if_splits)
  note cases = this
  show "s_runs st' = s_runs st" by (cases rule: cases) auto
  show "seen_ids st' ownerKey who = seen_ids st ownerKey who \<union> set ack"
  proof (cases rule: cases)
    case (2 q)
    have "?R q" using 2(1) by (auto simp: find_Some_iff)
    then show ?thesis
      using seen [of ?R] find_update_first [OF 2(1), of "q\<lparr>ir_occurrenceIds := add_new (ir_occurrenceIds q) ack, ir_updatedAt := now\<rparr>"]
      by (simp add: seen_ids_def 2 receipt_for_def)
  qed simp
  show "seen_ids st' ownerKey' who' = seen_ids st ownerKey' who'" if "(ownerKey', who') \<noteq> (ownerKey, who)"
  proof (cases rule: cases)
    case (2 q)
    have "?R q" using 2(1) by (auto simp: find_Some_iff)
    with that have "find (receipt_for ownerKey' who') (update_first ?R (q\<lparr>ir_occurrenceIds := add_new (ir_occurrenceIds q) ack, ir_updatedAt := now\<rparr>) rs) =
        find (receipt_for ownerKey' who') rs"
      by (intro find_update_other [OF 2(1)]) (auto simp: receipt_for_def)
    then have "find (receipt_for ownerKey' who') (s_receipts st') = find (receipt_for ownerKey' who') rs" by (simp add: 2(2))
    then show ?thesis using seen [of "receipt_for ownerKey' who'"] by (simp add: seen_ids_def)
  qed simp
qed

text \<open>
  Marking occurrences as seen acknowledges exactly the requested ones that are in the principal's inbox;
  the returned count is the number of inbox entries that were neither seen before nor requested now; and no
  other principal's inbox changes.
\<close>

theorem mark_seen_counts:
  assumes "serialize (markInboxSeen rank ownerKey who ids now) st = (Inr (ack, n), st')"
  shows "set ack = set ids \<inter> sr_occurrenceId ` set (inboxRuns st ownerKey who) \<and>
    n = length (filter (\<lambda>r. sr_occurrenceId r \<notin> seen_ids st ownerKey who \<and> sr_occurrenceId r \<notin> set ids) (inboxRuns st ownerKey who)) \<and>
    (\<forall>who'. who' \<noteq> who \<longrightarrow> inboxFor rank st' ownerKey who' = inboxFor rank st ownerKey who')"
proof -
  obtain s where s: "markInboxSeen rank ownerKey who ids now st = Inr ((ack, n), s)" "st' = s\<lparr>s_revision := s_revision s + 1\<rparr>"
    using assms by (auto simp: serialize_Inr)
  note m = markInboxSeen_seen [OF s(1)]
  have runs: "inboxRuns st' ownerKey' who' = inboxRuns st ownerKey' who'" for ownerKey' who' by (simp add: inboxRuns_def s(2) m(4))
  have "n = length (filter (\<lambda>r. sr_occurrenceId r \<notin> seen_ids s ownerKey who) (inboxRuns s ownerKey who))"
    using m(3) by (simp add: unread_count)
  moreover have "inboxRuns s ownerKey who = inboxRuns st ownerKey who" by (simp add: inboxRuns_def m(4))
  ultimately have "n = length (filter (\<lambda>r. sr_occurrenceId r \<notin> seen_ids st ownerKey who \<and> sr_occurrenceId r \<notin> set ids) (inboxRuns st ownerKey who))"
    using m(1) by (auto simp: m(2) intro!: arg_cong [of _ _ length] filter_cong)
  moreover have "seen_ids st' ownerKey who' = seen_ids st ownerKey who'" if "who' \<noteq> who" for who'
    using m(5) [of ownerKey who'] that by (simp add: s(2) seen_ids_def)
  ultimately show ?thesis using m(1) runs by (auto simp: inboxFor_def)
qed

theorem mark_seen_counts_witness:
  "\<exists>st'. serialize (markInboxSeen (\<lambda>_. 0) ''owner'' ''ann'' [''occ_+1'', ''other''] 8) one_shot = (Inr ([''occ_+1''], 0), st') \<and>
     set [''occ_+1''] = set [''occ_+1'', ''other''] \<inter> sr_occurrenceId ` set (inboxRuns one_shot ''owner'' ''ann'')"
proof -
  have "fst (serialize (markInboxSeen (\<lambda>_. 0) ''owner'' ''ann'' [''occ_+1'', ''other''] 8) one_shot) = Inr ([''occ_+1''], 0)"
    by code_simp
  then obtain st' where st': "serialize (markInboxSeen (\<lambda>_. 0) ''owner'' ''ann'' [''occ_+1'', ''other''] 8) one_shot = (Inr ([''occ_+1''], 0), st')"
    by (metis prod.collapse)
  from mark_seen_counts [OF st'] st' show ?thesis by blast
qed

section \<open>The history\<close>

lemma sorted_take_drop: "sorted (map f xs) \<Longrightarrow> x \<in> set (take k xs) \<Longrightarrow> y \<in> set (drop k xs) \<Longrightarrow> f x \<le> f y"
  using sorted_append [of "map f (take k xs)" "map f (drop k xs)"] unfolding map_append [symmetric] append_take_drop_id by auto

text \<open>
  Trimming never drops a claimed run, leaves at most \<open>MAX_RUNS\<close> runs or the claimed ones alone, and drops
  settled runs in the order of their age: a settled run that stays is not older than one that goes.
\<close>

theorem history_trimmed:
  assumes "distinct (map sr_occurrenceId (s_runs st))"
  shows "claimedRuns (trimRuns st) = claimedRuns st \<and> length (s_runs (trimRuns st)) \<le> max MAX_RUNS (length (claimedRuns st)) \<and>
    (\<forall>r k. r \<in> set (s_runs st) - set (s_runs (trimRuns st)) \<longrightarrow> k \<in> set (s_runs (trimRuns st)) \<longrightarrow> sr_status k \<noteq> Claimed \<longrightarrow>
       sr_updatedAt r \<le> sr_updatedAt k)"
proof (intro conjI allI impI)
  fix r k
  let ?xs = "sort_key sr_updatedAt (filter (\<lambda>r. sr_status r \<noteq> Claimed) (s_runs st))"
  let ?n = "length (s_runs st) - MAX_RUNS"
  assume r: "r \<in> set (s_runs st) - set (s_runs (trimRuns st))" and k: "k \<in> set (s_runs (trimRuns st))" "sr_status k \<noteq> Claimed"
  then have big: "\<not> length (s_runs st) \<le> MAX_RUNS" by (auto simp: trimRuns_def)
  then have "sr_occurrenceId r \<in> sr_occurrenceId ` set (take ?n ?xs)" using r by (auto simp: trimRuns_def Let_def)
  then obtain x where x: "x \<in> set (take ?n ?xs)" "sr_occurrenceId r = sr_occurrenceId x" by blast
  moreover have "x \<in> set (s_runs st)" using trim_candidate [OF x(1)] by blast
  ultimately have "r \<in> set (take ?n ?xs)" using assms r unfolding distinct_map inj_on_def by (metis DiffD1)
  moreover have "k \<in> set (s_runs st)" "k \<notin> set (take ?n ?xs)" using k big by (auto simp: trimRuns_def Let_def)
  then have "k \<in> set (take ?n ?xs @ drop ?n ?xs)" "k \<notin> set (take ?n ?xs)" using k(2) unfolding append_take_drop_id by simp_all
  then have "k \<in> set (drop ?n ?xs)" unfolding set_append by blast
  ultimately show "sr_updatedAt r \<le> sr_updatedAt k" by (intro sorted_take_drop [of sr_updatedAt ?xs]) simp_all
qed (rule trim_keeps_claimed [OF assms], rule trim_length [OF assms])

theorem history_trimmed_witness: "claimedRuns (trimRuns one_shot) = claimedRuns one_shot \<and> length (s_runs (trimRuns one_shot)) \<le> max MAX_RUNS 0"
proof -
  have "distinct (map sr_occurrenceId (s_runs one_shot))" "claimedRuns one_shot = []" by code_simp+
  with history_trimmed [of one_shot] show ?thesis by simp
qed



end
