(* ===== verification/Sched_Scheduler.thy ===== *)
theory Sched_Scheduler
  imports Sched_Properties
begin

text \<open>
  The scheduler of a unit, from \<open>packages/host/src/scheduled-tasks/scheduler.ts\<close>. The executor that delivers
  an occurrence, the clock and the stop flag belong to the host: they are the fields of \<open>executor\<close>, on a
  world that every call may change. A call that rejects returns its message with the changed world. The
  timer that repeats a tick is not modelled; a tick is one call.
\<close>

datatype OccurrenceReceipt = RCommitted | RAbsent | RUnknown

record 'w executor =
  ex_validate :: "ScheduledTaskSnapshot \<Rightarrow> 'w \<Rightarrow> (string + unit) \<times> 'w"
  ex_receipt :: "ScheduledRun \<Rightarrow> ScheduledTaskSnapshot \<Rightarrow> 'w \<Rightarrow> (string + OccurrenceReceipt) \<times> 'w"
  ex_enqueueSession :: "string \<Rightarrow> string \<Rightarrow> string \<Rightarrow> ScheduledTaskSnapshot \<Rightarrow> 'w \<Rightarrow> (string + unit) \<times> 'w"
  ex_createWorkspaceSession :: "string \<Rightarrow> ScheduledTaskSnapshot \<Rightarrow> string \<Rightarrow> 'w \<Rightarrow> (string + unit) \<times> 'w"
  ex_now :: "'w \<Rightarrow> int"
  ex_stopped :: "'w \<Rightarrow> bool"

type_synonym 'w sched_world = "sched_state \<times> 'w"

text \<open>\<open>hash\<close> is the digest of an identifier, cut to 32 characters in the sources.\<close>

definition occurrenceSessionId :: "(string \<Rightarrow> string) \<Rightarrow> string \<Rightarrow> string" where
  "occurrenceSessionId hash occurrenceId = ''scheduled_'' @ hash occurrenceId"

text \<open>Every maximal run of line breaks becomes one space.\<close>

fun collapse_breaks :: "bool \<Rightarrow> string \<Rightarrow> string" where
  "collapse_breaks inside [] = []"
| "collapse_breaks inside (c # cs) =
     (if c = CHR 0x0D \<or> c = CHR 0x0A then (if inside then collapse_breaks True cs else CHR '' '' # collapse_breaks True cs)
      else c # collapse_breaks False cs)"

definition redact :: "string \<Rightarrow> string" where
  "redact message = take 500 (collapse_breaks False message)"

definition store_finish ::
  "'w executor \<Rightarrow> string \<Rightarrow> ScheduledRunStatus \<Rightarrow> string option \<Rightarrow> string option \<Rightarrow> 'w sched_world \<Rightarrow> (string + unit) \<times> 'w sched_world" where
  "store_finish ex occurrenceId status sessionId err sw =
     (case serialize (finish occurrenceId status sessionId err (ex_now ex (snd sw))) (fst sw) of
        (r, st) \<Rightarrow> (map_sum id (\<lambda>_. ()) r, (st, snd sw)))"

definition run_session :: "(string \<Rightarrow> string) \<Rightarrow> ScheduledRun \<Rightarrow> string" where
  "run_session hash run =
     (case sn_target (sr_task run) of SessionTarget sid \<Rightarrow> sid | WorkspaceTarget _ _ _ \<Rightarrow> occurrenceSessionId hash (sr_occurrenceId run))"

definition deliver :: "'w executor \<Rightarrow> (string \<Rightarrow> string) \<Rightarrow> ScheduledRun \<Rightarrow> 'w \<Rightarrow> (string + unit) \<times> 'w" where
  "deliver ex hash run w =
     (case sn_target (sr_task run) of
        SessionTarget _ \<Rightarrow> ex_enqueueSession ex (run_session hash run) (sn_prompt (sr_task run)) (sr_operationId run) (sr_task run) w
      | WorkspaceTarget _ _ _ \<Rightarrow> ex_createWorkspaceSession ex (run_session hash run) (sr_task run) (sr_operationId run) w)"

text \<open>The handler of a failed delivery: admission may have been persisted before the failure.\<close>

definition uncertain :: "'w executor \<Rightarrow> (string \<Rightarrow> string) \<Rightarrow> ScheduledRun \<Rightarrow> string \<Rightarrow> 'w sched_world \<Rightarrow> (string + unit) \<times> 'w sched_world" where
  "uncertain ex hash run err sw =
     (case ex_receipt ex run (sr_task run) (snd sw) of
        (answer, w) \<Rightarrow>
          if answer = Inr RCommitted
          then store_finish ex (sr_occurrenceId run) Enqueued (Some (run_session hash run)) None (fst sw, w)
          else store_finish ex (sr_occurrenceId run) NeedsReview (Some (run_session hash run))
                 (Some (''delivery outcome uncertain: '' @ redact err)) (fst sw, w))"

definition execute :: "'w executor \<Rightarrow> (string \<Rightarrow> string) \<Rightarrow> ScheduledRun \<Rightarrow> 'w sched_world \<Rightarrow> (string + unit) \<times> 'w sched_world" where
  "execute ex hash run sw =
     (case ex_validate ex (sr_task run) (snd sw) of
        (Inl e, w) \<Rightarrow> store_finish ex (sr_occurrenceId run) RFailed None (Some (redact e)) (fst sw, w)
      | (Inr _, w) \<Rightarrow>
          (case deliver ex hash run w of
             (Inl e, w') \<Rightarrow> uncertain ex hash run e (fst sw, w')
           | (Inr _, w') \<Rightarrow>
               (case store_finish ex (sr_occurrenceId run) Enqueued (Some (run_session hash run)) None (fst sw, w') of
                  (Inr u, sw') \<Rightarrow> (Inr u, sw')
                | (Inl e, sw') \<Rightarrow> uncertain ex hash run e sw')))"

definition recover_run :: "'w executor \<Rightarrow> (string \<Rightarrow> string) \<Rightarrow> ScheduledRun \<Rightarrow> 'w sched_world \<Rightarrow> (string + unit) \<times> 'w sched_world" where
  "recover_run ex hash run sw =
     (case ex_validate ex (sr_task run) (snd sw) of
        (Inl e, w) \<Rightarrow> store_finish ex (sr_occurrenceId run) RFailed None (Some (redact e)) (fst sw, w)
      | (Inr _, w) \<Rightarrow>
          (case ex_receipt ex run (sr_task run) w of
             (answer, w') \<Rightarrow>
               (case (case answer of Inl _ \<Rightarrow> RUnknown | Inr r \<Rightarrow> r) of
                  RCommitted \<Rightarrow> store_finish ex (sr_occurrenceId run) Enqueued (Some (run_session hash run)) None (fst sw, w')
                | RAbsent \<Rightarrow> execute ex hash run (fst sw, w')
                | RUnknown \<Rightarrow> store_finish ex (sr_occurrenceId run) NeedsReview (Some (run_session hash run))
                    (Some ''operation receipt unavailable; occurrence was not replayed'') (fst sw, w'))))"

primrec recover_all :: "'w executor \<Rightarrow> (string \<Rightarrow> string) \<Rightarrow> ScheduledRun list \<Rightarrow> 'w sched_world \<Rightarrow> (string + unit) \<times> 'w sched_world" where
  "recover_all ex hash [] sw = (Inr (), sw)"
| "recover_all ex hash (run # runs) sw =
     (case recover_run ex hash run sw of (Inl e, sw') \<Rightarrow> (Inl e, sw') | (Inr _, sw') \<Rightarrow> recover_all ex hash runs sw')"

definition recoverClaims :: "'w executor \<Rightarrow> (string \<Rightarrow> string) \<Rightarrow> 'w sched_world \<Rightarrow> (string + unit) \<times> 'w sched_world" where
  "recoverClaims ex hash sw = recover_all ex hash (claimedRuns (fst sw)) sw"

primrec run_due ::
  "zones \<Rightarrow> digest \<Rightarrow> 'w executor \<Rightarrow> (string \<Rightarrow> string) \<Rightarrow> ScheduledTask list \<Rightarrow> 'w sched_world \<Rightarrow> (string + unit) \<times> 'w sched_world" where
  "run_due zones digest ex hash [] sw = (Inr (), sw)"
| "run_due zones digest ex hash (task # tasks) sw =
     (if ex_stopped ex (snd sw) then (Inr (), sw)
      else case st_nextRunAt task of
        None \<Rightarrow> (Inr (), sw)
      | Some n \<Rightarrow>
          (case serialize (claim zones digest (st_id task) n (ex_now ex (snd sw))) (fst sw) of
             (Inl e, st) \<Rightarrow> (Inl e, (st, snd sw))
           | (Inr claimed, st) \<Rightarrow>
               (case (case claimed of
                        Some run \<Rightarrow> if sr_status run = Claimed then execute ex hash run (st, snd sw) else (Inr (), (st, snd sw))
                      | None \<Rightarrow> (Inr (), (st, snd sw))) of
                  (Inl e, sw') \<Rightarrow> (Inl e, sw')
                | (Inr _, sw') \<Rightarrow> run_due zones digest ex hash tasks sw')))"

definition runTick :: "zones \<Rightarrow> digest \<Rightarrow> 'w executor \<Rightarrow> (string \<Rightarrow> string) \<Rightarrow> nat option \<Rightarrow> 'w sched_world \<Rightarrow> (string + unit) \<times> 'w sched_world" where
  "runTick zones digest ex hash catchupLimit sw =
     run_due zones digest ex hash (due (fst sw) (ex_now ex (snd sw)) (coalesce catchupLimit 10)) sw"

text \<open>A poll that fails is reported and not thrown.\<close>

definition tick :: "zones \<Rightarrow> digest \<Rightarrow> 'w executor \<Rightarrow> (string \<Rightarrow> string) \<Rightarrow> nat option \<Rightarrow> 'w sched_world \<Rightarrow> 'w sched_world" where
  "tick zones digest ex hash catchupLimit sw =
     (if ex_stopped ex (snd sw) then sw else snd (runTick zones digest ex hash catchupLimit sw))"

text \<open>\<open>lease\<close> is what \<open>store.start\<close> returns: the writer lease and the check of the state file.\<close>

definition start ::
  "string + unit \<Rightarrow> zones \<Rightarrow> digest \<Rightarrow> 'w executor \<Rightarrow> (string \<Rightarrow> string) \<Rightarrow> nat option \<Rightarrow> 'w sched_world \<Rightarrow> (string + unit) \<times> 'w sched_world" where
  "start lease zones digest ex hash catchupLimit sw =
     (case lease of
        Inl e \<Rightarrow> (Inl e, sw)
      | Inr _ \<Rightarrow>
          (case recoverClaims ex hash sw of
             (Inl e, sw') \<Rightarrow> (Inl e, sw')
           | (Inr _, sw') \<Rightarrow> (Inr (), tick zones digest ex hash catchupLimit sw')))"

section \<open>Settlement\<close>

abbreviation run_of :: "string \<Rightarrow> sched_state \<Rightarrow> ScheduledRun option" where
  "run_of i st \<equiv> find (\<lambda>r. sr_occurrenceId r = i) (s_runs st)"

text \<open>The record of an occurrence settled in place.\<close>

definition settles :: "string \<Rightarrow> sched_state \<Rightarrow> sched_state \<Rightarrow> bool" where
  "settles i st st' \<longleftrightarrow>
     (\<exists>r. sr_occurrenceId r = i \<and> sr_status r \<in> {Enqueued, RFailed, NeedsReview} \<and>
        st' = st\<lparr>s_runs := update_first (\<lambda>r. sr_occurrenceId r = i) r (s_runs st), s_revision := s_revision st + 1\<rparr>)"

lemma settlesD:
  "settles i st st' \<Longrightarrow> \<exists>r. sr_status r \<noteq> Claimed \<and> s_runs st' = update_first (\<lambda>r. sr_occurrenceId r = i) r (s_runs st)"
  unfolding settles_def by force

lemma store_finish_settles:
  assumes "run_of i st = Some run" "sr_status run = Claimed" "s \<in> {Enqueued, RFailed, NeedsReview}"
  obtains st' where "store_finish ex i s sid err (st, w) = (Inr (), (st', w))" "settles i st st'"
proof -
  have i: "sr_occurrenceId run = i" using assms(1) by (auto simp: find_Some_iff)
  let ?r = "run\<lparr>sr_status := s, sr_updatedAt := ex_now ex w, sr_sessionId := (case sid of None \<Rightarrow> sr_sessionId run | Some _ \<Rightarrow> sid),
    sr_error := (case err of None \<Rightarrow> sr_error run | Some _ \<Rightarrow> err)\<rparr>"
  let ?st = "st\<lparr>s_runs := update_first (\<lambda>r. sr_occurrenceId r = i) ?r (s_runs st)\<rparr>"
  have "serialize (finish i s sid err (ex_now ex w)) st = (Inr ?r, ?st\<lparr>s_revision := s_revision ?st + 1\<rparr>)"
    using assms unfolding serialize_Inr by (auto simp: finish_def tx_simps Let_def)
  then show ?thesis
    using assms(3) i by (intro that [of "?st\<lparr>s_revision := s_revision ?st + 1\<rparr>"]) (auto simp: store_finish_def settles_def intro!: exI [of _ ?r])
qed

lemma store_finish_missing:
  "run_of i st = None \<Longrightarrow> store_finish ex i s sid err (st, w) = (Inl ''scheduled run not found'', (st, w))"
  by (simp add: store_finish_def serialize_def run_tx_def tx_bind_def finish_def tx_gets_def tx_throw_def)

lemma uncertain_settles:
  assumes "run_of (sr_occurrenceId run) st = Some r" "sr_status r = Claimed"
  obtains st' w' where "uncertain ex hash run err (st, w) = (Inr (), (st', w'))" "settles (sr_occurrenceId run) st st'"
proof -
  obtain answer w' where a: "ex_receipt ex run (sr_task run) w = (answer, w')" by (cases "ex_receipt ex run (sr_task run) w")
  show ?thesis
    by (rule store_finish_settles [OF assms, of "if answer = Inr RCommitted then Enqueued else NeedsReview" ex "Some (run_session hash run)"
          "if answer = Inr RCommitted then None else Some (''delivery outcome uncertain: '' @ redact err)" w'])
      (use a that in \<open>auto simp: uncertain_def split: if_splits\<close>)
qed

text \<open>Executing a claimed run settles it, whatever the executor answers.\<close>

lemma execute_settles:
  assumes "run_of (sr_occurrenceId run) st = Some r" "sr_status r = Claimed"
  obtains st' w' where "execute ex hash run (st, w) = (Inr (), (st', w'))" "settles (sr_occurrenceId run) st st'"
proof -
  obtain v w1 where v: "ex_validate ex (sr_task run) w = (v, w1)" by (cases "ex_validate ex (sr_task run) w")
  obtain d w2 where d: "deliver ex hash run w1 = (d, w2)" by (cases "deliver ex hash run w1")
  show ?thesis
  proof (cases v)
    case (Inl e)
    obtain st' where "store_finish ex (sr_occurrenceId run) RFailed None (Some (redact e)) (st, w1) = (Inr (), (st', w1))"
      "settles (sr_occurrenceId run) st st'" by (rule store_finish_settles [OF assms, of RFailed]) auto
    then show ?thesis by (intro that [of st' w1]) (simp_all add: execute_def v Inl)
  next
    case ok: (Inr u)
    show ?thesis
    proof (cases d)
      case (Inl e)
      obtain st' w' where "uncertain ex hash run e (st, w2) = (Inr (), (st', w'))" "settles (sr_occurrenceId run) st st'"
        by (rule uncertain_settles [OF assms]) auto
      then show ?thesis by (intro that [of st' w']) (simp_all add: execute_def v ok d Inl)
    next
      case (Inr u')
      obtain st' where "store_finish ex (sr_occurrenceId run) Enqueued (Some (run_session hash run)) None (st, w2) = (Inr (), (st', w2))"
        "settles (sr_occurrenceId run) st st'" by (rule store_finish_settles [OF assms, of Enqueued]) auto
      then show ?thesis by (intro that [of st' w2]) (simp_all add: execute_def v ok d Inr)
    qed
  qed
qed

lemma execute_missing:
  assumes "run_of (sr_occurrenceId run) st = None"
  shows "\<exists>e w'. execute ex hash run (st, w) = (Inl e, (st, w'))"
proof -
  note m = store_finish_missing [OF assms]
  have "\<exists>e w'. uncertain ex hash run err (st, w) = (Inl e, (st, w'))" for err w
    by (auto simp: uncertain_def m split: prod.splits)
  then show ?thesis by (auto simp: execute_def m split: prod.splits sum.splits)
qed

lemma recover_run_settles:
  assumes "run_of (sr_occurrenceId run) st = Some r" "sr_status r = Claimed"
  obtains st' w' where "recover_run ex hash run (st, w) = (Inr (), (st', w'))" "settles (sr_occurrenceId run) st st'"
proof -
  obtain v w1 where v: "ex_validate ex (sr_task run) w = (v, w1)" by (cases "ex_validate ex (sr_task run) w")
  obtain a w2 where a: "ex_receipt ex run (sr_task run) w1 = (a, w2)" by (cases "ex_receipt ex run (sr_task run) w1")
  have f: "\<exists>st'. store_finish ex (sr_occurrenceId run) s sid err (st, w) = (Inr (), (st', w)) \<and> settles (sr_occurrenceId run) st st'"
    if "s \<in> {Enqueued, RFailed, NeedsReview}" for s sid err w
    using store_finish_settles [OF assms that] by metis
  have e: "\<exists>st' w'. execute ex hash run (st, w2) = (Inr (), (st', w')) \<and> settles (sr_occurrenceId run) st st'"
    using execute_settles [OF assms] by metis
  have "\<exists>st' w'. recover_run ex hash run (st, w) = (Inr (), (st', w')) \<and> settles (sr_occurrenceId run) st st'"
  proof (cases v)
    case (Inl err)
    then show ?thesis using f [of RFailed None "Some (redact err)" w1] by (auto simp: recover_run_def v)
  next
    case (Inr u)
    show ?thesis
    proof (cases "case a of Inl _ \<Rightarrow> RUnknown | Inr r \<Rightarrow> r")
      case RCommitted
      then show ?thesis using f [of Enqueued "Some (run_session hash run)" None w2] by (auto simp: recover_run_def v Inr a)
    next
      case RAbsent
      then show ?thesis using e by (auto simp: recover_run_def v Inr a)
    next
      case RUnknown
      then show ?thesis using f [of NeedsReview "Some (run_session hash run)" "Some ''operation receipt unavailable; occurrence was not replayed''" w2] by (auto simp: recover_run_def v Inr a)
    qed
  qed
  then show ?thesis using that by blast
qed

lemma find_distinct: "distinct (map key xs) \<Longrightarrow> x \<in> set xs \<Longrightarrow> find (\<lambda>r. key r = key x) xs = Some x"
  by (induction xs) (auto simp: image_iff)

lemma update_first_split: "(\<forall>a \<in> set xs. \<not> P a) \<Longrightarrow> P x \<Longrightarrow> update_first P v (xs @ x # ys) = xs @ v # ys"
  by (induction xs) auto

lemma settles_claimed:
  assumes "settles i st st'" "distinct (map sr_occurrenceId (s_runs st))" "run_of i st = Some run"
  shows "claimedRuns st' = filter (\<lambda>r. sr_occurrenceId r \<noteq> i) (claimedRuns st)" and "distinct (map sr_occurrenceId (s_runs st'))"
proof -
  obtain r where r: "sr_occurrenceId r = i" "sr_status r \<noteq> Claimed" "s_runs st' = update_first (\<lambda>r. sr_occurrenceId r = i) r (s_runs st)"
    using assms(1) by (auto simp: settles_def)
  have run: "run \<in> set (s_runs st)" "sr_occurrenceId run = i" using assms(3) by (auto simp: find_Some_iff)
  then obtain xs ys where s: "s_runs st = xs @ run # ys" by (meson split_list)
  have n: "\<forall>x \<in> set xs \<union> set ys. sr_occurrenceId x \<noteq> i"
    using assms(2) run(2) unfolding s by (auto simp: image_iff Ball_def)
  then have "s_runs st' = xs @ r # ys" unfolding r(3) s using run by (intro update_first_split) auto
  moreover have "filter (\<lambda>x. sr_occurrenceId x \<noteq> i \<and> sr_status x = Claimed) zs = filter (\<lambda>x. sr_status x = Claimed) zs"
    if "set zs \<subseteq> set xs \<union> set ys" for zs using n that by (intro filter_cong) auto
  ultimately show "claimedRuns st' = filter (\<lambda>r. sr_occurrenceId r \<noteq> i) (claimedRuns st)" and "distinct (map sr_occurrenceId (s_runs st'))"
    using assms(2) r run by (simp_all add: claimedRuns_def s conj_commute)
qed

lemma recover_all_settles:
  assumes "distinct (map sr_occurrenceId (s_runs st))" "claimedRuns st = runs"
  shows "\<exists>st' w'. recover_all ex hash runs (st, w) = (Inr (), (st', w')) \<and> claimedRuns st' = []"
  using assms
proof (induction runs arbitrary: st w)
  case Nil
  then show ?case by simp
next
  case (Cons run runs)
  have run: "run \<in> set (s_runs st)" "sr_status run = Claimed" using arg_cong [OF Cons.prems(2), of set] by (auto simp: claimedRuns_def)
  then have f: "run_of (sr_occurrenceId run) st = Some run"
    using Cons.prems(1) by (intro find_distinct)
  obtain st' w' where s: "recover_run ex hash run (st, w) = (Inr (), (st', w'))" "settles (sr_occurrenceId run) st st'"
    by (rule recover_run_settles [OF f run(2)])
  have d: "distinct (map sr_occurrenceId (run # runs))"
    using Cons.prems by (metis claimedRuns_def distinct_map_filter)
  have "claimedRuns st' = runs"
    using settles_claimed(1) [OF s(2) Cons.prems(1) f] d by (auto simp: Cons.prems(2) filter_id_conv image_iff)
  then show ?case using Cons.IH [OF settles_claimed(2) [OF s(2) Cons.prems(1) f]] s(1) by simp
qed

lemma trim_runs_filter: "\<exists>X. s_runs (trimRuns st) = filter (\<lambda>r. sr_occurrenceId r \<notin> X) (s_runs st)"
proof (cases "length (s_runs st) \<le> MAX_RUNS")
  case True
  then show ?thesis by (intro exI [of _ "{}"]) (simp add: trimRuns_def)
next
  case False
  then show ?thesis by (auto simp: trimRuns_def Let_def)
qed

text \<open>A claim made when no run is claimed, and its execution, leave no run claimed.\<close>

lemma claim_execute_settles:
  assumes "claimedRuns st = []" "serialize (claim zones digest tid sf now) st = (Inr res, st')"
  shows "(\<forall>run. res = Some run \<longrightarrow> sr_status run = Claimed \<longrightarrow> claimedRuns (fst (snd (execute ex hash run (st', w)))) = [])"
    and "(\<forall>run. res = Some run \<longrightarrow> sr_status run \<noteq> Claimed) \<Longrightarrow> claimedRuns st' = []"
proof -
  obtain s where c: "claim zones digest tid sf now st = Inr (res, s)" and st': "st' = s\<lparr>s_revision := s_revision s + 1\<rparr>"
    using assms(2) by (auto simp: serialize_Inr)
  have none: "\<forall>r \<in> set (s_runs st). sr_status r \<noteq> Claimed" using assms(1) by (auto simp: claimedRuns_def filter_empty_conv)
  from c have "(\<forall>run. res = Some run \<longrightarrow> sr_status run = Claimed \<longrightarrow> claimedRuns (fst (snd (execute ex hash run (st', w)))) = []) \<and>
    ((\<forall>run. res = Some run \<longrightarrow> sr_status run \<noteq> Claimed) \<longrightarrow> claimedRuns st' = [])"
  proof (cases rule: claim_cases)
    case kept
    have "sr_status run \<noteq> Claimed" if "res = Some run" for run
      using kept(2) that none by blast
    with assms(1) kept show ?thesis by (auto simp: st' claimedRuns_def)
  next
    case (recorded task next' ts)
    let ?run = "run_record digest task sf Claimed None now"
    obtain X where k: "s_runs s = filter (\<lambda>r. sr_occurrenceId r \<notin> X) (s_runs st @ ?run # map (skipped_run digest task now) ts)"
      using trim_runs_filter [of "st\<lparr>s_runs := s_runs st @ ?run # map (skipped_run digest task now) ts,
        s_tasks := update_first (\<lambda>t. st_id t = tid) (task\<lparr>st_nextRunAt := next', st_updatedAt := now\<rparr>) (s_tasks st)\<rparr>"]
      unfolding recorded(3) [symmetric] by auto
    define keep where "keep = (\<lambda>r :: ScheduledRun. sr_occurrenceId r \<notin> X)"
    define A B where "A = filter keep (s_runs st)" and "B = filter keep (map (skipped_run digest task now) ts)"
    have AB: "\<forall>r \<in> set A \<union> set B. sr_status r \<noteq> Claimed" "\<forall>r \<in> set A. sr_occurrenceId r \<noteq> sr_occurrenceId ?run"
      using none recorded(2,4) by (auto simp: A_def B_def find_None_iff)
    have "claimedRuns (fst (snd (execute ex hash ?run (st', w)))) = []"
    proof (cases "keep ?run")
      case True
      then have runs: "s_runs st' = A @ ?run # B" by (simp add: st' k keep_def [symmetric] A_def B_def)
      then have "run_of (sr_occurrenceId ?run) st' = Some ?run"
        using AB(2) by (auto simp: find_append_None split: option.splits dest: find_SomeD)
      then obtain t w' where t: "execute ex hash ?run (st', w) = (Inr (), (t, w'))" "settles (sr_occurrenceId ?run) st' t"
        by (rule execute_settles) auto
      from settlesD [OF t(2)] obtain r where r: "sr_status r \<noteq> Claimed"
          "s_runs t = update_first (\<lambda>r. sr_occurrenceId r = sr_occurrenceId ?run) r (s_runs st')" by blast
      have "s_runs t = A @ r # B" unfolding r(2) runs using AB(2) by (intro update_first_split) auto
      then show ?thesis using t(1) AB(1) r(1) by (auto simp: claimedRuns_def filter_empty_conv)
    next
      case False
      then have gone: "\<forall>r \<in> set (s_runs st'). sr_occurrenceId r \<noteq> sr_occurrenceId ?run" by (auto simp: st' k keep_def)
      then have "run_of (sr_occurrenceId ?run) st' = None" by (auto simp: find_None_iff)
      from execute_missing [OF this, of ex hash w] obtain e w' where "execute ex hash ?run (st', w) = (Inl e, (st', w'))" by blast
      moreover have "s_runs st' = A @ B" using False by (simp add: st' k keep_def [symmetric] A_def B_def)
      ultimately show ?thesis using AB(1) by (auto simp: claimedRuns_def filter_empty_conv)
    qed
    with recorded(5) show ?thesis by auto
  qed
  then show "(\<forall>run. res = Some run \<longrightarrow> sr_status run = Claimed \<longrightarrow> claimedRuns (fst (snd (execute ex hash run (st', w)))) = [])"
    and "(\<forall>run. res = Some run \<longrightarrow> sr_status run \<noteq> Claimed) \<Longrightarrow> claimedRuns st' = []" by blast+
qed

lemma run_due_settles: "claimedRuns (fst sw) = [] \<Longrightarrow> claimedRuns (fst (snd (run_due zones digest ex hash tasks sw))) = []"
proof (induction tasks arbitrary: sw)
  case Nil
  then show ?case by simp
next
  case (Cons task tasks)
  obtain st w where sw: "sw = (st, w)" by (cases sw)
  show ?case
  proof (cases "ex_stopped ex w \<or> st_nextRunAt task = None")
    case True
    with Cons.prems show ?thesis by (auto simp: sw)
  next
    case False
    then obtain n where n: "\<not> ex_stopped ex w" "st_nextRunAt task = Some n" by auto
    obtain r st' where c: "serialize (claim zones digest (st_id task) n (ex_now ex w)) st = (r, st')"
      by (cases "serialize (claim zones digest (st_id task) n (ex_now ex w)) st")
    show ?thesis
    proof (cases r)
      case (Inl e)
      then have "st' = st" using c by (auto simp: serialize_def elim: run_tx_cases) (metis (no_types, lifting) Inl_Inr_False Pair_inject run_tx_cases)
      with Cons.prems Inl n c show ?thesis by (simp add: sw)
    next
      case (Inr res)
      with c Cons.prems have c: "serialize (claim zones digest (st_id task) n (ex_now ex w)) st = (Inr res, st')" "claimedRuns st = []" by (simp_all add: sw)
      note ce = claim_execute_settles [OF c(2,1)]
      show ?thesis
      proof (cases "\<exists>run. res = Some run \<and> sr_status run = Claimed")
        case True
        then obtain run where run: "res = Some run" "sr_status run = Claimed" by blast
        obtain x sw' where x: "execute ex hash run (st', w) = (x, sw')" by (cases "execute ex hash run (st', w)")
        with ce(1) [of ex hash w] run have "claimedRuns (fst sw') = []" by auto
        with run x n c(1) Cons.IH [of sw'] show ?thesis by (cases x) (simp_all add: sw)
      next
        case False
        with ce(2) have "claimedRuns st' = []" by blast
        with False n c(1) Cons.IH [of "(st', w)"] show ?thesis by (cases res) (simp_all add: sw)
      qed
    qed
  qed
qed

text \<open>
  Starting the scheduler, once the lease is held, succeeds whatever the executor answers, and afterwards no
  occurrence is left claimed: the claims an earlier process left behind have been settled one by one, and
  so has every occurrence the first tick claimed.
\<close>

theorem start_leaves_no_claim:
  assumes "distinct (map sr_occurrenceId (s_runs st))"
  shows "\<exists>st' w'. start (Inr ()) zones digest ex hash limit (st, w) = (Inr (), (st', w')) \<and> claimedRuns st' = []"
proof -
  obtain st1 w1 where r: "recoverClaims ex hash (st, w) = (Inr (), (st1, w1))" "claimedRuns st1 = []"
    using recover_all_settles [OF assms refl, of ex hash w] by (auto simp: recoverClaims_def)
  obtain st2 w2 where t: "tick zones digest ex hash limit (st1, w1) = (st2, w2)" by (cases "tick zones digest ex hash limit (st1, w1)")
  have "claimedRuns (fst (tick zones digest ex hash limit (st1, w1))) = []"
    using run_due_settles [of "(st1, w1)"] r(2) by (simp add: tick_def runTick_def)
  with r t show ?thesis by (simp add: start_def)
qed

text \<open>
  As long as no occurrence is left claimed, a tick leaves none claimed, however it ends: an occurrence that
  a tick has claimed is settled before the tick goes on, on every branch of the delivery.
\<close>

theorem tick_leaves_no_claim:
  assumes "claimedRuns st = []"
  shows "claimedRuns (fst (tick zones digest ex hash limit (st, w))) = []"
  using run_due_settles [of "(st, w)"] assms by (simp add: tick_def runTick_def)

section \<open>At most one delivery\<close>

text \<open>
  What the executor promises: checking a target and reading a receipt deliver nothing, a delivery counts at
  most once for its operation, and an absent receipt means that the operation has not been delivered.
\<close>

definition executor_laws :: "'w executor \<Rightarrow> ('w \<Rightarrow> string \<Rightarrow> nat) \<Rightarrow> bool" where
  "executor_laws ex delivered \<longleftrightarrow>
     (\<forall>t w. delivered (snd (ex_validate ex t w)) = delivered w) \<and>
     (\<forall>r t w. delivered (snd (ex_receipt ex r t w)) = delivered w) \<and>
     (\<forall>r t w. fst (ex_receipt ex r t w) = Inr RAbsent \<longrightarrow> delivered w (sr_operationId r) = 0) \<and>
     (\<forall>sid p op t w. delivered (snd (ex_enqueueSession ex sid p op t w)) \<in> {delivered w, (delivered w)(op := delivered w op + 1)}) \<and>
     (\<forall>sid t op w. delivered (snd (ex_createWorkspaceSession ex sid t op w)) \<in> {delivered w, (delivered w)(op := delivered w op + 1)})"

lemma store_finish_world [simp]: "snd (snd (store_finish ex i s sid err sw)) = snd sw"
  by (simp add: store_finish_def split: prod.split)

lemma uncertain_delivered:
  "executor_laws ex delivered \<Longrightarrow> delivered (snd (snd (uncertain ex hash run err sw))) = delivered (snd sw)"
  by (auto simp: uncertain_def executor_laws_def split: prod.splits) (metis snd_conv)+

lemma deliver_delivered:
  "executor_laws ex delivered \<Longrightarrow>
   delivered (snd (deliver ex hash run w)) \<in> {delivered w, (delivered w)(sr_operationId run := delivered w (sr_operationId run) + 1)}"
  by (simp add: deliver_def executor_laws_def split: ScheduledTaskTarget.split)

lemma execute_delivered:
  assumes "executor_laws ex delivered"
  shows "delivered (snd (snd (execute ex hash run (st, w)))) \<in>
    {delivered w, (delivered w)(sr_operationId run := delivered w (sr_operationId run) + 1)}"
proof -
  obtain v w1 where v: "ex_validate ex (sr_task run) w = (v, w1)" by (cases "ex_validate ex (sr_task run) w")
  obtain d w2 where d: "deliver ex hash run w1 = (d, w2)" by (cases "deliver ex hash run w1")
  have 1: "delivered w1 = delivered w" using assms v unfolding executor_laws_def by (metis snd_conv)
  have 2: "delivered w2 \<in> {delivered w, (delivered w)(sr_operationId run := delivered w (sr_operationId run) + 1)}"
    using deliver_delivered [OF assms, of hash run w1] d 1 by simp
  obtain f sw' where f: "store_finish ex (sr_occurrenceId run) Enqueued (Some (run_session hash run)) None (st, w2) = (f, sw')"
    by (cases "store_finish ex (sr_occurrenceId run) Enqueued (Some (run_session hash run)) None (st, w2)")
  then have "snd sw' = w2" using store_finish_world by (metis snd_conv)
  with v d f 1 2 uncertain_delivered [OF assms] show ?thesis
    by (cases v; cases d; cases f) (simp_all add: execute_def)
qed

lemma recover_run_delivered:
  assumes "executor_laws ex delivered" "\<forall>op. delivered w op \<le> 1"
  shows "\<forall>op. delivered (snd (snd (recover_run ex hash run (st, w)))) op \<le> 1"
proof -
  obtain v w1 where v: "ex_validate ex (sr_task run) w = (v, w1)" by (cases "ex_validate ex (sr_task run) w")
  obtain a w2 where a: "ex_receipt ex run (sr_task run) w1 = (a, w2)" by (cases "ex_receipt ex run (sr_task run) w1")
  have 1: "delivered w1 = delivered w" using assms(1) v unfolding executor_laws_def by (metis snd_conv)
  have 2: "delivered w2 = delivered w" using assms(1) a 1 unfolding executor_laws_def by (metis snd_conv)
  have 3: "a = Inr RAbsent \<Longrightarrow> delivered w (sr_operationId run) = 0" using assms(1) a 1 unfolding executor_laws_def by (metis fst_conv)
  have "\<forall>op. delivered (snd (snd (execute ex hash run (st, w2)))) op \<le> 1" if "a = Inr RAbsent"
    using execute_delivered [OF assms(1), of hash run st w2] 3 [OF that] assms(2) by (auto simp: 2)
  then show ?thesis
    using assms(2) 1 2 by (cases v; cases a) (auto simp: recover_run_def v a split: OccurrenceReceipt.splits)
qed


text \<open>An executor that appends the delivered operations to a log, and rejects the delivery it is told to.\<close>

definition log_executor :: "string \<Rightarrow> string list executor" where
  "log_executor bad = \<lparr>ex_validate = (\<lambda>_ w. (Inr (), w)),
     ex_receipt = (\<lambda>r _ w. (Inr (if sr_operationId r \<in> set w then RCommitted else RAbsent), w)),
     ex_enqueueSession = (\<lambda>_ _ op _ w. (if op = bad then Inl ''offline'' else Inr (), w @ [op])),
     ex_createWorkspaceSession = (\<lambda>_ _ op w. (Inr (), w @ [op])), ex_now = (\<lambda>_. 9), ex_stopped = (\<lambda>_. False)\<rparr>"

definition left_claimed :: sched_state where
  "left_claimed = one_shot\<lparr>s_runs := map (\<lambda>r. r\<lparr>sr_status := Claimed\<rparr>) (s_runs one_shot)\<rparr>"


theorem start_leaves_no_claim_witness:
  "\<exists>st' w'. start (Inr ()) (\<lambda>_. None) sample_digest (log_executor ''schedule_+1'') id None (left_claimed, []) = (Inr (), (st', w')) \<and> claimedRuns st' = []"
proof (rule start_leaves_no_claim)
  show "distinct (map sr_occurrenceId (s_runs left_claimed))" by code_simp
qed

theorem tick_leaves_no_claim_witness:
  "claimedRuns (fst (tick (\<lambda>_. None) sample_digest (log_executor ''x'') id None (sample_sched, []))) = []"
  by (rule tick_leaves_no_claim) code_simp

end
