(* ===== verification/Turn_Timing.thy ===== *)
theory Turn_Timing
  imports Kernel_Types Complex_Main "HOL-Library.Multiset"
begin

text \<open>
  Timing of turns, from \<open>packages/host/src/turn-timing.ts\<close> and \<open>packages/shared/src/turn-timing.ts\<close>: the
  tracker of the active turn of every session, its recovery from the log, the summary of a finished turn.
  A timestamp is what \<open>Date.parse\<close> makes of its text: milliseconds, or nothing when the text does not
  parse; \<open>parse\<close> does it for the texts the kernel carries. An observation reads the two clocks once, as
  its arguments \<open>wall\<close> and \<open>perf\<close>.
\<close>

section \<open>Types\<close>

datatype TurnTimingStatus = TTRunning | TTCompleted | TTFailed | TTCancelled | TTInterrupted

datatype TimingSpanKind = SLlm | STool | SApproval | SCompaction | SRetry | SRecovery

datatype SpanComponent = ComponentHost | ComponentExecutor

datatype SpanStatus = SSucceeded | SFailed | SCancelled | SInterrupted

type_synonym instant = "int option"

record SpanObservation =
  sp_spanId :: string
  sp_kind :: TimingSpanKind
  sp_component :: SpanComponent
  sp_startedAt :: instant
  sp_completedAt :: instant
  sp_durationMs :: rat
  sp_status :: SpanStatus
  sp_callId :: "string option"
  sp_executorDurationMs :: "rat option"
  sp_firstTokenMs :: "rat option"

record CompletedTimingSpan = SpanObservation +
  sp_turnId :: string

record LlmTiming =
  ll_wallDurationMs :: int
  ll_requestCount :: nat
  ll_firstTokenMs :: "rat option"

record ToolTiming =
  tl_wallDurationMs :: int
  tl_aggregateDurationMs :: rat
  tl_callCount :: nat
  tl_peakConcurrency :: int
  tl_partial :: bool

record TurnTimingSummary =
  su_turnId :: string
  su_status :: TurnTimingStatus
  su_startedAt :: instant
  su_completedAt :: instant
  su_wallDurationMs :: int
  su_estimated :: bool
  su_queueDurationMs :: int
  su_activeDurationMs :: int
  su_approvalWaitMs :: int
  su_llm :: LlmTiming
  su_tools :: ToolTiming
  su_compactionDurationMs :: rat
  su_retryDurationMs :: rat
  su_recoveryDurationMs :: rat

record EventTimingMetadata =
  et_turnId :: string
  et_turnStartedAt :: "instant option"
  et_span :: "CompletedTimingSpan option"
  et_summary :: "TurnTimingSummary option"

record ActiveApproval =
  aa_startedAt :: instant
  aa_startedMono :: rat
  aa_callId :: string

record ActiveTurn =
  at_turnId :: string
  at_startedAt :: instant
  at_startedMono :: rat
  at_spans :: "CompletedTimingSpan list"
  at_queueDurationMs :: int
  at_estimated :: bool
  at_approval :: "ActiveApproval option"

text \<open>An entry of the log, as far as the tracker reads it.\<close>

record TimedEntry =
  en_event :: AgentEvent
  en_timing :: "EventTimingMetadata option"

type_synonym tracker = "(string \<times> ActiveTurn) list"

section \<open>Durations\<close>

text \<open>\<open>Math.round\<close> rounds a half upwards; nothing stands for a value that is not finite.\<close>

definition nonNegativeDuration :: "rat option \<Rightarrow> int" where
  "nonNegativeDuration v = (case v of None \<Rightarrow> 0 | Some x \<Rightarrow> max 0 \<lfloor>x + 1 / 2\<rfloor>)"

definition instant_diff :: "instant \<Rightarrow> instant \<Rightarrow> rat option" where
  "instant_diff a b = (case (a, b) of (Some x, Some y) \<Rightarrow> Some (of_int (x - y)) | _ \<Rightarrow> None)"

text \<open>The intervals of the spans that have one, in the order of their start.\<close>

definition span_interval :: "CompletedTimingSpan \<Rightarrow> (int \<times> int) option" where
  "span_interval s = (case (sp_startedAt s, sp_completedAt s) of
     (Some a, Some b) \<Rightarrow> if b \<ge> a then Some (a, b) else None | _ \<Rightarrow> None)"

definition sorted_intervals :: "CompletedTimingSpan list \<Rightarrow> (int \<times> int) list" where
  "sorted_intervals spans = sort_key fst (List.map_filter span_interval spans)"

fun union_loop :: "(int \<times> int) list \<Rightarrow> int \<Rightarrow> int \<Rightarrow> int \<Rightarrow> int" where
  "union_loop [] tot start stop = tot + (if stop \<ge> start then stop - start else 0)"
| "union_loop ((nextStart, nextEnd) # rest) tot start stop =
     (if nextStart > stop then union_loop rest (if stop \<ge> start then tot + (stop - start) else tot) nextStart nextEnd
      else union_loop rest tot start (max stop nextEnd))"

definition intervalUnion :: "CompletedTimingSpan list \<Rightarrow> int" where
  "intervalUnion spans = nonNegativeDuration (Some (of_int (union_loop (sorted_intervals spans) 0 (-1) (-1))))"

text \<open>The end points: at equal times an end comes before a start.\<close>

definition span_points :: "CompletedTimingSpan \<Rightarrow> (int \<times> int) list" where
  "span_points s = (case sp_startedAt s of None \<Rightarrow> [] | Some a \<Rightarrow> [(a, 1)]) @ (case sp_completedAt s of None \<Rightarrow> [] | Some b \<Rightarrow> [(b, -1)])"

fun peak_loop :: "(int \<times> int) list \<Rightarrow> int \<Rightarrow> int \<Rightarrow> int" where
  "peak_loop [] cur peak = peak"
| "peak_loop ((t, delta) # rest) cur peak = peak_loop rest (cur + delta) (max peak (cur + delta))"

definition peakConcurrency :: "CompletedTimingSpan list \<Rightarrow> int" where
  "peakConcurrency spans = peak_loop (sort_key fst (sort_key snd (concat (map span_points spans)))) 0 0"

definition sumKind :: "CompletedTimingSpan list \<Rightarrow> TimingSpanKind \<Rightarrow> rat" where
  "sumKind spans k = sum_list (map sp_durationMs (filter (\<lambda>s. sp_kind s = k) spans))"

section \<open>Summary\<close>

definition summarizeTurn :: "int \<Rightarrow> rat \<Rightarrow> ActiveTurn \<Rightarrow> TurnTimingStatus \<Rightarrow> TurnTimingSummary" where
  "summarizeTurn wall perf turn st =
     (let llm = filter (\<lambda>s. sp_kind s = SLlm) (at_spans turn);
          tls = filter (\<lambda>s. sp_kind s = STool) (at_spans turn);
          approval = filter (\<lambda>s. sp_kind s = SApproval) (at_spans turn);
          active = filter (\<lambda>s. sp_kind s \<noteq> SApproval) (at_spans turn)
      in \<lparr>su_turnId = at_turnId turn, su_status = st, su_startedAt = at_startedAt turn, su_completedAt = Some wall,
          su_wallDurationMs = (if at_estimated turn then nonNegativeDuration (instant_diff (Some wall) (at_startedAt turn))
            else nonNegativeDuration (Some (perf - at_startedMono turn))),
          su_estimated = at_estimated turn, su_queueDurationMs = at_queueDurationMs turn,
          su_activeDurationMs = intervalUnion active, su_approvalWaitMs = intervalUnion approval,
          su_llm = \<lparr>ll_wallDurationMs = intervalUnion llm, ll_requestCount = length llm,
            ll_firstTokenMs = (case List.map_filter sp_firstTokenMs llm of [] \<Rightarrow> None | v # _ \<Rightarrow> Some v)\<rparr>,
          su_tools = \<lparr>tl_wallDurationMs = intervalUnion tls,
            tl_aggregateDurationMs = sum_list (map (\<lambda>s. coalesce (sp_executorDurationMs s) (sp_durationMs s)) tls),
            tl_callCount = length tls, tl_peakConcurrency = peakConcurrency tls,
            tl_partial = list_ex (\<lambda>s. sp_executorDurationMs s = None) tls\<rparr>,
          su_compactionDurationMs = sumKind (at_spans turn) SCompaction, su_retryDurationMs = sumKind (at_spans turn) SRetry,
          su_recoveryDurationMs = sumKind (at_spans turn) SRecovery\<rparr>)"

text \<open>A search without regard to case for \<open>[interrupted]\<close> or \<open>[cancelled]\<close>.\<close>

definition lower_char :: "char \<Rightarrow> char" where
  "lower_char c = (let n = of_char c :: nat in if 65 \<le> n \<and> n \<le> 90 then char_of (n + 32) else c)"

definition contains :: "string \<Rightarrow> string \<Rightarrow> bool" where
  "contains s p \<longleftrightarrow> list_ex (\<lambda>k. take (length p) (drop k s) = p) [0..<Suc (length s)]"

definition message_text :: "Message \<Rightarrow> string" where
  "message_text msg = concat (List.map_filter (\<lambda>c. case c of Text t \<Rightarrow> Some t | _ \<Rightarrow> None) (msg_content msg))"

definition terminalStatus :: "AgentEvent \<Rightarrow> AgentState \<Rightarrow> TurnTimingStatus option" where
  "terminalStatus event next =
     (if kind event = cancel then Some TTCancelled
      else if kind event = llm_error \<or> status next = error_status then Some TTFailed
      else case event of
        ELlmResponse r \<Rightarrow>
          if status next = done_status
          then (let text = map lower_char (message_text (lr_message r))
                in Some (if contains text ''[interrupted]'' \<or> contains text ''[cancelled]'' then TTInterrupted else TTCompleted))
          else None
      | _ \<Rightarrow> None)"

definition timedSpan ::
  "int \<Rightarrow> rat \<Rightarrow> TimingSpanKind \<Rightarrow> string \<Rightarrow> instant \<Rightarrow> rat \<Rightarrow> SpanStatus \<Rightarrow> string option \<Rightarrow> rat option \<Rightarrow> rat option \<Rightarrow> SpanObservation" where
  "timedSpan wall perf k spanId startedAt startedMono st callId executorDurationMs firstTokenMs =
     \<lparr>sp_spanId = spanId, sp_kind = k, sp_component = ComponentHost, sp_startedAt = startedAt, sp_completedAt = Some wall,
      sp_durationMs = of_int (nonNegativeDuration (Some (perf - startedMono))), sp_status = st, sp_callId = callId,
      sp_executorDurationMs = executorDurationMs, sp_firstTokenMs = firstTokenMs\<rparr>"

section \<open>The tracker\<close>

definition has :: "tracker \<Rightarrow> string \<Rightarrow> bool" where
  "has trk sid \<longleftrightarrow> map_of trk sid \<noteq> None"

definition currentTurnId :: "tracker \<Rightarrow> string \<Rightarrow> string option" where
  "currentTurnId trk sid = map_option at_turnId (map_of trk sid)"

text \<open>The entries after the last one that carries a summary.\<close>

definition after_summary :: "TimedEntry list \<Rightarrow> TimedEntry list" where
  "after_summary entries =
     rev (takeWhile (\<lambda>e. \<not> (case en_timing e of None \<Rightarrow> False | Some m \<Rightarrow> et_summary m \<noteq> None)) (rev entries))"

definition turn_start :: "TimedEntry \<Rightarrow> bool" where
  "turn_start e \<longleftrightarrow> kind (en_event e) = user_message \<and> (case en_timing e of None \<Rightarrow> False | Some m \<Rightarrow> et_turnStartedAt m \<noteq> None)"

text \<open>How long the message of a turn waited in the queue.\<close>

definition queue_wait :: "(string \<Rightarrow> instant) \<Rightarrow> AgentEvent \<Rightarrow> instant \<Rightarrow> int" where
  "queue_wait parse event startedAt =
     (case event of
        EUserMessage m \<Rightarrow> (case truthy (um_queuedAt m) of None \<Rightarrow> 0 | Some q \<Rightarrow> nonNegativeDuration (instant_diff startedAt (parse q)))
      | _ \<Rightarrow> 0)"

definition recover :: "(string \<Rightarrow> instant) \<Rightarrow> rat \<Rightarrow> string \<Rightarrow> TimedEntry list \<Rightarrow> tracker \<Rightarrow> tracker" where
  "recover parse perf sid entries trk =
     (if has trk sid then trk
      else (let tail = after_summary entries
            in case find turn_start tail of
                 None \<Rightarrow> trk
               | Some e \<Rightarrow>
                   (case en_timing e of
                      None \<Rightarrow> trk
                    | Some m \<Rightarrow>
                        AList.update sid
                          \<lparr>at_turnId = et_turnId m, at_startedAt = the (et_turnStartedAt m), at_startedMono = perf,
                           at_spans = List.map_filter (\<lambda>e. case en_timing e of None \<Rightarrow> None | Some m \<Rightarrow> et_span m) tail,
                           at_queueDurationMs = queue_wait parse (en_event e) (the (et_turnStartedAt m)),
                           at_estimated = True, at_approval = None\<rparr> trk)))"

definition new_turn :: "(string \<Rightarrow> instant) \<Rightarrow> int \<Rightarrow> rat \<Rightarrow> string \<Rightarrow> AgentEvent \<Rightarrow> AgentState \<Rightarrow> ActiveTurn" where
  "new_turn parse wall perf sid event next =
     \<lparr>at_turnId = coalesce (case event of EUserMessage m \<Rightarrow> um_operationId m | _ \<Rightarrow> None) (''turn-'' @ sid @ ''-'' @ show_nat (cursor next)),
      at_startedAt = Some wall, at_startedMono = perf, at_spans = [],
      at_queueDurationMs = queue_wait parse event (Some wall), at_estimated = False, at_approval = None\<rparr>"

definition approval_span :: "int \<Rightarrow> rat \<Rightarrow> string \<Rightarrow> ActiveApproval \<Rightarrow> SpanStatus \<Rightarrow> CompletedTimingSpan" where
  "approval_span wall perf turnId a st =
     SpanObservation.extend (timedSpan wall perf SApproval (''approval-'' @ aa_callId a) (aa_startedAt a) (aa_startedMono a) st (Some (aa_callId a)) None None)
       \<lparr>sp_turnId = turnId\<rparr>"

text \<open>The approval that an event answers, with the status of its span.\<close>

definition answered :: "AgentEvent \<Rightarrow> ActiveTurn \<Rightarrow> (ActiveApproval \<times> SpanStatus) option" where
  "answered event turn =
     (case at_approval turn of
        None \<Rightarrow> None
      | Some a \<Rightarrow>
          (case event of
             EUserApprove c \<Rightarrow> if aa_callId a = c then Some (a, SSucceeded) else None
           | EUserReject c _ \<Rightarrow> if aa_callId a = c then Some (a, SCancelled) else None
           | _ \<Rightarrow> None))"

definition request_approval :: "Effect list \<Rightarrow> string option" where
  "request_approval effects =
     (case List.map_filter (\<lambda>e. case e of RequestApproval r \<Rightarrow> Some (ra_callId r) | _ \<Rightarrow> None) effects of [] \<Rightarrow> None | c # _ \<Rightarrow> Some c)"

definition observe ::
  "(string \<Rightarrow> instant) \<Rightarrow> int \<Rightarrow> rat \<Rightarrow> string \<Rightarrow> AgentEvent \<Rightarrow> AgentState \<Rightarrow> Effect list \<Rightarrow> SpanObservation option \<Rightarrow> tracker \<Rightarrow>
   EventTimingMetadata option \<times> tracker" where
  "observe parse wall perf sid event next effects obs trk =
     (case (case map_of trk sid of
              Some t \<Rightarrow> Some t
            | None \<Rightarrow> if kind event = user_message then Some (new_turn parse wall perf sid event next) else None) of
        None \<Rightarrow> (None, trk)
      | Some turn \<Rightarrow>
          (let span = map_option (\<lambda>s. SpanObservation.extend s \<lparr>sp_turnId = at_turnId turn\<rparr>) obs;
               turn1 = (case span of None \<Rightarrow> turn | Some s \<Rightarrow> turn\<lparr>at_spans := at_spans turn @ [s]\<rparr>);
               turn2 = (case request_approval effects of
                   Some c \<Rightarrow> if at_approval turn1 = None
                     then turn1\<lparr>at_approval := Some \<lparr>aa_startedAt = Some wall, aa_startedMono = perf, aa_callId = c\<rparr>\<rparr> else turn1
                 | None \<Rightarrow> turn1);
               (span', turn3) = (case answered event turn2 of
                   None \<Rightarrow> (span, turn2)
                 | Some (a, st) \<Rightarrow>
                     (let s = approval_span wall perf (at_turnId turn2) a st
                      in (Some s, turn2\<lparr>at_spans := at_spans turn2 @ [s], at_approval := None\<rparr>)));
               metadata = \<lparr>et_turnId = at_turnId turn3,
                 et_turnStartedAt = (if kind event = user_message then Some (at_startedAt turn3) else None),
                 et_span = span', et_summary = None\<rparr>
           in case terminalStatus event next of
                None \<Rightarrow> (Some metadata, AList.update sid turn3 trk)
              | Some terminal \<Rightarrow>
                  (let turn4 = (case at_approval turn3 of
                       None \<Rightarrow> turn3
                     | Some a \<Rightarrow> turn3\<lparr>at_spans := at_spans turn3 @ [approval_span wall perf (at_turnId turn3) a SInterrupted]\<rparr>)
                   in (Some (metadata\<lparr>et_summary := Some (summarizeTurn wall perf turn4 terminal)\<rparr>), AList.delete sid trk))))"

section \<open>The union of the intervals\<close>

definition covered :: "(int \<times> int) list \<Rightarrow> int set" where
  "covered ivs = (\<Union>(a, b) \<in> set ivs. {a..<b})"

lemma covered_simps [simp]: "covered [] = {}" "covered ((a, b) # ivs) = {a..<b} \<union> covered ivs"
  by (auto simp: covered_def)

lemma covered_above: "\<forall>(a, b) \<in> set ivs. lo \<le> a \<Longrightarrow> t \<in> covered ivs \<Longrightarrow> lo \<le> t"
  by (auto simp: covered_def)

lemma finite_covered [simp]: "finite (covered ivs)"
  by (induction ivs) auto

lemma union_loop_card:
  assumes "sorted (map fst ivs)" "\<forall>(a, b) \<in> set ivs. start \<le> a \<and> a \<le> b" "start \<le> stop"
  shows "union_loop ivs tot start stop = tot + int (card ({start..<stop} \<union> covered ivs))"
  using assms
proof (induction ivs tot start stop rule: union_loop.induct)
  case (1 tot start stop)
  then show ?case by simp
next
  case (2 nextStart nextEnd rest tot start stop)
  have later: "\<forall>(a, b) \<in> set rest. nextStart \<le> a \<and> a \<le> b" using "2.prems" by force
  show ?case
  proof (cases "nextStart > stop")
    case True
    let ?new = "{nextStart..<nextEnd} \<union> covered rest"
    have "nextStart \<le> t" if "t \<in> ?new" for t using that covered_above [of rest nextStart] later by fastforce
    then have "{start..<stop} \<inter> ?new = {}" using True by force
    then have "card ({start..<stop} \<union> ?new) = card {start..<stop} + card ?new" by (intro card_Un_disjoint) auto
    with True 2(1) [OF True _ later] "2.prems" show ?thesis by simp
  next
    case False
    have "{start..<stop} \<union> {nextStart..<nextEnd} = {start..<max stop nextEnd}" using False "2.prems" by auto
    then have "{start..<stop} \<union> covered ((nextStart, nextEnd) # rest) = {start..<max stop nextEnd} \<union> covered rest" by auto
    moreover have "start \<le> max stop nextEnd" using "2.prems" by simp
    ultimately show ?thesis using False 2(2) [OF False] "2.prems" by simp
  qed
qed

lemma nonNegativeDuration_int [simp]: "nonNegativeDuration (Some (of_int n)) = max 0 n"
proof -
  have "\<lfloor>of_int n + 1 / 2 :: rat\<rfloor> = n" by (rule floor_unique) simp_all
  then show ?thesis by (simp add: nonNegativeDuration_def)
qed

lemma set_sorted_intervals: "set (sorted_intervals spans) = {iv. \<exists>s \<in> set spans. span_interval s = Some iv}"
  by (auto simp: sorted_intervals_def List.map_filter_def) (metis (mono_tags, lifting) image_eqI mem_Collect_eq option.distinct(1) option.sel)

text \<open>
  The active time of a turn counts every millisecond once: \<open>intervalUnion\<close> is the number of milliseconds
  that lie in at least one span, however the spans overlap or nest and in whatever order they were
  recorded. Spans whose timestamps do not parse or that end before they start count for nothing.
\<close>

theorem intervalUnion_counts:
  assumes "\<forall>s \<in> set spans. \<forall>a. sp_startedAt s = Some a \<longrightarrow> 0 \<le> a"
  shows "intervalUnion spans = int (card {t. \<exists>s \<in> set spans. \<exists>a b. sp_startedAt s = Some a \<and> sp_completedAt s = Some b \<and> a \<le> t \<and> t < b})"
proof -
  let ?ivs = "sorted_intervals spans"
  have iv: "(a, b) \<in> set ?ivs \<longleftrightarrow> (\<exists>s \<in> set spans. sp_startedAt s = Some a \<and> sp_completedAt s = Some b \<and> a \<le> b)" for a b
    by (auto simp: set_sorted_intervals span_interval_def split: option.splits if_splits)
  have "union_loop ?ivs 0 (-1) (-1) = 0 + int (card ({-1..<-1} \<union> covered ?ivs))"
  proof (rule union_loop_card)
    show "sorted (map fst ?ivs)" by (simp add: sorted_intervals_def)
    show "\<forall>(a, b) \<in> set ?ivs. -1 \<le> a \<and> a \<le> b" using assms iv by fastforce
  qed simp
  moreover have "covered ?ivs = {t. \<exists>s \<in> set spans. \<exists>a b. sp_startedAt s = Some a \<and> sp_completedAt s = Some b \<and> a \<le> t \<and> t < b}"
    using iv by (fastforce simp: covered_def)
  ultimately show ?thesis unfolding intervalUnion_def nonNegativeDuration_int by simp
qed

section \<open>The peak of concurrent spans\<close>

abbreviation psum :: "(int \<times> int) list \<Rightarrow> int" where
  "psum ps \<equiv> sum_list (map snd ps)"

lemma peak_loop_mono: "peak \<le> peak_loop ps cur peak"
proof (induction ps cur peak rule: peak_loop.induct)
  case (2 t delta rest cur peak)
  then show ?case by simp
qed simp

lemma peak_loop_ge: "xs \<noteq> [] \<Longrightarrow> cur + psum xs \<le> peak_loop (xs @ ys) cur peak"
proof (induction xs arbitrary: cur peak)
  case (Cons p xs)
  obtain t delta where p: "p = (t, delta)" by (cases p)
  show ?case
  proof (cases "xs = []")
    case True
    then show ?thesis using peak_loop_mono [of "max peak (cur + delta)" ys "cur + delta"] by (simp add: p)
  next
    case False
    then show ?thesis using Cons.IH [of "cur + delta" "max peak (cur + delta)"] by (simp add: p algebra_simps)
  qed
qed simp

lemma peak_loop_attained: "peak_loop ps cur peak = peak \<or> (\<exists>xs p ys. ps = xs @ p # ys \<and> peak_loop ps cur peak = cur + psum (xs @ [p]))"
proof (induction ps cur peak rule: peak_loop.induct)
  case (2 t delta rest cur peak)
  then consider "peak_loop rest (cur + delta) (max peak (cur + delta)) = max peak (cur + delta)"
    | xs p ys where "rest = xs @ p # ys" "peak_loop rest (cur + delta) (max peak (cur + delta)) = cur + delta + psum (xs @ [p])" by blast
  then show ?case
  proof cases
    case 1
    then show ?thesis by (cases "peak \<le> cur + delta") (auto simp: max_def intro!: exI [of _ "[]"])
  next
    case (2 xs p ys)
    then show ?thesis by (intro disjI2 exI [of _ "(t, delta) # xs"] exI [of _ p] exI [of _ ys]) simp
  qed
qed simp

lemma sorted_prefix: "sorted (map f xs) \<Longrightarrow> filter (\<lambda>x. f x \<le> t) xs = takeWhile (\<lambda>x. f x \<le> (t :: 'a :: linorder)) xs"
proof (induction xs)
  case (Cons x xs)
  then show ?case by (cases xs) (auto simp: filter_empty_conv)
qed simp

definition overlap :: "CompletedTimingSpan list \<Rightarrow> int \<Rightarrow> int" where
  "overlap spans t = int (length (filter (\<lambda>s. \<exists>a b. sp_startedAt s = Some a \<and> sp_completedAt s = Some b \<and> a \<le> t \<and> t < b) spans))"

definition well_timed :: "CompletedTimingSpan \<Rightarrow> bool" where
  "well_timed s \<longleftrightarrow> (\<exists>a b. sp_startedAt s = Some a \<and> sp_completedAt s = Some b \<and> a \<le> b)"

lemma points_overlap:
  "\<forall>s \<in> set spans. well_timed s \<Longrightarrow> psum (filter (\<lambda>p. fst p \<le> t) (concat (map span_points spans))) = overlap spans t"
  by (induction spans) (auto simp: overlap_def span_points_def well_timed_def)

lemma psum_perm: "mset xs = mset ys \<Longrightarrow> psum xs = psum ys"
  by (metis mset_map sum_mset_sum_list)

text \<open>
  The peak concurrency of the tool calls is the largest number of spans open at one instant: no instant
  has more, and some instant has as many. A span that ends when another starts does not overlap it.
\<close>

theorem peakConcurrency_max:
  assumes "\<forall>s \<in> set spans. well_timed s"
  shows "(\<forall>t. overlap spans t \<le> peakConcurrency spans) \<and> (peakConcurrency spans = 0 \<or> (\<exists>t. overlap spans t = peakConcurrency spans))"
proof
  define pts where "pts = concat (map span_points spans)"
  define ps where "ps = sort_key fst (sort_key snd pts)"
  have peak: "peakConcurrency spans = peak_loop ps 0 0" by (simp add: peakConcurrency_def ps_def pts_def)
  have sum: "psum (filter (\<lambda>p. fst p \<le> t) ps) = overlap spans t" for t
    using points_overlap [OF assms, of t] psum_perm [of "filter (\<lambda>p. fst p \<le> t) ps" "filter (\<lambda>p. fst p \<le> t) pts"]
    by (simp add: ps_def flip: pts_def)
  have srt: "sorted (map fst ps)" by (simp add: ps_def)
  show le: "\<forall>t. overlap spans t \<le> peakConcurrency spans"
  proof
    fix t
    obtain ys where ys: "ps = filter (\<lambda>p. fst p \<le> t) ps @ ys" using sorted_prefix [OF srt] takeWhile_dropWhile_id by metis
    show "overlap spans t \<le> peakConcurrency spans"
      using peak_loop_ge [of "filter (\<lambda>p. fst p \<le> t) ps" 0 ys 0] peak_loop_mono [of 0 ps 0] sum [of t] ys peak by (cases "filter (\<lambda>p. fst p \<le> t) ps = []") auto
  qed
  consider "peak_loop ps 0 0 = 0" | xs p ys where "ps = xs @ p # ys" "peak_loop ps 0 0 = psum (xs @ [p])"
    using peak_loop_attained [of ps 0 0] by auto
  then show "peakConcurrency spans = 0 \<or> (\<exists>t. overlap spans t = peakConcurrency spans)"
  proof cases
    case 1
    then show ?thesis by (simp add: peak)
  next
    case (2 xs p ys)
    have delta: "snd q \<in> {1, -1}" if "q \<in> set ps" for q using that by (auto simp: ps_def pts_def span_points_def split: option.splits)
    show ?thesis
    proof (cases "snd p = 1")
      case True
      have same: "snd q = 1" if "q \<in> set ys" "fst q \<le> fst p" for q
      proof -
        have "fst q = fst p" using that srt by (auto simp: 2(1) sorted_append)
        moreover have "sorted (map snd (filter (\<lambda>x. fst x = fst p) ps))"
          unfolding ps_def sort_key_stable by (simp add: sorted_filter)
        ultimately have "snd p \<le> snd q" using that by (cases q) (auto simp: 2(1) sorted_append)
        then show ?thesis using True delta [of q] that by (auto simp: 2(1))
      qed
      have before: "filter (\<lambda>q. fst q \<le> fst p) (xs @ [p]) = xs @ [p]" using srt by (auto simp: 2(1) sorted_append filter_id_conv)
      have "0 \<le> psum (filter (\<lambda>q. fst q \<le> fst p) ys)" using same by (intro sum_list_nonneg) force
      then have "psum (xs @ [p]) \<le> overlap spans (fst p)" using sum [of "fst p"] before by (simp add: 2(1))
      with le 2(2) peak show ?thesis by (intro disjI2 exI [of _ "fst p"]) (auto intro: order_antisym)
    next
      case False
      then have "snd p = -1" using delta [of p] by (simp add: 2(1))
      then have "psum (xs @ [p]) < psum xs" by simp
      moreover have "psum xs \<le> peak_loop ps 0 0"
        using peak_loop_ge [of xs 0 "p # ys" 0] peak_loop_mono [of 0 ps 0] by (cases "xs = []") (auto simp: 2(1))
      ultimately show ?thesis using 2(2) by simp
    qed
  qed
qed

definition sample_span :: "int \<Rightarrow> int \<Rightarrow> CompletedTimingSpan" where
  "sample_span a b = SpanObservation.extend (timedSpan b 0 STool ''s'' (Some a) 0 SSucceeded None None None) \<lparr>sp_turnId = ''t''\<rparr>"

theorem intervalUnion_counts_witness:
  "intervalUnion [sample_span 10 30, sample_span 0 5, sample_span 20 40] =
     int (card {t. \<exists>s \<in> set [sample_span 10 30, sample_span 0 5, sample_span 20 40]. \<exists>a b. sp_startedAt s = Some a \<and> sp_completedAt s = Some b \<and> a \<le> t \<and> t < b})"
  by (rule intervalUnion_counts) (auto simp: sample_span_def timedSpan_def SpanObservation.defs)

theorem peakConcurrency_max_witness:
  "(\<forall>t. overlap [sample_span 10 30, sample_span 20 40] t \<le> peakConcurrency [sample_span 10 30, sample_span 20 40]) \<and>
   peakConcurrency [sample_span 10 30, sample_span 20 40] = 2"
proof
  have "\<forall>s \<in> set [sample_span 10 30, sample_span 20 40]. well_timed s"
    by (auto simp: well_timed_def sample_span_def timedSpan_def SpanObservation.defs)
  from peakConcurrency_max [OF this] show "\<forall>t. overlap [sample_span 10 30, sample_span 20 40] t \<le> peakConcurrency [sample_span 10 30, sample_span 20 40]"
    by blast
  show "peakConcurrency [sample_span 10 30, sample_span 20 40] = 2"
    by (simp add: peakConcurrency_def span_points_def sample_span_def timedSpan_def SpanObservation.defs sort_key_def)
qed

end
