(* ===== verification/Cache_Bounded.thy ===== *)
theory Cache_Bounded
  imports Kala_Prelude
begin

text \<open>
  Maps in insertion order that are pruned: entries whose time has passed are removed, then the oldest ones
  until the size is within a bound. The host's operation deduplicator and the executor's receipt store
  prune in this way, each with its own notion of a dead entry and its own bound.
\<close>

text \<open>The loop that removes the first key while the map is too large.\<close>

function evict :: "nat \<Rightarrow> 'a list \<Rightarrow> 'a list" where
  "evict cap m = (if length m > cap then evict cap (tl m) else m)"
  by pat_completeness auto
termination by (relation "measure (\<lambda>(cap, m). length m)") auto

declare evict.simps [simp del]

definition prune_entries :: "('v \<Rightarrow> bool) \<Rightarrow> nat \<Rightarrow> ('k \<times> 'v) list \<Rightarrow> ('k \<times> 'v) list" where
  "prune_entries dead cap m = evict cap (filter (\<lambda>(k, v). \<not> dead v) m)"

lemma evict_drop: "evict cap m = drop (length m - cap) m"
proof (induction cap m rule: evict.induct)
  case (1 cap m)
  show ?case
  proof (cases "length m > cap")
    case True
    then have "length m - cap = Suc (length (tl m) - cap)" by simp
    with True 1 show ?thesis by (simp add: evict.simps drop_Suc)
  next
    case False
    then show ?thesis by (simp add: evict.simps)
  qed
qed

text \<open>An entry with at most \<open>n\<close> entries after it.\<close>

definition recent :: "'k \<Rightarrow> 'v \<Rightarrow> nat \<Rightarrow> ('k \<times> 'v) list \<Rightarrow> bool" where
  "recent k v n m \<longleftrightarrow> (\<exists>xs ys. m = xs @ (k, v) # ys \<and> length ys \<le> n)"

lemma recent_last [intro]: "recent k v n (m @ [(k, v)])"
  unfolding recent_def by (intro exI [of _ m] exI [of _ "[]"]) simp

lemma recent_append: "recent k v n m \<Longrightarrow> recent k v (Suc n) (m @ [e])"
  by (fastforce simp: recent_def)

lemma recent_mono: "recent k v n m \<Longrightarrow> n \<le> n' \<Longrightarrow> recent k v n' m"
  by (fastforce simp: recent_def)

lemma recent_lookup: "recent k v n m \<Longrightarrow> distinct (map fst m) \<Longrightarrow> map_of m k = Some v"
  by (auto simp: recent_def map_of_eq_Some_iff)

lemma update_absent: "map_of m k = None \<Longrightarrow> AList.update k v m = m @ [(k, v)]"
  by (induction m) (auto split: if_splits)

locale bounded_cache =
  fixes dead :: "int \<Rightarrow> 'v \<Rightarrow> bool" and cap :: nat
  assumes dead_later: "dead t v \<Longrightarrow> t \<le> u \<Longrightarrow> dead u v" and cap_pos: "0 < cap"
begin

lemma prune_length: "length (prune_entries (dead t) cap m) \<le> cap"
  by (simp add: prune_entries_def evict_drop)

lemma prune_subset: "set (prune_entries (dead t) cap m) \<subseteq> {(k, v). (k, v) \<in> set m \<and> \<not> dead t v}"
  by (auto simp: prune_entries_def evict_drop dest: in_set_dropD)

lemma prune_keys: "fst ` set (prune_entries (dead t) cap m) \<subseteq> fst ` set m"
  using prune_subset by fastforce

lemma prune_absent: "map_of m k = None \<Longrightarrow> map_of (prune_entries (dead t) cap m) k = None"
  using prune_keys [of t m] unfolding map_of_eq_None_iff by blast

lemma prune_distinct: "distinct (map fst m) \<Longrightarrow> distinct (map fst (prune_entries (dead t) cap m))"
  by (simp add: prune_entries_def evict_drop distinct_map_filter flip: drop_map)

lemma prune_recent:
  assumes "recent k v n m" "n < cap" "\<not> dead t v"
  shows "recent k v n (prune_entries (dead t) cap m)"
proof -
  obtain xs ys where m: "m = xs @ (k, v) # ys" "length ys \<le> n" using assms(1) by (auto simp: recent_def)
  let ?f = "filter (\<lambda>(k, v). \<not> dead t v)"
  have "length (?f ys) \<le> length ys" by simp
  with m(2) assms(2) have "length (?f ys) < cap" by linarith
  then have "length (?f xs @ (k, v) # ?f ys) - cap \<le> length (?f xs)" by simp
  then have "prune_entries (dead t) cap m = drop (length (?f xs @ (k, v) # ?f ys) - cap) (?f xs) @ (k, v) # ?f ys"
    using assms(3) by (simp add: prune_entries_def evict_drop m(1))
  moreover have "length (?f ys) \<le> n" using \<open>length (?f ys) \<le> length ys\<close> m(2) by (rule le_trans)
  ultimately show ?thesis unfolding recent_def by blast
qed

text \<open>Pruning again, at the same time or later, removes nothing but entries that have died since.\<close>

lemma prune_again: "t \<le> u \<Longrightarrow> prune_entries (dead u) cap (prune_entries (dead t) cap m) = filter (\<lambda>(k, v). \<not> dead u v) (prune_entries (dead t) cap m)"
proof -
  have "length (filter (\<lambda>(k, v). \<not> dead u v) (prune_entries (dead t) cap m)) \<le> cap"
    using prune_length length_filter_le le_trans by blast
  then show ?thesis by (simp add: prune_entries_def [of "dead u"] evict_drop)
qed

end

end
