(* ===== verification/Op_Deduper.thy ===== *)
theory Op_Deduper
  imports Cache_Bounded Kala_Machines "HOL-Library.List_Lexorder" "HOL-Library.Char_ord"
begin

text \<open>
  The deduplicator of remote operations, from \<open>packages/host/src/connection/operation-deduper.ts\<close>. The method
  \<open>run\<close> has one suspension, where it waits for the operation: \<open>run_begin\<close> is what happens before it and
  \<open>run_settle\<close> what the call that started the operation does after it. A call that finds the operation in
  flight waits for the same result. The digest of a canonical payload is the parameter \<open>digest\<close>.
\<close>

section \<open>Payloads\<close>

datatype payload =
    PUndefined
  | PNull
  | PBool bool
  | PNumber js_number
  | PBigint int
  | PString string
  | PArray "payload list"
  | PObject "(string \<times> payload) list"

definition is_finite :: "js_number \<Rightarrow> bool" where
  "is_finite n = (case n of Integer _ \<Rightarrow> True | NonInteger s \<Rightarrow> s \<notin> set [''NaN'', ''Infinity'', ''-Infinity''])"

lemma payload_size: "(k, v) \<in> set fs \<Longrightarrow> size v < Suc (size_list (size_prod (\<lambda>x. 0) size) fs)"
  by (induction fs) auto

lemma payload_list_size: "v \<in> set vs \<Longrightarrow> size v < Suc (size_list size vs)"
  by (induction vs) auto

text \<open>The entries of an object in the order of their keys, without the undefined ones.\<close>

definition ordered_fields :: "(string \<times> payload) list \<Rightarrow> (string \<times> payload) list" where
  "ordered_fields fs = filter (\<lambda>(k, v). v \<noteq> PUndefined) (sort_key fst fs)"

lemma ordered_fields_subset: "(k, v) \<in> set (ordered_fields fs) \<Longrightarrow> (k, v) \<in> set fs"
  by (simp add: ordered_fields_def)

function canonicalValue :: "payload \<Rightarrow> payload" where
  "canonicalValue PUndefined = PUndefined"
| "canonicalValue PNull = PNull"
| "canonicalValue (PBool b) = PBool b"
| "canonicalValue (PNumber n) = (if is_finite n then PNumber n else PNull)"
| "canonicalValue (PBigint i) = PString (show_int i)"
| "canonicalValue (PString s) = PString s"
| "canonicalValue (PArray vs) = PArray (map (\<lambda>v. if v = PUndefined then PNull else canonicalValue v) vs)"
| "canonicalValue (PObject fs) = PObject (map (\<lambda>(k, v). (k, canonicalValue v)) (ordered_fields fs))"
  by pat_completeness auto
termination by (relation "measure size") (auto intro: payload_size payload_list_size ordered_fields_subset)

definition hashPayload :: "(payload \<Rightarrow> string) \<Rightarrow> payload \<Rightarrow> string" where
  "hashPayload digest p = digest (canonicalValue p)"

text \<open>The order in which the fields of an object were written does not matter.\<close>

lemma hashPayload_field_order:
  assumes "distinct (map fst fs)" "set gs = set fs" "distinct (map fst gs)"
  shows "hashPayload digest (PObject gs) = hashPayload digest (PObject fs)"
proof -
  have "sort_key fst gs = sort_key fst fs"
    using assms by (intro map_sorted_distinct_set_unique [of fst]) (auto simp: distinct_map)
  then show ?thesis by (simp add: hashPayload_def ordered_fields_def)
qed

section \<open>The deduplicator\<close>

record OperationScope =
  sc_principal :: string
  sc_sessionId :: string
  sc_eventKind :: string

datatype 'v RpcAck = AckOk "'v option" | AckError string

record 'v Entry =
  e_expiresAt :: int
  e_payloadHash :: string
  e_result :: "'v RpcAck"

text \<open>The text of a JSON array of four strings determines the strings.\<close>

datatype op_key = OpKey string string string string

definition operationKey :: "OperationScope \<Rightarrow> string \<Rightarrow> op_key" where
  "operationKey scope operationId = OpKey (sc_principal scope) (sc_sessionId scope) (sc_eventKind scope) operationId"

record 'v deduper =
  dd_completed :: "(op_key \<times> 'v Entry) list"
  dd_pending :: "(op_key \<times> string) list"

definition new_deduper :: "'v deduper" where
  "new_deduper = \<lparr>dd_completed = [], dd_pending = []\<rparr>"

definition MAX_COMPLETED_OPERATIONS :: nat where "MAX_COMPLETED_OPERATIONS = 2000"
definition OPERATION_TTL_MS :: int where "OPERATION_TTL_MS = 10 * 60000"

definition payloadConflict :: "'v RpcAck" where
  "payloadConflict = AckError ''operationId was already used with a different payload''"

text \<open>An operation throws its message or returns a value, possibly \<open>undefined\<close>.\<close>

definition execute_ack :: "string + 'v option \<Rightarrow> 'v RpcAck" where
  "execute_ack outcome = (case outcome of Inl message \<Rightarrow> AckError message | Inr v \<Rightarrow> AckOk v)"

definition entry_dead :: "int \<Rightarrow> 'v Entry \<Rightarrow> bool" where
  "entry_dead now e \<longleftrightarrow> e_expiresAt e \<le> now"

definition prune :: "int \<Rightarrow> 'v deduper \<Rightarrow> 'v deduper" where
  "prune now d = d\<lparr>dd_completed := prune_entries (entry_dead now) MAX_COMPLETED_OPERATIONS (dd_completed d)\<rparr>"

text \<open>
  How a call goes on: it runs the operation without an identifier, answers at once, waits for the operation
  in flight, or starts the operation.
\<close>

datatype 'v call = Direct | Answer "'v RpcAck" | Await op_key | Start op_key

definition run_begin :: "(payload \<Rightarrow> string) \<Rightarrow> int \<Rightarrow> string option \<Rightarrow> OperationScope \<Rightarrow> payload \<Rightarrow> 'v deduper \<Rightarrow> 'v call \<times> 'v deduper" where
  "run_begin digest now operationId scope payload d =
     (case truthy operationId of
        None \<Rightarrow> (Direct, d)
      | Some op \<Rightarrow>
          (let d' = prune now d; key = operationKey scope op; h = hashPayload digest payload
           in case map_of (dd_completed d') key of
                Some e \<Rightarrow> (Answer (if e_payloadHash e = h then e_result e else payloadConflict), d')
              | None \<Rightarrow>
                  (case map_of (dd_pending d') key of
                     Some h' \<Rightarrow> (if h' = h then Await key else Answer payloadConflict, d')
                   | None \<Rightarrow> (Start key, d'\<lparr>dd_pending := AList.update key h (dd_pending d')\<rparr>))))"

definition run_settle :: "int \<Rightarrow> op_key \<Rightarrow> string \<Rightarrow> string + 'v option \<Rightarrow> 'v deduper \<Rightarrow> 'v RpcAck \<times> 'v deduper" where
  "run_settle now key h outcome d =
     (let settled = execute_ack outcome;
          d1 = d\<lparr>dd_pending := AList.delete key (dd_pending d)\<rparr>;
          d2 = d1\<lparr>dd_completed := AList.update key \<lparr>e_expiresAt = now + OPERATION_TTL_MS, e_payloadHash = h, e_result = settled\<rparr> (dd_completed d1)\<rparr>
      in (settled, prune now d2))"

section \<open>Runs\<close>

datatype 'v dedup_event =
    DCall int "string option" OperationScope payload
  | DSettle int op_key string "string + 'v option"

fun dedup_step :: "(payload \<Rightarrow> string) \<Rightarrow> 'v deduper \<Rightarrow> 'v dedup_event \<Rightarrow> 'v deduper" where
  "dedup_step digest d (DCall now op scope payload) = snd (run_begin digest now op scope payload d)"
| "dedup_step digest d (DSettle now key h outcome) = snd (run_settle now key h outcome d)"

text \<open>Only an operation in flight settles, with the hash it was started with.\<close>

fun dedup_ok :: "'v deduper \<Rightarrow> 'v dedup_event \<Rightarrow> bool" where
  "dedup_ok d (DCall now op scope payload) \<longleftrightarrow> True"
| "dedup_ok d (DSettle now key h outcome) \<longleftrightarrow> map_of (dd_pending d) key = Some h"

primrec event_time :: "'v dedup_event \<Rightarrow> int" where
  "event_time (DCall now op scope payload) = now"
| "event_time (DSettle now key h outcome) = now"

primrec is_settle :: "'v dedup_event \<Rightarrow> bool" where
  "is_settle (DCall now op scope payload) \<longleftrightarrow> False"
| "is_settle (DSettle now key h outcome) \<longleftrightarrow> True"

interpretation ops: bounded_cache entry_dead MAX_COMPLETED_OPERATIONS
  by unfold_locales (auto simp: entry_dead_def MAX_COMPLETED_OPERATIONS_def)

definition dedup_inv :: "'v deduper \<Rightarrow> bool" where
  "dedup_inv d \<longleftrightarrow> distinct (map fst (dd_completed d)) \<and> distinct (map fst (dd_pending d)) \<and>
     (\<forall>key. map_of (dd_completed d) key = None \<or> map_of (dd_pending d) key = None)"

lemma prune_simps [simp]: "dd_pending (prune now d) = dd_pending d"
  "dd_completed (prune now d) = prune_entries (entry_dead now) MAX_COMPLETED_OPERATIONS (dd_completed d)"
  by (simp_all add: prune_def)

lemma prune_inv: "dedup_inv d \<Longrightarrow> dedup_inv (prune now d)"
  unfolding dedup_inv_def prune_simps by (metis ops.prune_absent ops.prune_distinct)

lemma inflight_not_completed: "dedup_inv d \<Longrightarrow> map_of (dd_pending d) key = Some h \<Longrightarrow> map_of (dd_completed d) key = None"
  unfolding dedup_inv_def by (metis option.distinct(1))

lemma begin_inv:
  assumes "dedup_inv d"
  shows "dedup_inv (snd (run_begin digest now op scope payload d))"
proof (cases "truthy op")
  case None
  with assms show ?thesis by (simp add: run_begin_def)
next
  case (Some i)
  from prune_inv [OF assms, of now] show ?thesis
    by (auto simp: run_begin_def Let_def Some dedup_inv_def update_conv' distinct_update simp del: prune_simps split: option.splits)
qed

lemma settle_inv:
  assumes "dedup_inv d"
  shows "dedup_inv (snd (run_settle now key h outcome d))"
  unfolding run_settle_def Let_def snd_conv using assms
  by (intro prune_inv) (auto simp: dedup_inv_def update_conv' delete_conv' distinct_update distinct_delete)

interpretation dedup: machine "dedup_step digest" dedup_inv for digest
proof
  fix d :: "'v deduper" and e
  show "dedup_inv d \<Longrightarrow> dedup_inv (dedup_step digest d e)" by (cases e) (simp_all add: begin_inv settle_inv)
qed

lemma begin_completed [simp]:
  "truthy op = None \<Longrightarrow> dd_completed (snd (run_begin digest now op scope payload d)) = dd_completed d"
  "truthy op = Some i \<Longrightarrow> dd_completed (snd (run_begin digest now op scope payload d)) =
     prune_entries (entry_dead now) MAX_COMPLETED_OPERATIONS (dd_completed d)"
  by (auto simp: run_begin_def Let_def split: option.splits)

lemma settle_completed:
  "map_of (dd_completed d) key = None \<Longrightarrow> dd_completed (snd (run_settle now key h outcome d)) =
     prune_entries (entry_dead now) MAX_COMPLETED_OPERATIONS
       (dd_completed d @ [(key, \<lparr>e_expiresAt = now + OPERATION_TTL_MS, e_payloadHash = h, e_result = execute_ack outcome\<rparr>)])"
  by (simp add: run_settle_def Let_def update_absent)

text \<open>An entry survives the events before it expires, as long as fewer operations have settled since than the cache holds.\<close>

lemma recent_run:
  assumes "dedup_inv d" "recent key v n (dd_completed d)" "run_guarded dedup_ok (dedup_step digest) d es"
    and "\<forall>e \<in> set es. event_time e < e_expiresAt v" "n + length (filter is_settle es) < MAX_COMPLETED_OPERATIONS"
  shows "recent key v (n + length (filter is_settle es)) (dd_completed (run_events (dedup_step digest) d es))"
  using assms
proof (induction es arbitrary: d n)
  case Nil
  then show ?case by simp
next
  case (Cons e es)
  have inv: "dedup_inv (dedup_step digest d e)" using Cons.prems(1) by (rule dedup.inv_stp)
  show ?case
  proof (cases e)
    case (DCall now op scope payload)
    have "recent key v n (dd_completed (dedup_step digest d e))"
      using Cons.prems DCall by (cases "truthy op") (auto intro!: ops.prune_recent simp: entry_dead_def)
    with Cons.IH [OF inv] Cons.prems DCall show ?thesis by simp
  next
    case (DSettle now key' h outcome)
    then have "map_of (dd_completed d) key' = None" using Cons.prems(1,3) inflight_not_completed by fastforce
    then have "recent key v (Suc n) (dd_completed (dedup_step digest d e))"
      using Cons.prems DSettle by (auto simp: settle_completed entry_dead_def intro!: ops.prune_recent recent_append)
    with Cons.IH [OF inv, of "Suc n"] Cons.prems DSettle show ?thesis by simp
  qed
qed

text \<open>
  C30: A retried operation is answered, not run again. Once an operation has settled, a call with its identifier
  within the time to live returns the recorded acknowledgement when the payload is the same and a
  conflict when it is another one, whatever calls and settlements lie in between, provided fewer
  operations have settled since than the cache keeps.
\<close>

theorem deduper_replays:
  assumes "run_guarded dedup_ok (dedup_step digest) new_deduper (past @ [DSettle t (operationKey scope op) h outcome] @ es)"
    and "\<forall>e \<in> set es. event_time e < t + OPERATION_TTL_MS" "length (filter is_settle es) < MAX_COMPLETED_OPERATIONS"
    and "op \<noteq> []" "now < t + OPERATION_TTL_MS"
  shows "fst (run_begin digest now (Some op) scope payload
      (run_events (dedup_step digest) new_deduper (past @ [DSettle t (operationKey scope op) h outcome] @ es))) =
    Answer (if hashPayload digest payload = h then execute_ack outcome else payloadConflict)"
proof -
  let ?key = "operationKey scope op"
  let ?v = "\<lparr>e_expiresAt = t + OPERATION_TTL_MS, e_payloadHash = h, e_result = execute_ack outcome\<rparr>"
  define d0 where "d0 = run_events (dedup_step digest) new_deduper past"
  define d1 where "d1 = dedup_step digest d0 (DSettle t ?key h outcome)"
  define d2 where "d2 = run_events (dedup_step digest) d1 es"
  have "dedup_inv (new_deduper :: 'a deduper)" by (simp add: dedup_inv_def new_deduper_def)
  then have inv: "dedup_inv d0" "dedup_inv d1" "dedup_inv d2" by (simp_all add: d0_def d1_def d2_def dedup.inv_run_all dedup.inv_stp del: dedup_step.simps)
  have "map_of (dd_completed d0) ?key = None" using assms(1) inflight_not_completed [OF inv(1)] by (simp add: d0_def)
  moreover have ttl: "0 < OPERATION_TTL_MS" by (simp add: OPERATION_TTL_MS_def)
  ultimately have "recent ?key ?v 0 (dd_completed d1)"
    by (auto simp: d1_def settle_completed entry_dead_def ops.cap_pos intro!: ops.prune_recent)
  moreover have "run_guarded dedup_ok (dedup_step digest) d1 es" using assms(1) by (simp add: d0_def d1_def)
  ultimately have "recent ?key ?v (length (filter is_settle es)) (dd_completed d2)"
    using recent_run [OF inv(2), of ?key ?v 0] assms(2,3) by (simp add: d2_def)
  then have "recent ?key ?v (length (filter is_settle es)) (dd_completed (prune now d2))"
    using assms(3,5) by (auto simp: entry_dead_def intro!: ops.prune_recent)
  moreover have "distinct (map fst (dd_completed (prune now d2)))" using prune_inv [OF inv(3)] by (simp add: dedup_inv_def)
  ultimately have "map_of (dd_completed (prune now d2)) ?key = Some ?v" by (rule recent_lookup)
  moreover have "run_events (dedup_step digest) new_deduper (past @ [DSettle t ?key h outcome] @ es) = d2" by (simp add: d0_def d1_def d2_def)
  ultimately show ?thesis using assms(4) by (simp add: run_begin_def truthy_def Let_def del: prune_simps)
qed

definition sample_scope :: OperationScope where
  "sample_scope = \<lparr>sc_principal = ''ann'', sc_sessionId = ''s1'', sc_eventKind = ''send''\<rparr>"

theorem deduper_replays_witness:
  "fst (run_begin (\<lambda>_. ''h'') 5 (Some ''op'') sample_scope PNull
      (run_events (dedup_step (\<lambda>_. ''h'')) new_deduper
        ([DCall 0 (Some ''op'') sample_scope PNull] @ [DSettle 1 (operationKey sample_scope ''op'') ''h'' (Inr (Some True))] @
         [DCall 2 (Some ''other'') sample_scope PNull]))) = Answer (AckOk (Some True))"
proof -
  let ?past = "[DCall 0 (Some ''op'') sample_scope PNull] :: bool dedup_event list"
  let ?es = "[DCall 2 (Some ''other'') sample_scope PNull] :: bool dedup_event list"
  have g: "run_guarded dedup_ok (dedup_step (\<lambda>_. ''h'')) new_deduper (?past @ [DSettle 1 (operationKey sample_scope ''op'') ''h'' (Inr (Some True))] @ ?es)"
    by (simp add: run_begin_def new_deduper_def truthy_def hashPayload_def Let_def prune_entries_def evict_drop)
  have "fst (run_begin (\<lambda>_. ''h'') 5 (Some ''op'') sample_scope PNull
      (run_events (dedup_step (\<lambda>_. ''h'')) new_deduper (?past @ [DSettle 1 (operationKey sample_scope ''op'') ''h'' (Inr (Some True))] @ ?es))) =
    Answer (if hashPayload (\<lambda>_. ''h'') PNull = ''h'' then execute_ack (Inr (Some True)) else payloadConflict)"
    by (rule deduper_replays [OF g]) (simp_all add: OPERATION_TTL_MS_def MAX_COMPLETED_OPERATIONS_def)
  then show ?thesis by (simp only: hashPayload_def execute_ack_def sum.case if_True simp_thms)
qed

end
