(* ===== verification/Mut_Text.thy ===== *)
theory Mut_Text
  imports Kala_Prelude
begin

text \<open>
  Texts of the executor's file mutations, from \<open>packages/executor/src/mutation/text.ts\<close>. A text is the list of
  its UTF-16 code units, so that the byte order mark can be told from a character. A file is given by the
  code units that its bytes encode, the bytes being well-formed UTF-8: \<open>decode\<close> is what \<open>TextDecoder\<close>
  makes of them, which drops a leading byte order mark.
\<close>

type_synonym units = "nat list"

definition lit :: "string \<Rightarrow> units" where
  "lit s = map of_char s"

abbreviation LF :: nat where "LF \<equiv> 10"
abbreviation CR :: nat where "CR \<equiv> 13"
abbreviation BOM :: nat where "BOM \<equiv> 65279"

section \<open>Splitting and joining\<close>

text \<open>\<open>String.prototype.split\<close> with a separator of one unit.\<close>

fun split_on :: "'a \<Rightarrow> 'a list \<Rightarrow> 'a list list" where
  "split_on c [] = [[]]"
| "split_on c (x # xs) =
     (if x = c then [] # split_on c xs else (case split_on c xs of [] \<Rightarrow> [[x]] | l # ls \<Rightarrow> (x # l) # ls))"

fun join_with :: "'a list \<Rightarrow> 'a list list \<Rightarrow> 'a list" where
  "join_with sep [] = []"
| "join_with sep [l] = l"
| "join_with sep (l # ls) = l @ sep @ join_with sep ls"

definition starts_with :: "'a list \<Rightarrow> 'a list \<Rightarrow> bool" where
  "starts_with s p \<longleftrightarrow> take (length p) s = p"

lemma split_on_nonempty [simp]: "split_on c s \<noteq> []"
  by (induction s) (auto split: list.splits)

lemma split_on_pieces: "l \<in> set (split_on c s) \<Longrightarrow> c \<notin> set l"
  by (induction s arbitrary: l) (auto split: list.splits if_splits)

lemma join_split_on: "join_with [c] (split_on c s) = s"
proof (induction s)
  case (Cons x s)
  obtain l ls where s: "split_on c s = l # ls" by (cases "split_on c s") auto
  with Cons show ?case by (cases ls) auto
qed simp

lemma split_on_piece: "c \<notin> set l \<Longrightarrow> split_on c (l @ c # s) = l # split_on c s"
  by (induction l) auto

lemma split_on_single: "c \<notin> set l \<Longrightarrow> split_on c l = [l]"
  by (induction l) auto

lemma split_join: "ls \<noteq> [] \<Longrightarrow> \<forall>l \<in> set ls. c \<notin> set l \<Longrightarrow> split_on c (join_with [c] ls) = ls"
  by (induction "[c]" ls rule: join_with.induct) (auto simp: split_on_single split_on_piece)

section \<open>Line endings\<close>

datatype LineEnding = LineLf | LineCrlf | LineMixed

text \<open>How often \<open>\r\n\<close> and how often \<open>\n\<close> without \<open>\r\<close> before it occur; \<open>prev\<close> is the unit before.\<close>

fun count_crlf :: "nat \<Rightarrow> units \<Rightarrow> nat" where
  "count_crlf prev [] = 0"
| "count_crlf prev (x # xs) = (if prev = CR \<and> x = LF then 1 else 0) + count_crlf x xs"

fun count_lf :: "nat \<Rightarrow> units \<Rightarrow> nat" where
  "count_lf prev [] = 0"
| "count_lf prev (x # xs) = (if prev \<noteq> CR \<and> x = LF then 1 else 0) + count_lf x xs"

definition detectLineEnding :: "units \<Rightarrow> LineEnding" where
  "detectLineEnding text =
     (let crlf = count_crlf 0 text; lf = count_lf 0 text
      in if crlf > 0 \<and> lf > 0 then LineMixed else if crlf > 0 then LineCrlf else LineLf)"

text \<open>\<open>replaceAll\<close> of \<open>\r\n\<close> by \<open>\n\<close>, from left to right.\<close>

fun normalizeLineEndings :: "units \<Rightarrow> units" where
  "normalizeLineEndings [] = []"
| "normalizeLineEndings [x] = [x]"
| "normalizeLineEndings (x # y # xs) =
     (if x = CR \<and> y = LF then LF # normalizeLineEndings xs else x # normalizeLineEndings (y # xs))"

definition expand_lf :: "units \<Rightarrow> units" where
  "expand_lf text = concat (map (\<lambda>x. if x = LF then [CR, LF] else [x]) text)"

definition restoreLineEndings :: "units \<Rightarrow> LineEnding \<Rightarrow> units" where
  "restoreLineEndings text ending = (if ending \<noteq> LineCrlf then text else expand_lf (normalizeLineEndings text))"

section \<open>Byte order mark\<close>

definition splitBom :: "units \<Rightarrow> bool \<times> units" where
  "splitBom text = (if starts_with text [BOM] then (True, drop 1 text) else (False, text))"

definition joinBom :: "units \<Rightarrow> bool \<Rightarrow> units" where
  "joinBom text bom = (let stripped = snd (splitBom text) in if bom then BOM # stripped else stripped)"

section \<open>Files\<close>

definition MAX_TEXT_FILE_BYTES :: nat where "MAX_TEXT_FILE_BYTES = 5 * 1024 * 1024"

text \<open>The bytes of a unit in UTF-8; each half of a surrogate pair accounts for two.\<close>

definition unit_bytes :: "nat \<Rightarrow> nat" where
  "unit_bytes u = (if u < 128 then 1 else if u < 2048 then 2 else if 55296 \<le> u \<and> u < 57344 then 2 else 3)"

definition byteLength :: "units \<Rightarrow> nat" where
  "byteLength text = sum_list (map unit_bytes text)"

text \<open>A zero byte among the first \<open>n\<close> bytes.\<close>

fun zero_within :: "nat \<Rightarrow> units \<Rightarrow> bool" where
  "zero_within n [] = False"
| "zero_within n (u # us) = (n > 0 \<and> (u = 0 \<or> zero_within (n - unit_bytes u) us))"

definition isProbablyBinary :: "units \<Rightarrow> bool" where
  "isProbablyBinary bytes = zero_within 8192 bytes"

definition decode :: "units \<Rightarrow> units" where
  "decode bytes = (if starts_with bytes [BOM] then drop 1 bytes else bytes)"

record LoadedTextFile =
  lf_bytes :: units
  lf_text :: units
  lf_body :: units
  lf_bom :: bool
  lf_lineEnding :: LineEnding

definition load_text :: "units \<Rightarrow> LoadedTextFile" where
  "load_text bytes =
     (let text = decode bytes; (bom, body) = splitBom text
      in \<lparr>lf_bytes = bytes, lf_text = text, lf_body = body, lf_bom = bom, lf_lineEnding = detectLineEnding body\<rparr>)"

definition serializeTextFile :: "units \<Rightarrow> LoadedTextFile \<Rightarrow> units" where
  "serializeTextFile bodyLf source = joinBom (restoreLineEndings bodyLf (lf_lineEnding source)) (lf_bom source)"

section \<open>Round trips\<close>

lemma normalize_no_crlf: "count_crlf p xs = 0 \<Longrightarrow> normalizeLineEndings xs = xs"
proof (induction xs arbitrary: p rule: normalizeLineEndings.induct)
  case (3 x y xs)
  from 3(3) have "\<not> (x = CR \<and> y = LF)" "count_crlf x (y # xs) = 0" by (auto split: if_splits)
  with 3(2) show ?case by simp
qed simp_all

lemma expand_lf_simps [simp]: "expand_lf [] = []" "expand_lf (x # xs) = (if x = LF then [CR, LF] else [x]) @ expand_lf xs"
  "expand_lf (xs @ ys) = expand_lf xs @ expand_lf ys"
  by (simp_all add: expand_lf_def)

lemma normalize_id: "CR \<notin> set xs \<Longrightarrow> normalizeLineEndings xs = xs"
  by (induction xs rule: normalizeLineEndings.induct) auto

text \<open>A text in which every carriage return belongs to a line end, and every line end has one.\<close>

fun crlf_only :: "units \<Rightarrow> bool" where
  "crlf_only [] = True"
| "crlf_only [x] = (x \<noteq> CR \<and> x \<noteq> LF)"
| "crlf_only (x # y # xs) = (if x = CR then y = LF \<and> crlf_only xs else x \<noteq> LF \<and> crlf_only (y # xs))"

lemma crlf_only_expand: "crlf_only xs \<Longrightarrow> expand_lf (normalizeLineEndings xs) = xs \<and> CR \<notin> set (normalizeLineEndings xs)"
  by (induction xs rule: crlf_only.induct) (auto split: if_splits)

end
