(* ===== verification/Mut_Replace.thy ===== *)
theory Mut_Replace
  imports Mut_Text
begin

text \<open>
  Exact replacement, from \<open>packages/executor/src/mutation/exact-replace.ts\<close>: counting the occurrences of a
  text, and the loop over the edits with its four refusals. The messages of the errors, and with them the
  search for similar lines, are not modelled; an error carries its code and the index of the edit.
\<close>

section \<open>Searching\<close>

text \<open>\<open>indexOf\<close> with a start position, \<open>None\<close> standing for \<open>-1\<close>.\<close>

definition indexOf :: "'a list \<Rightarrow> 'a list \<Rightarrow> nat \<Rightarrow> nat option" where
  "indexOf haystack needle start =
     find (\<lambda>k. starts_with (drop k haystack) needle) [start..<Suc (length haystack - length needle)]"

definition str_includes :: "'a list \<Rightarrow> 'a list \<Rightarrow> bool" where
  "str_includes s part \<longleftrightarrow> indexOf s part 0 \<noteq> None"

lemma starts_with_iff: "starts_with s p \<longleftrightarrow> (\<exists>r. s = p @ r)"
  unfolding starts_with_def by (metis append_eq_conv_conj append_take_drop_id)

lemma starts_with_length: "starts_with (drop k s) p \<Longrightarrow> p \<noteq> [] \<Longrightarrow> k + length p \<le> length s"
  unfolding starts_with_def by (metis add.commute diff_is_0_eq drop_all le_diff_conv2 length_drop linorder_le_cases min.absorb_iff2 min.commute length_take take_eq_Nil)

lemma indexOf_Some:
  assumes "indexOf s p i = Some k"
  shows "i \<le> k" "starts_with (drop k s) p" "k \<le> length s" "\<And>j. i \<le> j \<Longrightarrow> j < k \<Longrightarrow> \<not> starts_with (drop j s) p"
proof -
  let ?js = "[i..<Suc (length s - length p)]"
  obtain n where n: "n < length ?js" "starts_with (drop (?js ! n) s) p" "k = ?js ! n" "\<And>j. j < n \<Longrightarrow> \<not> starts_with (drop (?js ! j) s) p"
    using assms unfolding indexOf_def find_Some_iff by blast
  have k: "k = i + n" "k < Suc (length s - length p)" using n(1,3) by (auto simp del: upt_Suc)
  then show "i \<le> k" "starts_with (drop k s) p" "k \<le> length s" using n(2,3) by auto
  show "\<not> starts_with (drop j s) p" if "i \<le> j" "j < k" for j
    using n(4) [of "j - i"] that k n(1) by (simp del: upt_Suc)
qed

lemma indexOf_None: "indexOf s p i = None \<Longrightarrow> p \<noteq> [] \<Longrightarrow> i \<le> k \<Longrightarrow> \<not> starts_with (drop k s) p"
proof
  assume *: "indexOf s p i = None" "p \<noteq> []" "i \<le> k" "starts_with (drop k s) p"
  then have "k \<in> set [i..<Suc (length s - length p)]" using starts_with_length [of k s p] by (simp del: upt_Suc)
  with * show False unfolding indexOf_def find_None_iff by blast
qed

lemma indexOf_eq_Some_iff:
  assumes "p \<noteq> []"
  shows "indexOf s p i = Some k \<longleftrightarrow> i \<le> k \<and> starts_with (drop k s) p \<and> (\<forall>j. i \<le> j \<longrightarrow> j < k \<longrightarrow> \<not> starts_with (drop j s) p)"
    (is "_ \<longleftrightarrow> ?first k")
proof
  assume "indexOf s p i = Some k"
  from indexOf_Some [OF this] show "?first k" by blast
next
  assume k: "?first k"
  then obtain k' where k': "indexOf s p i = Some k'" using indexOf_None [OF _ assms] by (cases "indexOf s p i") auto
  with k indexOf_Some [OF k'] show "indexOf s p i = Some k" by (metis linorder_neqE_nat)
qed

lemma indexOf_drop: "p \<noteq> [] \<Longrightarrow> indexOf s p i = map_option ((+) i) (indexOf (drop i s) p 0)"
proof (cases "indexOf (drop i s) p 0")
  case None
  assume p: "p \<noteq> []"
  have "indexOf s p i = None"
  proof (rule ccontr)
    assume "indexOf s p i \<noteq> None"
    then obtain k where "indexOf s p i = Some k" by blast
    from indexOf_Some(1,2) [OF this] indexOf_None [OF None p, of "k - i"] show False by simp
  qed
  with None show ?thesis by simp
next
  case (Some k)
  assume p: "p \<noteq> []"
  have "\<not> starts_with (drop j s) p" if "i \<le> j" "j < i + k" for j
    using indexOf_Some(4) [OF Some, of "j - i"] that by simp
  then have "indexOf s p i = Some (i + k)"
    using indexOf_Some(2) [OF Some] unfolding indexOf_eq_Some_iff [OF p] by (simp add: add.commute)
  with Some show ?thesis by simp
qed

lemma indexOf_length: "indexOf s (c # cs) i = Some k \<Longrightarrow> i \<le> k \<and> k + Suc (length cs) \<le> length s"
  using starts_with_length [of k s "c # cs"] indexOf_Some(1,2) [of s "c # cs" i k] by simp

text \<open>
  The loop of \<open>countOccurrences\<close>. The search text is not empty, so its first unit is an argument of its own;
  the position moves past an occurrence in each round, which is why the loop ends.
\<close>

function count_loop :: "'a list \<Rightarrow> 'a \<Rightarrow> 'a list \<Rightarrow> nat \<Rightarrow> nat \<Rightarrow> nat" where
  "count_loop haystack c cs idx n =
     (case indexOf haystack (c # cs) idx of None \<Rightarrow> n
      | Some nxt \<Rightarrow> count_loop haystack c cs (nxt + Suc (length cs)) (n + 1))"
  by pat_completeness auto
termination
  by (relation "measure (\<lambda>(h, c, cs, idx, n). Suc (length h) - idx)") (auto dest!: indexOf_length)

declare count_loop.simps [simp del]

fun countOccurrences :: "'a list \<Rightarrow> 'a list \<Rightarrow> nat" where
  "countOccurrences haystack [] = 0"
| "countOccurrences haystack (c # cs) = count_loop haystack c cs 0 0"

text \<open>\<open>split\<close> with a separator of any length.\<close>

function split_str :: "'a list \<Rightarrow> 'a list \<Rightarrow> 'a list list" where
  "split_str s [] = map (\<lambda>x. [x]) s"
| "split_str s (c # cs) =
     (case indexOf s (c # cs) 0 of None \<Rightarrow> [s]
      | Some k \<Rightarrow> take k s # split_str (drop (k + Suc (length cs)) s) (c # cs))"
  by pat_completeness auto
termination by (relation "measure (\<lambda>(s, sep). length s)") (auto dest!: indexOf_length)

declare split_str.simps(2) [simp del]

section \<open>Edits\<close>

record ExactReplacement =
  er_oldString :: units
  er_newString :: units
  er_replaceAll :: bool

datatype ToolError =
    EINVAL | ECHAIN | ENOTFOUND | EAMBIG | EPATCHPARSE | E2BIG | EISDIR | EBINARY
  | ESTALE | EEXIST | ENOENT | ENOTDIR | ELOOP | EACCES | ECANCELED

text \<open>\<open>slice(0, idx)\<close> of the text before and \<open>slice(idx + length)\<close> of the text after; an index \<open>-1\<close> counts from the end.\<close>

definition replaceFirst :: "units \<Rightarrow> units \<Rightarrow> units \<Rightarrow> units" where
  "replaceFirst text oldString newString =
     (case indexOf text oldString 0 of
        None \<Rightarrow> butlast text @ newString @ drop (length oldString - 1) text
      | Some idx \<Rightarrow> take idx text @ newString @ drop (idx + length oldString) text)"

text \<open>The search text without its trailing line feeds, as the check for chained edits uses it.\<close>

definition oldStringToCheck :: "units \<Rightarrow> units" where
  "oldStringToCheck s = rev (dropWhile (\<lambda>u. u = LF) (rev s))"

text \<open>One round of the loop over the edits: the text, the counts and the texts introduced so far.\<close>

fun apply_edits :: "ExactReplacement list \<Rightarrow> nat \<Rightarrow> units \<Rightarrow> nat list \<Rightarrow> units list \<Rightarrow> (ToolError \<times> nat) + (units \<times> nat list)" where
  "apply_edits [] index text counts appliedNewStrings = Inr (text, counts)"
| "apply_edits (edit # edits) index text counts appliedNewStrings =
     (let old = er_oldString edit; new = er_newString edit; occurrences = countOccurrences text old
      in if old = [] then Inl (EINVAL, index)
         else if old = new then Inl (EINVAL, index)
         else if oldStringToCheck old \<noteq> [] \<and> list_ex (\<lambda>s. str_includes s (oldStringToCheck old)) appliedNewStrings then Inl (ECHAIN, index)
         else if occurrences = 0 then Inl (ENOTFOUND, index)
         else if \<not> er_replaceAll edit \<and> occurrences > 1 then Inl (EAMBIG, index)
         else apply_edits edits (index + 1)
           (if er_replaceAll edit then join_with new (split_str text old) else replaceFirst text old new)
           (counts @ [if er_replaceAll edit then occurrences else 1]) (appliedNewStrings @ [new]))"

definition applyExactReplacements :: "units \<Rightarrow> ExactReplacement list \<Rightarrow> (ToolError \<times> nat) + (units \<times> nat list)" where
  "applyExactReplacements original edits = apply_edits edits 0 original [] []"

section \<open>What an edit does\<close>

text \<open>
  The text cut at the occurrences of the search text that are found from left to right: the search text occurs
  first at the end of every piece but the last, and not at all in the last.
\<close>

fun leftmost :: "'a list \<Rightarrow> 'a list list \<Rightarrow> bool" where
  "leftmost p [] = False"
| "leftmost p [l] = (\<not> str_includes l p)"
| "leftmost p (l # ls) = (indexOf (l @ p) p 0 = Some (length l) \<and> leftmost p ls)"

lemma first_occurrence:
  assumes "p \<noteq> []"
  shows "indexOf (l @ p @ r) p 0 = Some (length l) \<longleftrightarrow> indexOf (l @ p) p 0 = Some (length l)"
proof -
  have "starts_with (drop j (l @ p @ r)) p \<longleftrightarrow> starts_with (drop j (l @ p)) p" if "j < length l" for j
    using that by (simp add: starts_with_def)
  then show ?thesis unfolding indexOf_eq_Some_iff [OF assms] by (simp add: starts_with_def)
qed

lemma join_with_Cons: "ls \<noteq> [] \<Longrightarrow> join_with sep (l # ls) = l @ sep @ join_with sep ls"
  by (cases ls) auto

lemma leftmost_Cons: "ls \<noteq> [] \<Longrightarrow> leftmost p (l # ls) \<longleftrightarrow> indexOf (l @ p) p 0 = Some (length l) \<and> leftmost p ls"
  by (cases ls) auto

lemma split_str_nonempty [simp]: "p \<noteq> [] \<Longrightarrow> split_str s p \<noteq> []"
  by (cases p) (auto simp: split_str.simps(2) split: option.splits)

lemma occurrence_cut: "indexOf s p 0 = Some k \<Longrightarrow> s = take k s @ p @ drop (k + length p) s"
proof -
  assume "indexOf s p 0 = Some k"
  from indexOf_Some(2) [OF this] obtain r where "drop k s = p @ r" by (auto simp: starts_with_iff)
  then show ?thesis by (metis append_eq_conv_conj append_take_drop_id drop_drop add.commute)
qed

lemma split_str_leftmost: "p \<noteq> [] \<Longrightarrow> leftmost p (split_str s p) \<and> join_with p (split_str s p) = s"
proof (induction s p rule: split_str.induct)
  case (2 s c cs)
  show ?case
  proof (cases "indexOf s (c # cs) 0")
    case None
    then show ?thesis by (simp add: split_str.simps(2) str_includes_def)
  next
    case (Some k)
    let ?p = "c # cs" and ?r = "drop (k + Suc (length cs)) s"
    note cut = occurrence_cut [OF Some] and ih = 2(1) [OF Some]
    have len: "length (take k s) = k" using indexOf_length [OF Some] by simp
    then have "indexOf (take k s @ ?p) ?p 0 = Some (length (take k s))"
      using first_occurrence [of ?p "take k s" "drop (k + length ?p) s"] Some cut by (metis list.distinct(1))
    then show ?thesis using ih cut by (simp add: split_str.simps(2) [of s] Some leftmost_Cons join_with_Cons del: append_Cons)
  qed
qed simp

lemma split_str_step: "indexOf (l @ p @ r) p 0 = Some (length l) \<Longrightarrow> p \<noteq> [] \<Longrightarrow> split_str (l @ p @ r) p = l # split_str r p"
  by (cases p) (auto simp: split_str.simps(2) [of "l @ _"])

lemma leftmost_split: "p \<noteq> [] \<Longrightarrow> leftmost p ls \<Longrightarrow> split_str (join_with p ls) p = ls"
proof (induction ls rule: induct_list012)
  case (2 l)
  then show ?case by (cases p) (auto simp: split_str.simps(2) str_includes_def)
next
  case (3 l l' ls)
  have "indexOf (l @ p @ join_with p (l' # ls)) p 0 = Some (length l)" using 3(3,4) by (simp add: first_occurrence)
  with 3 show ?case by (simp add: split_str_step join_with_Cons)
qed simp

lemma count_loop_split: "count_loop s c cs i n + 1 = n + length (split_str (drop i s) (c # cs))"
proof (induction s c cs i n rule: count_loop.induct)
  case (1 s c cs i n)
  show ?case
  proof (cases "indexOf (drop i s) (c # cs) 0")
    case None
    then show ?thesis by (simp add: count_loop.simps [of s c cs i n] split_str.simps(2) indexOf_drop [of _ s i])
  next
    case (Some k)
    then have *: "indexOf s (c # cs) i = Some (i + k)" by (simp add: indexOf_drop [of _ s i])
    from 1 [OF *] Some * show ?thesis
      by (simp add: count_loop.simps [of s c cs i n] split_str.simps(2) [of "drop i s"] add.commute add.left_commute)
  qed
qed

lemma countOccurrences_split: "p \<noteq> [] \<Longrightarrow> countOccurrences s p + 1 = length (split_str s p)"
  using count_loop_split [of s _ _ 0 0] by (cases p) auto

text \<open>
  A single edit: the text is the pieces joined by the search text, the result the same pieces joined by the
  replacement, and without \<open>replaceAll\<close> there are two pieces.
\<close>

definition edit_spec :: "ExactReplacement \<Rightarrow> units \<Rightarrow> nat \<Rightarrow> units \<Rightarrow> bool" where
  "edit_spec e text n result \<longleftrightarrow>
     er_oldString e \<noteq> [] \<and> er_oldString e \<noteq> er_newString e \<and> 0 < n \<and> (er_replaceAll e \<or> n = 1) \<and>
     (\<exists>pieces. length pieces = Suc n \<and> leftmost (er_oldString e) pieces \<and>
        text = join_with (er_oldString e) pieces \<and> result = join_with (er_newString e) pieces)"

text \<open>
  A sequence of edits: each works on the result of the one before, and none looks for a text that one of the
  earlier replacements contains.
\<close>

inductive edits_chain :: "units list \<Rightarrow> ExactReplacement list \<Rightarrow> units \<Rightarrow> nat list \<Rightarrow> units \<Rightarrow> bool" where
  chain_done: "edits_chain introduced [] text [] text"
| chain_edit: "edit_spec e text n text1 \<Longrightarrow>
    \<not> (oldStringToCheck (er_oldString e) \<noteq> [] \<and> (\<exists>s \<in> set introduced. str_includes s (oldStringToCheck (er_oldString e)))) \<Longrightarrow>
    edits_chain (introduced @ [er_newString e]) es text1 ns result \<Longrightarrow> edits_chain introduced (e # es) text (n # ns) result"

inductive_simps chain_Nil: "edits_chain introduced [] text ns result"
inductive_simps chain_Cons: "edits_chain introduced (e # es) text ns result"

lemma edit_spec_iff:
  "edit_spec e text n result \<longleftrightarrow>
     er_oldString e \<noteq> [] \<and> er_oldString e \<noteq> er_newString e \<and> 0 < n \<and> (er_replaceAll e \<or> n = 1) \<and>
     countOccurrences text (er_oldString e) = n \<and> result = join_with (er_newString e) (split_str text (er_oldString e))"
proof (cases "er_oldString e = []")
  case False
  let ?p = "er_oldString e"
  have "(\<exists>pieces. length pieces = Suc n \<and> leftmost ?p pieces \<and> text = join_with ?p pieces \<and> result = join_with (er_newString e) pieces)
      \<longleftrightarrow> countOccurrences text ?p = n \<and> result = join_with (er_newString e) (split_str text ?p)" (is "?L \<longleftrightarrow> ?R")
  proof
    assume ?L
    then obtain ps where ps: "length ps = Suc n" "leftmost ?p ps" "text = join_with ?p ps" "result = join_with (er_newString e) ps" by blast
    have "split_str text ?p = ps" unfolding ps(3) by (rule leftmost_split [OF False ps(2)])
    with ps(1,4) countOccurrences_split [OF False, of "text"] show ?R by simp
  next
    assume ?R
    with split_str_leftmost [OF False, of "text"] countOccurrences_split [OF False, of "text"] show ?L
      by (intro exI [of _ "split_str text ?p"]) simp
  qed
  then show ?thesis by (simp add: edit_spec_def)
qed (simp add: edit_spec_def)

lemma replaceFirst_join:
  assumes "countOccurrences text p = 1" "p \<noteq> []"
  shows "replaceFirst text p new = join_with new (split_str text p)"
proof -
  have "length (split_str text p) = Suc (Suc 0)" using countOccurrences_split [OF assms(2), of "text"] assms(1) by simp
  then obtain l r where s: "split_str text p = [l, r]" by (auto simp: length_Suc_conv)
  with split_str_leftmost [OF assms(2), of "text"] have t: "text = l @ p @ r" and "indexOf (l @ p) p 0 = Some (length l)" by auto
  then have "indexOf text p 0 = Some (length l)" by (simp add: first_occurrence [OF assms(2)])
  with s t show ?thesis by (simp add: replaceFirst_def)
qed

lemma apply_edits_chain:
  "apply_edits es i text counts introduced = Inr (result, ns) \<longleftrightarrow>
   (\<exists>ms. ns = counts @ ms \<and> edits_chain introduced es text ms result)"
proof (induction es i "text" counts introduced rule: apply_edits.induct)
  case (1 i w counts introduced)
  then show ?case by (auto simp: chain_Nil)
next
  case (2 e es i w counts introduced)
  let ?old = "er_oldString e" and ?new = "er_newString e" and ?n = "countOccurrences w (er_oldString e)"
  let ?chained = "oldStringToCheck ?old \<noteq> [] \<and> list_ex (\<lambda>s. str_includes s (oldStringToCheck ?old)) introduced"
  let ?ok = "?old \<noteq> [] \<and> ?old \<noteq> ?new \<and> \<not> ?chained \<and> 0 < ?n \<and> (er_replaceAll e \<or> ?n = 1)"
  let ?r = "join_with ?new (split_str w ?old)"
  show ?case
  proof (cases ?ok)
    case True
    then have "(if er_replaceAll e then ?r else replaceFirst w ?old ?new) = ?r"
      "(if er_replaceAll e then ?n else 1) = ?n" by (auto simp: replaceFirst_join)
    then have "apply_edits (e # es) i w counts introduced = apply_edits es (i + 1) ?r (counts @ [?n]) (introduced @ [?new])"
      "apply_edits es (i + 1) ?r (counts @ [?n]) (introduced @ [?new]) = Inr (result, ns) \<longleftrightarrow>
       (\<exists>ms. ns = (counts @ [?n]) @ ms \<and> edits_chain (introduced @ [?new]) es ?r ms result)"
      using True 2 [OF refl refl refl] by (auto simp: Let_def)
    then show ?thesis using True by (auto simp: chain_Cons edit_spec_iff list_ex_iff)
  next
    case False
    then have "isl (apply_edits (e # es) i w counts introduced)" by (auto simp: Let_def split: if_splits)
    moreover have "\<not> edits_chain introduced (e # es) w ms result" for ms
      using False by (auto simp: chain_Cons edit_spec_iff list_ex_iff)
    ultimately show ?thesis by (metis sum.disc(2))
  qed
qed

text \<open>
  C17: A list of edits succeeds exactly when each of its edits, in order, finds its search text in the current text
  (once, unless it replaces all) and introduces no text that a later one looks for; the result is then the
  current text with precisely those occurrences replaced and everything between them unchanged.
\<close>

theorem exact_replacements_correct:
  "applyExactReplacements text es = Inr (result, ns) \<longleftrightarrow> edits_chain [] es text ns result"
  by (simp add: applyExactReplacements_def apply_edits_chain)

end
