(* ===== verification/Exec_Sandbox.thy ===== *)
theory Exec_Sandbox
  imports Mut_Replace "HOL-Library.Sublist"
begin

text \<open>
  The executor's sandbox, from \<open>packages/executor/src/sandbox.ts\<close>: a path given by a caller is made canonical and
  must then lie under one of the configured roots. The file system is the part of the operating system that
  the code relies on: a map from paths to directories, files and symbolic links, with the walk of POSIX path
  resolution. A path is the list of its segments; a string is cut at the slashes, empty segments being
  dropped, as \<open>resolve\<close>, \<open>dirname\<close> and the operating system treat it. The platform is a POSIX one.
\<close>

type_synonym path = "string list"

datatype node = Dir | File units | Link bool path

type_synonym fs = "path \<Rightarrow> node option"

definition segments :: "string \<Rightarrow> path" where
  "segments s = filter (\<lambda>p. p \<noteq> []) (split_on (CHR ''/'') s)"

definition render :: "path \<Rightarrow> string" where
  "render p = (if p = [] then ''/'' else concat (map (\<lambda>s. CHR ''/'' # s) p))"

section \<open>Path resolution\<close>

text \<open>
  The walk along the segments from a directory. Links are followed, as many as the limit allows; with
  \<open>create\<close> the last name may be missing, as for a file that is opened to be created.
\<close>

function walk :: "fs \<Rightarrow> bool \<Rightarrow> nat \<Rightarrow> path \<Rightarrow> path \<Rightarrow> ToolError + path" where
  "walk fs create n base [] = Inr base"
| "walk fs create n base (s # rest) =
     (if s = '''' \<or> s = ''.'' then walk fs create n base rest
      else if s = ''..'' then walk fs create n (butlast base) rest
      else (case fs (base @ [s]) of
              None \<Rightarrow> if create \<and> rest = [] then Inr (base @ [s]) else Inl ENOENT
            | Some Dir \<Rightarrow> walk fs create n (base @ [s]) rest
            | Some (File c) \<Rightarrow> if rest = [] then Inr (base @ [s]) else Inl ENOTDIR
            | Some (Link absolute target) \<Rightarrow>
                if n = 0 then Inl ELOOP
                else walk fs create (n - 1) (if absolute then [] else base) (target @ rest)))"
  by pat_completeness auto
termination by (relation "measures [\<lambda>(fs, create, n, base, segs). n, \<lambda>(fs, create, n, base, segs). length segs]") auto

declare walk.simps(2) [simp del]

definition LINK_LIMIT :: nat where "LINK_LIMIT = 40"

definition realpath :: "fs \<Rightarrow> path \<Rightarrow> ToolError + path" where
  "realpath fs p = walk fs False LINK_LIMIT [] p"

definition existsSync :: "fs \<Rightarrow> path \<Rightarrow> bool" where
  "existsSync fs p \<longleftrightarrow> \<not> isl (realpath fs p)"

text \<open>\<open>path.resolve\<close> on segments: the dots are removed without looking at the file system.\<close>

fun resolve_segs :: "path \<Rightarrow> path \<Rightarrow> path" where
  "resolve_segs base [] = base"
| "resolve_segs base (s # rest) =
     resolve_segs (if s = '''' \<or> s = ''.'' then base else if s = ''..'' then butlast base else base @ [s]) rest"

section \<open>The sandbox\<close>

definition isPathInsideRoot :: "string \<Rightarrow> string \<Rightarrow> bool" where
  "isPathInsideRoot candidate root \<longleftrightarrow>
     candidate = root \<or> starts_with candidate (if root \<noteq> [] \<and> last root = CHR ''/'' then root else root @ ''/'')"

text \<open>The loop that climbs to the nearest existing ancestor; \<open>parts\<close> are the names climbed over, the last one first.\<close>

function canonicalize_loop :: "fs \<Rightarrow> path \<Rightarrow> path \<Rightarrow> path \<Rightarrow> path" where
  "canonicalize_loop fs p cur parts =
     (case realpath fs cur of
        Inr base \<Rightarrow> resolve_segs base (rev parts)
      | Inl e \<Rightarrow> if cur = [] then p else canonicalize_loop fs p (butlast cur) (parts @ [last cur]))"
  by pat_completeness auto
termination by (relation "measure (\<lambda>(fs, p, cur, parts). length cur)") auto

declare canonicalize_loop.simps [simp del]

definition canonicalizeMaybeMissing :: "fs \<Rightarrow> path \<Rightarrow> path" where
  "canonicalizeMaybeMissing fs p = (case realpath fs p of Inr q \<Rightarrow> q | Inl e \<Rightarrow> canonicalize_loop fs p p [])"

definition canonicalizeRootSync :: "fs \<Rightarrow> path \<Rightarrow> path" where
  "canonicalizeRootSync fs p = (case realpath fs p of Inr q \<Rightarrow> q | Inl e \<Rightarrow> canonicalize_loop fs p p [])"

definition isAbsolute :: "string \<Rightarrow> bool" where
  "isAbsolute s \<longleftrightarrow> starts_with s ''/''"

text \<open>The roots of a sandbox, refused when one of them is not absolute.\<close>

definition createSandbox :: "fs \<Rightarrow> string list \<Rightarrow> path list option" where
  "createSandbox fs roots =
     (if list_all isAbsolute roots then Some (map (\<lambda>r. canonicalizeRootSync fs (resolve_segs [] (segments r))) roots) else None)"

text \<open>\<open>resolve(base, input)\<close>, where a relative base is taken from the directory of the process.\<close>

definition absolute_path :: "path \<Rightarrow> path list \<Rightarrow> string option \<Rightarrow> string \<Rightarrow> path" where
  "absolute_path process_cwd roots cwd input =
     (if isAbsolute input then segments input
      else (let base = (case cwd of
                  Some d \<Rightarrow> (if isAbsolute d then resolve_segs [] (segments d) else resolve_segs process_cwd (segments d))
                | None \<Rightarrow> (case roots of r # _ \<Rightarrow> r | [] \<Rightarrow> process_cwd))
            in resolve_segs base (segments input)))"

definition sandbox_resolve :: "fs \<Rightarrow> path \<Rightarrow> path list \<Rightarrow> string option \<Rightarrow> string \<Rightarrow> ToolError + path" where
  "sandbox_resolve fs process_cwd roots cwd input =
     (if input = [] then Inl EACCES
      else (let canonical = canonicalizeMaybeMissing fs (absolute_path process_cwd roots cwd input)
            in if roots = [] then Inr canonical
               else if list_ex (\<lambda>root. isPathInsideRoot (render canonical) (render root)) roots then Inr canonical
               else Inl EACCES))"

section \<open>The walk\<close>

definition name_ok :: "string \<Rightarrow> bool" where
  "name_ok s \<longleftrightarrow> s \<noteq> '''' \<and> s \<noteq> ''.'' \<and> s \<noteq> ''..''"

text \<open>A path without dots all of whose prefixes are directories, and one whose last name may be a file.\<close>

definition real_dir :: "fs \<Rightarrow> path \<Rightarrow> bool" where
  "real_dir fs b \<longleftrightarrow> (\<forall>s \<in> set b. name_ok s) \<and> (\<forall>k. 0 < k \<longrightarrow> k \<le> length b \<longrightarrow> fs (take k b) = Some Dir)"

definition real_path :: "fs \<Rightarrow> path \<Rightarrow> bool" where
  "real_path fs q \<longleftrightarrow> real_dir fs q \<or> (q \<noteq> [] \<and> real_dir fs (butlast q) \<and> name_ok (last q) \<and> (\<exists>c. fs q = Some (File c)))"

lemma real_dir_Nil [simp]: "real_dir fs []"
  by (simp add: real_dir_def)

lemma real_dir_snoc: "real_dir fs (b @ [s]) \<longleftrightarrow> real_dir fs b \<and> name_ok s \<and> fs (b @ [s]) = Some Dir"
  by (auto simp: real_dir_def le_Suc_eq)

lemma real_dir_append: "real_dir fs (b @ c) \<Longrightarrow> real_dir fs b"
  by (induction c rule: rev_induct) (auto simp: real_dir_snoc simp flip: append_assoc)

lemma real_dir_butlast: "real_dir fs b \<Longrightarrow> real_dir fs (butlast b)"
  by (cases b rule: rev_cases) (auto simp: real_dir_snoc)

lemma walk_name:
  "name_ok s \<Longrightarrow> walk fs create n base (s # rest) =
     (case fs (base @ [s]) of
              None \<Rightarrow> if create \<and> rest = [] then Inr (base @ [s]) else Inl ENOENT
            | Some Dir \<Rightarrow> walk fs create n (base @ [s]) rest
            | Some (File c) \<Rightarrow> if rest = [] then Inr (base @ [s]) else Inl ENOTDIR
            | Some (Link absolute target) \<Rightarrow>
                if n = 0 then Inl ELOOP
                else walk fs create (n - 1) (if absolute then [] else base) (target @ rest))"
  by (simp add: walk.simps(2) name_ok_def)

lemma walk_dots: "s = '''' \<or> s = ''.'' \<Longrightarrow> walk fs create n base (s # rest) = walk fs create n base rest"
  "walk fs create n base (''..'' # rest) = walk fs create n (butlast base) rest"
  by (auto simp: walk.simps(2))

lemma name_cases:
  obtains (skip) "s = '''' \<or> s = ''.''" | (up) "s = ''..''" | (name) "name_ok s"
  by (auto simp: name_ok_def)

lemma walk_real: "real_dir fs base \<Longrightarrow> walk fs False n base segs = Inr q \<Longrightarrow> real_path fs q"
proof (induction fs "False" n base segs rule: walk.induct)
  case (2 fs n base s rest)
  show ?case
  proof (cases s rule: name_cases)
    case name
    then show ?thesis using 2 by (auto simp: walk_name real_path_def real_dir_snoc name_ok_def split: option.splits node.splits if_splits)
  qed (use 2 in \<open>auto simp: walk_dots real_dir_butlast\<close>)
qed (simp add: real_path_def)

lemma walk_dir: "real_dir fs (b @ c) \<Longrightarrow> walk fs create n b (c @ rest) = walk fs create n (b @ c) rest"
proof (induction c arbitrary: b)
  case (Cons s c)
  then have "real_dir fs (b @ [s])" using real_dir_append [of fs "b @ [s]" c] by simp
  with Cons show ?case by (simp add: walk_name real_dir_snoc)
qed simp

lemma walk_id: "real_path fs q \<Longrightarrow> walk fs False n [] q = Inr q"
proof (cases "real_dir fs q")
  case True
  then show ?thesis using walk_dir [of fs "[]" q False n "[]"] by simp
next
  case False
  assume "real_path fs q"
  with False obtain c where *: "q \<noteq> []" "real_dir fs (butlast q)" "name_ok (last q)" "fs q = Some (File c)" by (auto simp: real_path_def)
  then show ?thesis using walk_dir [of fs "[]" "butlast q" False n "[last q]"] by (simp add: walk_name)
qed

text \<open>More links allowed do not change a walk that succeeds, and what follows is walked from its end.\<close>

lemma walk_fuel: "walk fs create n b segs = Inr q \<Longrightarrow> walk fs create (n + d) b segs = Inr q"
proof (induction fs create n b segs rule: walk.induct)
  case (2 fs create n base s rest)
  show ?case
  proof (cases s rule: name_cases)
    case name
    then show ?thesis using 2 by (auto simp: walk_name name_ok_def split: option.splits node.splits if_splits)
  qed (use 2 in \<open>auto simp: walk_dots\<close>)
qed simp

lemma walk_prefix: "walk fs False n b (xs @ ys) = Inr q \<Longrightarrow> \<exists>q'. walk fs False n b xs = Inr q'"
proof (induction fs "False" n b xs rule: walk.induct)
  case (2 fs n base s rest)
  show ?case
  proof (cases s rule: name_cases)
    case name
    then show ?thesis using 2 by (auto simp: walk_name name_ok_def split: option.splits node.splits if_splits)
  qed (use 2 in \<open>auto simp: walk_dots\<close>)
qed simp

lemma walk_rest:
  "real_dir fs b \<Longrightarrow> walk fs False n b xs = Inr q \<Longrightarrow> real_dir fs q \<Longrightarrow>
   \<exists>m \<le> n. \<forall>d ys. walk fs False (n + d) b (xs @ ys) = walk fs False (m + d) q ys"
proof (induction fs "False" n b xs rule: walk.induct)
  case (2 fs n base s rest)
  show ?case
  proof (cases s rule: name_cases)
    case name
    show ?thesis
    proof (cases "\<exists>a t. fs (base @ [s]) = Some (Link a t)")
      case True
      then obtain a t where l: "fs (base @ [s]) = Some (Link a t)" by blast
      with name 2(6) have n: "n \<noteq> 0" and w: "walk fs False (n - 1) (if a then [] else base) (t @ rest) = Inr q"
        by (auto simp: walk_name split: if_splits)
      have "real_dir fs (if a then [] else base)" using 2(5) by simp
      with name l n w 2(4,7) obtain m where
        m: "m \<le> n - 1" "\<And>d ys. walk fs False (n - 1 + d) (if a then [] else base) ((t @ rest) @ ys) = walk fs False (m + d) q ys"
        unfolding name_ok_def by blast
      have "walk fs False (n + d) base ((s # rest) @ ys) = walk fs False (m + d) q ys" for d ys
        using m(2) [of d ys] n name l by (simp add: walk_name)
      with m(1) show ?thesis by (intro exI [of _ m]) auto
    next
      case False
      have "\<not> real_dir fs (base @ [s])" if "fs (base @ [s]) = Some (File c)" for c using that by (simp add: real_dir_snoc)
      with False name 2 show ?thesis by (auto simp: walk_name real_dir_snoc name_ok_def split: option.splits node.splits if_splits)
    qed
  qed (use 2 in \<open>auto simp: walk_dots real_dir_butlast\<close>)
qed auto

section \<open>The containment check\<close>

definition clean :: "path \<Rightarrow> bool" where
  "clean p \<longleftrightarrow> (\<forall>s \<in> set p. name_ok s \<and> CHR ''/'' \<notin> set s)"

abbreviation slashed :: "path \<Rightarrow> string" where
  "slashed p \<equiv> concat (map (\<lambda>s. CHR ''/'' # s) p)"

lemma clean_simps [simp]: "clean []" "clean (s # p) \<longleftrightarrow> name_ok s \<and> CHR ''/'' \<notin> set s \<and> clean p" "clean (p @ q) \<longleftrightarrow> clean p \<and> clean q"
  by (auto simp: clean_def)

lemma segment_eq:
  "CHR ''/'' \<notin> set a \<Longrightarrow> CHR ''/'' \<notin> set b \<Longrightarrow> a @ x = b @ y \<Longrightarrow> x = [] \<or> hd x = CHR ''/'' \<Longrightarrow> y = [] \<or> hd y = CHR ''/'' \<Longrightarrow> a = b \<and> x = y"
proof (induction a arbitrary: b)
  case Nil
  then show ?case by (cases b) auto
next
  case (Cons c a)
  then show ?case by (cases b) auto
qed

lemma slashed_hd: "slashed p = [] \<or> hd (slashed p) = CHR ''/''" "hd (slashed p @ CHR ''/'' # z) = CHR ''/''"
  by (cases p; simp)+

lemma slashed_inj: "clean p \<Longrightarrow> clean r \<Longrightarrow> slashed p = slashed r \<longleftrightarrow> p = r"
proof (induction p arbitrary: r)
  case Nil
  then show ?case by (cases r) auto
next
  case (Cons a p)
  then show ?case
    using segment_eq [of a "hd r" "slashed p" "slashed (tl r)"] slashed_hd(1) by (cases r) auto
qed

lemma slashed_prefix: "clean p \<Longrightarrow> clean r \<Longrightarrow> slashed p = slashed r @ CHR ''/'' # z \<Longrightarrow> prefix r p"
proof (induction r arbitrary: p)
  case (Cons a r)
  then show ?case
    using segment_eq [of "hd p" a "slashed (tl p)" "slashed r @ CHR ''/'' # z"] slashed_hd by (cases p) auto
qed simp

lemma clean_last: "clean r \<Longrightarrow> r \<noteq> [] \<Longrightarrow> last (slashed r) \<noteq> CHR ''/''"
proof (induction r rule: rev_induct)
  case (snoc s r)
  then have "s \<noteq> []" "last s \<noteq> CHR ''/''" by (auto simp: name_ok_def) (metis last_in_set)
  then show ?case by simp
qed simp

text \<open>The check on strings is the prefix order on the segments.\<close>

lemma inside_root_iff:
  assumes "clean p" "clean r"
  shows "isPathInsideRoot (render p) (render r) \<longleftrightarrow> prefix r p"
proof (cases "r = []")
  case True
  then show ?thesis by (auto simp: isPathInsideRoot_def render_def starts_with_iff neq_Nil_conv)
next
  case False
  then have r: "render r = slashed r" "render r \<noteq> []" "last (render r) \<noteq> CHR ''/''"
    using clean_last [OF assms(2)] by (auto simp: render_def)
  have p: "render p = slashed p" if "p \<noteq> []" using that by (simp add: render_def)
  show ?thesis
  proof
    assume "prefix r p"
    then obtain t where t: "p = r @ t" by (auto simp: prefix_def)
    with False r p show "isPathInsideRoot (render p) (render r)"
      by (cases t) (auto simp: isPathInsideRoot_def starts_with_iff)
  next
    assume inside: "isPathInsideRoot (render p) (render r)"
    have "p \<noteq> []"
    proof
      assume "p = []"
      with inside r have "slashed r = ''/'' \<or> (\<exists>t. ''/'' = slashed r @ ''/'' @ t)"
        by (auto simp: isPathInsideRoot_def render_def starts_with_iff)
      with r False show False by (cases r) auto
    qed
    with inside r p consider "slashed p = slashed r" | z where "slashed p = slashed r @ CHR ''/'' # z"
      by (auto simp: isPathInsideRoot_def starts_with_iff)
    then show "prefix r p"
      by cases (use assms slashed_inj slashed_prefix in auto)
  qed
qed

definition links_clean :: "fs \<Rightarrow> bool" where
  "links_clean fs \<longleftrightarrow> (\<forall>p a t. fs p = Some (Link a t) \<longrightarrow> (\<forall>s \<in> set t. CHR ''/'' \<notin> set s))"

lemma walk_clean:
  "links_clean fs \<Longrightarrow> clean base \<Longrightarrow> (\<forall>s \<in> set segs. CHR ''/'' \<notin> set s) \<Longrightarrow> walk fs create n base segs = Inr q \<Longrightarrow> clean q"
proof (induction fs create n base segs rule: walk.induct)
  case (2 fs create n base s rest)
  have "clean (butlast base)" using 2(6) by (auto simp: clean_def dest: in_set_butlastD)
  show ?case
  proof (cases s rule: name_cases)
    case name
    have "fs (base @ [s]) = Some (Link a t) \<Longrightarrow> \<forall>s \<in> set t. CHR ''/'' \<notin> set s" for a t
      using 2(5) by (auto simp: links_clean_def)
    with name 2 show ?thesis by (auto simp: walk_name name_ok_def split: option.splits node.splits if_splits)
  qed (use 2 \<open>clean (butlast base)\<close> in \<open>auto simp: walk_dots\<close>)
qed simp

lemma segments_clean: "s \<in> set (segments input) \<Longrightarrow> CHR ''/'' \<notin> set s \<and> s \<noteq> []"
  by (auto simp: segments_def dest: split_on_pieces)

section \<open>Canonical paths\<close>

lemma resolve_names: "''..'' \<notin> set parts \<Longrightarrow> resolve_segs b parts = b @ filter name_ok parts"
  by (induction b parts rule: resolve_segs.induct) (auto simp: name_ok_def)

lemma resolve_clean: "clean b \<Longrightarrow> (\<forall>s \<in> set parts. CHR ''/'' \<notin> set s) \<Longrightarrow> clean (resolve_segs b parts)"
proof (induction b parts rule: resolve_segs.induct)
  case (2 b s rest)
  moreover have "clean (butlast b)" using 2(2) by (auto simp: clean_def dest: in_set_butlastD)
  ultimately show ?case by (simp add: name_ok_def)
qed simp

text \<open>The operating system does not give up on a prefix of the path for the number of links in it.\<close>

definition within_limit :: "fs \<Rightarrow> path \<Rightarrow> bool" where
  "within_limit fs p \<longleftrightarrow> (\<forall>k n. isl (realpath fs (take k p)) \<longrightarrow> isl (walk fs False n [] (take k p)))"

lemma realpath_real: "realpath fs p = Inr q \<Longrightarrow> real_path fs q"
  unfolding realpath_def by (rule walk_real [OF real_dir_Nil])

lemma realpath_clean: "links_clean fs \<Longrightarrow> \<forall>s \<in> set p. CHR ''/'' \<notin> set s \<Longrightarrow> realpath fs p = Inr q \<Longrightarrow> clean q"
  unfolding realpath_def by (rule walk_clean [OF _ clean_simps(1)])

lemma missing_rest:
  assumes b: "realpath fs cur = Inr b" and missing: "\<And>n. isl (walk fs False n [] (cur @ [s]))"
    and q: "realpath fs (b @ filter name_ok (s # rest)) = Inr q"
  shows "q = b @ filter name_ok (s # rest)"
proof (cases "real_dir fs b")
  case True
  from walk_rest [OF _ b [unfolded realpath_def] True] obtain m where
    m: "\<And>d ys. walk fs False (LINK_LIMIT + d) [] (cur @ ys) = walk fs False (m + d) b ys" by auto
  have "isl (walk fs False (m + LINK_LIMIT) b [s])" using missing m [of LINK_LIMIT "[s]"] by metis
  then have fails: "isl (walk fs False LINK_LIMIT b [s])"
    using walk_fuel [of fs False LINK_LIMIT b "[s]" _ m] by (cases "walk fs False LINK_LIMIT b [s]") (auto simp: add.commute)
  have "name_ok s" using fails by (cases s rule: name_cases) (auto simp: walk_dots)
  then have names: "filter name_ok (s # rest) = s # filter name_ok rest" by simp
  have "walk fs False LINK_LIMIT b ([s] @ filter name_ok rest) = Inr q"
    using q walk_dir [of fs "[]" b False LINK_LIMIT "s # filter name_ok rest"] True unfolding names by (simp add: realpath_def)
  from walk_prefix [OF this] fails show ?thesis by auto
next
  case False
  have "real_path fs b" using b by (rule realpath_real)
  with False obtain c where f: "b \<noteq> []" "real_dir fs (butlast b)" "name_ok (last b)" "fs b = Some (File c)" by (auto simp: real_path_def)
  let ?t = "filter name_ok (s # rest)"
  have "b @ ?t = butlast b @ last b # ?t" using f(1) by simp
  then have "walk fs False LINK_LIMIT (butlast b) (last b # ?t) = Inr q"
    using q walk_dir [of fs "[]" "butlast b" False LINK_LIMIT "last b # ?t"] f(2) by (metis append_Nil realpath_def)
  with f have "?t = []" "q = b" by (auto simp: walk_name split: if_splits)
  then show ?thesis by (simp only: append_Nil2)
qed

lemma realpath_Nil [simp]: "realpath fs [] = Inr []"
  by (simp add: realpath_def)

lemma canonicalize_loop_stable:
  "''..'' \<notin> set cur \<union> set parts \<Longrightarrow> within_limit fs (cur @ rev parts) \<Longrightarrow>
   (parts \<noteq> [] \<Longrightarrow> isl (realpath fs (cur @ [last parts]))) \<Longrightarrow>
   realpath fs (canonicalize_loop fs p cur parts) = Inr q \<Longrightarrow> q = canonicalize_loop fs p cur parts"
proof (induction fs p cur parts rule: canonicalize_loop.induct)
  case (1 fs p cur parts)
  show ?case
  proof (cases "realpath fs cur")
    case (Inl e)
    then have "cur \<noteq> []" by auto
    then have cur: "cur = butlast cur @ [last cur]" by simp
    have "within_limit fs (butlast cur @ rev (parts @ [last cur]))" using 1(3) cur by (metis append.assoc append_Cons append_Nil rev_append rev_singleton_conv)
    moreover have "''..'' \<notin> set (butlast cur) \<union> set (parts @ [last cur])" using 1(2) \<open>cur \<noteq> []\<close> by (auto dest: in_set_butlastD)
    moreover have "isl (realpath fs (butlast cur @ [last (parts @ [last cur])]))" using Inl \<open>cur \<noteq> []\<close> by simp
    ultimately show ?thesis
      using 1(1) [OF Inl \<open>cur \<noteq> []\<close>] 1(5) Inl \<open>cur \<noteq> []\<close> by (simp add: canonicalize_loop.simps [of fs p cur])
  next
    case (Inr b)
    have loop: "canonicalize_loop fs p cur parts = b @ filter name_ok (rev parts)"
      using Inr 1(2) by (simp add: canonicalize_loop.simps [of fs p cur] resolve_names)
    show ?thesis
    proof (cases parts rule: rev_cases)
      case Nil
      have "real_path fs b" using Inr by (rule realpath_real)
      with Nil loop 1(5) show ?thesis by (simp add: realpath_def walk_id)
    next
      case (snoc ps s)
      have "isl (walk fs False n [] (cur @ [s]))" for n
        using 1(3) 1(4) snoc spec [OF 1(3) [unfolded within_limit_def], of "Suc (length cur)"] by simp
      from missing_rest [OF Inr this, of "rev ps"] 1(5) loop snoc show ?thesis by simp
    qed
  qed
qed

lemma canonicalize_stable:
  assumes "''..'' \<notin> set raw" "within_limit fs raw" "realpath fs (canonicalizeMaybeMissing fs raw) = Inr q"
  shows "q = canonicalizeMaybeMissing fs raw"
proof (cases "realpath fs raw")
  case (Inl e)
  with canonicalize_loop_stable [of raw "[]" fs raw q] assms show ?thesis by (simp add: canonicalizeMaybeMissing_def)
next
  case (Inr b)
  then have "real_path fs b" by (rule realpath_real)
  with Inr assms(3) show ?thesis by (simp add: canonicalizeMaybeMissing_def realpath_def walk_id)
qed

lemma canonicalize_loop_clean:
  "links_clean fs \<Longrightarrow> (\<forall>s \<in> set cur \<union> set parts. CHR ''/'' \<notin> set s) \<Longrightarrow> clean (canonicalize_loop fs p cur parts)"
proof (induction fs p cur parts rule: canonicalize_loop.induct)
  case (1 fs p cur parts)
  show ?case
  proof (cases "realpath fs cur")
    case (Inl e)
    with 1 show ?thesis by (cases cur rule: rev_cases) (auto simp: canonicalize_loop.simps [of fs p "_ @ [_]"])
  next
    case (Inr b)
    then have "clean b" using realpath_clean [OF 1(2), of cur] 1(3) by auto
    with Inr 1(3) show ?thesis by (simp add: canonicalize_loop.simps [of fs p cur] resolve_clean)
  qed
qed

lemma canonicalize_clean:
  assumes "links_clean fs" "\<forall>s \<in> set raw. CHR ''/'' \<notin> set s"
  shows "clean (canonicalizeMaybeMissing fs raw)" "clean (canonicalizeRootSync fs raw)"
proof -
  note realpath_clean [OF assms]
  moreover have "clean (canonicalize_loop fs raw raw [])" using canonicalize_loop_clean assms by simp
  ultimately show "clean (canonicalizeMaybeMissing fs raw)" "clean (canonicalizeRootSync fs raw)"
    by (auto simp: canonicalizeMaybeMissing_def canonicalizeRootSync_def split: sum.splits)
qed

section \<open>What the sandbox guarantees\<close>

lemma absolute_path_clean:
  assumes "clean process_cwd" "\<forall>r \<in> set roots. clean r"
  shows "(\<forall>s \<in> set (absolute_path process_cwd roots cwd input). CHR ''/'' \<notin> set s) \<and>
    (isAbsolute input \<or> clean (absolute_path process_cwd roots cwd input))"
proof (cases "isAbsolute input")
  case False
  have "clean (resolve_segs b (segments t))" if "clean b" for b t using resolve_clean [OF that] segments_clean by blast
  with False assms have "clean (absolute_path process_cwd roots cwd input)"
    by (auto simp: absolute_path_def Let_def split: option.splits list.splits)
  then show ?thesis by (auto simp: clean_def)
qed (auto simp: absolute_path_def dest: segments_clean)

lemma clean_dotdot: "clean p \<Longrightarrow> ''..'' \<notin> set p"
  by (auto simp: clean_def name_ok_def)

lemma roots_clean: "links_clean fs \<Longrightarrow> createSandbox fs rs = Some roots \<Longrightarrow> r \<in> set roots \<Longrightarrow> clean r"
  by (auto simp: createSandbox_def split: if_splits intro!: canonicalize_clean(2) dest: resolve_clean [OF clean_simps(1)] segments_clean)
    (meson clean_def clean_simps(1) resolve_clean segments_clean)

lemma sandbox_inside:
  assumes "links_clean fs" "clean process_cwd" "createSandbox fs rs = Some roots" "roots \<noteq> []"
    and "isAbsolute input \<Longrightarrow> ''..'' \<notin> set (segments input)"
    and "within_limit fs (absolute_path process_cwd roots cwd input)"
    and "sandbox_resolve fs process_cwd roots cwd input = Inr p"
  shows "(\<exists>root \<in> set roots. prefix root p) \<and> (\<forall>q. realpath fs p = Inr q \<longrightarrow> q = p)"
proof -
  let ?raw = "absolute_path process_cwd roots cwd input"
  have roots: "\<forall>r \<in> set roots. clean r" using roots_clean assms(1,3) by blast
  note raw = absolute_path_clean [OF assms(2) roots, of cwd input]
  have p: "p = canonicalizeMaybeMissing fs ?raw" and inside: "\<exists>r \<in> set roots. isPathInsideRoot (render p) (render r)"
    using assms(4,7) by (auto simp: sandbox_resolve_def Let_def list_ex_iff split: if_splits)
  have "clean p" unfolding p using canonicalize_clean(1) [OF assms(1)] raw by blast
  with inside roots have "\<exists>root \<in> set roots. prefix root p" using inside_root_iff by blast
  moreover have "''..'' \<notin> set ?raw"
  proof (cases "isAbsolute input")
    case True
    with assms(5) show ?thesis by (simp add: absolute_path_def)
  qed (use raw clean_dotdot in blast)
  ultimately show ?thesis using canonicalize_stable [OF _ assms(6)] p by blast
qed


definition sample_fs :: fs where
  "sample_fs = map_of [([''r''], Dir), ([''r'', ''f''], File []), ([''r'', ''l''], Link True [''e'']),
     ([''r'', ''d''], Link True [''e'', ''n'']), ([''e''], Dir), ([''e'', ''s''], File [])]"



end
