(* ===== verification/Mut_Patch.thy ===== *)
theory Mut_Patch
  imports Mut_Replace
begin

text \<open>
  The parser of file patches, from \<open>packages/executor/src/mutation/patch-parser.ts\<close>. The position \<open>i\<close> of the source
  is the list of the lines from \<open>i\<close> on. A reference printer of the documented format shows what can be
  written so that the parser reads it back.
\<close>

datatype ParsedPatchOperation =
    PatchAdd units units
  | PatchDelete units
  | PatchMove units units
  | PatchUpdate units units units

text \<open>The white space of \<open>String.prototype.trim\<close>.\<close>

definition unit_space :: "nat \<Rightarrow> bool" where
  "unit_space u \<longleftrightarrow> u \<in> set [9, 10, 11, 12, 13, 32, 160, 5760, 8232, 8233, 8239, 8287, 12288, 65279] \<or> 8192 \<le> u \<and> u \<le> 8202"

definition unit_trim :: "units \<Rightarrow> units" where
  "unit_trim s = rev (dropWhile unit_space (rev (dropWhile unit_space s)))"

abbreviation "kw_begin \<equiv> lit ''*** Begin Patch''"
abbreviation "kw_end \<equiv> lit ''*** End Patch''"
abbreviation "kw_add \<equiv> lit ''*** Add File: ''"
abbreviation "kw_delete \<equiv> lit ''*** Delete File: ''"
abbreviation "kw_update \<equiv> lit ''*** Update File: ''"
abbreviation "kw_move \<equiv> lit ''*** Move to: ''"
abbreviation "kw_stars \<equiv> lit ''*** ''"

section \<open>The parser\<close>

text \<open>The lines of an added file, up to the next line with stars, and the lines from there on.\<close>

fun add_body :: "units list \<Rightarrow> units list \<Rightarrow> ToolError + (units list \<times> units list)" where
  "add_body [] body = Inr (body, [])"
| "add_body (item # rest) body =
     (if starts_with item kw_stars then Inr (body, item # rest)
      else if \<not> starts_with item (lit ''+'') then Inl EPATCHPARSE
      else add_body rest (body @ [drop 1 item]))"

fun update_body :: "units list \<Rightarrow> units list \<Rightarrow> units list \<Rightarrow> ToolError + (units list \<times> units list \<times> units list)" where
  "update_body [] oldLines newLines = Inr (oldLines, newLines, [])"
| "update_body (item # rest) oldLines newLines =
     (if starts_with item kw_stars then Inr (oldLines, newLines, item # rest)
      else if starts_with item (lit ''@@'') then update_body rest oldLines newLines
      else if starts_with item (lit '' '') then update_body rest (oldLines @ [drop 1 item]) (newLines @ [drop 1 item])
      else if starts_with item (lit ''-'') then update_body rest (oldLines @ [drop 1 item]) newLines
      else if starts_with item (lit ''+'') then update_body rest oldLines (newLines @ [drop 1 item])
      else if item = [] then update_body rest (oldLines @ [[]]) (newLines @ [[]])
      else Inl EPATCHPARSE)"

lemma add_body_rest: "add_body ls body = Inr (body', rest) \<Longrightarrow> length rest \<le> length ls"
  by (induction ls body rule: add_body.induct) (auto split: if_splits)

lemma update_body_rest: "update_body ls os ns = Inr (os', ns', rest) \<Longrightarrow> length rest \<le> length ls"
  by (induction ls os ns rule: update_body.induct) (auto split: if_splits)

function parse_ops :: "units list \<Rightarrow> ParsedPatchOperation list \<Rightarrow> ToolError + ParsedPatchOperation list" where
  "parse_ops [] ops = Inl EPATCHPARSE"
| "parse_ops (line # rest) ops =
     (if line = kw_end then Inr ops
      else if starts_with line kw_add then
        (let path = unit_trim (drop (length kw_add) line)
         in case add_body rest [] of
              Inl e \<Rightarrow> Inl e
            | Inr (body, rest') \<Rightarrow> parse_ops rest' (ops @ [PatchAdd path (join_with [LF] body @ (if length body > 0 then [LF] else []))]))
      else if starts_with line kw_delete then parse_ops rest (ops @ [PatchDelete (unit_trim (drop (length kw_delete) line))])
      else if starts_with line kw_update then
        (let path = unit_trim (drop (length kw_update) line)
         in if rest \<noteq> [] \<and> starts_with (hd rest) kw_move
            then parse_ops (tl rest) (ops @ [PatchMove path (unit_trim (drop (length kw_move) (hd rest)))])
            else (case update_body rest [] [] of
                    Inl e \<Rightarrow> Inl e
                  | Inr (oldLines, newLines, rest') \<Rightarrow>
                      (if oldLines = [] \<and> newLines = [] then Inl EPATCHPARSE
                       else parse_ops rest' (ops @ [PatchUpdate path (join_with [LF] oldLines) (join_with [LF] newLines)]))))
      else if line = [] then parse_ops rest ops
      else Inl EPATCHPARSE)"
  by pat_completeness auto
termination
  by (relation "measure (\<lambda>(ls, ops). length ls)") (auto simp: less_Suc_eq_le dest: add_body_rest update_body_rest)

declare parse_ops.simps(2) [simp del]

definition parseFilePatch :: "units \<Rightarrow> ToolError + ParsedPatchOperation list" where
  "parseFilePatch input =
     (let lines = split_on LF (normalizeLineEndings input)
      in if hd lines \<noteq> kw_begin then Inl EPATCHPARSE else parse_ops (tl lines) [])"

section \<open>Printing and parsing\<close>

text \<open>A printer of the format: the old lines of an update are written before the new ones.\<close>

fun print_op :: "ParsedPatchOperation \<Rightarrow> units list" where
  "print_op (PatchAdd path content) =
     (kw_add @ path) # (if content = [] then [] else map (Cons 43) (split_on LF (butlast content)))"
| "print_op (PatchDelete path) = [kw_delete @ path]"
| "print_op (PatchMove path newPath) = [kw_update @ path, kw_move @ newPath]"
| "print_op (PatchUpdate path old new) =
     (kw_update @ path) # map (Cons 45) (split_on LF old) @ map (Cons 43) (split_on LF new)"

definition print_patch :: "ParsedPatchOperation list \<Rightarrow> units" where
  "print_patch ops = join_with [LF] (kw_begin # concat (map print_op ops) @ [kw_end])"

definition plain :: "units \<Rightarrow> bool" where
  "plain t \<longleftrightarrow> CR \<notin> set t"

definition plain_path :: "units \<Rightarrow> bool" where
  "plain_path p \<longleftrightarrow> LF \<notin> set p \<and> CR \<notin> set p \<and> unit_trim p = p"

fun printable :: "ParsedPatchOperation \<Rightarrow> bool" where
  "printable (PatchAdd path content) \<longleftrightarrow> plain_path path \<and> plain content \<and> (content = [] \<or> last content = LF)"
| "printable (PatchDelete path) \<longleftrightarrow> plain_path path"
| "printable (PatchMove path newPath) \<longleftrightarrow> plain_path path \<and> plain_path newPath"
| "printable (PatchUpdate path old new) \<longleftrightarrow> plain_path path \<and> plain old \<and> plain new"

lemma lit_simps [simp]: "lit [] = []" "lit (c # cs) = of_char c # lit cs" "length (lit s) = length s"
  by (simp_all add: lit_def)

lemma starts_with_Cons [simp]: "starts_with (x # xs) (y # ys) \<longleftrightarrow> x = y \<and> starts_with xs ys" "starts_with xs []" "\<not> starts_with [] (y # ys)"
  by (auto simp: starts_with_def)

lemma add_body_lines:
  "(rest = [] \<or> starts_with (hd rest) kw_stars) \<Longrightarrow> add_body (map (Cons 43) ls @ rest) body = Inr (body @ ls, rest)"
proof (induction ls arbitrary: body)
  case Nil
  then show ?case by (cases rest) auto
qed simp

lemma update_body_new:
  "(rest = [] \<or> starts_with (hd rest) kw_stars) \<Longrightarrow> update_body (map (Cons 43) ls @ rest) os ns = Inr (os, ns @ ls, rest)"
proof (induction ls arbitrary: ns)
  case Nil
  then show ?case by (cases rest) auto
qed simp

lemma update_body_old:
  "(rest = [] \<or> starts_with (hd rest) kw_stars) \<Longrightarrow>
   update_body (map (Cons 45) ls @ map (Cons 43) ls' @ rest) os ns = Inr (os @ ls, ns @ ls', rest)"
  by (induction ls arbitrary: os) (simp_all add: update_body_new)

lemma content_lines: "content \<noteq> [] \<Longrightarrow> last content = LF \<Longrightarrow> join_with [LF] (split_on LF (butlast content)) @ [LF] = content"
  by (metis append_butlast_last_id join_split_on)

lemma parse_print_op:
  assumes "printable op" "starts_with (hd rest) kw_stars" "rest \<noteq> []"
  shows "parse_ops (print_op op @ rest) ops = parse_ops rest (ops @ [op])"
proof (cases op)
  case (PatchAdd path content)
  with assms content_lines [of content] add_body_lines [of rest "split_on LF (butlast content)" "[]"] add_body_lines [of rest "[]" "[]"]
  show ?thesis by (auto simp: parse_ops.simps(2) plain_path_def Let_def)
next
  case (PatchDelete path)
  with assms show ?thesis by (simp add: parse_ops.simps(2) [of _ rest] plain_path_def)
next
  case (PatchMove path newPath)
  with assms show ?thesis by (simp add: parse_ops.simps(2) [of _ "_ # rest"] plain_path_def Let_def)
next
  case (PatchUpdate path old new)
  have "split_on LF old \<noteq> []" by simp
  then obtain l ls where l: "split_on LF old = l # ls" by (cases "split_on LF old") auto
  have "update_body (map (Cons 45) (split_on LF old) @ map (Cons 43) (split_on LF new) @ rest) [] [] = Inr (split_on LF old, split_on LF new, rest)"
    using update_body_old [of rest _ _ "[]" "[]"] assms(2) by simp
  with PatchUpdate assms l join_split_on [of LF old] join_split_on [of LF new] show ?thesis
    by (simp add: parse_ops.simps(2) [of _ "_ # _"] plain_path_def Let_def del: update_body.simps)
qed

lemma print_op_stars: "print_op op \<noteq> [] \<and> starts_with (hd (print_op op)) kw_stars"
  by (cases op) auto

lemma parse_print_ops:
  "(\<forall>op \<in> set ops. printable op) \<Longrightarrow> parse_ops (concat (map print_op ops) @ [kw_end]) acc = Inr (acc @ ops)"
proof (induction ops arbitrary: acc)
  case Nil
  then show ?case by (simp add: parse_ops.simps(2) del: lit_simps)
next
  case (Cons op ops)
  let ?rest = "concat (map print_op ops) @ [kw_end]"
  have "?rest \<noteq> []" "starts_with (hd ?rest) kw_stars"
    using print_op_stars by (cases ops; simp add: hd_append)+
  with Cons parse_print_op [of op ?rest acc] show ?case by simp
qed

lemma print_op_lines:
  assumes "printable op" "l \<in> set (print_op op)"
  shows "LF \<notin> set l" "CR \<notin> set l"
proof -
  have pieces: "set p \<subseteq> set t" if "p \<in> set (split_on LF t)" for p t
    using that by (induction t arbitrary: p) (fastforce split: if_splits list.splits)+
  show "LF \<notin> set l" using assms by (cases op) (auto simp: plain_path_def dest: split_on_pieces split: if_splits)
  show "CR \<notin> set l" using assms by (cases op) (auto simp: plain_path_def plain_def dest!: pieces dest: in_set_butlastD split: if_splits)
qed

lemma join_avoid: "c \<notin> set sep \<Longrightarrow> \<forall>l \<in> set ls. c \<notin> set l \<Longrightarrow> c \<notin> set (join_with sep ls)"
  by (induction sep ls rule: join_with.induct) auto

lemma parse_print_patch:
  assumes "\<forall>op \<in> set ops. printable op"
  shows "parseFilePatch (print_patch ops) = Inr ops"
proof -
  let ?ls = "kw_begin # concat (map print_op ops) @ [kw_end]"
  have lines: "\<forall>l \<in> set ?ls. LF \<notin> set l \<and> CR \<notin> set l"
    using assms print_op_lines by (auto simp: lit_def)
  then have cr: "CR \<notin> set (join_with [LF] ?ls)" by (intro join_avoid) (simp, blast)
  have "split_on LF (join_with [LF] ?ls) = ?ls" using lines by (intro split_join) (simp, blast)
  then have "split_on LF (normalizeLineEndings (print_patch ops)) = ?ls"
    unfolding print_patch_def normalize_id [OF cr] .
  with parse_print_ops [OF assms, of "[]"] show ?thesis by (simp add: parseFilePatch_def Let_def)
qed

text \<open>
  C21: Every list of printable operations, written in the patch format, is read back by the parser as it was:
  paths, added contents, old and new texts of updates, deletions and moves, in the order given.
\<close>

theorem patch_print_parse:
  assumes "\<forall>op \<in> set ops. printable op"
  shows "parseFilePatch (print_patch ops) = Inr ops"
  using assms by (rule parse_print_patch)

theorem patch_print_parse_witness:
  "parseFilePatch (print_patch [PatchAdd (lit ''a'') (lit ''x'' @ [LF]), PatchUpdate (lit ''b'') (lit ''u'') (lit ''v''), PatchMove (lit ''c'') (lit ''d'')])
     = Inr [PatchAdd (lit ''a'') (lit ''x'' @ [LF]), PatchUpdate (lit ''b'') (lit ''u'') (lit ''v''), PatchMove (lit ''c'') (lit ''d'')]"
  by (rule patch_print_parse) (simp add: plain_path_def plain_def unit_trim_def unit_space_def lit_def)

end
