(* ===== verification/Mut_Diff.thy ===== *)
theory Mut_Diff
  imports Mut_Text
begin

text \<open>
  The line diff shown for a file mutation, from \<open>packages/executor/src/mutation/diff.ts\<close>: the table of the
  lengths of common subsequences, the walk through it that yields the rows, the rendering with three
  lines of context and the counting of changed lines in the rendered body.
\<close>

datatype 'a LineDiffRow = Context 'a | Add 'a | Del 'a

section \<open>Rows\<close>

text \<open>
  The table \<open>dp\<close> is filled from the last row up and within a row from the right: \<open>below\<close> is the row for the
  lines after \<open>x\<close>, from the current column on.
\<close>

fun dp_row :: "'a \<Rightarrow> 'a list \<Rightarrow> nat list \<Rightarrow> nat list" where
  "dp_row x [] below = [0]"
| "dp_row x (y # ys) below =
     (let rest = dp_row x ys (tl below)
      in (if x = y then below ! 1 + 1 else max (below ! 0) (hd rest)) # rest)"

fun dp_table :: "'a list \<Rightarrow> 'a list \<Rightarrow> nat list list" where
  "dp_table [] after = [replicate (Suc (length after)) 0]"
| "dp_table (x # xs) after = (let t = dp_table xs after in dp_row x after (hd t) # t)"

function diff_walk :: "'a list \<Rightarrow> 'a list \<Rightarrow> nat list list \<Rightarrow> nat \<Rightarrow> nat \<Rightarrow> 'a LineDiffRow list" where
  "diff_walk before after dp i j =
     (if i < length before \<and> j < length after then
        (if before ! i = after ! j then Context (before ! i) # diff_walk before after dp (Suc i) (Suc j)
         else if dp ! Suc i ! j \<ge> dp ! i ! Suc j then Del (before ! i) # diff_walk before after dp (Suc i) j
         else Add (after ! j) # diff_walk before after dp i (Suc j))
      else map Del (drop i before) @ map Add (drop j after))"
  by pat_completeness auto
termination by (relation "measure (\<lambda>(before, after, dp, i, j). (length before - i) + (length after - j))") auto

declare diff_walk.simps [simp del]

definition lineDiffRows :: "'a list \<Rightarrow> 'a list \<Rightarrow> 'a LineDiffRow list" where
  "lineDiffRows before after = diff_walk before after (dp_table before after) 0 0"

section \<open>Rendering\<close>

definition splitDiffLines :: "units \<Rightarrow> units list" where
  "splitDiffLines text =
     (if text = [] then [] else (let lines = split_on LF text in if last lines = [] then butlast lines else lines))"

primrec is_change :: "'a LineDiffRow \<Rightarrow> bool" where
  "is_change (Context t) = False" | "is_change (Add t) = True" | "is_change (Del t) = True"

primrec row_text :: "'a LineDiffRow \<Rightarrow> 'a" where
  "row_text (Context t) = t" | "row_text (Add t) = t" | "row_text (Del t) = t"

primrec row_line :: "units LineDiffRow \<Rightarrow> units" where
  "row_line (Context t) = 32 # t" | "row_line (Add t) = 43 # t" | "row_line (Del t) = 45 # t"

text \<open>A row is kept when a changed row lies at most three rows away.\<close>

definition kept :: "'a LineDiffRow list \<Rightarrow> nat \<Rightarrow> bool" where
  "kept rows i \<longleftrightarrow> list_ex (\<lambda>k. is_change (rows ! k) \<and> i \<le> k + 3 \<and> k \<le> i + 3) [0..<length rows]"

text \<open>The loop over the rows with the number of rows skipped so far.\<close>

fun render_loop :: "(units LineDiffRow \<times> bool) list \<Rightarrow> nat \<Rightarrow> units list" where
  "render_loop [] skipped = (if skipped > 0 then [lit '' ...''] else [])"
| "render_loop ((row, keep) # rows) skipped =
     (if \<not> keep then render_loop rows (skipped + 1)
      else (if skipped > 0 then [lit '' ...''] else []) @ row_line row # render_loop rows 0)"

definition renderLineDiff :: "units list \<Rightarrow> units list \<Rightarrow> units" where
  "renderLineDiff before after =
     (let rows = lineDiffRows before after
      in if \<not> list_ex is_change rows then join_with [LF] (map (\<lambda>r. 32 # row_text r) rows)
         else join_with [LF] (render_loop (map (\<lambda>i. (rows ! i, kept rows i)) [0..<length rows]) 0))"

definition countDiffBodyChanges :: "units \<Rightarrow> nat \<times> nat" where
  "countDiffBodyChanges body =
     (length (filter (\<lambda>l. starts_with l [43]) (split_on LF body)),
      length (filter (\<lambda>l. \<not> starts_with l [43] \<and> starts_with l [45]) (split_on LF body)))"

record DiffStats =
  ds_additions :: nat
  ds_deletions :: nat
  ds_diff :: units

definition MAX_DIFF_CHARS :: nat where "MAX_DIFF_CHARS = 80000"

definition createUnifiedDiff :: "units \<Rightarrow> units \<Rightarrow> units \<Rightarrow> DiffStats" where
  "createUnifiedDiff path before after =
     (let beforeLines = splitDiffLines before; afterLines = splitDiffLines after;
          body = renderLineDiff beforeLines afterLines;
          (additions, deletions) = countDiffBodyChanges body;
          diff = lit ''--- '' @ path @ [LF] @ lit ''+++ '' @ path @ [LF] @
            lit ''@@ -1,'' @ lit (show_nat (length beforeLines)) @ lit '' +1,'' @ lit (show_nat (length afterLines)) @ lit '' @@'' @ [LF] @ body
      in \<lparr>ds_additions = additions, ds_deletions = deletions,
          ds_diff = (if length diff > MAX_DIFF_CHARS then take MAX_DIFF_CHARS diff @ [LF] @ lit ''... diff truncated ...'' else diff)\<rparr>)"

section \<open>The table\<close>

text \<open>The length of a longest common subsequence, by its recursion.\<close>

fun lcs :: "'a list \<Rightarrow> 'a list \<Rightarrow> nat" where
  "lcs [] ys = 0"
| "lcs (x # xs) [] = 0"
| "lcs (x # xs) (y # ys) = (if x = y then lcs xs ys + 1 else max (lcs xs (y # ys)) (lcs (x # xs) ys))"

lemma lcs_Nil [simp]: "lcs xs [] = 0"
  by (cases xs) auto

lemma dp_row_lcs:
  assumes "length below = Suc (length ys)" "\<And>j. j \<le> length ys \<Longrightarrow> below ! j = lcs xs (drop j ys)"
  shows "length (dp_row x ys below) = Suc (length ys) \<and> (\<forall>j \<le> length ys. dp_row x ys below ! j = lcs (x # xs) (drop j ys))"
  using assms
proof (induction x ys below rule: dp_row.induct)
  case (1 x below)
  then show ?case by simp
next
  case (2 x y ys below)
  let ?rest = "dp_row x ys (tl below)"
  have tl: "length (tl below) = Suc (length ys)" "\<And>j. j \<le> length ys \<Longrightarrow> tl below ! j = lcs xs (drop j ys)"
    using 2(2) 2(3) [of "Suc _"] by (auto simp: nth_tl)
  note ih = 2(1) [OF tl]
  have "hd ?rest = lcs (x # xs) ys" using ih by (metis drop0 hd_conv_nth le0 length_0_conv nat.distinct(1))
  moreover have "below ! 0 = lcs xs (y # ys)" "below ! 1 = lcs xs ys" using 2(3) [of 0] 2(3) [of 1] by simp_all
  ultimately show ?case using ih by (auto simp: Let_def nth_Cons split: nat.splits)
qed

lemma dp_table_lcs:
  "length (dp_table xs ys) = Suc (length xs) \<and>
   (\<forall>i \<le> length xs. length (dp_table xs ys ! i) = Suc (length ys) \<and> (\<forall>j \<le> length ys. dp_table xs ys ! i ! j = lcs (drop i xs) (drop j ys)))"
proof (induction xs)
  case Nil
  then show ?case by (simp add: nth_Cons split: nat.splits)
next
  case (Cons x xs)
  let ?t = "dp_table xs ys"
  have hd: "hd ?t = ?t ! 0" using Cons by (intro hd_conv_nth) auto
  have "length (dp_row x ys (hd ?t)) = Suc (length ys) \<and> (\<forall>j \<le> length ys. dp_row x ys (hd ?t) ! j = lcs (x # xs) (drop j ys))"
    using Cons by (intro dp_row_lcs) (auto simp: hd)
  with Cons show ?case by (auto simp: Let_def nth_Cons split: nat.splits)
qed

section \<open>Edit scripts\<close>

text \<open>What a list of rows has of the old and of the new text.\<close>

fun old_lines :: "'a LineDiffRow list \<Rightarrow> 'a list" where
  "old_lines [] = []" | "old_lines (Context t # rs) = t # old_lines rs" | "old_lines (Del t # rs) = t # old_lines rs" | "old_lines (Add t # rs) = old_lines rs"

fun new_lines :: "'a LineDiffRow list \<Rightarrow> 'a list" where
  "new_lines [] = []" | "new_lines (Context t # rs) = t # new_lines rs" | "new_lines (Add t # rs) = t # new_lines rs" | "new_lines (Del t # rs) = new_lines rs"

definition changes_of :: "'a LineDiffRow list \<Rightarrow> nat" where
  "changes_of rows = length (filter is_change rows)"

lemma lines_append [simp]: "old_lines (rs @ qs) = old_lines rs @ old_lines qs" "new_lines (rs @ qs) = new_lines rs @ new_lines qs"
  by (induction rs rule: old_lines.induct) auto

lemma lines_map [simp]: "old_lines (map Del xs) = xs" "new_lines (map Add xs) = xs" "old_lines (map Add xs) = []" "new_lines (map Del xs) = []"
  by (induction xs) auto

lemma lcs_step: "lcs xs ys \<le> lcs (x # xs) ys \<and> lcs (x # xs) ys \<le> lcs xs ys + 1 \<and> lcs xs ys \<le> lcs xs (y # ys) \<and> lcs xs (y # ys) \<le> lcs xs ys + 1"
proof (induction "length xs + length ys" arbitrary: xs ys x y rule: less_induct)
  case less
  show ?case
  proof (cases xs; cases ys)
    fix a xs' b ys' assume [simp]: "xs = a # xs'" "ys = b # ys'"
    note ih = less [of xs' ys' a b] less [of "a # xs'" ys' x b] less [of xs' "b # ys'" a y]
    from ih show ?thesis by auto
  next
    fix b ys' assume [simp]: "xs = []" "ys = b # ys'"
    show ?thesis using less [of "[]" ys' x b] by auto
  next
    fix a xs' assume [simp]: "xs = a # xs'" "ys = []"
    show ?thesis using less [of xs' "[]" a y] by auto
  qed auto
qed

text \<open>No script has more common lines than the longest common subsequence.\<close>

lemma script_lcs: "length rows \<le> lcs (old_lines rows) (new_lines rows) + changes_of rows"
proof (induction rows)
  case (Cons r rows)
  then show ?case
    using lcs_step [of "old_lines rows" "new_lines rows" "row_text r" "row_text r"] by (cases r) (auto simp: changes_of_def)
qed (simp add: changes_of_def)

lemma script_length: "length (old_lines rows) + length (new_lines rows) + changes_of rows = 2 * length rows"
  by (induction rows rule: old_lines.induct) (auto simp: changes_of_def)

lemma walk_script:
  assumes "i \<le> length before" "j \<le> length after" "dp = dp_table before after"
  shows "old_lines (diff_walk before after dp i j) = drop i before \<and> new_lines (diff_walk before after dp i j) = drop j after \<and>
    length (diff_walk before after dp i j) = lcs (drop i before) (drop j after) + changes_of (diff_walk before after dp i j)"
  using assms
proof (induction before after dp i j rule: diff_walk.induct)
  case (1 before after dp i j)
  show ?case
  proof (cases "i < length before \<and> j < length after")
    case False
    then have "drop i before = [] \<or> drop j after = []" by auto
    moreover have "changes_of (map Del xs @ map Add ys) = length xs + length ys" for xs ys :: "'a list"
      by (simp add: changes_of_def filter_map comp_def)
    ultimately show ?thesis using False by (auto simp: diff_walk.simps [of before after dp i j])
  next
    case True
    have d: "drop i before = before ! i # drop (Suc i) before" "drop j after = after ! j # drop (Suc j) after"
      using True by (simp_all add: Cons_nth_drop_Suc)
    have dp: "dp ! Suc i ! j = lcs (drop (Suc i) before) (drop j after)" "dp ! i ! Suc j = lcs (drop i before) (drop (Suc j) after)"
      using True dp_table_lcs [of before after] 1(6) by auto
    consider (eq) "before ! i = after ! j" | (del) "before ! i \<noteq> after ! j" "dp ! Suc i ! j \<ge> dp ! i ! Suc j"
      | (add) "before ! i \<noteq> after ! j" "\<not> dp ! Suc i ! j \<ge> dp ! i ! Suc j" by blast
    then show ?thesis
    proof cases
      case eq
      with 1(1) [OF True eq _ _ 1(6)] True d show ?thesis by (simp add: diff_walk.simps [of before after dp i j] changes_of_def)
    next
      case del
      then have "lcs (drop i before) (drop j after) = lcs (drop (Suc i) before) (drop j after)" using dp d by (simp add: max_def)
      with del 1(2) [OF True del _ _ 1(6)] True d show ?thesis by (simp add: diff_walk.simps [of before after dp i j] changes_of_def)
    next
      case add
      then have "lcs (drop i before) (drop j after) = lcs (drop i before) (drop (Suc j) after)" using dp d by (simp add: max_def)
      with add 1(3) [OF True add _ _ 1(6)] True d show ?thesis by (simp add: diff_walk.simps [of before after dp i j] changes_of_def)
    qed
  qed
qed

lemma rows_script:
  "old_lines (lineDiffRows before after) = before" "new_lines (lineDiffRows before after) = after"
  "length (lineDiffRows before after) = lcs before after + changes_of (lineDiffRows before after)"
  using walk_script [of 0 before 0 after "dp_table before after"] by (simp_all add: lineDiffRows_def)

text \<open>
  C22: The rows of a diff are a script from the old lines to the new ones, and a shortest one: dropping the
  added rows gives the old text, dropping the deleted rows gives the new text, and no list of rows with
  these two properties has fewer changed rows.
\<close>

theorem diff_rows_minimal:
  "old_lines (lineDiffRows before after) = before \<and> new_lines (lineDiffRows before after) = after \<and>
   (\<forall>rows. old_lines rows = before \<and> new_lines rows = after \<longrightarrow> changes_of (lineDiffRows before after) \<le> changes_of rows)"
proof (intro conjI allI impI)
  let ?d = "lineDiffRows before after"
  show "old_lines ?d = before" "new_lines ?d = after" by (rule rows_script)+
  fix rows assume r: "old_lines rows = before \<and> new_lines rows = after"
  with script_lcs [of rows] script_length [of rows] script_length [of ?d] rows_script [of before after] show "changes_of ?d \<le> changes_of rows" by simp
qed

theorem diff_rows_minimal_witness:
  "changes_of (lineDiffRows ''abcd'' ''acbd'') \<le> changes_of [Context CHR ''a'', Add CHR ''c'', Context CHR ''b'', Del CHR ''c'', Context CHR ''d'']"
  using diff_rows_minimal [of "''abcd''" "''acbd''"] by simp

section \<open>Counting\<close>

primrec is_add :: "'a LineDiffRow \<Rightarrow> bool" where
  "is_add (Context t) = False" | "is_add (Add t) = True" | "is_add (Del t) = False"

primrec is_del :: "'a LineDiffRow \<Rightarrow> bool" where
  "is_del (Context t) = False" | "is_del (Add t) = False" | "is_del (Del t) = True"

lemma starts_with_unit [simp]: "starts_with (x # l) [c] \<longleftrightarrow> x = c" "\<not> starts_with [] [c]"
  by (auto simp: starts_with_def)

lemma skip_line [simp]: "lit '' ...'' = [32, 46, 46, 46]"
  by (simp add: lit_def)

lemma render_counts:
  "length (filter (\<lambda>l. starts_with l [43]) (render_loop rs n)) = length (filter (\<lambda>(r, k). k \<and> is_add r) rs)"
  "length (filter (\<lambda>l. \<not> starts_with l [43] \<and> starts_with l [45]) (render_loop rs n)) = length (filter (\<lambda>(r, k). k \<and> is_del r) rs)"
proof -
  have "length (filter (\<lambda>l. starts_with l [43]) (render_loop rs n)) = length (filter (\<lambda>(r, k). k \<and> is_add r) rs) \<and>
    length (filter (\<lambda>l. \<not> starts_with l [43] \<and> starts_with l [45]) (render_loop rs n)) = length (filter (\<lambda>(r, k). k \<and> is_del r) rs)"
  proof (induction rs n rule: render_loop.induct)
    case (2 row keep rows skipped)
    then show ?case by (cases row) auto
  qed auto
  then show "length (filter (\<lambda>l. starts_with l [43]) (render_loop rs n)) = length (filter (\<lambda>(r, k). k \<and> is_add r) rs)"
    and "length (filter (\<lambda>l. \<not> starts_with l [43] \<and> starts_with l [45]) (render_loop rs n)) = length (filter (\<lambda>(r, k). k \<and> is_del r) rs)"
    by blast+
qed

lemma render_lines: "(\<forall>(r, k) \<in> set rs. LF \<notin> set (row_text r)) \<Longrightarrow> l \<in> set (render_loop rs n) \<Longrightarrow> LF \<notin> set l"
proof (induction rs n rule: render_loop.induct)
  case (2 row keep rows skipped)
  then show ?case by (cases row) (auto split: if_splits)
qed (auto split: if_splits)

lemma render_nonempty: "rs \<noteq> [] \<or> n > 0 \<Longrightarrow> render_loop rs n \<noteq> []"
  by (induction rs n rule: render_loop.induct) auto

lemma count_lines:
  "ls \<noteq> [] \<Longrightarrow> \<forall>l \<in> set ls. LF \<notin> set l \<Longrightarrow> countDiffBodyChanges (join_with [LF] ls) =
    (length (filter (\<lambda>l. starts_with l [43]) ls), length (filter (\<lambda>l. \<not> starts_with l [43] \<and> starts_with l [45]) ls))"
  by (simp add: countDiffBodyChanges_def split_join)

lemma splitDiffLines_pieces: "l \<in> set (splitDiffLines text) \<Longrightarrow> LF \<notin> set l"
  by (auto simp: splitDiffLines_def Let_def split: if_splits dest: split_on_pieces in_set_butlastD)

lemma row_texts: "r \<in> set rows \<Longrightarrow> row_text r \<in> set (old_lines rows) \<union> set (new_lines rows)"
  by (induction rows rule: old_lines.induct) auto

lemma change_kept: "i < length rows \<Longrightarrow> is_change (rows ! i) \<Longrightarrow> kept rows i"
  by (auto simp: kept_def list_ex_iff)

lemma kept_filter:
  assumes "\<And>r. P r \<Longrightarrow> is_change r"
  shows "length (filter (\<lambda>(r, k). k \<and> P r) (map (\<lambda>i. (rows ! i, kept rows i)) [0..<length rows])) = length (filter P rows)"
proof -
  have "filter (\<lambda>i. kept rows i \<and> P (rows ! i)) [0..<length rows] = filter (\<lambda>i. P (rows ! i)) [0..<length rows]"
    using assms by (intro filter_cong) (auto intro: change_kept)
  moreover have "length (filter P rows) = length (filter (\<lambda>i. P (rows ! i)) [0..<length rows])"
    by (metis (mono_tags, lifting) comp_apply filter_cong filter_map length_map map_nth)
  ultimately show ?thesis by (simp add: filter_map comp_def)
qed

lemma is_change_iff: "is_change r \<longleftrightarrow> is_add r \<or> is_del r"
  by (cases r) auto

lemma no_changes: "\<not> list_ex is_change rows \<Longrightarrow> filter is_add rows = [] \<and> filter is_del rows = []"
  by (auto simp: list_ex_iff filter_empty_conv is_change_iff)

lemma render_body_counts:
  assumes "\<forall>l \<in> set before \<union> set after. LF \<notin> set l"
  shows "countDiffBodyChanges (renderLineDiff before after) =
    (length (filter is_add (lineDiffRows before after)), length (filter is_del (lineDiffRows before after)))"
proof -
  let ?rows = "lineDiffRows before after"
  have clean: "LF \<notin> set (row_text r)" if "r \<in> set ?rows" for r
    using row_texts [OF that] assms by (auto simp: rows_script)
  show ?thesis
  proof (cases "list_ex is_change ?rows")
    case False
    let ?ls = "map (\<lambda>r. 32 # row_text r) ?rows"
    have "countDiffBodyChanges (join_with [LF] ?ls) = (0, 0)"
    proof (cases "?rows = []")
      case True
      then show ?thesis by (simp add: countDiffBodyChanges_def)
    next
      case False
      then have "countDiffBodyChanges (join_with [LF] ?ls) =
          (length (filter (\<lambda>l. starts_with l [43]) ?ls), length (filter (\<lambda>l. \<not> starts_with l [43] \<and> starts_with l [45]) ?ls))"
        using clean by (intro count_lines) auto
      then show ?thesis by (simp add: filter_map comp_def)
    qed
    with False no_changes [OF False] show ?thesis by (simp add: renderLineDiff_def Let_def)
  next
    case True
    let ?rs = "map (\<lambda>i. (?rows ! i, kept ?rows i)) [0..<length ?rows]"
    have ne: "render_loop ?rs 0 \<noteq> []" using True by (intro render_nonempty) (auto simp: list_ex_iff)
    have "LF \<notin> set l" if "l \<in> set (render_loop ?rs 0)" for l
      using clean by (intro render_lines [OF _ that]) auto
    then have "countDiffBodyChanges (join_with [LF] (render_loop ?rs 0)) =
        (length (filter (\<lambda>(r, k). k \<and> is_add r) ?rs), length (filter (\<lambda>(r, k). k \<and> is_del r) ?rs))"
      using count_lines [OF ne] by (simp add: render_counts)
    also have "\<dots> = (length (filter is_add ?rows), length (filter is_del ?rows))"
      using kept_filter [of is_add ?rows] kept_filter [of is_del ?rows] by (simp add: is_change_iff)
    finally show ?thesis using True by (simp add: renderLineDiff_def Let_def)
  qed
qed

lemma add_del_balance: "length (new_lines rows) + length (filter is_del rows) = length (old_lines rows) + length (filter is_add rows)"
  by (induction rows rule: old_lines.induct) auto

text \<open>
  The counts of a diff are exact, although they are read off the rendered body, which leaves out distant
  context and marks it with dots: additions and deletions are the numbers of added and deleted rows, and
  they account for the change of the number of lines.
\<close>

theorem diff_stats_exact:
  "let b = splitDiffLines before; a = splitDiffLines after; stats = createUnifiedDiff path before after
   in ds_additions stats = length (filter is_add (lineDiffRows b a)) \<and> ds_deletions stats = length (filter is_del (lineDiffRows b a)) \<and>
      length a + ds_deletions stats = length b + ds_additions stats"
proof -
  let ?b = "splitDiffLines before" and ?a = "splitDiffLines after"
  have "countDiffBodyChanges (renderLineDiff ?b ?a) = (length (filter is_add (lineDiffRows ?b ?a)), length (filter is_del (lineDiffRows ?b ?a)))"
    by (rule render_body_counts) (auto dest: splitDiffLines_pieces)
  moreover have "length ?a + length (filter is_del (lineDiffRows ?b ?a)) = length ?b + length (filter is_add (lineDiffRows ?b ?a))"
    using add_del_balance [of "lineDiffRows ?b ?a"] by (simp add: rows_script)
  ultimately show ?thesis by (simp add: createUnifiedDiff_def Let_def)
qed

end
