(* ===== verification/Mut_Engine.thy ===== *)
theory Mut_Engine
  imports Exec_Sandbox Mut_Patch Mut_Diff
begin

text \<open>
  The file mutations of the executor, from \<open>packages/executor/src/mutation/engine.ts\<close>, \<open>result.ts\<close> and the loading of
  \<open>text.ts\<close>: writing a file, replacing text in it and applying a patch, on the file system of the sandbox. A
  mutation returns its result together with the file system it leaves. A replacement is cut where another
  program can change the file, between the reading of the text and the check before the writing. The
  digest of a revision and the resolution of paths are parameters, the summaries are not modelled.
\<close>

section \<open>File operations\<close>

definition node_at :: "fs \<Rightarrow> path \<Rightarrow> node option" where
  "node_at fs q = (if q = [] then Some Dir else fs q)"

definition stat :: "fs \<Rightarrow> path \<Rightarrow> ToolError + node" where
  "stat fs p = (case realpath fs p of Inl e \<Rightarrow> Inl e | Inr q \<Rightarrow> (case node_at fs q of None \<Rightarrow> Inl ENOENT | Some n \<Rightarrow> Inr n))"

definition loadTextFile :: "fs \<Rightarrow> path \<Rightarrow> ToolError + LoadedTextFile" where
  "loadTextFile fs p =
     (case stat fs p of
        Inl e \<Rightarrow> Inl e
      | Inr (File bytes) \<Rightarrow>
          if byteLength bytes > MAX_TEXT_FILE_BYTES then Inl E2BIG
          else if isProbablyBinary bytes then Inl EBINARY
          else Inr (load_text bytes)
      | Inr _ \<Rightarrow> Inl EISDIR)"

definition writeFile :: "fs \<Rightarrow> path \<Rightarrow> units \<Rightarrow> ToolError + fs" where
  "writeFile fs p content =
     (case walk fs True LINK_LIMIT [] p of
        Inl e \<Rightarrow> Inl e
      | Inr q \<Rightarrow> if node_at fs q = Some Dir then Inl EISDIR else Inr (fs(q \<mapsto> File content)))"

text \<open>\<open>mkdir\<close> with \<open>recursive\<close>, from a directory that exists along the names of the path.\<close>

fun mkdir_p :: "fs \<Rightarrow> path \<Rightarrow> path \<Rightarrow> ToolError + fs" where
  "mkdir_p fs d [] = Inr fs"
| "mkdir_p fs d (s # rest) =
     (case fs (d @ [s]) of
        None \<Rightarrow> mkdir_p (fs(d @ [s] \<mapsto> Dir)) (d @ [s]) rest
      | Some Dir \<Rightarrow> mkdir_p fs (d @ [s]) rest
      | Some (File c) \<Rightarrow> Inl (if rest = [] then EEXIST else ENOTDIR)
      | Some (Link a t) \<Rightarrow>
          (case walk fs False LINK_LIMIT d [s] of
             Inl e \<Rightarrow> Inl EEXIST
           | Inr q \<Rightarrow> if node_at fs q = Some Dir then mkdir_p fs q rest else Inl EEXIST))"

text \<open>The entry that a path names, its last name not being followed.\<close>

definition entry_of :: "fs \<Rightarrow> path \<Rightarrow> ToolError + path" where
  "entry_of fs p = (case realpath fs (butlast p) of Inl e \<Rightarrow> Inl e | Inr d \<Rightarrow> Inr (d @ [last p]))"

definition rm :: "fs \<Rightarrow> path \<Rightarrow> ToolError + fs" where
  "rm fs p =
     (case entry_of fs p of Inl e \<Rightarrow> Inl e
      | Inr a \<Rightarrow> (case fs a of None \<Rightarrow> Inl ENOENT | Some Dir \<Rightarrow> Inl EISDIR | Some _ \<Rightarrow> Inr (fs(a := None))))"

definition rename :: "fs \<Rightarrow> path \<Rightarrow> path \<Rightarrow> ToolError + fs" where
  "rename fs p t =
     (case (entry_of fs p, entry_of fs t) of
        (Inr a, Inr b) \<Rightarrow>
          if fs a = None then Inl ENOENT
          else if strict_prefix a b then Inl EINVAL
          else Inr (\<lambda>q. if prefix b q then fs (a @ drop (length b) q) else if prefix a q then None else fs q)
      | (Inl e, _) \<Rightarrow> Inl e
      | (_, Inl e) \<Rightarrow> Inl e)"

section \<open>Results\<close>

datatype ChangeKind = Created | Modified | Deleted | Moved

record FileChangeResult =
  fc_path :: path
  fc_operation :: ChangeKind
  fc_old_path :: "path option"
  fc_additions :: nat
  fc_deletions :: nat
  fc_diff :: units
  fc_bytes_before :: "nat option"
  fc_bytes_after :: "nat option"
  fc_replacements :: "(nat \<times> nat) list option"

record FileMutationResult =
  mr_files :: "FileChangeResult list"
  mr_warnings :: bool

definition change :: "path \<Rightarrow> ChangeKind \<Rightarrow> DiffStats \<Rightarrow> nat option \<Rightarrow> nat option \<Rightarrow> (nat \<times> nat) list option \<Rightarrow> FileChangeResult" where
  "change p operation stats bytes_before bytes_after replacements =
     \<lparr>fc_path = p, fc_operation = operation, fc_old_path = None, fc_additions = ds_additions stats, fc_deletions = ds_deletions stats,
      fc_diff = ds_diff stats, fc_bytes_before = bytes_before, fc_bytes_after = bytes_after, fc_replacements = replacements\<rparr>"

definition diff_of :: "path \<Rightarrow> units \<Rightarrow> units \<Rightarrow> DiffStats" where
  "diff_of p before after = createUnifiedDiff (lit (render p)) before after"

section \<open>Writing a file\<close>

text \<open>\<open>Inr None\<close> when there is no file, and otherwise its text and the number of its bytes.\<close>

definition maybeLoadExistingText :: "fs \<Rightarrow> path \<Rightarrow> ToolError + (units \<times> nat) option" where
  "maybeLoadExistingText fs p =
     (case stat fs p of
        Inl e \<Rightarrow> if e = ENOENT then Inr None else Inl e
      | Inr Dir \<Rightarrow> Inl EISDIR
      | Inr _ \<Rightarrow> (case loadTextFile fs p of
                    Inl e \<Rightarrow> if e = ENOENT then Inr None else Inl e
                  | Inr loaded \<Rightarrow> Inr (Some (lf_body loaded, byteLength (lf_bytes loaded)))))"

definition writeFileMutation ::
  "(string \<Rightarrow> ToolError + path) \<Rightarrow> bool \<Rightarrow> bool \<Rightarrow> string \<Rightarrow> units \<Rightarrow> fs \<Rightarrow> (ToolError + FileMutationResult) \<times> fs" where
  "writeFileMutation resolve aborted aborted' pth content fs =
     (let bytes = byteLength content
      in if bytes > MAX_TEXT_FILE_BYTES then (Inl E2BIG, fs)
         else if aborted then (Inl ECANCELED, fs)
         else (case resolve pth of
             Inl e \<Rightarrow> (Inl e, fs)
           | Inr resolved \<Rightarrow>
               (case maybeLoadExistingText fs resolved of
                  Inl e \<Rightarrow> (Inl e, fs)
                | Inr before \<Rightarrow>
                    if aborted' then (Inl ECANCELED, fs)
                    else (case mkdir_p fs [] (butlast resolved) of
                        Inl e \<Rightarrow> (Inl e, fs)
                      | Inr fs1 \<Rightarrow>
                          (case writeFile fs1 resolved content of
                             Inl e \<Rightarrow> (Inl e, fs1)
                           | Inr fs2 \<Rightarrow>
                               (Inr \<lparr>mr_files = [change resolved (if before \<noteq> None then Modified else Created)
                                       (diff_of resolved (normalizeLineEndings (case before of None \<Rightarrow> [] | Some b \<Rightarrow> fst b)) (normalizeLineEndings content))
                                       (map_option snd before) (Some bytes) None], mr_warnings = False\<rparr>, fs2))))))"

section \<open>Replacing in a file\<close>

record ReplaceInput =
  ri_path :: string
  ri_edits :: "ExactReplacement list"
  ri_expectedRevision :: "string option"
  ri_skip_noop :: bool

record EditPlan =
  ep_source :: LoadedTextFile
  ep_bodyLf :: units
  ep_nextBodyLf :: units
  ep_nextText :: units
  ep_counts :: "nat list"

definition normalize_edit :: "ExactReplacement \<Rightarrow> ExactReplacement" where
  "normalize_edit e = e\<lparr>er_oldString := normalizeLineEndings (er_oldString e), er_newString := normalizeLineEndings (er_newString e)\<rparr>"

definition effective_edits :: "ReplaceInput \<Rightarrow> ExactReplacement list" where
  "effective_edits input =
     (let normalizedEdits = map normalize_edit (ri_edits input)
      in if ri_skip_noop input then filter (\<lambda>e. er_oldString e \<noteq> er_newString e) normalizedEdits else normalizedEdits)"

text \<open>The first part, up to the new text: no plan when there is nothing to do.\<close>

definition replace_prepare :: "(units \<Rightarrow> string) \<Rightarrow> ReplaceInput \<Rightarrow> path \<Rightarrow> fs \<Rightarrow> ToolError + EditPlan option" where
  "replace_prepare revisionOf input resolved fs =
     (case loadTextFile fs resolved of
        Inl e \<Rightarrow> Inl e
      | Inr source \<Rightarrow>
          if truthy (ri_expectedRevision input) \<noteq> None \<and> ri_expectedRevision input \<noteq> Some (revisionOf (lf_bytes source)) then Inl ESTALE
          else (let bodyLf = normalizeLineEndings (lf_body source)
                in if effective_edits input = [] then Inr None
                   else (case applyExactReplacements bodyLf (effective_edits input) of
                       Inl (e, index) \<Rightarrow> Inl e
                     | Inr (nextBodyLf, counts) \<Rightarrow>
                         Inr (Some \<lparr>ep_source = source, ep_bodyLf = bodyLf, ep_nextBodyLf = nextBodyLf,
                                    ep_nextText = serializeTextFile nextBodyLf source, ep_counts = counts\<rparr>))))"

text \<open>The second part, on the file system as it is by then.\<close>

definition replace_commit :: "path \<Rightarrow> EditPlan \<Rightarrow> fs \<Rightarrow> (ToolError + FileMutationResult) \<times> fs" where
  "replace_commit resolved plan fs =
     (case loadTextFile fs resolved of
        Inl e \<Rightarrow> (Inl e, fs)
      | Inr latest \<Rightarrow>
          if lf_bytes latest \<noteq> lf_bytes (ep_source plan) then (Inl ESTALE, fs)
          else (case writeFile fs resolved (ep_nextText plan) of
              Inl e \<Rightarrow> (Inl e, fs)
            | Inr fs1 \<Rightarrow>
                (Inr \<lparr>mr_files = [change resolved Modified (diff_of resolved (ep_bodyLf plan) (ep_nextBodyLf plan))
                        (Some (byteLength (lf_bytes (ep_source plan)))) (Some (byteLength (ep_nextText plan)))
                        (Some (zip [0..<length (ep_counts plan)] (ep_counts plan)))],
                      mr_warnings = (lf_lineEnding (ep_source plan) = LineMixed)\<rparr>, fs1)))"

text \<open>The whole mutation; \<open>fs'\<close> is the file system after what other programs do to it in between.\<close>

definition replaceInFileMutation ::
  "(units \<Rightarrow> string) \<Rightarrow> (string \<Rightarrow> ToolError + path) \<Rightarrow> bool \<Rightarrow> bool \<Rightarrow> ReplaceInput \<Rightarrow> fs \<Rightarrow> fs \<Rightarrow> (ToolError + FileMutationResult) \<times> fs" where
  "replaceInFileMutation revisionOf resolve aborted aborted' input fs fs' =
     (if aborted then (Inl ECANCELED, fs')
      else (case resolve (ri_path input) of
          Inl e \<Rightarrow> (Inl e, fs')
        | Inr resolved \<Rightarrow>
            (case replace_prepare revisionOf input resolved fs of
               Inl e \<Rightarrow> (Inl e, fs')
             | Inr None \<Rightarrow> (Inr \<lparr>mr_files = [], mr_warnings = False\<rparr>, fs')
             | Inr (Some plan) \<Rightarrow> if aborted' then (Inl ECANCELED, fs') else replace_commit resolved plan fs')))"

section \<open>Applying a patch\<close>

definition as_string :: "units \<Rightarrow> string" where
  "as_string u = map char_of u"

text \<open>An operation of a patch runs without another program changing the file in between.\<close>

definition patch_add :: "path \<Rightarrow> units \<Rightarrow> fs \<Rightarrow> (ToolError + FileChangeResult) \<times> fs" where
  "patch_add resolved content fs =
     (if \<not> isl (stat fs resolved) then (Inl EEXIST, fs)
      else (case mkdir_p fs [] (butlast resolved) of
          Inl e \<Rightarrow> (Inl e, fs)
        | Inr fs1 \<Rightarrow>
            (case writeFile fs1 resolved content of
               Inl e \<Rightarrow> (Inl e, fs1)
             | Inr fs2 \<Rightarrow>
                 (Inr (change resolved Created (diff_of resolved [] (normalizeLineEndings content)) None (Some (byteLength content)) None), fs2))))"

definition patch_delete :: "path \<Rightarrow> fs \<Rightarrow> (ToolError + FileChangeResult) \<times> fs" where
  "patch_delete resolved fs =
     (case loadTextFile fs resolved of
        Inl e \<Rightarrow> (Inl e, fs)
      | Inr source \<Rightarrow>
          (case rm fs resolved of
             Inl e \<Rightarrow> (Inl e, fs)
           | Inr fs1 \<Rightarrow>
               (Inr (change resolved Deleted (diff_of resolved (normalizeLineEndings (lf_body source)) [])
                  (Some (byteLength (lf_bytes source))) (Some 0) None), fs1)))"

definition patch_move :: "path \<Rightarrow> (ToolError + path) \<Rightarrow> fs \<Rightarrow> (ToolError + FileChangeResult) \<times> fs" where
  "patch_move resolved target_result fs =
     (case target_result of
        Inl e \<Rightarrow> (Inl e, fs)
      | Inr target \<Rightarrow>
          if \<not> isl (stat fs target) then (Inl EEXIST, fs)
          else (case mkdir_p fs [] (butlast target) of
              Inl e \<Rightarrow> (Inl e, fs)
            | Inr fs1 \<Rightarrow>
                (case rename fs1 resolved target of
                   Inl e \<Rightarrow> (Inl e, fs1)
                 | Inr fs2 \<Rightarrow>
                     (Inr \<lparr>fc_path = target, fc_operation = Moved, fc_old_path = Some resolved, fc_additions = 0, fc_deletions = 0,
                           fc_diff = lit ''rename '' @ lit (render resolved) @ lit '' => '' @ lit (render target),
                           fc_bytes_before = None, fc_bytes_after = None, fc_replacements = None\<rparr>, fs2))))"

definition patch_update :: "path \<Rightarrow> units \<Rightarrow> units \<Rightarrow> fs \<Rightarrow> (ToolError + FileChangeResult) \<times> fs" where
  "patch_update resolved oldText newText fs =
     (case loadTextFile fs resolved of
        Inl e \<Rightarrow> (Inl e, fs)
      | Inr source \<Rightarrow>
          (let bodyLf = normalizeLineEndings (lf_body source)
           in case applyExactReplacements bodyLf
                [\<lparr>er_oldString = normalizeLineEndings oldText, er_newString = normalizeLineEndings newText, er_replaceAll = False\<rparr>] of
                Inl (e, index) \<Rightarrow> (Inl e, fs)
              | Inr (nextBodyLf, counts) \<Rightarrow>
                  (let nextText = serializeTextFile nextBodyLf source
                   in case loadTextFile fs resolved of
                        Inl e \<Rightarrow> (Inl e, fs)
                      | Inr latest \<Rightarrow>
                          if lf_bytes latest \<noteq> lf_bytes source then (Inl ESTALE, fs)
                          else (case writeFile fs resolved nextText of
                              Inl e \<Rightarrow> (Inl e, fs)
                            | Inr fs1 \<Rightarrow>
                                (Inr (change resolved Modified (diff_of resolved bodyLf nextBodyLf)
                                   (Some (byteLength (lf_bytes source))) (Some (byteLength nextText)) None), fs1)))))"

definition op_path :: "ParsedPatchOperation \<Rightarrow> units" where
  "op_path operation = (case operation of PatchAdd p _ \<Rightarrow> p | PatchDelete p \<Rightarrow> p | PatchMove p _ \<Rightarrow> p | PatchUpdate p _ _ \<Rightarrow> p)"

definition applyPatchOperation :: "(fs \<Rightarrow> string \<Rightarrow> ToolError + path) \<Rightarrow> ParsedPatchOperation \<Rightarrow> fs \<Rightarrow> (ToolError + FileChangeResult) \<times> fs" where
  "applyPatchOperation resolve operation fs =
     (case resolve fs (as_string (op_path operation)) of
        Inl e \<Rightarrow> (Inl e, fs)
      | Inr resolved \<Rightarrow>
          (case operation of
             PatchAdd p content \<Rightarrow> patch_add resolved content fs
           | PatchDelete p \<Rightarrow> patch_delete resolved fs
           | PatchMove p newPath \<Rightarrow> patch_move resolved (resolve fs (as_string newPath)) fs
           | PatchUpdate p oldText newText \<Rightarrow> patch_update resolved oldText newText fs))"

text \<open>The loop over the operations: it ends at the first one that raises.\<close>

fun apply_operations ::
  "(fs \<Rightarrow> string \<Rightarrow> ToolError + path) \<Rightarrow> ParsedPatchOperation list \<Rightarrow> FileChangeResult list \<Rightarrow> fs \<Rightarrow> (ToolError + FileChangeResult list) \<times> fs" where
  "apply_operations resolve [] changes fs = (Inr changes, fs)"
| "apply_operations resolve (operation # operations) changes fs =
     (case applyPatchOperation resolve operation fs of
        (Inl e, fs1) \<Rightarrow> (Inl e, fs1)
      | (Inr c, fs1) \<Rightarrow> apply_operations resolve operations (changes @ [c]) fs1)"

definition applyFilePatchMutation :: "(fs \<Rightarrow> string \<Rightarrow> ToolError + path) \<Rightarrow> units \<Rightarrow> fs \<Rightarrow> (ToolError + FileMutationResult) \<times> fs" where
  "applyFilePatchMutation resolve patch fs =
     (case parseFilePatch patch of
        Inl e \<Rightarrow> (Inl e, fs)
      | Inr [] \<Rightarrow> (Inl EPATCHPARSE, fs)
      | Inr operations \<Rightarrow>
          (case apply_operations resolve operations [] fs of
             (Inl e, fs1) \<Rightarrow> (Inl e, fs1)
           | (Inr changes, fs1) \<Rightarrow> (Inr \<lparr>mr_files = changes, mr_warnings = False\<rparr>, fs1)))"

end
