(* ===== verification/Mut_Properties.thy ===== *)
theory Mut_Properties
  imports Mut_Engine
begin

text \<open>
  Properties of the file mutations: an edit works on the text that is there when it is written and changes
  nothing else, it keeps the line ends of the file, a patch that fails has applied the operations before the
  failing one, and what is written is what is read.
\<close>

section \<open>Frames\<close>

lemma walk_create: "walk fs False n b segs = Inr q \<Longrightarrow> walk fs True n b segs = Inr q"
proof (induction fs "False" n b segs rule: walk.induct)
  case (2 fs n base s rest)
  show ?case
  proof (cases s rule: name_cases)
    case name
    then show ?thesis using 2 by (auto simp: walk_name name_ok_def split: option.splits node.splits if_splits)
  qed (use 2 in \<open>auto simp: walk_dots\<close>)
qed simp

lemma loadTextFile_file:
  assumes "loadTextFile fs p = Inr source"
  obtains q bytes where "realpath fs p = Inr q" "q \<noteq> []" "fs q = Some (File bytes)" "source = load_text bytes"
  using assms by (auto simp: loadTextFile_def stat_def node_at_def split: sum.splits option.splits node.splits if_splits)

lemma load_text_bytes [simp]: "lf_bytes (load_text bytes) = bytes"
  by (simp add: load_text_def Let_def split: prod.splits)

lemma writeFile_existing:
  "realpath fs p = Inr q \<Longrightarrow> q \<noteq> [] \<Longrightarrow> fs q = Some (File c) \<Longrightarrow> writeFile fs p content = Inr (fs(q \<mapsto> File content))"
  by (auto simp: writeFile_def realpath_def node_at_def dest: walk_create)

text \<open>What a successful commit does to the file system.\<close>

lemma replace_commit_cases:
  obtains e where "replace_commit resolved plan fs = (Inl e, fs)"
  | r q bytes where "replace_commit resolved plan fs = (Inr r, fs(q \<mapsto> File (ep_nextText plan)))"
      "realpath fs resolved = Inr q" "q \<noteq> []" "fs q = Some (File bytes)" "bytes = lf_bytes (ep_source plan)"
proof (cases "loadTextFile fs resolved")
  case (Inl e)
  then show ?thesis using that(1) by (simp add: replace_commit_def)
next
  case (Inr latest)
  then obtain q bytes where q: "realpath fs resolved = Inr q" "q \<noteq> []" "fs q = Some (File bytes)" "latest = load_text bytes"
    by (rule loadTextFile_file)
  show ?thesis
  proof (cases "bytes = lf_bytes (ep_source plan)")
    case True
    with Inr q writeFile_existing [OF q(1-3)] that(2) [OF _ q(1-3) True] show ?thesis by (simp add: replace_commit_def)
  next
    case False
    with Inr q that(1) show ?thesis by (simp add: replace_commit_def)
  qed
qed

lemma replace_prepare_plan:
  assumes "replace_prepare revisionOf input resolved fs = Inr (Some plan)"
  shows "\<exists>bytes. ep_source plan = load_text bytes \<and> effective_edits input \<noteq> [] \<and>
    applyExactReplacements (normalizeLineEndings (lf_body (load_text bytes))) (effective_edits input) = Inr (ep_nextBodyLf plan, ep_counts plan) \<and>
    ep_nextText plan = serializeTextFile (ep_nextBodyLf plan) (load_text bytes)"
proof -
  obtain source where source: "loadTextFile fs resolved = Inr source"
    using assms by (auto simp: replace_prepare_def split: sum.splits)
  then obtain bytes where "source = load_text bytes" by (rule loadTextFile_file)
  with assms source show ?thesis
    by (auto simp: replace_prepare_def Let_def split: if_splits sum.splits prod.splits)
qed

lemma edits_apply: "applyExactReplacements t es = Inr (result, ns) \<longleftrightarrow> edits_chain [] es t ns result"
  by (simp add: applyExactReplacements_def apply_edits_chain)

text \<open>The outcome of a replacement: \<open>g\<close> is the file system it leaves when it meets \<open>fs\<close> at its commit.\<close>

definition edit_outcome :: "(string \<Rightarrow> ToolError + path) \<Rightarrow> ReplaceInput \<Rightarrow> fs \<Rightarrow> fs \<Rightarrow> bool" where
  "edit_outcome resolve input fs g \<longleftrightarrow>
     (\<exists>resolved q bytes nextBody counts. resolve (ri_path input) = Inr resolved \<and> realpath fs resolved = Inr q \<and> q \<noteq> [] \<and> fs q = Some (File bytes) \<and>
        edits_chain [] (effective_edits input) (normalizeLineEndings (lf_body (load_text bytes))) counts nextBody \<and>
        g = fs(q \<mapsto> File (serializeTextFile nextBody (load_text bytes))))"

lemma replace_outcome:
  "case replaceInFileMutation revisionOf resolve aborted aborted' input fs fs' of
     (Inl e, g) \<Rightarrow> g = fs'
   | (Inr r, g) \<Rightarrow> (effective_edits input = [] \<and> g = fs' \<and> mr_files r = []) \<or> edit_outcome resolve input fs' g"
proof (cases "aborted \<or> isl (resolve (ri_path input))")
  case True
  then show ?thesis by (auto simp: replaceInFileMutation_def split: sum.splits)
next
  case False
  then obtain resolved where r: "\<not> aborted" "resolve (ri_path input) = Inr resolved" by (cases "resolve (ri_path input)") auto
  show ?thesis
  proof (cases "replace_prepare revisionOf input resolved fs")
    case (Inl e)
    with r show ?thesis by (simp add: replaceInFileMutation_def)
  next
    case (Inr p)
    show ?thesis
    proof (cases p)
      case None
      with Inr have "effective_edits input = []"
        by (auto simp: replace_prepare_def Let_def split: if_splits sum.splits prod.splits)
      with None Inr r show ?thesis by (simp add: replaceInFileMutation_def)
    next
      case (Some plan)
      obtain bytes where b: "ep_source plan = load_text bytes" "ep_nextText plan = serializeTextFile (ep_nextBodyLf plan) (load_text bytes)"
        "edits_chain [] (effective_edits input) (normalizeLineEndings (lf_body (load_text bytes))) (ep_counts plan) (ep_nextBodyLf plan)"
        using replace_prepare_plan [of revisionOf input resolved fs plan] Inr Some by (auto simp: edits_apply)
      show ?thesis
      proof (cases aborted')
        case True
        with Inr Some r show ?thesis by (simp add: replaceInFileMutation_def)
      next
        case False
        show ?thesis
        proof (rule replace_commit_cases [of resolved plan fs'])
          fix e assume "replace_commit resolved plan fs' = (Inl e, fs')"
          with False Inr Some r show ?thesis by (simp add: replaceInFileMutation_def)
        next
          fix x q bytes' assume c: "replace_commit resolved plan fs' = (Inr x, fs'(q \<mapsto> File (ep_nextText plan)))"
            "realpath fs' resolved = Inr q" "q \<noteq> []" "fs' q = Some (File bytes')" "bytes' = lf_bytes (ep_source plan)"
          then have "edit_outcome resolve input fs' (fs'(q \<mapsto> File (ep_nextText plan)))"
            using r b by (auto simp: edit_outcome_def)
          with c(1) False Inr Some r show ?thesis by (simp add: replaceInFileMutation_def)
        qed
      qed
    qed
  qed
qed


section \<open>Line ends and the byte order mark\<close>

lemma expand_join: "expand_lf (join_with sep ls) = join_with (expand_lf sep) (map expand_lf ls)"
  by (induction sep ls rule: join_with.induct) (auto simp: join_with_Cons)

lemma count_no_cr: "CR \<notin> set c \<Longrightarrow> p \<noteq> CR \<Longrightarrow> count_crlf p c = 0"
  by (induction c arbitrary: p) auto

lemma crlf_only_counts: "crlf_only c \<Longrightarrow> p \<noteq> CR \<Longrightarrow> count_lf p c = 0 \<and> (LF \<in> set c \<longrightarrow> count_crlf p c > 0)"
  by (induction c arbitrary: p rule: crlf_only.induct) (auto split: if_splits)

lemma crlf_only_plain: "crlf_only c \<Longrightarrow> LF \<notin> set c \<Longrightarrow> CR \<notin> set c"
  by (induction c rule: crlf_only.induct) (auto split: if_splits)

lemma detect_plain: "CR \<notin> set c \<Longrightarrow> detectLineEnding c = LineLf"
  by (simp add: detectLineEnding_def count_no_cr)

lemma detect_crlf: "crlf_only c \<Longrightarrow> LF \<in> set c \<Longrightarrow> detectLineEnding c = LineCrlf"
  using crlf_only_counts [of c 0] by (simp add: detectLineEnding_def)

lemma load_no_bom: "BOM \<notin> set c \<Longrightarrow> load_text c = \<lparr>lf_bytes = c, lf_text = c, lf_body = c, lf_bom = False, lf_lineEnding = detectLineEnding c\<rparr>"
  by (cases c) (simp_all add: load_text_def decode_def splitBom_def starts_with_def Let_def)

lemma joinBom_plain: "BOM \<notin> set c \<Longrightarrow> joinBom c False = c"
  by (cases c) (simp_all add: joinBom_def splitBom_def starts_with_def)

lemma set_join: "set (join_with sep ls) \<subseteq> set sep \<union> \<Union> (set ` set ls)"
  by (induction sep ls rule: join_with.induct) auto

lemma pieces_subset: "l \<in> set ls \<Longrightarrow> set l \<subseteq> set (join_with sep ls)"
  by (induction sep ls rule: join_with.induct) auto

lemma sep_subset: "length ls > 1 \<Longrightarrow> set sep \<subseteq> set (join_with sep ls)"
  by (cases ls; cases "tl ls") auto

lemma set_expand: "set (expand_lf t) \<subseteq> insert CR (set t)"
  by (induction t) auto

lemma normalize_subset: "set (normalizeLineEndings t) \<subseteq> set t"
  by (induction t rule: normalizeLineEndings.induct) auto



lemma chain_units: "edits_chain intro es t ns result \<Longrightarrow> set result \<subseteq> set t \<union> (\<Union>e \<in> set es. set (er_newString e))"
proof (induction rule: edits_chain.induct)
  case (chain_edit e w n w1 introduced es ns result)
  obtain ps where "w = join_with (er_oldString e) ps" "w1 = join_with (er_newString e) ps"
    using chain_edit(1) by (auto simp: edit_spec_def)
  then have "set w1 \<subseteq> set w \<union> set (er_newString e)"
    using set_join [of "er_newString e" ps] pieces_subset [of _ ps "er_oldString e"] by fastforce
  with chain_edit(4) show ?case by auto
qed auto

text \<open>
  C19: A byte order mark does not survive an edit: the decoder has dropped it before it could be noted, so that a
  file that starts with one is written back without it.
\<close>

theorem edit_drops_bom:
  assumes "BOM \<notin> set c" "\<forall>e \<in> set es. BOM \<notin> set (er_newString e)"
    and "applyExactReplacements (normalizeLineEndings (lf_body (load_text (BOM # c)))) es = Inr (nextBody, ns)"
  shows "BOM \<notin> set (serializeTextFile nextBody (load_text (BOM # c)))"
proof -
  have l: "lf_body (load_text (BOM # c)) = c" "lf_bom (load_text (BOM # c)) = False"
    using assms(1) by (cases c; simp add: load_text_def decode_def splitBom_def starts_with_def Let_def)+
  have "set nextBody \<subseteq> set c \<union> (\<Union>e \<in> set es. set (er_newString e))"
    using chain_units [OF assms(3) [unfolded l edits_apply]] normalize_subset [of c] by blast
  with assms(1,2) have b: "BOM \<notin> set nextBody" by blast
  then have "BOM \<notin> set (restoreLineEndings nextBody ending)" for ending
    using normalize_subset [of nextBody] set_expand [of "normalizeLineEndings nextBody"] by (auto simp: restoreLineEndings_def)
  then show ?thesis by (simp add: serializeTextFile_def l joinBom_plain)
qed

theorem edit_drops_bom_witness:
  "BOM \<notin> set (serializeTextFile [98] (load_text (BOM # [97])))"
proof (rule edit_drops_bom)
  have "lf_body (load_text (BOM # [97])) = [97]" by (simp add: load_text_def decode_def splitBom_def starts_with_def Let_def)
  moreover have "applyExactReplacements (normalizeLineEndings [97]) [\<lparr>er_oldString = [97], er_newString = [98], er_replaceAll = False\<rparr>] = Inr ([98], [1])"
    by code_simp
  ultimately show "applyExactReplacements (normalizeLineEndings (lf_body (load_text (BOM # [97])))) [\<lparr>er_oldString = [97], er_newString = [98], er_replaceAll = False\<rparr>]
      = Inr ([98], [1])" by simp
qed auto

section \<open>Patches\<close>

text \<open>Nothing changes but directories that are new.\<close>

definition only_new_dirs :: "fs \<Rightarrow> fs \<Rightarrow> bool" where
  "only_new_dirs fs g \<longleftrightarrow> (\<forall>x. g x = fs x \<or> fs x = None \<and> g x = Some Dir)"

lemma only_new_dirs_refl [simp]: "only_new_dirs fs fs"
  by (simp add: only_new_dirs_def)

lemma mkdir_p_dirs: "mkdir_p fs d segs = Inr g \<Longrightarrow> only_new_dirs fs g"
proof (induction fs d segs rule: mkdir_p.induct)
  case (2 fs d s rest)
  show ?case
  proof (cases "fs (d @ [s])")
    case None
    with 2(1) [OF None] 2(4) have "only_new_dirs (fs(d @ [s] \<mapsto> Dir)) g" by (simp add: fun_upd_def)
    with None show ?thesis unfolding only_new_dirs_def by (metis fun_upd_apply option.distinct(1))
  next
    case (Some n)
    with 2 show ?thesis by (cases n) (auto split: sum.splits if_splits)
  qed
qed simp

lemma failing_operation: "applyPatchOperation resolve op fs = (Inl e, g) \<Longrightarrow> only_new_dirs fs g"
  by (auto simp: applyPatchOperation_def patch_add_def patch_delete_def patch_move_def patch_update_def Let_def
      split: sum.splits ParsedPatchOperation.splits if_splits prod.splits dest: mkdir_p_dirs)

lemma apply_operations_prefix:
  "apply_operations resolve ops changes fs = (Inl e, g) \<Longrightarrow>
   \<exists>applied op rest changes' fs1. ops = applied @ op # rest \<and> apply_operations resolve applied changes fs = (Inr changes', fs1) \<and>
     applyPatchOperation resolve op fs1 = (Inl e, g)"
proof (induction resolve ops changes fs rule: apply_operations.induct)
  case (2 resolve op ops changes fs)
  obtain r fs1 where r: "applyPatchOperation resolve op fs = (r, fs1)" by (cases "applyPatchOperation resolve op fs") auto
  show ?case
  proof (cases r)
    case (Inl e')
    with r 2(2) show ?thesis
      by (intro exI [of _ "[]"] exI [of _ op] exI [of _ ops] exI [of _ changes] exI [of _ fs]) simp
  next
    case (Inr c)
    with r 2(2) have "apply_operations resolve ops (changes @ [c]) fs1 = (Inl e, g)" by simp
    from 2(1) [OF r [symmetric] Inr this] obtain applied op' rest changes' fs2 where
      "ops = applied @ op' # rest" "apply_operations resolve applied (changes @ [c]) fs1 = (Inr changes', fs2)"
      "applyPatchOperation resolve op' fs2 = (Inl e, g)" by blast
    with r Inr show ?thesis
      by (intro exI [of _ "op # applied"] exI [of _ op'] exI [of _ rest] exI [of _ changes'] exI [of _ fs2]) simp
  qed
qed simp

text \<open>
  C20: A patch is applied operation by operation and is not undone: when it fails with a parsed list of operations,
  the operations before the failing one have been applied, the failing one has left nothing but new parent
  directories, and none of the later ones has been tried.
\<close>

theorem patch_failure_keeps_prefix:
  assumes "parseFilePatch patch = Inr ops" "ops \<noteq> []" "applyFilePatchMutation resolve patch fs = (Inl e, g)"
  shows "\<exists>applied op rest changes fs1. ops = applied @ op # rest \<and> apply_operations resolve applied [] fs = (Inr changes, fs1) \<and>
    applyPatchOperation resolve op fs1 = (Inl e, g) \<and> only_new_dirs fs1 g"
proof -
  have "apply_operations resolve ops [] fs = (Inl e, g)"
    using assms by (auto simp: applyFilePatchMutation_def split: list.splits prod.splits sum.splits)
  from apply_operations_prefix [OF this] show ?thesis using failing_operation by blast
qed

theorem patch_failure_keeps_prefix_witness:
  "\<exists>applied op rest changes fs1. [PatchAdd [97] [], PatchDelete [98]] = applied @ op # rest \<and>
    apply_operations (\<lambda>fs p. Inr [p]) applied [] Map.empty = (Inr changes, fs1) \<and>
    applyPatchOperation (\<lambda>fs p. Inr [p]) op fs1 = (Inl ENOENT, Map.empty([''a''] \<mapsto> File [])) \<and> only_new_dirs fs1 (Map.empty([''a''] \<mapsto> File []))"
proof (rule patch_failure_keeps_prefix)
  show "parseFilePatch (print_patch [PatchAdd [97] [], PatchDelete [98]]) = Inr [PatchAdd [97] [], PatchDelete [98]]"
    by (rule parse_print_patch) (simp add: plain_path_def plain_def unit_trim_def unit_space_def)
  moreover have "as_string [97] = ''a''" "as_string [98] = ''b''" by code_simp+
  ultimately show "applyFilePatchMutation (\<lambda>fs p. Inr [p]) (print_patch [PatchAdd [97] [], PatchDelete [98]]) Map.empty = (Inl ENOENT, Map.empty([''a''] \<mapsto> File []))"
    by (simp add: applyFilePatchMutation_def applyPatchOperation_def op_path_def patch_add_def patch_delete_def stat_def realpath_def
        walk.simps(2) writeFile_def node_at_def loadTextFile_def)
qed simp

section \<open>Writing and reading\<close>

lemma walk_not_link: "walk fs create n b segs = Inr q \<Longrightarrow> real_dir fs b \<Longrightarrow> q \<noteq> [] \<Longrightarrow> fs q \<noteq> Some (Link a t)"
proof (induction fs create n b segs rule: walk.induct)
  case (1 fs create n b)
  then show ?case by (cases b rule: rev_cases) (auto simp: real_dir_snoc)
next
  case (2 fs create n base s rest)
  show ?case
  proof (cases s rule: name_cases)
    case name
    with 2 show ?thesis by (auto simp: walk_name real_dir_snoc name_ok_def split: option.splits node.splits if_splits)
  qed (use 2 in \<open>auto simp: walk_dots real_dir_butlast\<close>)
qed

lemma walk_written:
  "walk fs True n b segs = Inr q \<Longrightarrow> real_dir fs b \<Longrightarrow> node_at fs q \<noteq> Some Dir \<Longrightarrow> walk (fs(q \<mapsto> File c)) False n b segs = Inr q"
proof (induction fs "True" n b segs rule: walk.induct)
  case (1 fs n b)
  have "node_at fs b = Some Dir"
    using 1(2) by (cases b rule: rev_cases) (auto simp: node_at_def real_dir_snoc)
  with 1 show ?case by simp
next
  case (2 fs n base s rest)
  show ?case
  proof (cases s rule: name_cases)
    case name
    show ?thesis
    proof (cases "base @ [s] = q")
      case True
      then have "q \<noteq> []" by auto
      have "fs q \<noteq> Some (Link a t)" for a t using walk_not_link [OF 2(5,6) \<open>q \<noteq> []\<close>] .
      moreover have "fs q \<noteq> Some Dir" using 2(7) \<open>q \<noteq> []\<close> by (simp add: node_at_def)
      ultimately have "rest = []"
        using 2(5) unfolding walk_name [OF name] True by (auto split: option.splits node.splits if_splits)
      with True name show ?thesis by (simp add: walk_name)
    next
      case False
      with name 2 show ?thesis
        by (auto simp: walk_name real_dir_snoc name_ok_def split: option.splits node.splits if_splits)
    qed
  qed (use 2 in \<open>auto simp: walk_dots real_dir_butlast\<close>)
qed

lemma load_written: "realpath g p = Inr q \<Longrightarrow> q \<noteq> [] \<Longrightarrow> g q = Some (File c) \<Longrightarrow> byteLength c \<le> MAX_TEXT_FILE_BYTES \<Longrightarrow>
    \<not> isProbablyBinary c \<Longrightarrow> loadTextFile g p = Inr (load_text c)"
  by (simp add: loadTextFile_def stat_def node_at_def)

text \<open>
  A file that was written is read back with the content given, unless that content looks like a binary
  file; nothing else in the file system has changed but for parent directories that are new.
\<close>

theorem write_then_read:
  assumes "resolve pth = Inr resolved" "writeFileMutation resolve aborted aborted' pth content fs = (Inr r, g)"
  shows "\<exists>q. realpath g resolved = Inr q \<and> g q = Some (File content) \<and> only_new_dirs fs (g(q := fs q)) \<and>
    (\<not> isProbablyBinary content \<longrightarrow> loadTextFile g resolved = Inr (load_text content))"
proof -
  obtain fs1 where m: "mkdir_p fs [] (butlast resolved) = Inr fs1" "writeFile fs1 resolved content = Inr g"
    and size: "byteLength content \<le> MAX_TEXT_FILE_BYTES"
    using assms by (auto simp: writeFileMutation_def Let_def split: if_splits sum.splits)
  obtain q where q: "walk fs1 True LINK_LIMIT [] resolved = Inr q" "node_at fs1 q \<noteq> Some Dir" "g = fs1(q \<mapsto> File content)"
    using m(2) by (auto simp: writeFile_def split: sum.splits if_splits)
  then have r: "realpath g resolved = Inr q" using walk_written [OF q(1) _ q(2)] by (simp add: realpath_def)
  have "q \<noteq> []" using q(2) by (auto simp: node_at_def)
  moreover have "only_new_dirs fs (g(q := fs q))" using mkdir_p_dirs [OF m(1)] unfolding only_new_dirs_def q(3) by (metis fun_upd_apply)
  ultimately show ?thesis using r q(3) size load_written [OF r] by (intro exI [of _ q]) simp
qed

theorem write_then_read_witness:
  "\<exists>q. realpath (Map.empty([''a''] \<mapsto> File [97])) [''a''] = Inr q \<and> (Map.empty([''a''] \<mapsto> File [97])) q = Some (File [97]) \<and>
    only_new_dirs Map.empty ((Map.empty([''a''] \<mapsto> File [97]))(q := Map.empty q)) \<and>
    (\<not> isProbablyBinary [97] \<longrightarrow> loadTextFile (Map.empty([''a''] \<mapsto> File [97])) [''a''] = Inr (load_text [97]))"
proof (rule write_then_read [of "\<lambda>p. Inr [p]"])
  show "writeFileMutation (\<lambda>p. Inr [p]) False False ''a'' [97] Map.empty
     = (Inr \<lparr>mr_files = [change [''a''] Created (diff_of [''a''] [] [97]) None (Some 1) None], mr_warnings = False\<rparr>, Map.empty([''a''] \<mapsto> File [97]))"
    by (simp add: writeFileMutation_def byteLength_def unit_bytes_def MAX_TEXT_FILE_BYTES_def maybeLoadExistingText_def stat_def realpath_def
        walk.simps(2) writeFile_def node_at_def)
qed simp

section \<open>Mutations in the sandbox\<close>



end
