(* ===== verification/Exec_Receipts.thy ===== *)
theory Exec_Receipts
  imports Cache_Bounded Kala_Machines
begin

text \<open>
  The receipts of finished tool calls that the executor keeps, from \<open>packages/executor/src/execution-receipts.ts\<close>. A call
  to \<open>set\<close> is acknowledged when a snapshot of the receipts taken after it is on disk. The store runs as a
  sequence of events, cut where the code suspends: the microtask that starts the drain, the moment the
  snapshot is written to the temporary file, the end of the persisting, and the callback after the drain.
\<close>

section \<open>The store\<close>

definition MAX_RECEIPTS :: nat where "MAX_RECEIPTS = 500"

definition RECEIPT_TTL_MS :: int where "RECEIPT_TTL_MS = 24 * 60 * 60000"

record 'r Receipt =
  rc_completedAt :: int
  rc_result :: 'r

type_synonym 'r receipts = "(string \<times> 'r Receipt) list"

text \<open>
  The drain: none, one that persists up to a generation (with the snapshot once it has been written), or one
  that has returned and whose callback is still to run.
\<close>

datatype 'r drain = NoDrain | Persisting nat "'r receipts option" | Returned

record 'r receipt_store =
  rs_receipts :: "'r receipts"
  rs_generation :: nat
  rs_durableGeneration :: nat
  rs_drainScheduled :: bool
  rs_drain :: "'r drain"
  rs_waiters :: "nat list"
  rs_disk :: "'r receipts"

definition receipt_dead :: "int \<Rightarrow> 'r Receipt \<Rightarrow> bool" where
  "receipt_dead now r \<longleftrightarrow> rc_completedAt r < now - RECEIPT_TTL_MS"

definition prune_receipts :: "int \<Rightarrow> 'r receipt_store \<Rightarrow> 'r receipt_store" where
  "prune_receipts now s = s\<lparr>rs_receipts := prune_entries (receipt_dead now) MAX_RECEIPTS (rs_receipts s)\<rparr>"

text \<open>Loading at the start: the entries of the file, or nothing when it cannot be read.\<close>

definition load_receipts :: "int \<Rightarrow> 'r receipts option \<Rightarrow> 'r receipt_store" where
  "load_receipts now stored =
     (let s = \<lparr>rs_receipts = [], rs_generation = 0, rs_durableGeneration = 0, rs_drainScheduled = False, rs_drain = NoDrain,
               rs_waiters = [], rs_disk = (case stored of None \<Rightarrow> [] | Some entries \<Rightarrow> entries)\<rparr>
      in case stored of None \<Rightarrow> s
         | Some entries \<Rightarrow> prune_receipts now (s\<lparr>rs_receipts := fold (\<lambda>(k, r). AList.update k r) entries []\<rparr>))"

definition get_receipt :: "int \<Rightarrow> string \<Rightarrow> 'r receipt_store \<Rightarrow> 'r receipt_store \<times> 'r option" where
  "get_receipt now callId s =
     (let s1 = prune_receipts now s in (s1, map_option rc_result (map_of (rs_receipts s1) callId)))"

definition scheduleDrain :: "'r receipt_store \<Rightarrow> 'r receipt_store" where
  "scheduleDrain s = (if rs_drainScheduled s \<or> rs_drain s \<noteq> NoDrain then s else s\<lparr>rs_drainScheduled := True\<rparr>)"

definition set_receipt :: "int \<Rightarrow> string \<Rightarrow> 'r \<Rightarrow> 'r receipt_store \<Rightarrow> 'r receipt_store" where
  "set_receipt now callId r s =
     (let s1 = prune_receipts now
            (s\<lparr>rs_receipts := AList.update callId \<lparr>rc_completedAt = now, rc_result = r\<rparr> (AList.delete callId (rs_receipts s))\<rparr>);
          generation = Suc (rs_generation s1)
      in scheduleDrain (s1\<lparr>rs_generation := generation, rs_waiters := rs_waiters s1 @ [generation]\<rparr>))"

text \<open>The head of the loop of \<open>drain\<close>: another round, or the return.\<close>

definition drain_loop :: "'r receipt_store \<Rightarrow> 'r receipt_store" where
  "drain_loop s =
     (if rs_durableGeneration s < rs_generation s then s\<lparr>rs_drain := Persisting (rs_generation s) None\<rparr> else s\<lparr>rs_drain := Returned\<rparr>)"

definition removeWaitersThrough :: "nat \<Rightarrow> 'r receipt_store \<Rightarrow> 'r receipt_store" where
  "removeWaitersThrough generation s = s\<lparr>rs_waiters := dropWhile (\<lambda>w. w \<le> generation) (rs_waiters s)\<rparr>"

section \<open>Events\<close>

datatype 'r receipt_event =
    RSet int string 'r
  | RGet int string
  | RMicrotask
  | RSnapshot
  | RPersisted
  | RFailed bool
  | RFinally

datatype settled = Resolved nat | Rejected nat

text \<open>
  One event; one that does not fit the state changes nothing. A persisting that fails has renamed the
  temporary file or not, depending on where it failed.
\<close>

fun receipt_step :: "'r receipt_store \<Rightarrow> 'r receipt_event \<Rightarrow> 'r receipt_store" where
  "receipt_step s (RSet now callId r) = set_receipt now callId r s"
| "receipt_step s (RGet now callId) = fst (get_receipt now callId s)"
| "receipt_step s RMicrotask =
     (if rs_drainScheduled s then drain_loop (s\<lparr>rs_drainScheduled := False\<rparr>) else s)"
| "receipt_step s RSnapshot =
     (case rs_drain s of Persisting target None \<Rightarrow> s\<lparr>rs_drain := Persisting target (Some (rs_receipts s))\<rparr> | _ \<Rightarrow> s)"
| "receipt_step s RPersisted =
     (case rs_drain s of
        Persisting target (Some snapshot) \<Rightarrow>
          drain_loop (removeWaitersThrough target (s\<lparr>rs_disk := snapshot, rs_durableGeneration := target\<rparr>))
      | _ \<Rightarrow> s)"
| "receipt_step s (RFailed renamed) =
     (case rs_drain s of
        Persisting target snapshot \<Rightarrow>
          (removeWaitersThrough target
             (s\<lparr>rs_disk := (case snapshot of Some d \<Rightarrow> if renamed then d else rs_disk s | None \<Rightarrow> rs_disk s)\<rparr>))
          \<lparr>rs_durableGeneration := target, rs_drain := Returned\<rparr>
      | _ \<Rightarrow> s)"
| "receipt_step s RFinally =
     (if rs_drain s = Returned
      then (let s1 = s\<lparr>rs_drain := NoDrain\<rparr>
            in if rs_durableGeneration s1 < rs_generation s1 \<and> rs_waiters s1 \<noteq> [] then scheduleDrain s1 else s1)
      else s)"

text \<open>The promises that an event settles, by generation.\<close>

fun receipt_settles :: "'r receipt_store \<Rightarrow> 'r receipt_event \<Rightarrow> settled list" where
  "receipt_settles s RPersisted =
     (case rs_drain s of Persisting target (Some snapshot) \<Rightarrow> map Resolved (filter (\<lambda>w. w \<le> target) (rs_waiters s)) | _ \<Rightarrow> [])"
| "receipt_settles s (RFailed renamed) =
     (case rs_drain s of Persisting target snapshot \<Rightarrow> map Rejected (filter (\<lambda>w. w \<le> target) (rs_waiters s)) | _ \<Rightarrow> [])"
| "receipt_settles s _ = []"

section \<open>Waiters\<close>

text \<open>
  The waiters are exactly the generations that are not yet durable, and while there is one a drain is
  scheduled or running.
\<close>

definition receipts_inv :: "'r receipt_store \<Rightarrow> bool" where
  "receipts_inv s \<longleftrightarrow>
     rs_durableGeneration s \<le> rs_generation s \<and> rs_waiters s = [Suc (rs_durableGeneration s)..<Suc (rs_generation s)] \<and>
     (rs_drainScheduled s \<longrightarrow> rs_drain s = NoDrain) \<and>
     (rs_drain s = NoDrain \<and> \<not> rs_drainScheduled s \<longrightarrow> rs_durableGeneration s = rs_generation s) \<and>
     (\<forall>target snap. rs_drain s = Persisting target snap \<longrightarrow> rs_durableGeneration s < target \<and> target \<le> rs_generation s)"

lemma drop_upt: "a \<le> t \<Longrightarrow> t \<le> b \<Longrightarrow> dropWhile (\<lambda>w. w \<le> t) [Suc a..<Suc b] = [Suc t..<Suc b]"
proof -
  assume "a \<le> t" "t \<le> b"
  then have "[Suc a..<Suc b] = [Suc a..<Suc t] @ [Suc t..<Suc b]" using upt_add_eq_append [of "Suc a" "Suc t" "b - t"] by simp
  then show ?thesis by (simp add: dropWhile_append del: upt_Suc) (cases "t < b", auto simp: upt_conv_Cons simp del: upt_Suc)
qed

lemma prune_receipts_simps [simp]:
  "rs_generation (prune_receipts now s) = rs_generation s" "rs_durableGeneration (prune_receipts now s) = rs_durableGeneration s"
  "rs_drainScheduled (prune_receipts now s) = rs_drainScheduled s" "rs_drain (prune_receipts now s) = rs_drain s"
  "rs_waiters (prune_receipts now s) = rs_waiters s" "rs_disk (prune_receipts now s) = rs_disk s"
  by (simp_all add: prune_receipts_def)

lemma receipt_step_inv: "receipts_inv s \<Longrightarrow> receipts_inv (receipt_step s e)"
proof (cases e)
  case (RSet now callId r)
  assume "receipts_inv s"
  then show ?thesis by (auto simp: RSet receipts_inv_def set_receipt_def scheduleDrain_def Let_def)
next
  case (RPersisted)
  assume "receipts_inv s"
  then show ?thesis
    by (cases "rs_drain s")
      (auto simp: RPersisted receipts_inv_def drain_loop_def removeWaitersThrough_def drop_upt simp del: upt_Suc split: option.splits)
next
  case (RFailed renamed)
  assume "receipts_inv s"
  then show ?thesis
    by (cases "rs_drain s")
      (auto simp: RFailed receipts_inv_def drain_loop_def removeWaitersThrough_def drop_upt simp del: upt_Suc split: option.splits)
qed (auto simp: receipts_inv_def get_receipt_def drain_loop_def scheduleDrain_def Let_def simp del: upt_Suc split: drain.splits option.splits)

interpretation receipts: machine receipt_step receipts_inv
  by unfold_locales (rule receipt_step_inv)

primrec settled_gen :: "settled \<Rightarrow> nat" where
  "settled_gen (Resolved g) = g" | "settled_gen (Rejected g) = g"

abbreviation settles :: "'r receipt_store \<Rightarrow> 'r receipt_event \<Rightarrow> nat list" where
  "settles s e \<equiv> map settled_gen (receipt_settles s e)"

lemma filter_upt: "t \<le> b \<Longrightarrow> filter (\<lambda>w. w \<le> t) [Suc a..<Suc b] = [Suc a..<Suc t]"
  by (induction b) (auto simp: le_Suc_eq)

lemma settles_upt:
  "receipts_inv s \<Longrightarrow> settles s e = [Suc (rs_durableGeneration s)..<Suc (rs_durableGeneration (receipt_step s e))]"
  by (cases e; cases "rs_drain s")
    (auto simp: receipts_inv_def set_receipt_def get_receipt_def scheduleDrain_def drain_loop_def removeWaitersThrough_def Let_def filter_upt comp_def
      simp del: upt_Suc split: option.splits if_splits)

lemma durable_mono: "receipts_inv s \<Longrightarrow> rs_durableGeneration s \<le> rs_durableGeneration (receipt_step s e)"
  by (cases e; cases "rs_drain s")
    (auto simp: receipts_inv_def set_receipt_def get_receipt_def scheduleDrain_def drain_loop_def removeWaitersThrough_def Let_def
      split: option.splits)

interpretation settling: emit_once receipt_step "\<lambda>_ _. True" settles receipts_inv "\<lambda>s. {0..rs_durableGeneration s}"
proof unfold_locales
  fix s :: "'a receipt_store" and e :: "'a receipt_event"
  assume "receipts_inv s"
  then show "receipts_inv (receipt_step s e)" "distinct (settles s e)" "set (settles s e) \<inter> {0..rs_durableGeneration s} = {}"
    "{0..rs_durableGeneration s} \<union> set (settles s e) \<subseteq> {0..rs_durableGeneration (receipt_step s e)}"
    using durable_mono [of s e] unfolding settles_upt [OF \<open>receipts_inv s\<close>] by (auto intro: receipt_step_inv simp del: upt_Suc)
qed

lemma settled_through:
  "receipts_inv s \<Longrightarrow> set (run_outputs receipt_step settles s es) =
     {Suc (rs_durableGeneration s)..rs_durableGeneration (run_events receipt_step s es)} \<and>
     rs_durableGeneration s \<le> rs_durableGeneration (run_events receipt_step s es)"
proof (induction es arbitrary: s)
  case (Cons e es)
  have "set (settles s e) = {Suc (rs_durableGeneration s)..<Suc (rs_durableGeneration (receipt_step s e))}"
    unfolding settles_upt [OF Cons.prems] by (rule set_upt)
  with Cons.IH [OF receipt_step_inv [OF Cons.prems], of e] durable_mono [OF Cons.prems, of e] show ?case
    unfolding run_outputs.simps run_events.simps set_append by fastforce
qed simp

lemma load_inv: "receipts_inv (load_receipts now stored)"
  by (simp add: receipts_inv_def load_receipts_def Let_def split: option.splits)

fun is_set :: "'r receipt_event \<Rightarrow> bool" where
  "is_set (RSet now callId r) = True" | "is_set _ = False"

lemma generation_step: "rs_generation (receipt_step s e) = rs_generation s + (if is_set e then 1 else 0)"
  by (cases e; cases "rs_drain s")
    (auto simp: set_receipt_def get_receipt_def scheduleDrain_def drain_loop_def removeWaitersThrough_def Let_def split: option.splits)

lemma generation_run: "rs_generation (run_events receipt_step s es) = rs_generation s + length (filter is_set es)"
  by (induction es arbitrary: s) (simp_all add: generation_step)

lemma load_generation [simp]: "rs_generation (load_receipts now stored) = 0" "rs_durableGeneration (load_receipts now stored) = 0"
  by (simp_all add: load_receipts_def Let_def split: option.splits)

text \<open>
  C27: However the calls interleave with the drain, the promise of a call to \<open>set\<close> is settled at most once, the promises
  are settled for a growing range of generations without gaps, and no wake-up is lost: when no drain is
  scheduled or running, the promise of every call made so far has been settled.
\<close>

theorem receipts_settled_once:
  fixes es :: "'r receipt_event list" and now :: int and stored :: "'r receipts option"
  defines "s \<equiv> run_events receipt_step (load_receipts now stored) es"
    and "out \<equiv> run_outputs receipt_step settles (load_receipts now stored) es"
  shows "distinct out \<and> set out = {1..rs_durableGeneration s} \<and>
    (rs_drain s = NoDrain \<and> \<not> rs_drainScheduled s \<longrightarrow> set out = {1..length (filter is_set es)})"
proof -
  have "receipts_inv s" unfolding s_def by (rule receipts.inv_run_all [OF load_inv])
  then have "rs_drain s = NoDrain \<and> \<not> rs_drainScheduled s \<longrightarrow> rs_durableGeneration s = length (filter is_set es)"
    by (auto simp: receipts_inv_def s_def generation_run)
  moreover have "run_guarded (\<lambda>_ _. True) receipt_step (load_receipts now stored) es"
    by (induction es arbitrary: now stored rule: rev_induct) auto
  then have "distinct out" unfolding out_def by (rule settling.outputs_distinct [OF load_inv])
  ultimately show ?thesis using settled_through [OF load_inv, of now stored es] by (auto simp: out_def s_def)
qed

theorem receipts_settled_once_witness:
  "(let s = run_events receipt_step (load_receipts 0 None) [RSet 0 ''c'' (), RMicrotask, RSnapshot, RPersisted, RFinally];
        out = run_outputs receipt_step settles (load_receipts 0 None) [RSet 0 ''c'' (), RMicrotask, RSnapshot, RPersisted, RFinally]
    in rs_drain s = NoDrain \<and> \<not> rs_drainScheduled s \<and> set out = {1..1})"
proof -
  let ?es = "[RSet 0 ''c'' (), RMicrotask, RSnapshot, RPersisted, RFinally]"
  have "rs_drain (run_events receipt_step (load_receipts 0 None) ?es) = NoDrain \<and> \<not> rs_drainScheduled (run_events receipt_step (load_receipts 0 None) ?es)"
    by (simp add: load_receipts_def set_receipt_def scheduleDrain_def drain_loop_def removeWaitersThrough_def Let_def)
  moreover have "length (filter is_set ?es) = 1" by simp
  ultimately show ?thesis using receipts_settled_once [where now = 0 and stored = None and es = ?es] unfolding Let_def by (simp only:) blast
qed

section \<open>Durability\<close>

interpretation receipt_cache: bounded_cache receipt_dead MAX_RECEIPTS
  by unfold_locales (auto simp: receipt_dead_def MAX_RECEIPTS_def)

lemma recent_delete: "recent k v n m \<Longrightarrow> k \<noteq> k' \<Longrightarrow> recent k v n (AList.delete k' m)"
proof -
  assume "recent k v n m" "k \<noteq> k'"
  then obtain xs ys where m: "m = xs @ (k, v) # ys" "length ys \<le> n" by (auto simp: recent_def)
  have "length (AList.delete k' ys) \<le> n" using m(2) length_delete_le [of k' ys] by linarith
  with m(1) \<open>k \<noteq> k'\<close> show ?thesis unfolding recent_def AList.delete_eq
    by (intro exI [of _ "filter (\<lambda>kv. k' \<noteq> fst kv) xs"] exI [of _ "filter (\<lambda>kv. k' \<noteq> fst kv) ys"]) (auto simp: case_prod_unfold)
qed

lemma insert_last: "AList.update k v (AList.delete k m) = AList.delete k m @ [(k, v)]"
  by (rule update_absent) (simp add: delete_conv)

text \<open>
  The receipt of call \<open>k\<close> has at most \<open>n\<close> younger ones, in memory and in every snapshot that will settle its
  generation.
\<close>

definition kept_receipt :: "string \<Rightarrow> 'r Receipt \<Rightarrow> nat \<Rightarrow> nat \<Rightarrow> 'r receipt_store \<Rightarrow> bool" where
  "kept_receipt k v g n s \<longleftrightarrow>
     recent k v n (rs_receipts s) \<and> distinct (map fst (rs_receipts s)) \<and>
     (\<forall>target snap. rs_drain s = Persisting target (Some snap) \<longrightarrow> g \<le> target \<longrightarrow> recent k v n snap \<and> distinct (map fst snap))"

text \<open>Events that neither replace the receipt nor let it expire.\<close>

fun spares :: "string \<Rightarrow> int \<Rightarrow> 'r receipt_event \<Rightarrow> bool" where
  "spares k t (RSet now callId r) \<longleftrightarrow> callId \<noteq> k \<and> now \<le> t + RECEIPT_TTL_MS"
| "spares k t (RGet now callId) \<longleftrightarrow> now \<le> t + RECEIPT_TTL_MS"
| "spares k t _ \<longleftrightarrow> True"

lemma kept_step:
  assumes "kept_receipt k v g n s" "spares k (rc_completedAt v) e" "Suc n < MAX_RECEIPTS"
  shows "kept_receipt k v g (if is_set e then Suc n else n) (receipt_step s e)"
proof (cases e)
  case (RSet now callId r)
  let ?m = "AList.delete callId (rs_receipts s) @ [(callId, \<lparr>rc_completedAt = now, rc_result = r\<rparr>)]"
  have "recent k v (Suc n) ?m" using assms(1,2) RSet by (auto simp: kept_receipt_def intro!: recent_append recent_delete)
  then have "recent k v (Suc n) (prune_entries (receipt_dead now) MAX_RECEIPTS ?m)"
    using assms(2,3) RSet by (intro receipt_cache.prune_recent) (auto simp: receipt_dead_def)
  moreover have "distinct (map fst ?m)" using assms(1) by (auto simp: kept_receipt_def distinct_delete delete_notin_dom)
  ultimately show ?thesis using assms(1) RSet
    by (auto simp: kept_receipt_def set_receipt_def scheduleDrain_def prune_receipts_def insert_last Let_def
        intro: receipt_cache.prune_distinct recent_mono)
next
  case (RGet now callId)
  then have "recent k v n (prune_entries (receipt_dead now) MAX_RECEIPTS (rs_receipts s))"
    using assms by (intro receipt_cache.prune_recent) (auto simp: kept_receipt_def receipt_dead_def)
  with assms(1) RGet show ?thesis
    by (auto simp: kept_receipt_def get_receipt_def prune_receipts_def Let_def intro: receipt_cache.prune_distinct)
qed (use assms(1) in \<open>auto simp: kept_receipt_def drain_loop_def removeWaitersThrough_def scheduleDrain_def Let_def split: drain.splits option.splits\<close>)

lemma kept_run:
  "kept_receipt k v g n s \<Longrightarrow> \<forall>e \<in> set es. spares k (rc_completedAt v) e \<Longrightarrow> n + length (filter is_set es) < MAX_RECEIPTS - 1 \<Longrightarrow>
   kept_receipt k v g (n + length (filter is_set es)) (run_events receipt_step s es)"
proof (induction es arbitrary: n s)
  case (Cons e es)
  from kept_step [OF Cons.prems(1)] Cons.prems(2,3) have "kept_receipt k v g (if is_set e then Suc n else n) (receipt_step s e)" by simp
  from Cons.IH [OF this] Cons.prems(2,3) show ?case by (simp split: if_splits)
qed simp

lemma kept_set:
  assumes "receipts_inv s" "distinct (map fst (rs_receipts s))"
  shows "kept_receipt k \<lparr>rc_completedAt = now, rc_result = r\<rparr> (Suc (rs_generation s)) 0 (set_receipt now k r s)"
proof -
  let ?m = "AList.delete k (rs_receipts s) @ [(k, \<lparr>rc_completedAt = now, rc_result = r\<rparr>)]"
  have "recent k \<lparr>rc_completedAt = now, rc_result = r\<rparr> 0 (prune_entries (receipt_dead now) MAX_RECEIPTS ?m)"
    by (intro receipt_cache.prune_recent) (auto simp: receipt_dead_def MAX_RECEIPTS_def RECEIPT_TTL_MS_def)
  moreover have "distinct (map fst ?m)" using assms(2) by (auto simp: distinct_delete delete_notin_dom)
  ultimately show ?thesis using assms(1)
    by (auto simp: kept_receipt_def receipts_inv_def set_receipt_def scheduleDrain_def prune_receipts_def insert_last Let_def
        intro: receipt_cache.prune_distinct)
qed

text \<open>
  When the promise of a call to \<open>set\<close> is resolved, the file on disk holds the receipt, provided that fewer
  than 499 other receipts have come in since, that none of them was for the same call and that a day has not
  passed. A restart after that point answers a repeated call from the receipt.
\<close>

theorem resolved_receipt_on_disk:
  assumes "receipts_inv s" "distinct (map fst (rs_receipts s))"
    and "\<forall>e \<in> set es. spares k now e" "length (filter is_set es) < MAX_RECEIPTS - 1"
    and "Resolved (Suc (rs_generation s)) \<in> set (receipt_settles (run_events receipt_step (set_receipt now k r s) es) RPersisted)"
  shows "map_of (rs_disk (receipt_step (run_events receipt_step (set_receipt now k r s) es) RPersisted)) k
    = Some \<lparr>rc_completedAt = now, rc_result = r\<rparr>"
proof -
  let ?s = "run_events receipt_step (set_receipt now k r s) es"
  have kept: "kept_receipt k \<lparr>rc_completedAt = now, rc_result = r\<rparr> (Suc (rs_generation s)) (0 + length (filter is_set es)) ?s"
    using assms(3,4) by (intro kept_run kept_set [OF assms(1,2)]) auto
  obtain target snap where d: "rs_drain ?s = Persisting target (Some snap)" "Suc (rs_generation s) \<le> target"
    using assms(5) by (cases "rs_drain ?s") (auto split: option.splits)
  with kept have "map_of snap k = Some \<lparr>rc_completedAt = now, rc_result = r\<rparr>"
    by (auto simp: kept_receipt_def dest: recent_lookup)
  with d show ?thesis by (simp add: drain_loop_def removeWaitersThrough_def)
qed

theorem resolved_receipt_on_disk_witness:
  "map_of (rs_disk (receipt_step (run_events receipt_step (set_receipt 0 ''c'' () (load_receipts 0 None)) [RMicrotask, RSnapshot]) RPersisted)) ''c''
    = Some \<lparr>rc_completedAt = 0, rc_result = ()\<rparr>"
proof (rule resolved_receipt_on_disk)
  show "receipts_inv (load_receipts 0 None)" by (rule load_inv)
  show "Resolved (Suc (rs_generation (load_receipts 0 None))) \<in>
    set (receipt_settles (run_events receipt_step (set_receipt 0 ''c'' () (load_receipts 0 None)) [RMicrotask, RSnapshot]) RPersisted)"
    by (simp add: load_receipts_def set_receipt_def scheduleDrain_def drain_loop_def Let_def)
qed (simp_all add: load_receipts_def MAX_RECEIPTS_def Let_def)

end
