(* ===== verification/Host_Actor.thy ===== *)
theory Host_Actor
  imports Kala_Prelude
begin

text \<open>
  The mailbox actor of the host's workflows, from \<open>packages/host/src/workflows/serialized-actor.ts\<close>. A transition yields
  a state and commands; a command runs at once, may send events, which go to the end of the mailbox, and may
  raise an error, which the actor turns into an event. What a command does to its surroundings is a state
  \<open>'w\<close> that is threaded through. The mailbox is drained before \<open>send\<close> returns, so it is empty in between.
\<close>

record 's actor =
  ac_state :: 's
  ac_closed :: bool

text \<open>
  The commands of one transition, in order: \<open>run\<close> gives the surroundings afterwards, the events sent and whether
  the command raised an error, \<open>commandFailed\<close> the event for such an error.
\<close>

fun run_commands ::
  "('w \<Rightarrow> 's \<Rightarrow> 'c \<Rightarrow> 'w \<times> 'e list \<times> bool) \<Rightarrow> ('s \<Rightarrow> 'c \<Rightarrow> 'e option) \<Rightarrow> 'w \<Rightarrow> 's \<Rightarrow> 'c list \<Rightarrow> 'w \<times> 'e list" where
  "run_commands run commandFailed w s [] = (w, [])"
| "run_commands run commandFailed w s (c # cs) =
     (let (w1, sent, failed) = run w s c;
          failure = (if failed then (case commandFailed s c of None \<Rightarrow> [] | Some e \<Rightarrow> [e]) else []);
          (w2, more) = run_commands run commandFailed w1 s cs
      in (w2, sent @ failure @ more))"

partial_function (option) drain ::
  "('s \<Rightarrow> 'e \<Rightarrow> 's \<times> 'c list) \<Rightarrow> ('w \<Rightarrow> 's \<Rightarrow> 'c \<Rightarrow> 'w \<times> 'e list \<times> bool) \<Rightarrow> ('s \<Rightarrow> 'c \<Rightarrow> 'e option) \<Rightarrow>
   'w \<Rightarrow> 's \<Rightarrow> 'e list \<Rightarrow> ('w \<times> 's) option" where
  "drain transition run commandFailed w s mailbox =
     (case mailbox of
        [] \<Rightarrow> Some (w, s)
      | event # rest \<Rightarrow>
          (case transition s event of (s1, commands) \<Rightarrow>
            (case run_commands run commandFailed w s1 commands of (w1, sent) \<Rightarrow>
              drain transition run commandFailed w1 s1 (rest @ sent))))"

lemma drain_simps [simp]:
  "drain transition run commandFailed w s [] = Some (w, s)"
  "drain transition run commandFailed w s (event # rest) =
     (case transition s event of (s1, commands) \<Rightarrow>
        (case run_commands run commandFailed w s1 commands of (w1, sent) \<Rightarrow> drain transition run commandFailed w1 s1 (rest @ sent)))"
  by (simp_all add: drain.simps)

text \<open>\<open>None\<close> when the drain does not return.\<close>

definition send ::
  "('s \<Rightarrow> 'e \<Rightarrow> 's \<times> 'c list) \<Rightarrow> ('w \<Rightarrow> 's \<Rightarrow> 'c \<Rightarrow> 'w \<times> 'e list \<times> bool) \<Rightarrow> ('s \<Rightarrow> 'c \<Rightarrow> 'e option) \<Rightarrow>
   'w \<Rightarrow> 's actor \<Rightarrow> 'e \<Rightarrow> ('w \<times> 's actor) option" where
  "send transition run commandFailed w a event =
     (if ac_closed a then Some (w, a)
      else (case drain transition run commandFailed w (ac_state a) [event] of
          None \<Rightarrow> None
        | Some (w1, s1) \<Rightarrow> Some (w1, a\<lparr>ac_state := s1\<rparr>)))"

fun send_all ::
  "('s \<Rightarrow> 'e \<Rightarrow> 's \<times> 'c list) \<Rightarrow> ('w \<Rightarrow> 's \<Rightarrow> 'c \<Rightarrow> 'w \<times> 'e list \<times> bool) \<Rightarrow> ('s \<Rightarrow> 'c \<Rightarrow> 'e option) \<Rightarrow>
   'w \<Rightarrow> 's actor \<Rightarrow> 'e list \<Rightarrow> ('w \<times> 's actor) option" where
  "send_all transition run commandFailed w a [] = Some (w, a)"
| "send_all transition run commandFailed w a (e # es) =
     (case send transition run commandFailed w a e of None \<Rightarrow> None
      | Some (w1, a1) \<Rightarrow> send_all transition run commandFailed w1 a1 es)"

definition close_actor :: "'s actor \<Rightarrow> 's actor" where
  "close_actor a = a\<lparr>ac_closed := True\<rparr>"

definition replaceState :: "'s \<Rightarrow> 's actor \<Rightarrow> 's actor" where
  "replaceState s a = a\<lparr>ac_state := s\<rparr>"

section \<open>Actors that come to rest\<close>

text \<open>
  A potential of the state and weights of the events such that handling an event always costs more than the
  events it sends.
\<close>

locale resting_actor =
  fixes transition :: "'s \<Rightarrow> 'e \<Rightarrow> 's \<times> 'c list" and run :: "'w \<Rightarrow> 's \<Rightarrow> 'c \<Rightarrow> 'w \<times> 'e list \<times> bool"
    and commandFailed :: "'s \<Rightarrow> 'c \<Rightarrow> 'e option" and potential :: "'s \<Rightarrow> nat" and weight :: "'e \<Rightarrow> nat"
  assumes handling_costs:
    "transition s e = (s1, cs) \<Longrightarrow> run_commands run commandFailed w s1 cs = (w1, sent) \<Longrightarrow>
     potential s1 + sum_list (map weight sent) < potential s + weight e"
begin

abbreviation drained :: "'w \<Rightarrow> 's \<Rightarrow> 'e list \<Rightarrow> ('w \<times> 's) option" where
  "drained \<equiv> drain transition run commandFailed"

lemma drain_induct [consumes 0, case_names rest event]:
  assumes rest: "\<And>w s. P w s []"
    and event: "\<And>w s e es s1 cs w1 sent. transition s e = (s1, cs) \<Longrightarrow> run_commands run commandFailed w s1 cs = (w1, sent) \<Longrightarrow>
      P w1 s1 (es @ sent) \<Longrightarrow> P w s (e # es)"
  shows "P w s mailbox"
proof (induction "potential s + sum_list (map weight mailbox)" arbitrary: w s mailbox rule: less_induct)
  case less
  show ?case
  proof (cases mailbox)
    case Nil
    then show ?thesis using rest by simp
  next
    case (Cons e es)
    obtain s1 cs where t: "transition s e = (s1, cs)" by fastforce
    obtain w1 sent where r: "run_commands run commandFailed w s1 cs = (w1, sent)" by fastforce
    have "P w1 s1 (es @ sent)" using handling_costs [OF t r] by (intro less) (simp add: Cons)
    with event [OF t r] Cons show ?thesis by simp
  qed
qed

lemma drain_returns: "\<exists>w1 s1. drained w s mailbox = Some (w1, s1)"
  by (induction w s mailbox rule: drain_induct) auto

lemma drain_keeps:
  assumes "\<And>w s e es s1 cs w1 sent. Q w s (e # es) \<Longrightarrow> transition s e = (s1, cs) \<Longrightarrow>
    run_commands run commandFailed w s1 cs = (w1, sent) \<Longrightarrow> Q w1 s1 (es @ sent)"
  shows "Q w s mailbox \<Longrightarrow> drained w s mailbox = Some (w', s') \<Longrightarrow> Q w' s' []"
proof (induction w s mailbox rule: drain_induct)
  case (event w s e es s1 cs w1 sent)
  with assms [OF event(4) event(1,2)] show ?case by simp
qed simp

lemma send_returns: "\<exists>w1 a1. send transition run commandFailed w a e = Some (w1, a1)"
  using drain_returns [of w "ac_state a" "[e]"] by (auto simp: send_def split: prod.splits)

text \<open>A sequence of events from outside, each drained before the next one comes.\<close>

lemma send_all_keeps:
  assumes keeps: "\<And>later w s e es s1 cs w1 sent. Q later w s (e # es) \<Longrightarrow> transition s e = (s1, cs) \<Longrightarrow>
      run_commands run commandFailed w s1 cs = (w1, sent) \<Longrightarrow> Q later w1 s1 (es @ sent)"
    and next_event: "\<And>e later w s. Q (e # later) w s [] \<Longrightarrow> Q later w s [e]"
  shows "Q es w (ac_state a) [] \<Longrightarrow> \<not> ac_closed a \<Longrightarrow>
    \<exists>w' a'. send_all transition run commandFailed w a es = Some (w', a') \<and> Q [] w' (ac_state a') []"
proof (induction es arbitrary: w a)
  case (Cons e es)
  obtain w1 s1 where d: "drained w (ac_state a) [e] = Some (w1, s1)" using drain_returns by blast
  from drain_keeps [where Q = "Q es", OF keeps next_event [OF Cons.prems(1)] d] have "Q es w1 s1 []" .
  with Cons.IH [of w1 "a\<lparr>ac_state := s1\<rparr>"] Cons.prems(2) d show ?case by (simp add: send_def)
qed simp

end

end
