(* ===== verification/Host_Session.thy ===== *)
theory Host_Session
  imports Kernel_Safety
begin

text \<open>
  What the host and the dashboard derive from the status of a session, from
  \<open>packages/shared/src/session-derived-state.ts\<close>, and how it agrees with the kernel.
\<close>

datatype SessionActivity = ActIdle | ActThinking | ActTooling | ActWaitingUser | ActDone | ActFailed

datatype HostRestartResumeAction = ResumeNone | ResumeWaitForApproval | ResumeContinueTurn | ResumeDrainQueue

record SessionDerivedState =
  sd_activity :: SessionActivity
  sd_isRunning :: bool
  sd_isWaitingForUser :: bool
  sd_canAcceptUserMessage :: bool
  sd_canResumeTurn :: bool
  sd_shouldShowThinkingIndicator :: bool
  sd_shouldShowToolIndicator :: bool
  sd_restartResumeAction :: HostRestartResumeAction

datatype DerivedStatus = StatusOf AgentStatus | Loading

record DeriveSessionStateInput =
  di_status :: "DerivedStatus option"
  di_pendingCalls :: "PendingToolCall list"
  di_streamingActive :: bool
  di_awaitingAck :: bool
  di_compactRunning :: bool
  di_lastError :: "string option"

definition derived :: "SessionActivity \<Rightarrow> bool \<Rightarrow> bool \<Rightarrow> bool \<Rightarrow> bool \<Rightarrow> bool \<Rightarrow> bool \<Rightarrow> HostRestartResumeAction \<Rightarrow> SessionDerivedState" where
  "derived a running waiting can_accept can_resume thinks tools' restart =
     \<lparr>sd_activity = a, sd_isRunning = running, sd_isWaitingForUser = waiting, sd_canAcceptUserMessage = can_accept, sd_canResumeTurn = can_resume,
      sd_shouldShowThinkingIndicator = thinks, sd_shouldShowToolIndicator = tools', sd_restartResumeAction = restart\<rparr>"

definition idleState :: SessionDerivedState where "idleState = derived ActIdle False False True False False False ResumeNone"
definition loadingState :: SessionDerivedState where "loadingState = derived ActThinking True False False True True False ResumeContinueTurn"
definition thinkingState :: SessionDerivedState where "thinkingState = loadingState"
definition toolingState :: SessionDerivedState where "toolingState = derived ActTooling True False False True False True ResumeContinueTurn"
definition waitingUserState :: SessionDerivedState where "waitingUserState = derived ActWaitingUser False True False False False False ResumeWaitForApproval"
definition doneState :: SessionDerivedState where "doneState = derived ActDone False False True False False False ResumeNone"
definition failedState :: SessionDerivedState where "failedState = derived ActFailed False False True False False False ResumeNone"

lemmas derived_defs = derived_def idleState_def loadingState_def thinkingState_def toolingState_def waitingUserState_def doneState_def failedState_def

definition deriveSessionState :: "DeriveSessionStateInput \<Rightarrow> SessionDerivedState" where
  "deriveSessionState input =
     (if truthy (di_lastError input) \<noteq> None \<or> di_status input = Some (StatusOf error_status) then failedState
      else if di_awaitingAck input \<or> di_streamingActive input \<or> di_compactRunning input \<or> di_status input = Some Loading then loadingState
      else if di_status input = Some (StatusOf awaiting_approval) \<or> list_ex (\<lambda>c. p_status c = PAwaitingApproval) (di_pendingCalls input) then waitingUserState
      else if di_status input = Some (StatusOf executing_tools) then toolingState
      else if di_status input = Some (StatusOf thinking) then thinkingState
      else if di_status input = Some (StatusOf done_status) then doneState
      else idleState)"

definition isSessionRunning :: "DeriveSessionStateInput \<Rightarrow> bool" where
  "isSessionRunning input = sd_isRunning (deriveSessionState input)"

definition isSessionResting :: "DeriveSessionStateInput \<Rightarrow> bool" where
  "isSessionResting input = (\<not> sd_isRunning (deriveSessionState input) \<and> \<not> sd_isWaitingForUser (deriveSessionState input))"

text \<open>The input for a state of the kernel, without anything that only the host knows.\<close>

definition of_kernel :: "AgentState \<Rightarrow> DeriveSessionStateInput" where
  "of_kernel s = \<lparr>di_status = Some (StatusOf (status s)), di_pendingCalls = pendingCalls s, di_streamingActive = False,
     di_awaitingAck = False, di_compactRunning = False, di_lastError = None\<rparr>"

section \<open>Agreement with the kernel\<close>

lemma derived_of_valid:
  assumes "stateInvariantViolation s = None"
  shows "deriveSessionState (of_kernel s) =
    (case status s of idle \<Rightarrow> idleState | thinking \<Rightarrow> thinkingState | awaiting_approval \<Rightarrow> waitingUserState
     | executing_tools \<Rightarrow> toolingState | done_status \<Rightarrow> doneState | error_status \<Rightarrow> failedState)"
  using assms
  by (cases "status s") (auto simp: deriveSessionState_def of_kernel_def stateInvariantViolation_def pendingViolation_def list_ex_iff split: if_splits)

text \<open>
  C26: In every state a session can reach, what is derived for the user interface agrees with the kernel: a user
  message is offered exactly where the kernel handles one, a decision of the user is awaited exactly where
  the kernel handles an approval, the session counts as running exactly where a model response or a tool
  result can arrive without the user, and a restart resumes exactly the running sessions.
\<close>

theorem derived_state_agrees:
  fixes es :: "AgentEvent list" and sid :: string and prompt :: "string option" and c :: AgentConfig
  defines "s \<equiv> fold_events (createInitialState sid prompt) es c"
  shows "(sd_canAcceptUserMessage (deriveSessionState (of_kernel s)) \<longleftrightarrow> transitionContract (status s) user_message = ClassHandled) \<and>
    (sd_isWaitingForUser (deriveSessionState (of_kernel s)) \<longleftrightarrow> transitionContract (status s) user_approve = ClassHandled) \<and>
    (sd_isRunning (deriveSessionState (of_kernel s)) \<longleftrightarrow>
      transitionContract (status s) user_approve = ClassIgnored \<and>
      (transitionContract (status s) llm_response = ClassHandled \<or> transitionContract (status s) tool_result = ClassHandled)) \<and>
    (sd_restartResumeAction (deriveSessionState (of_kernel s)) = ResumeContinueTurn \<longleftrightarrow> isSessionRunning (of_kernel s))"
proof -
  have "stateInvariantViolation s = None" unfolding s_def fold_events_run by (rule vld.inv_run_all [OF valid_initial])
  note d = derived_of_valid [OF this]
  show ?thesis
    unfolding d isSessionRunning_def transitionContract_def row_defs
    by (cases "status s") (simp_all add: derived_defs)
qed

end
