(* ===== verification/Host_Restart.thy ===== *)
theory Host_Restart
  imports Host_Actor Host_Session
begin

text \<open>
  The planned restart of the host: the plan per session from \<open>packages/host/src/restart/restart-planner.ts\<close>, the workflow
  from \<open>restart/restart-workflow.ts\<close> and its commands, the ownership of a deployment and the recovery receipts from
  \<open>restart-coordinator.ts\<close>. Times are texts that the events carry. The wait for the checkpoints, the timer and the
  shutdown end in events of their own, which reach the workflow in any order.
\<close>

section \<open>Data\<close>

datatype HostRestartMode = ModeCheckpoint | ModeWhenIdle | ModeForce

datatype HostRestartReason = ReasonManual | ReasonDeploy | ReasonSettingsChanged

datatype HostRestartPhase =
    PhIdle | PhRequested | PhDraining | PhCheckpointReached | PhRestarting | PhRecovering | PhCompleted | PhAborted | PhFailed

datatype HostRestartSessionCheckpointStatus =
    AlreadySafe | WaitingLlm | WaitingTool | WaitingTurn | WaitingIdle | Safe | CheckpointFailed

datatype CheckpointKind = Resting | BeforeLlm | BeforeToolDispatch | WaitingForApproval

record HostRestartSessionPlan =
  sp_sessionId :: string
  sp_parentSessionId :: "string option"
  sp_parentCallId :: "string option"
  sp_cursor :: nat
  sp_initialStatus :: AgentStatus
  sp_checkpointStatus :: HostRestartSessionCheckpointStatus
  sp_checkpointKind :: "CheckpointKind option"
  sp_resumeAction :: HostRestartResumeAction
  sp_continuationKey :: "string option"
  sp_label :: "string option"
  sp_workspaceId :: "string option"
  sp_workspaceName :: "string option"

datatype ReceiptState = RcPending | RcRunning | RcAdopted | RcSettled | RcFailed

record HostRestartRecoveryReceipt =
  rr_continuationKey :: string
  rr_baselineCursor :: nat
  rr_state :: ReceiptState
  rr_observedCursor :: "nat option"
  rr_startedAt :: "string option"
  rr_adoptedAt :: "string option"
  rr_settledAt :: "string option"
  rr_error :: "string option"

record Deployment =
  dp_deploymentId :: string
  dp_targetReleaseDigest :: string
  dp_expectedRouteGeneration :: int
  dp_fencingToken :: string

record HostRestartAttempt =
  ra_attemptId :: string
  ra_phase :: HostRestartPhase
  ra_mode :: HostRestartMode
  ra_reason :: HostRestartReason
  ra_requestedAt :: string
  ra_updatedAt :: string
  ra_oldPid :: int
  ra_newPid :: "int option"
  ra_deployment :: "Deployment option"
  ra_timeoutMs :: "int option"
  ra_sessions :: "HostRestartSessionPlan list"
  ra_recoveryReceipts :: "(string \<times> HostRestartRecoveryReceipt) list option"
  ra_command :: "string list option"
  ra_error :: "string option"

section \<open>Plans\<close>

datatype Waiting = WaitNone | WaitLlm | WaitTool | WaitCompaction | WaitTurn | WaitIdle

record LoopDrainSessionSnapshot =
  ls_status :: "AgentStatus option"
  ls_safe :: bool
  ls_waiting :: Waiting
  ls_checkpointKind :: "CheckpointKind option"
  ls_cursor :: "nat option"

record RestartPlanSessionRecord =
  pr_sessionId :: string
  pr_label :: "string option"
  pr_workspaceId :: "string option"
  pr_workspaceName :: "string option"
  pr_parentSessionId :: "string option"
  pr_parentCallId :: "string option"
  pr_status :: AgentStatus
  pr_cursor :: nat

definition checkpointStatusFor :: "bool \<Rightarrow> Waiting \<Rightarrow> HostRestartSessionCheckpointStatus" where
  "checkpointStatusFor safe waiting =
     (if safe then (if waiting = WaitNone then Safe else AlreadySafe)
      else if waiting = WaitLlm then WaitingLlm
      else if waiting = WaitTool then WaitingTool
      else if waiting = WaitTurn \<or> waiting = WaitCompaction then WaitingTurn
      else if waiting = WaitIdle then WaitingIdle
      else Safe)"

text \<open>A missing session has no status.\<close>

definition resumeActionFor :: "AgentStatus option \<Rightarrow> HostRestartMode \<Rightarrow> HostRestartResumeAction" where
  "resumeActionFor st mode =
     (if mode = ModeWhenIdle then ResumeNone
      else (case st of
          None \<Rightarrow> ResumeNone
        | Some a \<Rightarrow> sd_restartResumeAction (deriveSessionState \<lparr>di_status = Some (StatusOf a), di_pendingCalls = [], di_streamingActive = False,
            di_awaitingAck = False, di_compactRunning = False, di_lastError = None\<rparr>)))"

definition kind_text :: "CheckpointKind \<Rightarrow> string" where
  "kind_text k = (case k of Resting \<Rightarrow> ''resting'' | BeforeLlm \<Rightarrow> ''before_llm'' | BeforeToolDispatch \<Rightarrow> ''before_tool_dispatch''
     | WaitingForApproval \<Rightarrow> ''waiting_for_approval'')"

definition planRestartSession :: "RestartPlanSessionRecord \<Rightarrow> LoopDrainSessionSnapshot \<Rightarrow> HostRestartMode \<Rightarrow> HostRestartSessionPlan" where
  "planRestartSession rec snapshot mode =
     (let cursor = coalesce (ls_cursor snapshot) (pr_cursor rec)
      in \<lparr>sp_sessionId = pr_sessionId rec, sp_parentSessionId = truthy (pr_parentSessionId rec), sp_parentCallId = truthy (pr_parentCallId rec),
          sp_cursor = cursor, sp_initialStatus = pr_status rec, sp_checkpointStatus = checkpointStatusFor (ls_safe snapshot) (ls_waiting snapshot),
          sp_checkpointKind = ls_checkpointKind snapshot, sp_resumeAction = resumeActionFor (ls_status snapshot) mode,
          sp_continuationKey = map_option (\<lambda>k. pr_sessionId rec @ '':'' @ show_nat cursor @ '':'' @ kind_text k) (ls_checkpointKind snapshot),
          sp_label = truthy (pr_label rec), sp_workspaceId = truthy (pr_workspaceId rec), sp_workspaceName = truthy (pr_workspaceName rec)\<rparr>)"

definition buildRestartSessionPlans ::
  "RestartPlanSessionRecord list \<Rightarrow> HostRestartMode \<Rightarrow> (string \<Rightarrow> LoopDrainSessionSnapshot) \<Rightarrow> HostRestartSessionPlan list" where
  "buildRestartSessionPlans records mode snapshotFor = map (\<lambda>rec. planRestartSession rec (snapshotFor (pr_sessionId rec)) mode) records"

section \<open>The workflow\<close>

record RestartWorkflowState =
  rw_current :: "HostRestartAttempt option"
  rw_last :: "HostRestartAttempt option"

record AttemptEventFields =
  ae_attemptId :: string
  ae_updatedAt :: string
  ae_sessions :: "HostRestartSessionPlan list"

datatype RestartWorkflowEvent =
    EvRequest HostRestartAttempt
  | EvDrainStarted AttemptEventFields
  | EvCheckpointsReached AttemptEventFields
  | EvRestartStarted AttemptEventFields
  | EvActivationCommitted AttemptEventFields
  | EvAbort AttemptEventFields string
  | EvFail AttemptEventFields string

datatype RestartWorkflowCommand =
    Publish HostRestartAttempt
  | BeginDrain string HostRestartMode "int option"
  | WaitForCheckpoints string "string list"
  | ScheduleTimeout string int
  | ClearTimeout string
  | EndDrain string
  | StartRestart string
  | CloseAndSpawn string

definition isTerminalRestartPhase :: "HostRestartPhase \<Rightarrow> bool" where
  "isTerminalRestartPhase phase \<longleftrightarrow> phase = PhCompleted \<or> phase = PhAborted \<or> phase = PhFailed"

definition updateAttempt :: "HostRestartAttempt \<Rightarrow> AttemptEventFields \<Rightarrow> HostRestartPhase \<Rightarrow> HostRestartAttempt" where
  "updateAttempt current event phase =
     current\<lparr>ra_error := None, ra_phase := phase, ra_updatedAt := ae_updatedAt event, ra_sessions := ae_sessions event\<rparr>"

definition unchanged :: "RestartWorkflowState \<Rightarrow> RestartWorkflowState \<times> RestartWorkflowCommand list" where
  "unchanged s = (s, [])"

text \<open>The branch of each kind of event, for the current attempt.\<close>

definition on_request :: "RestartWorkflowState \<Rightarrow> HostRestartAttempt \<Rightarrow> RestartWorkflowState \<times> RestartWorkflowCommand list" where
  "on_request s attempt =
     (if (case rw_current s of None \<Rightarrow> False | Some c \<Rightarrow> \<not> isTerminalRestartPhase (ra_phase c)) then unchanged s
      else (s\<lparr>rw_current := Some attempt\<rparr>,
            [Publish attempt,
             if ra_mode attempt = ModeForce then StartRestart (ra_attemptId attempt)
             else BeginDrain (ra_attemptId attempt) (ra_mode attempt) (ra_timeoutMs attempt)]))"

definition on_drain_started where
  "on_drain_started s current event =
     (if ra_phase current \<noteq> PhRequested then unchanged s
      else (let attempt = updateAttempt current event PhDraining
            in (s\<lparr>rw_current := Some attempt\<rparr>,
                [Publish attempt, WaitForCheckpoints (ra_attemptId current) (map sp_sessionId (ra_sessions attempt))] @
                (case ra_timeoutMs current of None \<Rightarrow> [] | Some t \<Rightarrow> if t > 0 then [ScheduleTimeout (ra_attemptId current) t] else []))))"

definition on_checkpoints_reached where
  "on_checkpoints_reached s current event =
     (if ra_phase current \<noteq> PhDraining then unchanged s
      else (let attempt = updateAttempt current event PhCheckpointReached
            in (s\<lparr>rw_current := Some attempt\<rparr>,
                [ClearTimeout (ra_attemptId current), Publish attempt] @
                (if ra_reason current = ReasonDeploy then [] else [StartRestart (ra_attemptId current)]))))"

definition on_activation_committed where
  "on_activation_committed s current event =
     (if ra_phase current \<noteq> PhCheckpointReached \<or> ra_reason current \<noteq> ReasonDeploy then unchanged s
      else (s, [StartRestart (ra_attemptId current)]))"

definition on_restart_started where
  "on_restart_started s current event =
     (if ra_phase current \<noteq> PhRequested \<and> ra_phase current \<noteq> PhCheckpointReached then unchanged s
      else (let attempt = updateAttempt current event PhRestarting
            in (s\<lparr>rw_current := Some attempt\<rparr>,
                [ClearTimeout (ra_attemptId current), Publish attempt, CloseAndSpawn (ra_attemptId current)])))"

definition on_end where
  "on_end s current event phase err =
     (if isTerminalRestartPhase (ra_phase current) then unchanged s
      else (let attempt = (updateAttempt current event phase)\<lparr>ra_error := Some err\<rparr>
            in (\<lparr>rw_current = None, rw_last = Some attempt\<rparr>,
                [ClearTimeout (ra_attemptId current), EndDrain (ra_attemptId current), Publish attempt])))"

definition for_current ::
  "RestartWorkflowState \<Rightarrow> AttemptEventFields \<Rightarrow> (HostRestartAttempt \<Rightarrow> RestartWorkflowState \<times> RestartWorkflowCommand list) \<Rightarrow>
   RestartWorkflowState \<times> RestartWorkflowCommand list" where
  "for_current s event f =
     (case rw_current s of None \<Rightarrow> unchanged s
      | Some current \<Rightarrow> if ra_attemptId current \<noteq> ae_attemptId event then unchanged s else f current)"

fun transitionRestartWorkflow :: "RestartWorkflowState \<Rightarrow> RestartWorkflowEvent \<Rightarrow> RestartWorkflowState \<times> RestartWorkflowCommand list" where
  "transitionRestartWorkflow s (EvRequest attempt) = on_request s attempt"
| "transitionRestartWorkflow s (EvDrainStarted ev) = for_current s ev (\<lambda>current. on_drain_started s current ev)"
| "transitionRestartWorkflow s (EvCheckpointsReached ev) = for_current s ev (\<lambda>current. on_checkpoints_reached s current ev)"
| "transitionRestartWorkflow s (EvActivationCommitted ev) = for_current s ev (\<lambda>current. on_activation_committed s current ev)"
| "transitionRestartWorkflow s (EvRestartStarted ev) = for_current s ev (\<lambda>current. on_restart_started s current ev)"
| "transitionRestartWorkflow s (EvAbort ev err) = for_current s ev (\<lambda>current. on_end s current ev PhAborted err)"
| "transitionRestartWorkflow s (EvFail ev err) = for_current s ev (\<lambda>current. on_end s current ev PhFailed err)"

lemmas workflow_defs = on_request_def on_drain_started_def on_checkpoints_reached_def on_activation_committed_def
  on_restart_started_def on_end_def for_current_def unchanged_def updateAttempt_def Let_def

section \<open>Commands\<close>

text \<open>
  What the coordinator owns: the drain mode of the loop, the timer, the published attempts, the shutdowns
  begun, the plans frozen per attempt, and how often the state file was written. Writing it may fail.
\<close>

record restart_world =
  wd_drain :: "HostRestartMode option"
  wd_timer :: "(string \<times> int) option"
  wd_published :: "HostRestartAttempt list"
  wd_shutdowns :: "string list"
  wd_writes :: nat

definition event_fields :: "string \<Rightarrow> (RestartWorkflowState \<Rightarrow> string \<Rightarrow> HostRestartSessionPlan list) \<Rightarrow> RestartWorkflowState \<Rightarrow> string \<Rightarrow> AttemptEventFields" where
  "event_fields now plans s attemptId = \<lparr>ae_attemptId = attemptId, ae_updatedAt = now, ae_sessions = plans s attemptId\<rparr>"

definition clearTimer :: "string \<Rightarrow> restart_world \<Rightarrow> restart_world" where
  "clearTimer attemptId w = (if map_option fst (wd_timer w) = Some attemptId then w\<lparr>wd_timer := None\<rparr> else w)"

fun runCommand ::
  "(nat \<Rightarrow> bool) \<Rightarrow> string \<Rightarrow> (RestartWorkflowState \<Rightarrow> string \<Rightarrow> HostRestartSessionPlan list) \<Rightarrow>
   restart_world \<Rightarrow> RestartWorkflowState \<Rightarrow> RestartWorkflowCommand \<Rightarrow> restart_world \<times> RestartWorkflowEvent list \<times> bool" where
  "runCommand write_fails now plans w s (Publish attempt) =
     (if write_fails (wd_writes w) then (w\<lparr>wd_writes := Suc (wd_writes w)\<rparr>, [], True)
      else (w\<lparr>wd_writes := Suc (wd_writes w), wd_published := wd_published w @ [attempt]\<rparr>, [], False))"
| "runCommand write_fails now plans w s (BeginDrain attemptId mode t) =
     (w\<lparr>wd_drain := Some (if mode = ModeWhenIdle then ModeWhenIdle else ModeCheckpoint)\<rparr>,
      [EvDrainStarted (event_fields now plans s attemptId)], False)"
| "runCommand write_fails now plans w s (WaitForCheckpoints attemptId ids) = (w, [], False)"
| "runCommand write_fails now plans w s (ScheduleTimeout attemptId t) = ((clearTimer attemptId w)\<lparr>wd_timer := Some (attemptId, t)\<rparr>, [], False)"
| "runCommand write_fails now plans w s (ClearTimeout attemptId) = (clearTimer attemptId w, [], False)"
| "runCommand write_fails now plans w s (EndDrain attemptId) = (w\<lparr>wd_drain := None\<rparr>, [], False)"
| "runCommand write_fails now plans w s (StartRestart attemptId) =
     (w, if map_option ra_attemptId (rw_current s) = Some attemptId then [EvRestartStarted (event_fields now plans s attemptId)] else [], False)"
| "runCommand write_fails now plans w s (CloseAndSpawn attemptId) = (w\<lparr>wd_shutdowns := wd_shutdowns w @ [attemptId]\<rparr>, [], False)"

fun commandAttemptId :: "RestartWorkflowCommand \<Rightarrow> string" where
  "commandAttemptId (Publish attempt) = ra_attemptId attempt"
| "commandAttemptId (BeginDrain i m t) = i"
| "commandAttemptId (WaitForCheckpoints i ss) = i"
| "commandAttemptId (ScheduleTimeout i t) = i"
| "commandAttemptId (ClearTimeout i) = i"
| "commandAttemptId (EndDrain i) = i"
| "commandAttemptId (StartRestart i) = i"
| "commandAttemptId (CloseAndSpawn i) = i"

definition commandFailed ::
  "string \<Rightarrow> (RestartWorkflowState \<Rightarrow> string \<Rightarrow> HostRestartSessionPlan list) \<Rightarrow> string \<Rightarrow> RestartWorkflowState \<Rightarrow> RestartWorkflowCommand \<Rightarrow> RestartWorkflowEvent option" where
  "commandFailed now plans msg s c = Some (EvFail (event_fields now plans s (commandAttemptId c)) msg)"

text \<open>The end of the shutdown, when the server is closed: the process exits if the attempt is still the current one.\<close>

definition shutdown_exits :: "string \<Rightarrow> RestartWorkflowState \<Rightarrow> bool" where
  "shutdown_exits attemptId s \<longleftrightarrow> map_option ra_attemptId (rw_current s) = Some attemptId"

section \<open>The workflow comes to rest\<close>

definition phase_rank :: "HostRestartPhase \<Rightarrow> nat" where
  "phase_rank ph = (case ph of PhRequested \<Rightarrow> 4 | PhDraining \<Rightarrow> 3 | PhCheckpointReached \<Rightarrow> 2
     | PhCompleted \<Rightarrow> 0 | PhAborted \<Rightarrow> 0 | PhFailed \<Rightarrow> 0 | _ \<Rightarrow> 1)"

definition restart_potential :: "RestartWorkflowState \<Rightarrow> nat" where
  "restart_potential s = (case rw_current s of None \<Rightarrow> 0 | Some a \<Rightarrow> 10 * phase_rank (ra_phase a))"

fun event_weight :: "RestartWorkflowEvent \<Rightarrow> nat" where
  "event_weight (EvRequest a) = 50" | "event_weight (EvActivationCommitted ev) = 4" | "event_weight _ = 1"

lemma phase_rank_simps [simp]:
  "phase_rank PhRequested = 4" "phase_rank PhDraining = 3" "phase_rank PhCheckpointReached = 2" "phase_rank PhRestarting = 1"
  "phase_rank ph \<le> 4" "isTerminalRestartPhase ph \<Longrightarrow> phase_rank ph = 0" "\<not> isTerminalRestartPhase ph \<Longrightarrow> 0 < phase_rank ph"
  by (auto simp: phase_rank_def isTerminalRestartPhase_def split: HostRestartPhase.splits)

lemma request_rank: "10 * phase_rank ph + 2 < 50"
  using phase_rank_simps(5) [of ph] by linarith

interpretation restart: resting_actor transitionRestartWorkflow "runCommand write_fails now plans" "commandFailed now plans msg"
    restart_potential event_weight for write_fails now plans msg
proof unfold_locales
  fix s e s1 cs w w1 sent
  assume t: "transitionRestartWorkflow s e = (s1, cs)" and r: "run_commands (runCommand write_fails now plans) (commandFailed now plans msg) w s1 cs = (w1, sent)"
  show "restart_potential s1 + sum_list (map event_weight sent) < restart_potential s + event_weight e"
  proof (cases e)
    case (EvRequest a)
    with t r request_rank [of "ra_phase a"] show ?thesis
      by (auto simp: workflow_defs commandFailed_def restart_potential_def split: if_splits option.splits)
  qed (use t r in \<open>auto simp: workflow_defs commandFailed_def restart_potential_def split: if_splits option.splits\<close>)
qed

section \<open>Drain, timer and shutdown\<close>

definition request_ids :: "RestartWorkflowEvent list \<Rightarrow> string list" where
  "request_ids es = concat (map (\<lambda>e. case e of EvRequest a \<Rightarrow> [ra_attemptId a] | _ \<Rightarrow> []) es)"

lemma request_ids_simps [simp]:
  "request_ids [] = []" "request_ids (EvRequest a # es) = ra_attemptId a # request_ids es" "request_ids (EvDrainStarted ev # es) = request_ids es"
  "request_ids (EvCheckpointsReached ev # es) = request_ids es" "request_ids (EvRestartStarted ev # es) = request_ids es"
  "request_ids (EvActivationCommitted ev # es) = request_ids es" "request_ids (EvAbort ev err # es) = request_ids es"
  "request_ids (EvFail ev err # es) = request_ids es" "request_ids (es @ fs) = request_ids es @ request_ids fs"
  by (simp_all add: request_ids_def)

text \<open>
  The loop drains only for a current attempt, and the timer runs only for the current attempt while it
  drains.
\<close>

definition resources_ok :: "restart_world \<Rightarrow> RestartWorkflowState \<Rightarrow> bool" where
  "resources_ok w s \<longleftrightarrow>
     (wd_drain w \<noteq> None \<longrightarrow> rw_current s \<noteq> None) \<and>
     (\<forall>i t. wd_timer w = Some (i, t) \<longrightarrow> (\<exists>a. rw_current s = Some a \<and> ra_attemptId a = i \<and> ra_phase a = PhDraining))"

definition before_restart :: "HostRestartPhase \<Rightarrow> bool" where
  "before_restart ph \<longleftrightarrow> ph \<in> {PhRequested, PhDraining, PhCheckpointReached}"

text \<open>No attempt has been shut down for twice, and the requests to come are for new attempts.\<close>

definition spawns_ok :: "RestartWorkflowEvent list \<Rightarrow> restart_world \<Rightarrow> RestartWorkflowState \<Rightarrow> RestartWorkflowEvent list \<Rightarrow> bool" where
  "spawns_ok later w s mailbox \<longleftrightarrow>
     distinct (wd_shutdowns w) \<and> distinct (request_ids (mailbox @ later)) \<and>
     set (request_ids (mailbox @ later)) \<inter> set (wd_shutdowns w) = {} \<and>
     (\<forall>a. rw_current s = Some a \<longrightarrow> ra_attemptId a \<notin> set (request_ids (mailbox @ later)) \<and>
        (before_restart (ra_phase a) \<longrightarrow> ra_attemptId a \<notin> set (wd_shutdowns w)))"

lemma resources_step:
  assumes "resources_ok w s" "transitionRestartWorkflow s e = (s1, cs)"
    "run_commands (runCommand write_fails now plans) (commandFailed now plans msg) w s1 cs = (w1, sent)"
  shows "resources_ok w1 s1"
proof (cases e)
  case (EvRequest a)
  with assms show ?thesis
    by (auto simp: workflow_defs commandFailed_def resources_ok_def isTerminalRestartPhase_def split: if_splits option.splits)
qed (use assms in \<open>auto simp: workflow_defs commandFailed_def resources_ok_def clearTimer_def split: if_splits option.splits\<close>)

lemma spawns_unchanged: "spawns_ok later w s (e # es) \<Longrightarrow> spawns_ok later w s es"
  by (cases e) (auto simp: spawns_ok_def)

lemma spawns_same:
  assumes "spawns_ok later w s (e # es)" "wd_shutdowns w1 = wd_shutdowns w" "request_ids sent = []"
    and "rw_current s1 = None \<or> (\<exists>a a1. rw_current s = Some a \<and> rw_current s1 = Some a1 \<and> ra_attemptId a1 = ra_attemptId a \<and>
      (before_restart (ra_phase a1) \<longrightarrow> before_restart (ra_phase a)))"
  shows "spawns_ok later w1 s1 (es @ sent)"
  using spawns_unchanged [OF assms(1)] assms(2-4) unfolding spawns_ok_def by (elim disjE exE conjE) simp_all

lemma spawns_restart:
  assumes "spawns_ok later w s (e # es)" "rw_current s = Some a" "before_restart (ra_phase a)"
    "wd_shutdowns w1 = wd_shutdowns w @ [ra_attemptId a]" "request_ids sent = []"
    "rw_current s1 = Some a1" "ra_attemptId a1 = ra_attemptId a" "ra_phase a1 = PhRestarting"
  shows "spawns_ok later w1 s1 (es @ sent)"
  using spawns_unchanged [OF assms(1)] assms(2-8) unfolding spawns_ok_def by (elim conjE) (simp add: before_restart_def [of PhRestarting])

lemma spawns_request:
  assumes "spawns_ok later w s (EvRequest a # es)" "wd_shutdowns w1 = wd_shutdowns w" "request_ids sent = []" "rw_current s1 = Some a"
  shows "spawns_ok later w1 s1 (es @ sent)"
  using assms by (auto simp: spawns_ok_def)

lemma clearTimer_shutdowns [simp]: "wd_shutdowns (clearTimer i w) = wd_shutdowns w"
  by (simp add: clearTimer_def)

lemma spawns_step:
  assumes inv: "spawns_ok later w s (e # es)" and t: "transitionRestartWorkflow s e = (s1, cs)"
    and r: "run_commands (runCommand write_fails now plans) (commandFailed now plans msg) w s1 cs = (w1, sent)"
  shows "spawns_ok later w1 s1 (es @ sent)"
proof (cases "cs = [] \<and> s1 = s")
  case True
  with r inv show ?thesis by (auto intro: spawns_unchanged)
next
  case False
  have no_requests: "request_ids sent = []"
    using False t r by (cases e) (auto simp: workflow_defs commandFailed_def split: if_splits option.splits)
  show ?thesis
  proof (cases e)
    case (EvRequest a)
    with False t r have "wd_shutdowns w1 = wd_shutdowns w" "rw_current s1 = Some a"
      by (auto simp: workflow_defs split: if_splits option.splits)
    with inv no_requests EvRequest show ?thesis by (auto intro: spawns_request)
  next
    case (EvRestartStarted ev)
    with False t r obtain a where "rw_current s = Some a" "before_restart (ra_phase a)" "wd_shutdowns w1 = wd_shutdowns w @ [ra_attemptId a]"
      "\<exists>a1. rw_current s1 = Some a1 \<and> ra_attemptId a1 = ra_attemptId a \<and> ra_phase a1 = PhRestarting"
      by (auto simp: workflow_defs before_restart_def split: if_splits option.splits)
    with inv no_requests show ?thesis by (auto intro: spawns_restart)
  qed (use False t r in \<open>intro spawns_same [OF inv _ no_requests]; auto simp: workflow_defs before_restart_def split: if_splits option.splits\<close>)+
qed

definition idle_world :: restart_world where
  "idle_world = \<lparr>wd_drain = None, wd_timer = None, wd_published = [], wd_shutdowns = [], wd_writes = 0\<rparr>"

abbreviation restart_all ::
  "(nat \<Rightarrow> bool) \<Rightarrow> string \<Rightarrow> (RestartWorkflowState \<Rightarrow> string \<Rightarrow> HostRestartSessionPlan list) \<Rightarrow> string \<Rightarrow>
   HostRestartAttempt option \<Rightarrow> RestartWorkflowEvent list \<Rightarrow> (restart_world \<times> RestartWorkflowState actor) option" where
  "restart_all write_fails now plans msg prior es \<equiv>
     send_all transitionRestartWorkflow (runCommand write_fails now plans) (commandFailed now plans msg) idle_world
       \<lparr>ac_state = \<lparr>rw_current = None, rw_last = prior\<rparr>, ac_closed = False\<rparr> es"

text \<open>
  C24: Every event sent to the restart workflow is handled in finitely many steps, whatever the commands send
  back and however often the state file cannot be written.
\<close>

theorem restart_workflow_rests:
  "\<exists>w1 a1. send transitionRestartWorkflow (runCommand write_fails now plans) (commandFailed now plans msg) w a e = Some (w1, a1)"
  by (rule restart.send_returns)

text \<open>
  However requests, checkpoints, activations, time-outs, aborts and failing writes follow one another, the host
  drains its sessions only while an attempt is current, so an abort or a failure gives them back, and the
  timer runs only for the current attempt while it drains.
\<close>

theorem restart_releases_drain:
  "\<exists>w a. restart_all write_fails now plans msg prior es = Some (w, a) \<and>
     (rw_current (ac_state a) = None \<longrightarrow> wd_drain w = None \<and> wd_timer w = None) \<and>
     (\<forall>i t. wd_timer w = Some (i, t) \<longrightarrow> (\<exists>c. rw_current (ac_state a) = Some c \<and> ra_attemptId c = i \<and> ra_phase c = PhDraining))"
proof -
  have "\<exists>w a. restart_all write_fails now plans msg prior es = Some (w, a) \<and> resources_ok w (ac_state a)"
    by (rule restart.send_all_keeps [where Q = "\<lambda>later w s mb. resources_ok w s"])
      (erule (2) resources_step, simp_all add: resources_ok_def idle_world_def)
  then obtain w a where "restart_all write_fails now plans msg prior es = Some (w, a)" "resources_ok w (ac_state a)" by blast
  then show ?thesis by (intro exI [of _ w] exI [of _ a]) (auto simp: resources_ok_def)
qed

definition sample_attempt :: "string \<Rightarrow> HostRestartAttempt" where
  "sample_attempt i = \<lparr>ra_attemptId = i, ra_phase = PhRequested, ra_mode = ModeForce, ra_reason = ReasonManual, ra_requestedAt = [], ra_updatedAt = [],
     ra_oldPid = 1, ra_newPid = None, ra_deployment = None, ra_timeoutMs = None, ra_sessions = [], ra_recoveryReceipts = None, ra_command = None, ra_error = None\<rparr>"

theorem restart_releases_drain_witness:
  "\<exists>w a. restart_all (\<lambda>_. False) [] (\<lambda>_ _. []) [] None
       [EvRequest ((sample_attempt ''a'')\<lparr>ra_mode := ModeCheckpoint\<rparr>), EvAbort \<lparr>ae_attemptId = ''a'', ae_updatedAt = [], ae_sessions = []\<rparr> []] = Some (w, a) \<and>
     rw_current (ac_state a) = None \<and> wd_drain w = None \<and> wd_timer w = None"
proof -
  let ?es = "[EvRequest ((sample_attempt ''a'')\<lparr>ra_mode := ModeCheckpoint\<rparr>), EvAbort \<lparr>ae_attemptId = ''a'', ae_updatedAt = [], ae_sessions = []\<rparr> []]"
  obtain w a where r: "restart_all (\<lambda>_. False) [] (\<lambda>_ _. []) [] None ?es = Some (w, a)"
    "rw_current (ac_state a) = None \<longrightarrow> wd_drain w = None \<and> wd_timer w = None"
    using restart_releases_drain [of "\<lambda>_. False" "[]" "\<lambda>_ _. []" "[]" None ?es] by (elim exE conjE)
  moreover have "rw_current (ac_state a) = None"
    using r(1) by (auto simp: send_def workflow_defs sample_attempt_def idle_world_def clearTimer_def event_fields_def isTerminalRestartPhase_def)
  ultimately show ?thesis by blast
qed

text \<open>
  C23: The host is shut down for an attempt at most once: when the requests come with new identifiers, no sequence
  of events makes the workflow close the server twice for the same attempt.
\<close>

theorem restart_spawns_once:
  assumes "distinct (request_ids es)" "restart_all write_fails now plans msg prior es = Some (w, a)"
  shows "distinct (wd_shutdowns w)"
proof -
  have "spawns_ok es idle_world \<lparr>rw_current = None, rw_last = prior\<rparr> []" using assms(1) by (simp add: spawns_ok_def idle_world_def)
  then have "\<exists>w' a'. restart_all write_fails now plans msg prior es = Some (w', a') \<and> spawns_ok [] w' (ac_state a') []"
  proof (intro restart.send_all_keeps [where Q = spawns_ok])
    fix e later w s
    assume "spawns_ok (e # later) w s []"
    then show "spawns_ok later w s [e]" by (cases e) (auto simp: spawns_ok_def)
  qed (simp_all add: spawns_step)
  with assms(2) show ?thesis by (auto simp: spawns_ok_def)
qed

theorem restart_spawns_once_witness:
  "\<exists>w a. restart_all (\<lambda>_. False) [] (\<lambda>_ _. []) [] None [EvRequest (sample_attempt ''a'')] = Some (w, a) \<and>
     wd_shutdowns w = [''a''] \<and> distinct (wd_shutdowns w)"
proof -
  obtain w a where r: "restart_all (\<lambda>_. False) [] (\<lambda>_ _. []) [] None [EvRequest (sample_attempt ''a'')] = Some (w, a)" "wd_shutdowns w = [''a'']"
    by (simp add: send_def workflow_defs sample_attempt_def idle_world_def clearTimer_def event_fields_def)
  moreover have "distinct (wd_shutdowns w)" by (rule restart_spawns_once [OF _ r(1)]) simp
  ultimately show ?thesis by blast
qed

text \<open>
  C25: When the state file cannot be written at the moment the restart starts, the shutdown of the server is begun
  and the attempt is marked as failed in the same drain; at the end of the shutdown the attempt is no longer
  current, and so the process does not exit although its server is closed.
\<close>

theorem failed_write_strands_host:
  assumes "rw_current s = Some c" "ra_attemptId c = ae_attemptId ev" "ra_phase c = PhRequested \<or> ra_phase c = PhCheckpointReached"
    and "write_fails (wd_writes w)"
  shows "\<exists>w' s'. drain transitionRestartWorkflow (runCommand write_fails now plans) (commandFailed now plans msg) w s [EvRestartStarted ev] = Some (w', s') \<and>
    wd_shutdowns w' = wd_shutdowns w @ [ae_attemptId ev] \<and> \<not> shutdown_exits (ae_attemptId ev) s'"
  using assms
  by (auto simp: workflow_defs commandFailed_def clearTimer_def event_fields_def isTerminalRestartPhase_def shutdown_exits_def)

theorem failed_write_strands_host_witness:
  "\<exists>w' s'. drain transitionRestartWorkflow (runCommand (\<lambda>n. n = 0) [] (\<lambda>_ _. [])) (commandFailed [] (\<lambda>_ _. []) []) idle_world
      \<lparr>rw_current = Some (sample_attempt ''a''), rw_last = None\<rparr> [EvRestartStarted \<lparr>ae_attemptId = ''a'', ae_updatedAt = [], ae_sessions = []\<rparr>] = Some (w', s') \<and>
    wd_shutdowns w' = wd_shutdowns idle_world @ [''a''] \<and> \<not> shutdown_exits ''a'' s'"
  using failed_write_strands_host [of "\<lparr>rw_current = Some (sample_attempt ''a''), rw_last = None\<rparr>" "sample_attempt ''a''"
      "\<lparr>ae_attemptId = ''a'', ae_updatedAt = [], ae_sessions = []\<rparr>" "\<lambda>n. n = 0" idle_world "[]" "\<lambda>_ _. []" "[]"]
  by (simp add: sample_attempt_def idle_world_def)

end
