(* ===== verification/Host_Recovery.thy ===== *)
theory Host_Recovery
  imports Host_Restart
begin

text \<open>
  The rest of \<open>packages/host/src/restart-coordinator.ts\<close> up to the continuation of single sessions: the state a new
  process starts from, the requests, the activation and the abort, the plans of the current attempt, and the
  receipts that fence the continuation of a session. The loop that resumes the sessions is not modelled.
\<close>

section \<open>Deployments\<close>

definition sameDeploymentOwnership :: "Deployment option \<Rightarrow> Deployment \<Rightarrow> bool" where
  "sameDeploymentOwnership actual expected = (actual = Some expected)"

text \<open>Whether the replacement process may take over: \<open>False\<close> stands for the error of the source.\<close>

definition assertDeploymentOwnership :: "Deployment option \<Rightarrow> Deployment option \<Rightarrow> bool" where
  "assertDeploymentOwnership marker expected \<longleftrightarrow> marker = expected"

section \<open>Receipts\<close>

definition recoveryKey :: "HostRestartSessionPlan \<Rightarrow> string" where
  "recoveryKey plan =
     (case sp_continuationKey plan of
        Some k \<Rightarrow> k
      | None \<Rightarrow> sp_sessionId plan @ '':'' @ show_nat (sp_cursor plan) @ '':'' @
          (case sp_checkpointKind plan of Some k \<Rightarrow> kind_text k
           | None \<Rightarrow> (case sp_resumeAction plan of ResumeNone \<Rightarrow> ''none'' | ResumeWaitForApproval \<Rightarrow> ''wait_for_approval''
                       | ResumeContinueTurn \<Rightarrow> ''continue_turn'' | ResumeDrainQueue \<Rightarrow> ''drain_queue'')))"

definition initialRecoveryReceipt :: "HostRestartSessionPlan \<Rightarrow> HostRestartRecoveryReceipt" where
  "initialRecoveryReceipt plan =
     \<lparr>rr_continuationKey = recoveryKey plan, rr_baselineCursor = sp_cursor plan, rr_state = RcPending, rr_observedCursor = None,
      rr_startedAt = None, rr_adoptedAt = None, rr_settledAt = None, rr_error = None\<rparr>"

definition recoveryReceiptFor :: "HostRestartSessionPlan \<Rightarrow> HostRestartRecoveryReceipt option \<Rightarrow> string + HostRestartRecoveryReceipt" where
  "recoveryReceiptFor plan receipt =
     (case receipt of
        None \<Rightarrow> Inr (initialRecoveryReceipt plan)
      | Some r \<Rightarrow> if rr_continuationKey r \<noteq> recoveryKey plan \<or> rr_baselineCursor r \<noteq> sp_cursor plan
          then Inl (''continuation receipt fence mismatch for '' @ sp_sessionId plan) else Inr r)"

text \<open>The fence on the cursor: \<open>False\<close> where the source raises an error.\<close>

definition assertRecoveryCursor :: "HostRestartSessionPlan \<Rightarrow> HostRestartRecoveryReceipt \<Rightarrow> nat \<Rightarrow> bool" where
  "assertRecoveryCursor plan receipt observedCursor =
     (if observedCursor < sp_cursor plan then False
      else if observedCursor = sp_cursor plan then True
      else if rr_state receipt \<noteq> RcAdopted \<and> rr_state receipt \<noteq> RcSettled then False
      else (case rr_observedCursor receipt of None \<Rightarrow> True | Some o' \<Rightarrow> \<not> observedCursor < o'))"

definition startedRecoveryReceipt :: "string \<Rightarrow> HostRestartRecoveryReceipt \<Rightarrow> HostRestartRecoveryReceipt" where
  "startedRecoveryReceipt now r =
     (if rr_state r = RcAdopted \<or> rr_state r = RcSettled then r
      else r\<lparr>rr_state := RcRunning, rr_startedAt := Some (coalesce (rr_startedAt r) now)\<rparr>)"

definition adoptedRecoveryReceipt :: "string \<Rightarrow> HostRestartRecoveryReceipt \<Rightarrow> nat \<Rightarrow> HostRestartRecoveryReceipt" where
  "adoptedRecoveryReceipt now r observedCursor =
     (startedRecoveryReceipt now r)\<lparr>rr_state := RcAdopted,
        rr_observedCursor := Some (max (coalesce (rr_observedCursor r) (rr_baselineCursor r)) observedCursor),
        rr_adoptedAt := Some (coalesce (rr_adoptedAt r) now)\<rparr>"

definition settledRecoveryReceipt :: "string \<Rightarrow> HostRestartRecoveryReceipt \<Rightarrow> nat \<Rightarrow> HostRestartRecoveryReceipt" where
  "settledRecoveryReceipt now r observedCursor =
     r\<lparr>rr_state := RcSettled, rr_observedCursor := Some (max (coalesce (rr_observedCursor r) (rr_baselineCursor r)) observedCursor),
       rr_settledAt := Some (coalesce (rr_settledAt r) now)\<rparr>"

definition recoveryPhase :: "(string \<times> HostRestartRecoveryReceipt) list \<Rightarrow> HostRestartPhase" where
  "recoveryPhase receipts =
     (if list_all (\<lambda>(i, r). rr_state r = RcAdopted \<or> rr_state r = RcSettled) receipts then PhCompleted else PhRecovering)"

definition hasUnsettledRecovery :: "HostRestartAttempt \<Rightarrow> bool" where
  "hasUnsettledRecovery a =
     (case ra_recoveryReceipts a of None \<Rightarrow> False
      | Some rs \<Rightarrow> list_ex (\<lambda>(i, r). rr_state r = RcAdopted \<or> rr_state r = RcRunning) rs)"

section \<open>The coordinator\<close>

text \<open>
  The attempt a new process starts from, given the one on disk: \<open>None\<close> where the constructor raises the
  ownership error.
\<close>

definition recovered_last :: "string \<Rightarrow> int \<Rightarrow> Deployment option \<Rightarrow> HostRestartAttempt option \<Rightarrow> HostRestartAttempt option option" where
  "recovered_last now pid expected stored =
     (case stored of
        None \<Rightarrow> Some None
      | Some a \<Rightarrow>
          if ra_phase a = PhRestarting then
            (if assertDeploymentOwnership (ra_deployment a) expected
             then Some (Some (a\<lparr>ra_phase := PhRecovering, ra_updatedAt := now, ra_newPid := Some pid,
               ra_recoveryReceipts := Some (fold (\<lambda>p. AList.update (sp_sessionId p) (initialRecoveryReceipt p)) (ra_sessions a) [])\<rparr>))
             else None)
          else if ra_phase a = PhRecovering \<or> ra_phase a = PhCompleted \<and> hasUnsettledRecovery a then
            (if assertDeploymentOwnership (ra_deployment a) expected
             then Some (Some (if ra_phase a = PhCompleted then a\<lparr>ra_phase := PhRecovering, ra_updatedAt := now, ra_newPid := Some pid\<rparr> else a))
             else None)
          else Some (Some a))"

definition withQueuePlans :: "(string \<Rightarrow> nat) \<Rightarrow> HostRestartSessionPlan list \<Rightarrow> HostRestartSessionPlan list" where
  "withQueuePlans queuedMessages plans =
     map (\<lambda>p. if sp_resumeAction p = ResumeNone \<and> queuedMessages (sp_sessionId p) > 0 then p\<lparr>sp_resumeAction := ResumeDrainQueue\<rparr> else p) plans"

definition planRestartSessionFromBaseline :: "HostRestartSessionPlan \<Rightarrow> LoopDrainSessionSnapshot \<Rightarrow> HostRestartMode \<Rightarrow> HostRestartSessionPlan" where
  "planRestartSessionFromBaseline baseline snapshot mode =
     (let live = planRestartSession \<lparr>pr_sessionId = sp_sessionId baseline, pr_label = None, pr_workspaceId = None, pr_workspaceName = None,
            pr_parentSessionId = None, pr_parentCallId = None, pr_status = sp_initialStatus baseline, pr_cursor = sp_cursor baseline\<rparr> snapshot mode
      in baseline\<lparr>sp_cursor := sp_cursor live, sp_checkpointStatus := sp_checkpointStatus live,
           sp_checkpointKind := (if sp_checkpointKind live \<noteq> None then sp_checkpointKind live else sp_checkpointKind baseline),
           sp_resumeAction := sp_resumeAction live\<rparr>)"

definition sessionPlansForCurrent ::
  "(string \<Rightarrow> nat) \<Rightarrow> (string \<Rightarrow> LoopDrainSessionSnapshot) \<Rightarrow> (string \<times> HostRestartSessionPlan list) list \<Rightarrow>
   RestartWorkflowState \<Rightarrow> string \<Rightarrow> HostRestartSessionPlan list" where
  "sessionPlansForCurrent queuedMessages drainSnapshot frozenPlans s attemptId =
     (case rw_current s of
        None \<Rightarrow> []
      | Some current \<Rightarrow>
          if ra_attemptId current \<noteq> attemptId then []
          else withQueuePlans queuedMessages
            (map (\<lambda>b. planRestartSessionFromBaseline b (drainSnapshot (sp_sessionId b)) (ra_mode current))
              (coalesce (map_of frozenPlans attemptId) (ra_sessions current))))"

record RestartRequest =
  rq_mode :: "HostRestartMode option"
  rq_reason :: "HostRestartReason option"
  rq_timeoutMs :: "int option"
  rq_deployment :: "Deployment option"

text \<open>
  What a request does before it is sent: it is refused, answered with an attempt there is, or a new attempt.
  \<open>has_sub_agents\<close> is whether some session waits for a sub-agent, \<open>plans\<close> are the plans for a mode.
\<close>

datatype request_answer = RequestRefused | RequestExisting HostRestartAttempt | RequestNew HostRestartAttempt

definition request_attempt ::
  "string \<Rightarrow> string \<Rightarrow> int \<Rightarrow> string list \<Rightarrow> bool \<Rightarrow> (HostRestartMode \<Rightarrow> HostRestartSessionPlan list) \<Rightarrow> RestartWorkflowState \<Rightarrow> RestartRequest \<Rightarrow> request_answer" where
  "request_attempt attemptId now pid cmd has_sub_agents plans s input =
     (case rw_current s of
        Some active \<Rightarrow>
          (case rq_deployment input of
             Some d \<Rightarrow> if \<not> sameDeploymentOwnership (ra_deployment active) d then RequestRefused else RequestExisting active
           | None \<Rightarrow> RequestExisting active)
      | None \<Rightarrow>
          (let requestedMode = coalesce (rq_mode input) ModeCheckpoint; reason = coalesce (rq_reason input) ReasonManual;
               mode = (if requestedMode = ModeCheckpoint \<and> reason \<noteq> ReasonDeploy \<and> has_sub_agents then ModeWhenIdle else requestedMode);
               attempt = \<lparr>ra_attemptId = attemptId, ra_phase = PhRequested, ra_mode = mode, ra_reason = reason, ra_requestedAt = now, ra_updatedAt = now,
                 ra_oldPid = pid, ra_newPid = None, ra_deployment = rq_deployment input,
                 ra_timeoutMs = (case rq_timeoutMs input of Some t \<Rightarrow> if t = 0 then None else Some t | None \<Rightarrow> None),
                 ra_sessions = plans mode, ra_recoveryReceipts = None, ra_command = Some cmd, ra_error = None\<rparr>
           in case (rq_deployment input, rw_last s) of
                (Some d, Some l) \<Rightarrow> if sameDeploymentOwnership (ra_deployment l) d then RequestExisting l else RequestNew attempt
              | _ \<Rightarrow> RequestNew attempt))"

text \<open>The event that an activation of a deployed release sends, if any, and the attempt it answers with otherwise.\<close>

definition commitActivation :: "AttemptEventFields \<Rightarrow> RestartWorkflowState \<Rightarrow> HostRestartAttempt option + RestartWorkflowEvent" where
  "commitActivation ev s =
     (case rw_current s of
        None \<Rightarrow> Inl (case rw_last s of
            Some l \<Rightarrow> if ra_attemptId l = ae_attemptId ev \<and> ra_phase l \<in> {PhRestarting, PhRecovering, PhCompleted} then Some l else None
          | None \<Rightarrow> None)
      | Some current \<Rightarrow>
          if ra_attemptId current \<noteq> ae_attemptId ev \<or> ra_reason current \<noteq> ReasonDeploy then Inl None
          else if ra_phase current = PhRestarting then Inl (Some current)
          else if ra_phase current \<noteq> PhCheckpointReached then Inl None
          else Inr (EvActivationCommitted ev))"

definition abort_event :: "string \<Rightarrow> (HostRestartMode \<Rightarrow> HostRestartSessionPlan list) \<Rightarrow> string \<Rightarrow> string option \<Rightarrow> RestartWorkflowState \<Rightarrow> RestartWorkflowEvent option" where
  "abort_event now plans reason attemptId s =
     (case rw_current s of
        None \<Rightarrow> None
      | Some current \<Rightarrow>
          if truthy attemptId \<noteq> None \<and> Some (ra_attemptId current) \<noteq> attemptId then None
          else Some (EvAbort \<lparr>ae_attemptId = ra_attemptId current, ae_updatedAt = now, ae_sessions = plans (ra_mode current)\<rparr> reason))"

section \<open>Children before parents\<close>

text \<open>The climb to the ancestors among the plans; \<open>unseen\<close> are the sessions that have not been met.\<close>

function plan_depth :: "HostRestartSessionPlan list \<Rightarrow> string list \<Rightarrow> HostRestartSessionPlan \<Rightarrow> nat" where
  "plan_depth plans unseen current =
     (case truthy (sp_parentSessionId current) of
        None \<Rightarrow> 0
      | Some p \<Rightarrow>
          (case map_of (rev (map (\<lambda>q. (sp_sessionId q, q)) plans)) p of
             None \<Rightarrow> 0
           | Some parent \<Rightarrow> if p \<in> set unseen then Suc (plan_depth plans (removeAll p unseen) parent) else 0))"
  by pat_completeness auto
termination by (relation "measure (\<lambda>(plans, unseen, current). length unseen)") (auto intro: length_removeAll_less)

declare plan_depth.simps [simp del]

definition depth_of :: "HostRestartSessionPlan list \<Rightarrow> HostRestartSessionPlan \<Rightarrow> nat" where
  "depth_of plans plan = plan_depth plans (map sp_sessionId plans) plan"

text \<open>The order of the sessions is a parameter: \<open>localeCompare\<close> gives the place of an identifier.\<close>

definition childrenBeforeParents :: "(string \<Rightarrow> nat) \<Rightarrow> HostRestartSessionPlan list \<Rightarrow> HostRestartSessionPlan list" where
  "childrenBeforeParents locale_rank plans =
     sort_key (\<lambda>p. - int (depth_of plans p)) (sort_key (\<lambda>p. locale_rank (sp_sessionId p)) plans)"

text \<open>The plan of the parent of a session, if the parent takes part.\<close>

definition parent_plan :: "HostRestartSessionPlan list \<Rightarrow> HostRestartSessionPlan \<Rightarrow> HostRestartSessionPlan option" where
  "parent_plan plans p = (case truthy (sp_parentSessionId p) of None \<Rightarrow> None | Some i \<Rightarrow> map_of (map (\<lambda>q. (sp_sessionId q, q)) plans) i)"

lemma parent_lookup:
  assumes "distinct (map sp_sessionId plans)"
  shows "map_of (rev (map (\<lambda>q. (sp_sessionId q, q)) plans)) = map_of (map (\<lambda>q. (sp_sessionId q, q)) plans)"
proof -
  let ?m = "map (\<lambda>q. (sp_sessionId q, q)) plans"
  have "distinct (map fst ?m)" "distinct (map fst (rev ?m))" using assms by (simp_all add: comp_def flip: rev_map)
  then have *: "map_of (rev ?m) k = Some v \<longleftrightarrow> map_of ?m k = Some v" for k v by (simp only: map_of_eq_Some_iff set_rev)
  have "map_of (rev ?m) k = map_of ?m k" for k
  proof (cases "map_of ?m k")
    case None
    with * [of k] show ?thesis by (cases "map_of (rev ?m) k") auto
  qed (use * in simp)
  then show ?thesis by (rule ext)
qed

lemma parent_planD:
  assumes "parent_plan plans p = Some q"
  shows "truthy (sp_parentSessionId p) = Some (sp_sessionId q)" "map_of (map (\<lambda>q. (sp_sessionId q, q)) plans) (sp_sessionId q) = Some q"
proof -
  obtain i where i: "truthy (sp_parentSessionId p) = Some i" "map_of (map (\<lambda>q. (sp_sessionId q, q)) plans) i = Some q"
    using assms by (auto simp: parent_plan_def split: option.splits)
  moreover from map_of_SomeD [OF i(2)] have "i = sp_sessionId q" by auto
  ultimately show "truthy (sp_parentSessionId p) = Some (sp_sessionId q)" "map_of (map (\<lambda>q. (sp_sessionId q, q)) plans) (sp_sessionId q) = Some q"
    by simp_all
qed

lemma parent_plan_member: "parent_plan plans p = Some q \<Longrightarrow> q \<in> set plans"
  by (auto simp: parent_plan_def dest: map_of_SomeD split: option.splits)

lemma plan_depth_unseen:
  assumes "distinct (map sp_sessionId plans)" "\<And>p q. p \<in> set plans \<Longrightarrow> parent_plan plans p = Some q \<Longrightarrow> height q < (height p :: nat)"
  shows "cur \<in> set plans \<Longrightarrow> \<forall>q \<in> set plans. height q < height cur \<longrightarrow> sp_sessionId q \<in> set unseen \<and> sp_sessionId q \<in> set unseen' \<Longrightarrow>
    plan_depth plans unseen cur = plan_depth plans unseen' cur"
proof (induction "height cur" arbitrary: unseen unseen' cur rule: less_induct)
  case less
  show ?case
  proof (cases "parent_plan plans cur")
    case None
    then show ?thesis by (auto simp: plan_depth.simps [of plans _ cur] parent_lookup [OF assms(1)] parent_plan_def split: option.splits)
  next
    case (Some q)
    note i = parent_planD [OF Some]
    have q: "q \<in> set plans" "height q < height cur" using Some parent_plan_member assms(2) less.prems(1) by blast+
    have "sp_sessionId q' \<noteq> sp_sessionId q" if "q' \<in> set plans" "height q' < height q" for q'
      using that q(1) assms(1) by (auto simp: distinct_map dest: inj_onD)
    then have "plan_depth plans (removeAll (sp_sessionId q) unseen) q = plan_depth plans (removeAll (sp_sessionId q) unseen') q"
      using less.prems q by (intro less.hyps) auto
    with i q less.prems show ?thesis
      by (simp add: plan_depth.simps [of plans _ cur] parent_lookup [OF assms(1)])
  qed
qed

lemma depth_of_parent:
  assumes "distinct (map sp_sessionId plans)" "\<And>p q. p \<in> set plans \<Longrightarrow> parent_plan plans p = Some q \<Longrightarrow> height q < (height p :: nat)"
    and "p \<in> set plans" "parent_plan plans p = Some q"
  shows "depth_of plans p = Suc (depth_of plans q)"
proof -
  note i = parent_planD [OF assms(4)]
  have q: "q \<in> set plans" using assms(4) by (rule parent_plan_member)
  have "sp_sessionId q' \<noteq> sp_sessionId q" if "q' \<in> set plans" "height q' < height q" for q'
    using that q assms(1) by (auto simp: distinct_map dest: inj_onD)
  then have "plan_depth plans (removeAll (sp_sessionId q) (map sp_sessionId plans)) q = plan_depth plans (map sp_sessionId plans) q"
    using q by (intro plan_depth_unseen [where height = height] assms(1,2)) auto
  with i q show ?thesis by (simp add: depth_of_def plan_depth.simps [of plans _ p] parent_lookup [OF assms(1)])
qed

text \<open>
  When no session is its own ancestor, the recovery takes up every child session before its parent, whatever
  the order of the identifiers.
\<close>

theorem children_before_parents:
  assumes "distinct (map sp_sessionId plans)" "\<And>p q. p \<in> set plans \<Longrightarrow> parent_plan plans p = Some q \<Longrightarrow> height q < (height p :: nat)"
    and "childrenBeforeParents locale_rank plans = xs @ q # ys" "p \<in> set plans" "parent_plan plans p = Some q"
  shows "p \<in> set xs"
proof (rule ccontr)
  assume "p \<notin> set xs"
  have d: "depth_of plans p = Suc (depth_of plans q)" by (rule depth_of_parent [where height = height, OF assms(1,2,4,5)])
  have "sorted (map (\<lambda>p. - int (depth_of plans p)) (xs @ q # ys))"
    unfolding assms(3) [symmetric] childrenBeforeParents_def by simp
  moreover have "p \<in> set ys"
  proof -
    have "set (xs @ q # ys) = set plans" unfolding assms(3) [symmetric] childrenBeforeParents_def by simp
    moreover have "p \<noteq> q" using d by auto
    ultimately show ?thesis using assms(4) \<open>p \<notin> set xs\<close> by auto
  qed
  ultimately show False using d by (auto simp: sorted_append)
qed

definition sample_plan :: "string \<Rightarrow> string option \<Rightarrow> HostRestartSessionPlan" where
  "sample_plan i parent = \<lparr>sp_sessionId = i, sp_parentSessionId = parent, sp_parentCallId = None, sp_cursor = 0, sp_initialStatus = idle,
     sp_checkpointStatus = Safe, sp_checkpointKind = None, sp_resumeAction = ResumeNone, sp_continuationKey = None, sp_label = None,
     sp_workspaceId = None, sp_workspaceName = None\<rparr>"

theorem children_before_parents_witness:
  "sample_plan ''b'' (Some ''a'') \<in> set [sample_plan ''b'' (Some ''a'')]"
proof (rule children_before_parents [where plans = "[sample_plan ''a'' None, sample_plan ''b'' (Some ''a'')]" and q = "sample_plan ''a'' None"
      and height = "\<lambda>p. if sp_sessionId p = ''a'' \<and> sp_parentSessionId p = None then 0 else Suc (Suc 0)" and locale_rank = length and ys = "[]"])
  show "childrenBeforeParents length [sample_plan ''a'' None, sample_plan ''b'' (Some ''a'')] = [sample_plan ''b'' (Some ''a'')] @ sample_plan ''a'' None # []"
    by (simp add: childrenBeforeParents_def depth_of_def sample_plan_def plan_depth.simps)
qed (auto simp: sample_plan_def parent_plan_def split: if_splits option.splits)

end
