(* ===== verification/Sub_Envelope.thy ===== *)
theory Sub_Envelope
  imports Kala_Prelude
begin

text \<open>
  The text a sub-agent's result travels in: the envelope that \<open>packages/host/src/extensions/agent-tool.ts\<close> writes around a
  child's final text, the parser of the dashboard for it (\<open>packages/dashboard/src/features/chat/subAgentEnvelope.ts\<close>), and the reader of the
  task-graph orchestrator (\<open>normalizeWorkerResult\<close> of \<open>packages/host/src/dag/orchestrator.ts\<close>).
\<close>

section \<open>Regular expressions and replacements on strings\<close>

fun strip_prefix :: "string \<Rightarrow> string \<Rightarrow> string option" where
  "strip_prefix [] s = Some s"
| "strip_prefix (c # p) [] = None"
| "strip_prefix (c # p) (d # s) = (if c = d then strip_prefix p s else None)"

lemma strip_prefix_length: "strip_prefix p s = Some r \<Longrightarrow> length r \<le> length s"
  by (induction p s rule: strip_prefix.induct) (auto split: if_splits)

text \<open>\<open>s.replace(/cp/g, r)\<close> for a literal pattern that starts with \<open>c\<close>.\<close>

function replace_all :: "char \<Rightarrow> string \<Rightarrow> string \<Rightarrow> string \<Rightarrow> string" where
  "replace_all c p r [] = []"
| "replace_all c p r (x # xs) =
     (case (if x = c then strip_prefix p xs else None) of
        Some rest \<Rightarrow> r @ replace_all c p r rest
      | None \<Rightarrow> x # replace_all c p r xs)"
  by pat_completeness auto
termination
  by (relation "measure (\<lambda>(c, p, r, s). length s)") (auto dest!: strip_prefix_length split: if_splits)

text \<open>The text before the first occurrence of \<open>p\<close>, and the text after it.\<close>

fun text_before :: "string \<Rightarrow> string \<Rightarrow> string option" where
  "text_before p [] = (if p = [] then Some [] else None)"
| "text_before p (x # s) = (if strip_prefix p (x # s) \<noteq> None then Some [] else map_option ((#) x) (text_before p s))"

fun text_after :: "string \<Rightarrow> string \<Rightarrow> string option" where
  "text_after p [] = (if p = [] then Some [] else None)"
| "text_after p (x # s) = (case strip_prefix p (x # s) of Some r \<Rightarrow> Some r | None \<Rightarrow> text_after p s)"

text \<open>The group of \<open>/<tag>([\s\S]*?)<\/tag>/\<close>: the first opening tag, and the first closing tag after it.\<close>

definition tagged :: "string \<Rightarrow> string \<Rightarrow> string option" where
  "tagged tag s =
     (case text_after (''<'' @ tag @ ''>'') s of
        None \<Rightarrow> None
      | Some r \<Rightarrow> text_before (''</'' @ tag @ ''>'') r)"

text \<open>The class \<open>\w\<close>.\<close>

definition word_char :: "char \<Rightarrow> bool" where
  "word_char c \<longleftrightarrow>
     is_digit c \<or> (65 \<le> (of_char c :: nat) \<and> (of_char c :: nat) \<le> 90) \<or> (97 \<le> (of_char c :: nat) \<and> (of_char c :: nat) \<le> 122) \<or> c = CHR ''_''"

text \<open>\<open>xs.join(sep)\<close>.\<close>

fun join_with :: "string \<Rightarrow> string list \<Rightarrow> string" where
  "join_with sep [] = []"
| "join_with sep [x] = x"
| "join_with sep (x # y # xs) = x @ sep @ join_with sep (y # xs)"

text \<open>
  \<open>Number\<close> on a text: a sequence of decimal digits with an optional minus sign is that integer; every other
  form of a number (fractions, exponents, other bases) is left to the argument.
\<close>

definition js_Number :: "(string \<Rightarrow> int) \<Rightarrow> string \<Rightarrow> int" where
  "js_Number other s =
     (let neg = (s \<noteq> [] \<and> hd s = CHR ''-''); ds = (if neg then tl s else s)
      in if ds \<noteq> [] \<and> list_all is_digit ds then (if neg then - digits_value ds else digits_value ds) else other s)"

section \<open>Writing\<close>

datatype EnvelopeStatus = Completed | Failed | Cancelled | TimedOutWithPartialResult

primrec status_text :: "EnvelopeStatus \<Rightarrow> string" where
  "status_text Completed = ''completed''"
| "status_text Failed = ''failed''"
| "status_text Cancelled = ''cancelled''"
| "status_text TimedOutWithPartialResult = ''timed_out_with_partial_result''"

datatype TimeoutReason = OrdinaryIdle | ToolIdle | AbsoluteDeadline | TurnLimit

primrec reason_text :: "TimeoutReason \<Rightarrow> string" where
  "reason_text OrdinaryIdle = ''ordinary-idle''"
| "reason_text ToolIdle = ''tool-idle''"
| "reason_text AbsoluteDeadline = ''absolute-deadline''"
| "reason_text TurnLimit = ''turn-limit''"

definition escapeAttr :: "string \<Rightarrow> string" where
  "escapeAttr v =
     replace_all (CHR ''>'') [] ''&gt;'' (replace_all (CHR ''<'') [] ''&lt;'' (replace_all (CHR 0x22) [] ''&quot;'' (replace_all (CHR ''&'') [] ''&amp;'' v)))"

definition escapeEnvelopeBody :: "string \<Rightarrow> string" where
  "escapeEnvelopeBody t = replace_all (CHR ''>'') [] ''&gt;'' (replace_all (CHR ''<'') [] ''&lt;'' t)"

definition attr_text :: "string \<times> string \<Rightarrow> string" where
  "attr_text kv = fst kv @ [CHR ''='', CHR 0x22] @ snd kv @ [CHR 0x22]"

definition envelope_attrs :: "string \<Rightarrow> string option \<Rightarrow> EnvelopeStatus \<Rightarrow> nat \<Rightarrow> int \<Rightarrow> string option \<Rightarrow> (string \<times> string) list" where
  "envelope_attrs childSessionId agentType status turns durationMs intention =
     [(''session_id'', escapeAttr childSessionId)]
     @ (case truthy agentType of Some a \<Rightarrow> [(''agent_type'', escapeAttr a)] | None \<Rightarrow> [])
     @ (case truthy intention of Some i \<Rightarrow> [(''intention'', escapeAttr i)] | None \<Rightarrow> [])
     @ [(''status'', status_text status), (''turns'', show_nat turns), (''duration_ms'', show_int durationMs)]"

definition NL :: string where "NL = [CHR 0x0A]"

definition envelopeHeader :: "string \<Rightarrow> string option \<Rightarrow> EnvelopeStatus \<Rightarrow> nat \<Rightarrow> int \<Rightarrow> string option \<Rightarrow> string" where
  "envelopeHeader childSessionId agentType status turns durationMs intention =
     ''<sub_agent'' @ NL @ ''  ''
     @ join_with (NL @ ''  '') (map attr_text (envelope_attrs childSessionId agentType status turns durationMs intention))
     @ NL @ ''>''"

definition okEnvelope :: "string \<Rightarrow> string option \<Rightarrow> string \<Rightarrow> nat \<Rightarrow> int \<Rightarrow> string option \<Rightarrow> bool \<times> string" where
  "okEnvelope childSessionId agentType resultText turns durationMs intention =
     (True, envelopeHeader childSessionId agentType Completed turns durationMs intention
            @ NL @ ''<result>'' @ NL @ escapeEnvelopeBody resultText @ NL @ ''</result>'' @ NL @ ''</sub_agent>'')"

definition partialTimeoutEnvelope :: "string \<Rightarrow> string option \<Rightarrow> string \<Rightarrow> TimeoutReason \<Rightarrow> nat \<Rightarrow> int \<Rightarrow> string option \<Rightarrow> bool \<times> string" where
  "partialTimeoutEnvelope childSessionId agentType part reason turns durationMs intention =
     (True, envelopeHeader childSessionId agentType TimedOutWithPartialResult turns durationMs intention
            @ NL @ ''<warning>Sub-agent reached '' @ reason_text reason @ ''; returning verified partial work.</warning>''
            @ NL @ ''<result>'' @ NL @ escapeEnvelopeBody part @ NL @ ''</result>'' @ NL @ ''</sub_agent>'')"

definition failEnvelope :: "string \<Rightarrow> string option \<Rightarrow> string \<Rightarrow> nat \<Rightarrow> int \<Rightarrow> string option \<Rightarrow> bool \<times> string" where
  "failEnvelope childSessionId agentType err turns durationMs intention =
     (False, envelopeHeader childSessionId agentType Failed turns durationMs intention
             @ NL @ ''<error>'' @ NL @ escapeEnvelopeBody err @ NL @ ''</error>'' @ NL @ ''</sub_agent>'')"

definition cancelEnvelope :: "string \<Rightarrow> string option \<Rightarrow> string \<Rightarrow> nat \<Rightarrow> int \<Rightarrow> string option \<Rightarrow> bool \<times> string" where
  "cancelEnvelope childSessionId agentType reason turns durationMs intention =
     (False, envelopeHeader childSessionId agentType Cancelled turns durationMs intention
             @ NL @ ''<error>'' @ NL @ escapeEnvelopeBody reason @ NL @ ''</error>'' @ NL @ ''</sub_agent>'')"

section \<open>Reading\<close>

record SubAgentEnvelope =
  ev_sessionId :: string
  ev_agentType :: "string option"
  ev_intention :: "string option"
  ev_status :: EnvelopeStatus
  ev_turns :: int
  ev_durationMs :: int
  ev_body :: string

definition unescapeAttr :: "string \<Rightarrow> string" where
  "unescapeAttr v =
     replace_all (CHR ''&'') ''amp;'' ''&'' (replace_all (CHR ''&'') ''quot;'' [CHR 0x22] (replace_all (CHR ''&'') ''gt;'' ''>'' (replace_all (CHR ''&'') ''lt;'' ''<'' v)))"

definition unescapeEnvelopeBody :: "string \<Rightarrow> string" where
  "unescapeEnvelopeBody v = replace_all (CHR ''&'') ''gt;'' ''>'' (replace_all (CHR ''&'') ''lt;'' ''<'' v)"

text \<open>The matches of \<open>/(\w+)="([^"]*)"/g\<close>, in order. A match that fails at one character is tried at the next.\<close>

function attr_matches :: "string \<Rightarrow> (string \<times> string) list" where
  "attr_matches [] = []"
| "attr_matches (x # s) =
     (let w = takeWhile word_char (x # s); rest = dropWhile word_char (x # s)
      in if w \<noteq> [] \<and> take 2 rest = [CHR ''='', CHR 0x22] \<and> CHR 0x22 \<in> set (drop 2 rest)
         then (w, takeWhile (\<lambda>c. c \<noteq> CHR 0x22) (drop 2 rest)) # attr_matches (tl (dropWhile (\<lambda>c. c \<noteq> CHR 0x22) (drop 2 rest)))
         else attr_matches s)"
  by pat_completeness auto
termination
proof (relation "measure length", goal_cases)
  case (2 x s w rest)
  have "length (tl (dropWhile (\<lambda>c. c \<noteq> CHR 0x22) (drop 2 rest))) \<le> length rest - 2"
    by (metis diff_le_self dual_order.trans length_dropWhile_le length_drop length_tl)
  also have "\<dots> < length (x # s)"
    using length_dropWhile_le [of word_char "x # s"] 2(2) by simp
  finally show ?case by simp
qed auto

definition parseAttrs :: "string \<Rightarrow> string \<rightharpoonup> string" where
  "parseAttrs raw = fold (\<lambda>kv out. out(fst kv \<mapsto> unescapeAttr (snd kv))) (attr_matches raw) Map.empty"

definition numeric :: "(string \<Rightarrow> int) \<Rightarrow> string option \<Rightarrow> int" where
  "numeric other v = (case truthy v of None \<Rightarrow> 0 | Some t \<Rightarrow> js_Number other t)"

text \<open>The group of \<open>/^<sub_agent\b([\s\S]*?)>/\<close>.\<close>

definition header_match :: "string \<Rightarrow> string option" where
  "header_match s =
     (case strip_prefix ''<sub_agent'' s of
        None \<Rightarrow> None
      | Some r \<Rightarrow> if r \<noteq> [] \<and> word_char (hd r) then None else text_before ''>'' r)"

definition read_status :: "string option \<Rightarrow> EnvelopeStatus option" where
  "read_status v = (case v of None \<Rightarrow> None | Some t \<Rightarrow> find (\<lambda>s. status_text s = t) [Completed, Failed, Cancelled, TimedOutWithPartialResult])"

definition parseSubAgentEnvelope :: "(string \<Rightarrow> int) \<Rightarrow> string \<Rightarrow> SubAgentEnvelope option" where
  "parseSubAgentEnvelope other content =
     (let trimmed = dropWhile js_space content
      in case header_match trimmed of
           None \<Rightarrow> None
         | Some raw \<Rightarrow>
             (let attrs = parseAttrs raw
              in case (truthy (attrs ''session_id''), read_status (attrs ''status'')) of
                   (Some sessionId, Some status) \<Rightarrow>
                     (let bodyMatch = (if status = Completed \<or> status = TimedOutWithPartialResult then tagged ''result'' trimmed else tagged ''error'' trimmed);
                          body = (case bodyMatch of None \<Rightarrow> [] | Some b \<Rightarrow> unescapeEnvelopeBody b)
                      in Some \<lparr>ev_sessionId = sessionId, ev_agentType = truthy (attrs ''agent_type''), ev_intention = truthy (attrs ''intention''),
                               ev_status = status, ev_turns = numeric other (attrs ''turns''), ev_durationMs = numeric other (attrs ''duration_ms''),
                               ev_body = trim body\<rparr>)
                 | _ \<Rightarrow> None))"

text \<open>The group of \<open>/<result>\s*([\s\S]*?)\s*<\/result>/u\<close>, trimmed: the pattern strips only what the trimming strips.\<close>

definition normalizeWorkerResult :: "string \<Rightarrow> string" where
  "normalizeWorkerResult content = trim (coalesce (tagged ''result'' content) content)"

section \<open>Escaping\<close>

lemma replace_all_char: "replace_all c [] r s = concat (map (\<lambda>x. if x = c then r else [x]) s)"
  by (induction s) auto

definition attr_char :: "char \<Rightarrow> string" where
  "attr_char x = (if x = CHR ''&'' then ''&amp;'' else if x = CHR 0x22 then ''&quot;'' else if x = CHR ''<'' then ''&lt;'' else if x = CHR ''>'' then ''&gt;'' else [x])"

definition body_char :: "char \<Rightarrow> string" where
  "body_char x = (if x = CHR ''<'' then ''&lt;'' else if x = CHR ''>'' then ''&gt;'' else [x])"

lemma escapeAttr_chars: "escapeAttr v = concat (map attr_char v)"
  unfolding escapeAttr_def replace_all_char by (induction v) (simp_all add: attr_char_def)

lemma escapeEnvelopeBody_chars: "escapeEnvelopeBody t = concat (map body_char t)"
  unfolding escapeEnvelopeBody_def replace_all_char by (induction t) (simp_all add: body_char_def)

lemma escapeAttr_plain: "c \<in> set (escapeAttr v) \<Longrightarrow> c \<noteq> CHR 0x22 \<and> c \<noteq> CHR ''<'' \<and> c \<noteq> CHR ''>''"
  unfolding escapeAttr_chars by (induction v) (auto simp: attr_char_def split: if_splits)

lemma escapeEnvelopeBody_plain: "c \<in> set (escapeEnvelopeBody t) \<Longrightarrow> c \<noteq> CHR ''<'' \<and> c \<noteq> CHR ''>''"
  unfolding escapeEnvelopeBody_chars by (induction t) (auto simp: body_char_def split: if_splits)

text \<open>An attribute is read back as it was: each replacement undoes one kind of entity.\<close>

definition attr_without :: "char set \<Rightarrow> char \<Rightarrow> string" where
  "attr_without D x = (if x \<in> D then [x] else attr_char x)"

lemma undo_lt: "replace_all (CHR ''&'') ''lt;'' ''<'' (concat (map (attr_without {}) v)) = concat (map (attr_without {CHR ''<''}) v)"
  by (induction v) (simp_all add: attr_without_def attr_char_def)

lemma undo_gt: "replace_all (CHR ''&'') ''gt;'' ''>'' (concat (map (attr_without {CHR ''<''}) v)) = concat (map (attr_without {CHR ''<'', CHR ''>''}) v)"
  by (induction v) (simp_all add: attr_without_def attr_char_def)

lemma undo_quot:
  "replace_all (CHR ''&'') ''quot;'' [CHR 0x22] (concat (map (attr_without {CHR ''<'', CHR ''>''}) v)) = concat (map (attr_without {CHR ''<'', CHR ''>'', CHR 0x22}) v)"
  by (induction v) (simp_all add: attr_without_def attr_char_def)

lemma undo_amp: "replace_all (CHR ''&'') ''amp;'' ''&'' (concat (map (attr_without {CHR ''<'', CHR ''>'', CHR 0x22}) v)) = v"
  by (induction v) (simp_all add: attr_without_def attr_char_def)

lemma unescape_escapeAttr [simp]: "unescapeAttr (escapeAttr v) = v"
proof -
  have "escapeAttr v = concat (map (attr_without {}) v)" unfolding escapeAttr_chars by (intro arg_cong [where f = concat] map_cong) (simp_all add: attr_without_def)
  then show ?thesis unfolding unescapeAttr_def by (simp only: undo_lt undo_gt undo_quot undo_amp)
qed

lemma unescapeAttr_id: "CHR ''&'' \<notin> set v \<Longrightarrow> unescapeAttr v = v"
proof -
  have "replace_all c p r s = s" if "c \<notin> set s" for c p r s using that by (induction s) auto
  then show "CHR ''&'' \<notin> set v \<Longrightarrow> unescapeAttr v = v" by (simp add: unescapeAttr_def)
qed

text \<open>A body is read back with its own entities for the two brackets read as brackets too.\<close>

lemma strip_prefix_concat:
  assumes "\<And>x. f x = [x] \<or> (x \<notin> set p \<and> f x \<noteq> [] \<and> hd (f x) \<notin> set p)"
  shows "strip_prefix p (concat (map f v)) = map_option (\<lambda>r. concat (map f r)) (strip_prefix p v)"
  using assms
proof (induction p v rule: strip_prefix.induct)
  case (3 c p d s)
  show ?case
  proof (cases "f d = [d]")
    case True
    have "f x = [x] \<or> (x \<notin> set p \<and> f x \<noteq> [] \<and> hd (f x) \<notin> set p)" for x using "3.prems" [of x] by auto
    with 3 True show ?thesis by simp
  next
    case False
    then have *: "d \<noteq> c" "f d \<noteq> []" "hd (f d) \<noteq> c" using "3.prems" [of d] by auto
    then obtain y ys where "f d = y # ys" "y \<noteq> c" by (cases "f d") auto
    with * show ?thesis by simp
  qed
qed simp_all

lemma unescape_lt:
  "replace_all (CHR ''&'') ''lt;'' ''<'' (concat (map body_char t)) =
   concat (map (\<lambda>x. if x = CHR ''>'' then ''&gt;'' else [x]) (replace_all (CHR ''&'') ''lt;'' ''<'' t))"
proof (induction t rule: length_induct)
  case (1 t)
  show ?case
  proof (cases t)
    case (Cons x xs)
    have p: "strip_prefix ''lt;'' (concat (map body_char xs)) = map_option (\<lambda>r. concat (map body_char r)) (strip_prefix ''lt;'' xs)"
      by (rule strip_prefix_concat) (auto simp: body_char_def)
    have IH: "replace_all (CHR ''&'') ''lt;'' ''<'' (concat (map body_char r)) =
        concat (map (\<lambda>x. if x = CHR ''>'' then ''&gt;'' else [x]) (replace_all (CHR ''&'') ''lt;'' ''<'' r))" if "length r \<le> length xs" for r
      using 1 that Cons by simp
    show ?thesis
      using IH [of xs] IH strip_prefix_length [of "''lt;''" xs]
      by (cases "strip_prefix ''lt;'' xs") (auto simp: Cons p body_char_def [of x])
  qed simp
qed

lemma unescape_gt:
  "replace_all (CHR ''&'') ''gt;'' ''>'' (concat (map (\<lambda>x. if x = CHR ''>'' then ''&gt;'' else [x]) t)) = replace_all (CHR ''&'') ''gt;'' ''>'' t"
proof (induction t rule: length_induct)
  case (1 t)
  let ?f = "\<lambda>x. if x = CHR ''>'' then ''&gt;'' else [x]"
  show ?case
  proof (cases t)
    case (Cons x xs)
    have p: "strip_prefix ''gt;'' (concat (map ?f xs)) = map_option (\<lambda>r. concat (map ?f r)) (strip_prefix ''gt;'' xs)"
      by (rule strip_prefix_concat) auto
    have IH: "replace_all (CHR ''&'') ''gt;'' ''>'' (concat (map ?f r)) = replace_all (CHR ''&'') ''gt;'' ''>'' r" if "length r \<le> length xs" for r
      using 1 that Cons by simp
    show ?thesis
      using IH [of xs] IH strip_prefix_length [of "''gt;''" xs]
      by (cases "strip_prefix ''gt;'' xs") (auto simp: Cons p)
  qed simp
qed

lemma unescape_escapeBody: "unescapeEnvelopeBody (escapeEnvelopeBody t) = unescapeEnvelopeBody t"
  unfolding unescapeEnvelopeBody_def escapeEnvelopeBody_chars unescape_lt unescape_gt ..


lemma replace_all_snoc: "d \<noteq> c \<Longrightarrow> d \<notin> set p \<Longrightarrow> replace_all c p r (s @ [d]) = replace_all c p r s @ [d]"
proof (induction s rule: length_induct)
  case (1 s)
  have tail: "strip_prefix p (xs @ [d]) = map_option (\<lambda>r. r @ [d]) (strip_prefix p xs)" for xs
    using "1.prems"(2) by (induction p xs rule: strip_prefix.induct) auto
  show ?case
  proof (cases s)
    case (Cons x xs)
    have IH: "replace_all c p r (ys @ [d]) = replace_all c p r ys @ [d]" if "length ys \<le> length xs" for ys
      using 1 that Cons by simp
    show ?thesis using IH [of xs] IH strip_prefix_length [of p xs] by (cases "strip_prefix p xs") (auto simp: Cons tail)
  qed (use 1 in simp)
qed

lemma body_read_back: "trim (unescapeEnvelopeBody (NL @ escapeEnvelopeBody t @ NL)) = trim (unescapeEnvelopeBody t)"
proof -
  have "unescapeEnvelopeBody (NL @ escapeEnvelopeBody t @ NL) = NL @ unescapeEnvelopeBody (escapeEnvelopeBody t) @ NL"
    by (simp add: unescapeEnvelopeBody_def NL_def replace_all_snoc)
  then show ?thesis by (simp add: unescape_escapeBody NL_def trim_Cons_space trim_snoc_space js_space_def)
qed

section \<open>Scanning\<close>

lemma strip_prefix_append [simp]: "strip_prefix p (p @ s) = Some s"
  by (induction p) auto

lemma text_before_first: "c \<notin> set a \<Longrightarrow> text_before (c # p) (a @ c # p @ b) = Some a"
  by (induction a) auto

lemma text_after_first: "text_after (c # p) (c # p @ b) = Some b"
  by simp

lemma text_after_skip: "c \<notin> set a \<Longrightarrow> text_after (c # p) (a @ s) = text_after (c # p) s"
  by (induction a) auto

lemma attr_matches_skip: "\<not> word_char c \<Longrightarrow> attr_matches (c # s) = attr_matches s"
  by simp

declare attr_matches.simps(2) [simp del]

definition attr_ok :: "string \<times> string \<Rightarrow> bool" where
  "attr_ok kv \<longleftrightarrow> fst kv \<noteq> [] \<and> list_all word_char (fst kv) \<and> CHR 0x22 \<notin> set (snd kv)"

lemma not_word [simp]: "\<not> word_char (CHR ''='')" "\<not> word_char (CHR 0x0A)" "\<not> word_char (CHR 0x20)"
  by (simp_all add: word_char_def is_digit_def)

lemma attr_matches_attr: "attr_ok kv \<Longrightarrow> attr_matches (attr_text kv @ s) = kv # attr_matches s"
proof -
  assume ok: "attr_ok kv"
  obtain k v where kv: "kv = (k, v)" by force
  have k: "k \<noteq> []" "\<And>x. x \<in> set k \<Longrightarrow> word_char x" and v: "CHR 0x22 \<notin> set v"
    using ok by (auto simp: attr_ok_def kv list_all_iff)
  let ?rest = "CHR ''='' # CHR 0x22 # v @ CHR 0x22 # s"
  have "takeWhile word_char (k @ ?rest) = k" "dropWhile word_char (k @ ?rest) = ?rest"
    using k(2) by (auto simp: takeWhile_append2 dropWhile_append2)
  moreover have "takeWhile (\<lambda>c. c \<noteq> CHR 0x22) (v @ CHR 0x22 # s) = v" using v by (induction v) auto
  moreover have "dropWhile (\<lambda>c. c \<noteq> CHR 0x22) (v @ CHR 0x22 # s) = CHR 0x22 # s" using v by (induction v) auto
  moreover obtain x xs where "k @ ?rest = x # xs" by (cases "k @ ?rest") auto
  ultimately have "attr_matches (k @ ?rest) = (k, v) # attr_matches s"
    using k(1) by (simp add: attr_matches.simps(2) Let_def)
  then show ?thesis by (simp add: attr_text_def kv)
qed

lemma attr_matches_join:
  "list_all attr_ok kvs \<Longrightarrow> attr_matches (join_with (NL @ ''  '') (map attr_text kvs) @ s) = kvs @ attr_matches s"
proof (induction kvs rule: induct_list012)
  case (3 a b kvs)
  then have "attr_matches (attr_text a @ NL @ ''  '' @ join_with (NL @ ''  '') (map attr_text (b # kvs)) @ s) = a # b # kvs @ attr_matches s"
    by (subst attr_matches_attr) (simp_all add: NL_def attr_matches_skip)
  then show ?case by (simp add: NL_def)
qed (simp_all add: attr_matches_attr)

lemma join_with_chars: "c \<in> set (join_with sep xs) \<Longrightarrow> c \<in> set sep \<or> (\<exists>x \<in> set xs. c \<in> set x)"
  by (induction sep xs rule: join_with.induct) auto

section \<open>The header\<close>

lemma show_int_chars: "c \<in> set (show_int i) \<Longrightarrow> is_digit c \<or> c = CHR ''-''"
  using show_nat_digits unfolding show_int_def list_all_iff by (auto split: if_splits)

lemma digit_not [simp]: "\<not> is_digit (CHR 0x22)" "\<not> is_digit (CHR ''<'')" "\<not> is_digit (CHR ''>'')" "\<not> is_digit (CHR ''&'')" "\<not> is_digit (CHR ''-'')"
  by (simp_all add: is_digit_def)

lemma number_plain: "c \<in> set (show_nat n) \<union> set (show_int i) \<Longrightarrow> c \<notin> {CHR 0x22, CHR ''<'', CHR ''>'', CHR ''&''}"
  using show_nat_digits [of n] show_int_chars [of c i] unfolding list_all_iff by auto

lemma status_plain: "c \<in> set (status_text st) \<Longrightarrow> c \<notin> {CHR 0x22, CHR ''<'', CHR ''>'', CHR ''&''}"
  by (cases st) auto

lemma envelope_attrs_ok: "list_all attr_ok (envelope_attrs sid ty st n d it)"
  and envelope_attrs_plain: "kv \<in> set (envelope_attrs sid ty st n d it) \<Longrightarrow> c \<in> set (attr_text kv) \<Longrightarrow> c \<noteq> CHR ''<'' \<and> c \<noteq> CHR ''>''"
proof -
  have names: "list_all word_char k \<and> CHR ''<'' \<notin> set k \<and> CHR ''>'' \<notin> set k"
    if "k \<in> {''session_id'', ''agent_type'', ''intention'', ''status'', ''turns'', ''duration_ms''}" for k
    using that by (auto simp: word_char_def is_digit_def)
  have vals: "c \<notin> {CHR 0x22, CHR ''<'', CHR ''>''}" if "kv \<in> set (envelope_attrs sid ty st n d it)" "c \<in> set (snd kv)" for kv c
    using that escapeAttr_plain [of c] number_plain [of c n d] status_plain [of c st]
    by (auto simp: envelope_attrs_def split: option.splits)
  have keys: "fst kv \<in> {''session_id'', ''agent_type'', ''intention'', ''status'', ''turns'', ''duration_ms''}"
    if "kv \<in> set (envelope_attrs sid ty st n d it)" for kv
    using that by (auto simp: envelope_attrs_def split: option.splits)
  show "list_all attr_ok (envelope_attrs sid ty st n d it)"
    unfolding list_all_iff attr_ok_def using names [OF keys] vals keys by fastforce
  show "c \<noteq> CHR ''<'' \<and> c \<noteq> CHR ''>''" if "kv \<in> set (envelope_attrs sid ty st n d it)" "c \<in> set (attr_text kv)"
    using that names [OF keys [OF that(1)]] vals [OF that(1), of c] by (auto simp: attr_text_def)
qed

definition header_inner :: "string \<Rightarrow> string option \<Rightarrow> EnvelopeStatus \<Rightarrow> nat \<Rightarrow> int \<Rightarrow> string option \<Rightarrow> string" where
  "header_inner sid ty st n d it = NL @ ''  '' @ join_with (NL @ ''  '') (map attr_text (envelope_attrs sid ty st n d it)) @ NL"

lemma envelopeHeader_inner: "envelopeHeader sid ty st n d it = ''<sub_agent'' @ header_inner sid ty st n d it @ ''>''"
  by (simp add: envelopeHeader_def header_inner_def)

lemma header_inner_plain: "c \<in> set (header_inner sid ty st n d it) \<Longrightarrow> c \<noteq> CHR ''<'' \<and> c \<noteq> CHR ''>''"
  unfolding header_inner_def by (auto simp: NL_def dest!: join_with_chars dest: envelope_attrs_plain)

lemma header_inner_attrs: "attr_matches (header_inner sid ty st n d it) = envelope_attrs sid ty st n d it"
  unfolding header_inner_def using attr_matches_join [OF envelope_attrs_ok, of sid ty st n d it NL]
  by (simp add: NL_def attr_matches_skip)


lemma header_matches: "header_match (envelopeHeader sid ty st n d it @ s) = Some (header_inner sid ty st n d it)"
proof -
  have "text_before ''>'' (header_inner sid ty st n d it @ CHR ''>'' # [] @ s) = Some (header_inner sid ty st n d it)"
    by (rule text_before_first) (use header_inner_plain in blast)
  moreover have "\<not> word_char (hd (header_inner sid ty st n d it @ r))" for r by (simp add: header_inner_def NL_def)
  ultimately show ?thesis unfolding header_match_def envelopeHeader_inner by simp
qed

lemma parsed_attrs:
  fixes sid ty st n d it
  defines "a \<equiv> parseAttrs (header_inner sid ty st n d it)"
  shows "a ''session_id'' = Some sid" "a ''status'' = Some (status_text st)" "a ''agent_type'' = truthy ty" "a ''intention'' = truthy it"
    "a ''turns'' = Some (show_nat n)" "a ''duration_ms'' = Some (show_int d)"
proof -
  have plain: "unescapeAttr (status_text st) = status_text st" "unescapeAttr (show_nat n) = show_nat n" "unescapeAttr (show_int d) = show_int d"
    using status_plain [of "CHR ''&''" st] number_plain [of "CHR ''&''" n d] by (auto intro: unescapeAttr_id)
  show "a ''session_id'' = Some sid" "a ''status'' = Some (status_text st)" "a ''agent_type'' = truthy ty" "a ''intention'' = truthy it"
    "a ''turns'' = Some (show_nat n)" "a ''duration_ms'' = Some (show_int d)"
    unfolding a_def parseAttrs_def header_inner_attrs envelope_attrs_def by (simp_all add: plain split: option.splits)
qed

lemma numeric_show_nat: "numeric other (Some (show_nat n)) = int n"
proof -
  have "hd (show_nat n) \<noteq> CHR ''-''"
    using show_nat_digits [of n] show_nat_nonempty [of n] by (cases "show_nat n") auto
  then show ?thesis by (simp add: numeric_def js_Number_def)
qed

lemma numeric_show_int: "numeric other (Some (show_int d)) = d"
  using numeric_show_nat [of other "nat d"] by (auto simp: show_int_def numeric_def js_Number_def)

lemma read_status_text [simp]: "read_status (Some (status_text st)) = Some st"
  by (cases st) (simp_all add: read_status_def)

section \<open>The body\<close>

lemma tagged_body:
  assumes b: "CHR ''<'' \<notin> set b"
    and skip: "\<And>s. text_after (''<'' @ tag @ ''>'') (mid @ s) = text_after (''<'' @ tag @ ''>'') s"
  shows "tagged tag (mid @ ''<'' @ tag @ ''>'' @ b @ ''</'' @ tag @ ''>'' @ s) = Some b"
proof -
  have "text_after (''<'' @ tag @ ''>'') (mid @ ''<'' @ tag @ ''>'' @ b @ ''</'' @ tag @ ''>'' @ s) = Some (b @ ''</'' @ tag @ ''>'' @ s)"
    unfolding skip using text_after_first [of "CHR ''<''" "tag @ ''>''"] by simp
  moreover have "text_before (''</'' @ tag @ ''>'') (b @ ''</'' @ tag @ ''>'' @ s) = Some b"
    using text_before_first [OF b, of "''/'' @ tag @ ''>''" s] by simp
  ultimately show ?thesis by (simp add: tagged_def)
qed


lemma skip_header:
  assumes "tag = ''result'' \<or> tag = ''error''"
  shows "text_after (''<'' @ tag @ ''>'') (envelopeHeader sid ty st n d it @ s) = text_after (''<'' @ tag @ ''>'') s"
proof -
  have "text_after (''<'' @ tag @ ''>'') (header_inner sid ty st n d it @ CHR ''>'' # s) = text_after (''<'' @ tag @ ''>'') s"
    using text_after_skip [of "CHR ''<''" "header_inner sid ty st n d it" "tag @ ''>''" "CHR ''>'' # s"]
      header_inner_plain [of "CHR ''<''" sid ty st n d it] by auto
  then show ?thesis using assms unfolding envelopeHeader_inner by auto
qed

text \<open>The warning of a partial result stands between its header and its body.\<close>

definition warning :: "TimeoutReason \<Rightarrow> string" where
  "warning reason = NL @ ''<warning>Sub-agent reached '' @ reason_text reason @ ''; returning verified partial work.</warning>'' @ NL"

lemma skip_warning: "text_after ''<result>'' (warning reason @ s) = text_after ''<result>'' s"
  by (cases reason) (simp_all add: warning_def NL_def)

definition body_tag :: "EnvelopeStatus \<Rightarrow> string" where
  "body_tag st = (if st = Completed \<or> st = TimedOutWithPartialResult then ''result'' else ''error'')"

lemma envelope_body:
  assumes "mid = NL \<or> (\<exists>reason. mid = warning reason \<and> body_tag st = ''result'')"
  shows "tagged (body_tag st) (envelopeHeader sid ty st n d it @ mid @ ''<'' @ body_tag st @ ''>'' @ NL @ escapeEnvelopeBody t @ NL @ ''</'' @ body_tag st @ ''>'' @ s) =
     Some (NL @ escapeEnvelopeBody t @ NL)"
proof -
  have tag: "body_tag st = ''result'' \<or> body_tag st = ''error''" by (simp add: body_tag_def)
  have "text_after (''<'' @ body_tag st @ ''>'') (mid @ r) = text_after (''<'' @ body_tag st @ ''>'') r" for r
    using assms tag skip_warning by (auto simp: NL_def)
  then have "text_after (''<'' @ body_tag st @ ''>'') ((envelopeHeader sid ty st n d it @ mid) @ r) = text_after (''<'' @ body_tag st @ ''>'') r" for r
    using skip_header [OF tag] by simp
  from tagged_body [OF _ this, of "NL @ escapeEnvelopeBody t @ NL" s] show ?thesis
    using escapeEnvelopeBody_plain by (auto simp: NL_def)
qed

lemma parse_content:
  assumes "dropWhile js_space c = c" "header_match c = Some (header_inner sid ty st n d it)" "tagged (body_tag st) c = Some (NL @ escapeEnvelopeBody t @ NL)"
    and "sid \<noteq> []"
  shows "parseSubAgentEnvelope other c =
    Some \<lparr>ev_sessionId = sid, ev_agentType = truthy ty, ev_intention = truthy it, ev_status = st, ev_turns = int n, ev_durationMs = d,
          ev_body = trim (unescapeEnvelopeBody t)\<rparr>"
proof -
  have "(if st = Completed \<or> st = TimedOutWithPartialResult then tagged ''result'' c else tagged ''error'' c) = tagged (body_tag st) c"
    by (simp add: body_tag_def)
  with assms show ?thesis
    unfolding parseSubAgentEnvelope_def Let_def by (simp only: parsed_attrs option.case read_status_text truthy_Some if_False prod.case
      numeric_show_nat numeric_show_int body_read_back truthy_truthy)
qed

lemma envelope_read:
  assumes "sid \<noteq> []" and "mid = NL \<or> (\<exists>reason. mid = warning reason \<and> body_tag st = ''result'')"
  shows "parseSubAgentEnvelope other
      (envelopeHeader sid ty st n d it @ mid @ ''<'' @ body_tag st @ ''>'' @ NL @ escapeEnvelopeBody t @ NL @ ''</'' @ body_tag st @ ''>'' @ s) =
    Some \<lparr>ev_sessionId = sid, ev_agentType = truthy ty, ev_intention = truthy it, ev_status = st, ev_turns = int n, ev_durationMs = d,
          ev_body = trim (unescapeEnvelopeBody t)\<rparr>" (is "parseSubAgentEnvelope other ?c = _")
proof (rule parse_content)
  show "dropWhile js_space ?c = ?c" by (simp add: envelopeHeader_def js_space_def)
qed (use assms header_matches envelope_body in blast)+

definition envelope_of :: "string \<Rightarrow> string option \<Rightarrow> string option \<Rightarrow> EnvelopeStatus \<Rightarrow> nat \<Rightarrow> int \<Rightarrow> string \<Rightarrow> SubAgentEnvelope" where
  "envelope_of sid ty it st n d body =
     \<lparr>ev_sessionId = sid, ev_agentType = truthy ty, ev_intention = truthy it, ev_status = st, ev_turns = int n, ev_durationMs = d, ev_body = body\<rparr>"

lemma envelope_read_of:
  assumes "sid \<noteq> []"
  shows "parseSubAgentEnvelope other (snd (okEnvelope sid ty t n d it)) = Some (envelope_of sid ty it Completed n d (trim (unescapeEnvelopeBody t)))"
    and "parseSubAgentEnvelope other (snd (partialTimeoutEnvelope sid ty t reason n d it)) = Some (envelope_of sid ty it TimedOutWithPartialResult n d (trim (unescapeEnvelopeBody t)))"
    and "parseSubAgentEnvelope other (snd (failEnvelope sid ty t n d it)) = Some (envelope_of sid ty it Failed n d (trim (unescapeEnvelopeBody t)))"
    and "parseSubAgentEnvelope other (snd (cancelEnvelope sid ty t n d it)) = Some (envelope_of sid ty it Cancelled n d (trim (unescapeEnvelopeBody t)))"
  using envelope_read [OF assms, of NL Completed other ty n d it t "NL @ ''</sub_agent>''"]
    envelope_read [OF assms, of "warning reason" TimedOutWithPartialResult other ty n d it t "NL @ ''</sub_agent>''"]
    envelope_read [OF assms, of NL Failed other ty n d it t "NL @ ''</sub_agent>''"]
    envelope_read [OF assms, of NL Cancelled other ty n d it t "NL @ ''</sub_agent>''"]
  by (auto simp: okEnvelope_def partialTimeoutEnvelope_def failEnvelope_def cancelEnvelope_def envelope_of_def body_tag_def warning_def)

lemma unescapeEnvelopeBody_id: "CHR ''&'' \<notin> set t \<Longrightarrow> unescapeEnvelopeBody t = t"
proof -
  have "replace_all c p r s = s" if "c \<notin> set s" for c p r s using that by (induction s) auto
  then show "CHR ''&'' \<notin> set t \<Longrightarrow> unescapeEnvelopeBody t = t" by (simp add: unescapeEnvelopeBody_def)
qed

text \<open>
  C36: Whatever the child's text, its type and the intention hold, the dashboard reads from each of the four envelopes the host writes
  exactly the session, type, intention, status, number of turns and duration that were written, and as body the trimmed text with
  the entities for the two brackets read as brackets; a text without an ampersand comes back as it was. No text can close its
  envelope early or forge an attribute.
\<close>

theorem envelope_roundtrip:
  assumes "sid \<noteq> []"
  shows "parseSubAgentEnvelope other (snd (okEnvelope sid ty t n d it)) = Some (envelope_of sid ty it Completed n d (trim (unescapeEnvelopeBody t)))
    \<and> parseSubAgentEnvelope other (snd (partialTimeoutEnvelope sid ty t reason n d it)) = Some (envelope_of sid ty it TimedOutWithPartialResult n d (trim (unescapeEnvelopeBody t)))
    \<and> parseSubAgentEnvelope other (snd (failEnvelope sid ty t n d it)) = Some (envelope_of sid ty it Failed n d (trim (unescapeEnvelopeBody t)))
    \<and> parseSubAgentEnvelope other (snd (cancelEnvelope sid ty t n d it)) = Some (envelope_of sid ty it Cancelled n d (trim (unescapeEnvelopeBody t)))
    \<and> (CHR ''&'' \<notin> set t \<longrightarrow> unescapeEnvelopeBody t = t)"
  by (intro conjI impI envelope_read_of [OF assms] unescapeEnvelopeBody_id)

theorem envelope_roundtrip_witness:
  "parseSubAgentEnvelope (\<lambda>_. 0) (snd (okEnvelope ''c1'' (Some ''x>'') ''if a < b'' 3 (- 20) None)) =
   Some \<lparr>ev_sessionId = ''c1'', ev_agentType = Some ''x>'', ev_intention = None, ev_status = Completed, ev_turns = 3, ev_durationMs = - 20, ev_body = ''if a < b''\<rparr>"
  using envelope_roundtrip [of "''c1''" "\<lambda>_. 0" "Some ''x>''" "''if a < b''" 3 "- 20" None AbsoluteDeadline]
  by (simp add: envelope_of_def trim_def js_space_def)

text \<open>The orchestrator's reader finds the body of a completed envelope and leaves its entities in place.\<close>

lemma worker_result: "normalizeWorkerResult (snd (okEnvelope sid ty t n d it)) = trim (escapeEnvelopeBody t)"
proof -
  have "tagged ''result'' (snd (okEnvelope sid ty t n d it)) = Some (NL @ escapeEnvelopeBody t @ NL)"
    using envelope_body [of NL Completed sid ty n d it t "NL @ ''</sub_agent>''"] by (simp add: okEnvelope_def body_tag_def)
  then show ?thesis by (simp add: normalizeWorkerResult_def NL_def trim_Cons_space trim_snoc_space js_space_def)
qed

lemma set_trim: "set (trim s) \<subseteq> set s"
  unfolding trim_def by (auto dest!: set_dropWhileD)

text \<open>
  C39: The result a task-graph node records for a completed worker is the worker's text with its angle brackets still written as
  entities: as soon as the text has one, the recorded result differs from the text.
\<close>

theorem worker_result_stays_escaped:
  assumes "CHR ''<'' \<in> set (trim t) \<or> CHR ''>'' \<in> set (trim t)"
  shows "normalizeWorkerResult (snd (okEnvelope sid ty t n d it)) = trim (escapeEnvelopeBody t)
    \<and> normalizeWorkerResult (snd (okEnvelope sid ty t n d it)) \<noteq> trim t"
proof -
  have "CHR ''<'' \<notin> set (trim (escapeEnvelopeBody t)) \<and> CHR ''>'' \<notin> set (trim (escapeEnvelopeBody t))"
    using set_trim escapeEnvelopeBody_plain by blast
  then show ?thesis unfolding worker_result using assms by metis
qed

theorem worker_result_stays_escaped_witness:
  "normalizeWorkerResult (snd (okEnvelope ''c1'' None ''a < b'' 1 10 None)) = ''a &lt; b'' \<and> ''a &lt; b'' \<noteq> ''a < b''"
  using worker_result_stays_escaped [of "''a < b''" "''c1''" None 1 10 None]
  by (simp add: trim_def js_space_def escapeEnvelopeBody_def)

end
