(* ===== verification/Sub_Agent.thy ===== *)
theory Sub_Agent
  imports Kernel_State Kala_Machines Sub_Envelope
begin

text \<open>
  Sub-agents: the policy of a call from \<open>packages/shared/src/subagent-policy.ts\<close>, and from
  \<open>packages/host/src/extensions/agent-tool.ts\<close> the tools a child gets, the slots that bound how many children a session
  runs at once, and the monitor that ends a child that idles or overruns. Numbers of the policy are integers,
  the limits of depth and fan-out are absent or finite.
\<close>

section \<open>Policy\<close>

datatype SubAgentRole = Research | Implementation | TestRole | Review

datatype SubAgentPolicyReasonCode =
    RoleTemplateApplied | RoleUnknown | MaxTurnsCapped | MaxTurnsRaised | TimeoutCapped | TimeoutRaised
  | AllowedToolsIntersected | MaxDepthExceeded | MaxFanoutExceeded

record SubAgentPolicyInput =
  pi_role :: "SubAgentRole option"
  pi_intention :: "string option"
  pi_objective :: "string option"
  pi_allowedTools :: "string list option"
  pi_maxTurns :: "int option"
  pi_timeoutMs :: "int option"
  pi_expectedOutput :: "string option"

record SubAgentPolicy =
  po_role :: "SubAgentRole option"
  po_intention :: "string option"
  po_objective :: "string option"
  po_allowedTools :: "string list option"
  po_maxTurns :: int
  po_idleTimeoutMs :: int
  po_toolIdleTimeoutMs :: int
  po_timeoutMs :: int
  po_gracePeriodMs :: int
  po_expectedOutput :: "string option"
  po_maxDepth :: "int option"
  po_resolvedDepth :: "int option"
  po_maxFanOut :: "int option"
  po_concurrentSiblingCount :: "int option"
  po_reasons :: "SubAgentPolicyReasonCode list"

record SubAgentBounds =
  sb_defaultMaxTurns :: int
  sb_minimumMaxTurns :: int
  sb_maximumMaxTurns :: int
  sb_defaultIdleTimeoutMs :: int
  sb_defaultToolIdleTimeoutMs :: int
  sb_defaultTimeoutMs :: int
  sb_minimumTimeoutMs :: int
  sb_maximumTimeoutMs :: int
  sb_defaultGracePeriodMs :: int

record SubAgentRoleTemplate =
  rt_role :: SubAgentRole
  rt_purpose :: string
  rt_defaultAllowedTools :: "string list"
  rt_bounds :: SubAgentBounds
  rt_defaultExpectedOutput :: string

abbreviation minutes :: "int \<Rightarrow> int" where "minutes n \<equiv> n * 60000"

definition bounds :: "int \<Rightarrow> int \<Rightarrow> int \<Rightarrow> int \<Rightarrow> int \<Rightarrow> int \<Rightarrow> int \<Rightarrow> int \<Rightarrow> int \<Rightarrow> SubAgentBounds" where
  "bounds dt mint maxt idl tidl dto minto maxto grace =
     \<lparr>sb_defaultMaxTurns = dt, sb_minimumMaxTurns = mint, sb_maximumMaxTurns = maxt, sb_defaultIdleTimeoutMs = idl, sb_defaultToolIdleTimeoutMs = tidl,
      sb_defaultTimeoutMs = dto, sb_minimumTimeoutMs = minto, sb_maximumTimeoutMs = maxto, sb_defaultGracePeriodMs = grace\<rparr>"

definition read_tools :: "string list" where
  "read_tools = [''read_file'', ''read_files'', ''multi_grep'', ''glob'', ''ls'']"

primrec SUB_AGENT_ROLE_TEMPLATES :: "SubAgentRole \<Rightarrow> SubAgentRoleTemplate" where
  "SUB_AGENT_ROLE_TEMPLATES Research =
     \<lparr>rt_role = Research, rt_purpose = ''Read files and return a concise report with references.'',
      rt_defaultAllowedTools = read_tools @ [''websearch'', ''webfetch'', ''todo_graph''],
      rt_bounds = bounds 180 25 360 (minutes 45) (minutes 120) (minutes (4 * 60)) (minutes 30) (minutes (8 * 60)) (minutes 5),
      rt_defaultExpectedOutput = ''Structured summary with file:line references.''\<rparr>"
| "SUB_AGENT_ROLE_TEMPLATES Implementation =
     \<lparr>rt_role = Implementation, rt_purpose = ''Implement a bounded change in the shared workspace and verify it without reverting unrelated work.'',
      rt_defaultAllowedTools = read_tools @ [''write_file'', ''replace_in_file'', ''replace_many_in_file'', ''apply_file_patch'', ''shell'', ''bash_output'', ''kill_shell'', ''todo_graph''],
      rt_bounds = bounds 240 40 480 (minutes 45) (minutes 120) (minutes (6 * 60)) (minutes 60) (minutes (12 * 60)) (minutes 5),
      rt_defaultExpectedOutput = ''Implemented files, verification evidence, and remaining risks.''\<rparr>"
| "SUB_AGENT_ROLE_TEMPLATES TestRole =
     \<lparr>rt_role = TestRole, rt_purpose = ''Run focused tests and report failure causes.'',
      rt_defaultAllowedTools = read_tools @ [''shell'', ''bash_output'', ''kill_shell'', ''todo_graph''],
      rt_bounds = bounds 200 30 400 (minutes 45) (minutes 120) (minutes (5 * 60)) (minutes 45) (minutes (10 * 60)) (minutes 5),
      rt_defaultExpectedOutput = ''Failing test names, first-failure reasons, and next actions.''\<rparr>"
| "SUB_AGENT_ROLE_TEMPLATES Review =
     \<lparr>rt_role = Review, rt_purpose = ''Inspect the final diff and report risks before answer.'',
      rt_defaultAllowedTools = read_tools @ [''todo_graph''],
      rt_bounds = bounds 120 20 240 (minutes 30) (minutes 90) (minutes (3 * 60)) (minutes 20) (minutes (6 * 60)) (minutes 3),
      rt_defaultExpectedOutput = ''Ranked list of risks/regressions with file references.''\<rparr>"

definition DEFAULT_SUB_AGENT_POLICY :: SubAgentBounds where
  "DEFAULT_SUB_AGENT_POLICY = bounds 180 20 360 (minutes 45) (minutes 120) (minutes (4 * 60)) (minutes 30) (minutes (8 * 60)) (minutes 5)"

definition policy_bounds :: "SubAgentRole option \<Rightarrow> SubAgentBounds" where
  "policy_bounds role = (case role of None \<Rightarrow> DEFAULT_SUB_AGENT_POLICY | Some r \<Rightarrow> rt_bounds (SUB_AGENT_ROLE_TEMPLATES r))"

text \<open>The tools, with the reasons gathered so far.\<close>

definition policy_tools ::
  "string list option \<Rightarrow> SubAgentRole option \<Rightarrow> string list option \<Rightarrow> SubAgentPolicyReasonCode list \<Rightarrow> string list option \<times> SubAgentPolicyReasonCode list" where
  "policy_tools explicitAllowed role parentTools reasons =
     (let templateAllowed = map_option (\<lambda>r. rt_defaultAllowedTools (SUB_AGENT_ROLE_TEMPLATES r)) role;
          (allowed, reasons1) =
            (case (explicitAllowed, templateAllowed) of
               (Some e, Some t) \<Rightarrow>
                 (let a = filter (\<lambda>x. x \<in> set t) e
                  in (Some a, if length a \<noteq> length e then reasons @ [AllowedToolsIntersected] else reasons))
             | (Some e, None) \<Rightarrow> (Some e, reasons)
             | (None, t) \<Rightarrow> (t, reasons))
      in case (allowed, parentTools) of
           (Some a, Some p) \<Rightarrow>
             if length p > 0 then
               (let a1 = filter (\<lambda>x. x \<in> set p) a
                in (Some a1, if length a1 \<noteq> length a \<and> AllowedToolsIntersected \<notin> set reasons1 then reasons1 @ [AllowedToolsIntersected] else reasons1))
             else (Some a, reasons1)
         | _ \<Rightarrow> (allowed, reasons1))"

text \<open>A limit: the default, or what was asked for, raised to the minimum or cut to the maximum.\<close>

definition clamp :: "int option \<Rightarrow> int \<Rightarrow> int \<Rightarrow> int \<Rightarrow> SubAgentPolicyReasonCode \<Rightarrow> SubAgentPolicyReasonCode \<Rightarrow> int \<times> SubAgentPolicyReasonCode list" where
  "clamp asked dflt minimum maximum capped raised =
     (case asked of
        None \<Rightarrow> (dflt, [])
      | Some v \<Rightarrow> if v > maximum then (maximum, [capped]) else if v < minimum then (minimum, [raised]) else (v, []))"

definition exceeded :: "int option \<Rightarrow> int option \<Rightarrow> bool" where
  "exceeded n cap = (case (n, cap) of (Some a, Some b) \<Rightarrow> a \<ge> b | _ \<Rightarrow> False)"

definition no_input :: SubAgentPolicyInput where
  "no_input = \<lparr>pi_role = None, pi_intention = None, pi_objective = None, pi_allowedTools = None, pi_maxTurns = None, pi_timeoutMs = None, pi_expectedOutput = None\<rparr>"

definition resolveSubAgentPolicy ::
  "SubAgentPolicyInput option \<Rightarrow> string list option \<Rightarrow> int option \<Rightarrow> int option \<Rightarrow> int option \<Rightarrow> int option \<Rightarrow> SubAgentPolicy" where
  "resolveSubAgentPolicy input parentTools parentDepth maxDepth concurrentSiblingCount maxFanOut =
     (let i = (case input of None \<Rightarrow> no_input | Some x \<Rightarrow> x);
          reasons = (if pi_role i \<noteq> None then [RoleTemplateApplied] else []);
          (allowedTools, reasons1) = policy_tools (pi_allowedTools i) (pi_role i) parentTools reasons;
          b = policy_bounds (pi_role i);
          (maxTurns, turn_reasons) = clamp (pi_maxTurns i) (sb_defaultMaxTurns b) (sb_minimumMaxTurns b) (sb_maximumMaxTurns b) MaxTurnsCapped MaxTurnsRaised;
          (timeoutMs, time_reasons) = clamp (pi_timeoutMs i) (sb_defaultTimeoutMs b) (sb_minimumTimeoutMs b) (sb_maximumTimeoutMs b) TimeoutCapped TimeoutRaised;
          expectedOutput = (case pi_expectedOutput i of Some t \<Rightarrow> Some t
            | None \<Rightarrow> map_option (\<lambda>r. rt_defaultExpectedOutput (SUB_AGENT_ROLE_TEMPLATES r)) (pi_role i))
      in \<lparr>po_role = pi_role i, po_intention = truthy (pi_intention i), po_objective = truthy (pi_objective i), po_allowedTools = allowedTools,
          po_maxTurns = maxTurns, po_idleTimeoutMs = sb_defaultIdleTimeoutMs b, po_toolIdleTimeoutMs = sb_defaultToolIdleTimeoutMs b,
          po_timeoutMs = timeoutMs, po_gracePeriodMs = sb_defaultGracePeriodMs b, po_expectedOutput = truthy expectedOutput,
          po_maxDepth = maxDepth, po_resolvedDepth = parentDepth, po_maxFanOut = maxFanOut, po_concurrentSiblingCount = concurrentSiblingCount,
          po_reasons = reasons1 @ turn_reasons @ time_reasons @
            (if exceeded parentDepth maxDepth then [MaxDepthExceeded] else []) @
            (if exceeded concurrentSiblingCount maxFanOut then [MaxFanoutExceeded] else [])\<rparr>)"

section \<open>The tools of a child\<close>

definition AGENT_TOOL_NAME :: string where "AGENT_TOOL_NAME = ''agent''"

definition pickEffectiveTools :: "string list option \<Rightarrow> string list option \<Rightarrow> string list option" where
  "pickEffectiveTools requested policyAllowedTools = (if policyAllowedTools \<noteq> None then policyAllowedTools else requested)"

definition child_tools :: "ToolSchema list \<Rightarrow> string list option \<Rightarrow> ToolSchema list" where
  "child_tools tls allowed = filter (\<lambda>t. ts_name t \<noteq> AGENT_TOOL_NAME \<and> (case allowed of None \<Rightarrow> True | Some a \<Rightarrow> ts_name t \<in> set a)) tls"

section \<open>The monitor\<close>

record TimeoutObservation =
  ob_cursor :: nat
  ob_status :: AgentStatus
  ob_requestedToolTimeoutMs :: "int option"

text \<open>The grace period and its reason are set together.\<close>

record TimeoutMonitor =
  tm_last :: TimeoutObservation
  tm_lastActivityAt :: int
  tm_grace :: "(int \<times> TimeoutReason) option"

record timeout_limits =
  tl_startedAt :: int
  tl_idleTimeoutMs :: int
  tl_toolIdleTimeoutMs :: int
  tl_absoluteTimeoutMs :: int
  tl_gracePeriodMs :: int
  tl_maxTurns :: "int option"

text \<open>One poll: the monitor afterwards, whether the child is cancelled, and the reason.\<close>

definition evaluateSubAgentTimeout ::
  "timeout_limits \<Rightarrow> int \<Rightarrow> TimeoutObservation \<Rightarrow> int \<Rightarrow> TimeoutMonitor \<Rightarrow> TimeoutMonitor \<times> bool \<times> TimeoutReason option" where
  "evaluateSubAgentTimeout l now observation turnCount m0 =
     (let progressed = (ob_cursor observation \<noteq> ob_cursor (tm_last m0) \<or> ob_status observation \<noteq> ob_status (tm_last m0));
          m = (if progressed
               then \<lparr>tm_last = observation, tm_lastActivityAt = now,
                     tm_grace = (case tm_grace m0 of Some (g, r) \<Rightarrow> if r = AbsoluteDeadline \<or> r = TurnLimit then Some (g, r) else None | None \<Rightarrow> None)\<rparr>
               else m0)
      in case tm_grace m of
           Some (g, r) \<Rightarrow> (m, now - g \<ge> tl_gracePeriodMs l, Some r)
         | None \<Rightarrow>
             (let absoluteExpired = (now - tl_startedAt l \<ge> tl_absoluteTimeoutMs l);
                  turnLimitReached = (case tl_maxTurns l of None \<Rightarrow> False | Some t \<Rightarrow> turnCount \<ge> t);
                  toolRunning = (ob_status observation = executing_tools);
                  toolDeadlineWithGrace = coalesce (ob_requestedToolTimeoutMs observation) 0 + 2 * 60000;
                  idleLimit = (if toolRunning then max (tl_toolIdleTimeoutMs l) toolDeadlineWithGrace else tl_idleTimeoutMs l);
                  idleExpired = (now - tm_lastActivityAt m \<ge> idleLimit)
              in if \<not> absoluteExpired \<and> \<not> turnLimitReached \<and> \<not> idleExpired then (m, False, None)
                 else (let reason = (if absoluteExpired then AbsoluteDeadline else if turnLimitReached then TurnLimit
                                     else if toolRunning then ToolIdle else OrdinaryIdle)
                       in (m\<lparr>tm_grace := Some (now, reason)\<rparr>, tl_gracePeriodMs l = 0, Some reason))))"

section \<open>Slots\<close>

text \<open>The calls with a running child and the calls with a reserved slot, as pairs of the parent and the call.\<close>

record slots =
  sl_active :: "(string \<times> string) list"
  sl_reserved :: "(string \<times> string) list"

definition sibling_count :: "slots \<Rightarrow> string \<Rightarrow> nat" where
  "sibling_count s p = length (filter (\<lambda>k. fst k = p) (sl_active s)) + length (filter (\<lambda>k. fst k = p) (sl_reserved s))"

definition reserveSubAgentSlot :: "int \<Rightarrow> string \<times> string \<Rightarrow> slots \<Rightarrow> slots \<times> bool \<times> nat" where
  "reserveSubAgentSlot maxFanOut k s =
     (let n = sibling_count s (fst k)
      in if int n \<ge> maxFanOut then (s, False, n) else (s\<lparr>sl_reserved := List.insert k (sl_reserved s)\<rparr>, True, n))"

definition releaseSubAgentSlot :: "string \<times> string \<Rightarrow> slots \<Rightarrow> slots" where
  "releaseSubAgentSlot k s = s\<lparr>sl_reserved := removeAll k (sl_reserved s)\<rparr>"

text \<open>A child starts: it becomes active and then its slot is released, in one go.\<close>

definition activate :: "string \<times> string \<Rightarrow> slots \<Rightarrow> slots" where
  "activate k s = releaseSubAgentSlot k (s\<lparr>sl_active := List.insert k (sl_active s)\<rparr>)"

definition deactivate :: "string \<times> string \<Rightarrow> slots \<Rightarrow> slots" where
  "deactivate k s = s\<lparr>sl_active := removeAll k (sl_active s)\<rparr>"

section \<open>The call\<close>

text \<open>\<open>isSubAgentRole\<close>, returning the role.\<close>

definition isSubAgentRole :: "json option \<Rightarrow> SubAgentRole option" where
  "isSubAgentRole v =
     (case v of
        Some (JString t) \<Rightarrow>
          (if t = ''research'' then Some Research else if t = ''implementation'' then Some Implementation
           else if t = ''test'' then Some TestRole else if t = ''review'' then Some Review else None)
      | _ \<Rightarrow> None)"

fun firstNonEmptyString :: "json option list \<Rightarrow> string option" where
  "firstNonEmptyString [] = None"
| "firstNonEmptyString (Some (JString t) # vs) =
     (let trimmed = trim t
      in if length trimmed > 0 \<and> length trimmed \<le> 240 \<and> CHR 0x0D \<notin> set trimmed \<and> CHR 0x0A \<notin> set trimmed then Some trimmed
         else firstNonEmptyString vs)"
| "firstNonEmptyString (v # vs) = firstNonEmptyString vs"

text \<open>\<open>Math.floor\<close> of a number; the argument gives it for the numbers that are not integers.\<close>

definition floor_of :: "(string \<Rightarrow> int) \<Rightarrow> json option \<Rightarrow> int option" where
  "floor_of fl v = (case v of Some (JNumber (Integer i)) \<Rightarrow> Some i | Some (JNumber (NonInteger t)) \<Rightarrow> Some (fl t) | _ \<Rightarrow> None)"

definition nonempty_string :: "json option \<Rightarrow> string option" where
  "nonempty_string v = (case v of Some (JString t) \<Rightarrow> truthy (Some t) | _ \<Rightarrow> None)"

definition string_list :: "json option \<Rightarrow> string list option" where
  "string_list v = (case v of Some (JArray xs) \<Rightarrow> Some (List.map_filter (\<lambda>x. case x of JString t \<Rightarrow> Some t | _ \<Rightarrow> None) xs) | _ \<Rightarrow> None)"

definition readPolicyInput :: "(string \<Rightarrow> int) \<Rightarrow> json_object \<Rightarrow> SubAgentPolicyInput option" where
  "readPolicyInput fl raw =
     (let get = map_of raw;
          role = (case isSubAgentRole (get ''role'') of Some r \<Rightarrow> Some r | None \<Rightarrow> isSubAgentRole (get ''agent_type''));
          input = \<lparr>pi_role = role,
                   pi_intention = firstNonEmptyString [get ''intention'', get ''objective'', get ''_intent''],
                   pi_objective = nonempty_string (get ''objective''),
                   pi_allowedTools = (case string_list (get ''tools'') of Some (t # ts) \<Rightarrow> Some (t # ts) | _ \<Rightarrow> None),
                   pi_maxTurns = floor_of fl (get ''max_turns''),
                   pi_timeoutMs = floor_of fl (get ''timeout_ms''),
                   pi_expectedOutput = nonempty_string (get ''expected_output'')\<rparr>
      in if input = no_input \<and> get ''role'' = None \<and> get ''agent_type'' = None then None else Some input)"

definition DEFAULT_MAX_AGENT_DEPTH :: int where "DEFAULT_MAX_AGENT_DEPTH = 1"
definition DEFAULT_MAX_AGENT_FANOUT :: int where "DEFAULT_MAX_AGENT_FANOUT = 8"

text \<open>The chain of parents of a session. A chain that never ends has no depth.\<close>

partial_function (option) depthOf :: "(string \<rightharpoonup> string) \<Rightarrow> string \<Rightarrow> int option" where
  "depthOf parent sid =
     (case parent sid of
        None \<Rightarrow> Some 0
      | Some p \<Rightarrow> Option.bind (depthOf parent p) (\<lambda>n. Some (n + 1)))"

datatype admission = PromptRequired | DepthExceeded | FanoutExceeded | Admitted SubAgentPolicy

text \<open>
  \<open>runAgentTool\<close> up to the point where the child is looked up or created: the prompt, the slot, the policy and the two refusals. The
  arguments are the tools of the configuration, the depth of the parent, its two limits, the call and its input.
\<close>

definition admitSubAgent ::
  "(string \<Rightarrow> int) \<Rightarrow> ToolSchema list \<Rightarrow> int \<Rightarrow> int option \<Rightarrow> int option \<Rightarrow> string \<times> string \<Rightarrow> json_object \<Rightarrow> slots \<Rightarrow> slots \<times> admission" where
  "admitSubAgent fl parentTools depth depthLimit fanOutLimit k input s =
     (case map_of input ''prompt'' of
        Some (JString prompt) \<Rightarrow>
          (if trim prompt = [] then (s, PromptRequired)
           else
             (let maxDepth = min (coalesce depthLimit DEFAULT_MAX_AGENT_DEPTH) DEFAULT_MAX_AGENT_DEPTH;
                  maxFanOut = coalesce fanOutLimit DEFAULT_MAX_AGENT_FANOUT;
                  (s1, admitted, n) = reserveSubAgentSlot maxFanOut k s;
                  policy = resolveSubAgentPolicy (readPolicyInput fl input) (Some (map ts_name parentTools)) (Some depth) (Some maxDepth) (Some (int n)) (Some maxFanOut)
              in if MaxDepthExceeded \<in> set (po_reasons policy) then ((if admitted then releaseSubAgentSlot k s1 else s1), DepthExceeded)
                 else if \<not> admitted \<or> MaxFanoutExceeded \<in> set (po_reasons policy) then (s1, FanoutExceeded)
                 else (s1, Admitted policy)))
      | _ \<Rightarrow> (s, PromptRequired))"

definition assistantTurnCount :: "Message list \<Rightarrow> nat" where
  "assistantTurnCount ms = length (filter (\<lambda>m. msg_role m = Assistant) ms)"

definition finalAssistantText :: "Message list \<Rightarrow> string" where
  "finalAssistantText ms =
     (case find (\<lambda>m. msg_role m = Assistant) (rev ms) of
        None \<Rightarrow> []
      | Some m \<Rightarrow> trim (join_with NL (List.map_filter (\<lambda>c. case c of Text t \<Rightarrow> Some t | _ \<Rightarrow> None) (msg_content m))))"

text \<open>
  The monitor over the ticks of its timer. At a tick the child may have been cancelled by someone else (the monitor ends), have
  no loaded state (the monitor waits for the next tick), a finished one (the monitor ends), or one with an observation and a number
  of turns.
\<close>

record tick =
  tk_now :: int
  tk_cancelled :: bool
  tk_state :: "(TimeoutObservation \<times> int) option"

datatype watch_result = Watching TimeoutMonitor | Ended | TimedOut int "TimeoutReason option"

fun monitorTimeout :: "timeout_limits \<Rightarrow> TimeoutMonitor \<Rightarrow> tick list \<Rightarrow> watch_result" where
  "monitorTimeout l m [] = Watching m"
| "monitorTimeout l m (t # ts) =
     (if tk_cancelled t then Ended else case tk_state t of
        None \<Rightarrow> monitorTimeout l m ts
      | Some (observation, turnCount) \<Rightarrow>
          if ob_status observation \<in> {done_status, error_status} then Ended
          else (case evaluateSubAgentTimeout l (tk_now t) observation turnCount m of
                  (m', expired, reason) \<Rightarrow> if expired then TimedOut (tk_now t) reason else monitorTimeout l m' ts))"

section \<open>Tools and bounds\<close>

definition bounds_ordered :: "SubAgentBounds \<Rightarrow> bool" where
  "bounds_ordered b \<longleftrightarrow>
     sb_minimumMaxTurns b \<le> sb_defaultMaxTurns b \<and> sb_defaultMaxTurns b \<le> sb_maximumMaxTurns b \<and>
     sb_minimumTimeoutMs b \<le> sb_defaultTimeoutMs b \<and> sb_defaultTimeoutMs b \<le> sb_maximumTimeoutMs b"

lemma role_bounds: "bounds_ordered (policy_bounds r)"
proof (cases r)
  case None
  then show ?thesis by (simp add: bounds_ordered_def policy_bounds_def DEFAULT_SUB_AGENT_POLICY_def bounds_def)
next
  case (Some x)
  then show ?thesis by (cases x) (simp_all add: bounds_ordered_def policy_bounds_def bounds_def)
qed

lemma clamp_within: "lo \<le> d \<Longrightarrow> d \<le> hi \<Longrightarrow> lo \<le> fst (clamp v d lo hi c r) \<and> fst (clamp v d lo hi c r) \<le> hi"
  by (auto simp: clamp_def split: option.splits)

lemma clamp_asked: "v = Some x \<Longrightarrow> lo \<le> x \<Longrightarrow> x \<le> hi \<Longrightarrow> clamp v d lo hi c r = (x, [])"
  by (simp add: clamp_def)

lemma policy_fields:
  fixes input pt dp md sc mf
  defines "q \<equiv> resolveSubAgentPolicy input pt dp md sc mf" and "i \<equiv> coalesce input no_input"
  defines "b \<equiv> policy_bounds (pi_role i)"
  shows "po_allowedTools q = fst (policy_tools (pi_allowedTools i) (pi_role i) pt (if pi_role i \<noteq> None then [RoleTemplateApplied] else []))"
    "po_maxTurns q = fst (clamp (pi_maxTurns i) (sb_defaultMaxTurns b) (sb_minimumMaxTurns b) (sb_maximumMaxTurns b) MaxTurnsCapped MaxTurnsRaised)"
    "po_timeoutMs q = fst (clamp (pi_timeoutMs i) (sb_defaultTimeoutMs b) (sb_minimumTimeoutMs b) (sb_maximumTimeoutMs b) TimeoutCapped TimeoutRaised)"
    "MaxDepthExceeded \<in> set (po_reasons q) \<longleftrightarrow> exceeded dp md" "MaxFanoutExceeded \<in> set (po_reasons q) \<longleftrightarrow> exceeded sc mf"
proof -
  have tools: "set (snd (policy_tools e r pt rs)) \<subseteq> set rs \<union> {AllowedToolsIntersected}" for e r rs
    unfolding policy_tools_def Let_def by (cases e; cases r; cases pt) (auto split: if_splits)
  have clamps: "set (snd (clamp v d lo hi c r)) \<subseteq> {c, r}" for v d lo hi c r by (auto simp: clamp_def split: option.splits)
  let ?A = "snd (policy_tools (pi_allowedTools i) (pi_role i) pt (if pi_role i \<noteq> None then [RoleTemplateApplied] else []))"
  let ?B = "snd (clamp (pi_maxTurns i) (sb_defaultMaxTurns b) (sb_minimumMaxTurns b) (sb_maximumMaxTurns b) MaxTurnsCapped MaxTurnsRaised)"
  let ?C = "snd (clamp (pi_timeoutMs i) (sb_defaultTimeoutMs b) (sb_minimumTimeoutMs b) (sb_maximumTimeoutMs b) TimeoutCapped TimeoutRaised)"
  have "po_reasons q = ?A @ ?B @ ?C @ (if exceeded dp md then [MaxDepthExceeded] else []) @ (if exceeded sc mf then [MaxFanoutExceeded] else [])"
    by (simp add: q_def b_def i_def resolveSubAgentPolicy_def Let_def coalesce_def split: prod.splits)
  moreover have "MaxDepthExceeded \<notin> set ?A \<and> MaxFanoutExceeded \<notin> set ?A" using tools [of "pi_allowedTools i" "pi_role i"] by fastforce
  moreover have "MaxDepthExceeded \<notin> set ?B \<and> MaxFanoutExceeded \<notin> set ?B" using clamps by blast
  moreover have "MaxDepthExceeded \<notin> set ?C \<and> MaxFanoutExceeded \<notin> set ?C" using clamps by blast
  ultimately show "MaxDepthExceeded \<in> set (po_reasons q) \<longleftrightarrow> exceeded dp md" "MaxFanoutExceeded \<in> set (po_reasons q) \<longleftrightarrow> exceeded sc mf"
    by simp_all
qed (simp_all add: q_def b_def i_def resolveSubAgentPolicy_def Let_def coalesce_def split: prod.splits)

text \<open>The tools a policy allows come from the explicit list and from the template, whichever are given.\<close>

lemma policy_tools_allowed:
  assumes "fst (policy_tools e r pt rs) = Some a"
  shows "(\<forall>x. e = Some x \<longrightarrow> set a \<subseteq> set x) \<and> (\<forall>x. r = Some x \<longrightarrow> set a \<subseteq> set (rt_defaultAllowedTools (SUB_AGENT_ROLE_TEMPLATES x)))"
  using assms unfolding policy_tools_def Let_def
  by (cases e; cases r; cases pt) (auto split: if_splits)

lemma policy_tools_given: "e \<noteq> None \<or> r \<noteq> None \<Longrightarrow> fst (policy_tools e r pt rs) \<noteq> None"
  unfolding policy_tools_def Let_def by (cases e; cases r; cases pt) (auto split: if_splits)

lemma child_tools_names: "t \<in> set (child_tools tls (pickEffectiveTools req a)) \<Longrightarrow> t \<in> set tls \<and> ts_name t \<noteq> AGENT_TOOL_NAME \<and> (\<forall>x. a = Some x \<longrightarrow> ts_name t \<in> set x)"
  by (auto simp: child_tools_def pickEffectiveTools_def split: option.splits if_splits)

lemma admitted_policy:
  assumes "admitSubAgent fl tls depth dl fo k input s = (s', Admitted q)"
  shows "\<exists>md mf. q = resolveSubAgentPolicy (readPolicyInput fl input) (Some (map ts_name tls)) (Some depth) md (Some (int (sibling_count s (fst k)))) mf"
    and "depth < DEFAULT_MAX_AGENT_DEPTH" and "int (sibling_count s (fst k)) < coalesce fo DEFAULT_MAX_AGENT_FANOUT"
  using assms unfolding admitSubAgent_def Let_def reserveSubAgentSlot_def
  by (auto simp: policy_fields exceeded_def split: option.splits json.splits if_splits)


definition sample_tool :: "string \<Rightarrow> ToolSchema" where
  "sample_tool n = \<lparr>ts_name = n, ts_description = [], ts_inputSchema = [], ts_requiresApproval = False, ts_version = None, ts_schemaHash = None,
     ts_toolsetId = None, ts_toolsetVersion = None, ts_risk = None, ts_executionKind = None, ts_executionHandler = None\<rparr>"

definition sample_policy :: SubAgentPolicy where
  "sample_policy = resolveSubAgentPolicy (readPolicyInput (\<lambda>_. 0) [(''prompt'', JString ''x''), (''role'', JString ''review''), (''max_turns'', JNumber (Integer 900))])
     (Some [''ls'', ''shell'', ''agent'']) (Some 0) (Some 1) (Some 0) (Some 8)"


section \<open>The monitor ends\<close>

lemma monitorTimeout_append:
  "monitorTimeout l m (ts @ us) = (case monitorTimeout l m ts of Watching m' \<Rightarrow> monitorTimeout l m' us | r \<Rightarrow> r)"
  by (induction ts arbitrary: m) (auto split: option.splits prod.splits)

text \<open>At a tick the child is neither cancelled nor finished.\<close>

definition running :: "tick \<Rightarrow> bool" where
  "running t \<longleftrightarrow> \<not> tk_cancelled t \<and> (case tk_state t of None \<Rightarrow> True | Some (ob, _) \<Rightarrow> ob_status ob \<notin> {done_status, error_status})"

text \<open>The grace period of a monitor started by \<open>t\<close>, if it has one.\<close>

definition grace_by :: "int \<Rightarrow> TimeoutMonitor \<Rightarrow> bool" where
  "grace_by t m \<longleftrightarrow> (\<forall>g r. tm_grace m = Some (g, r) \<longrightarrow> g \<le> t)"

definition final_reason :: "TimeoutReason \<Rightarrow> bool" where
  "final_reason r \<longleftrightarrow> r = AbsoluteDeadline \<or> r = TurnLimit"

text \<open>A grace period is under way that began by \<open>a\<close>, or one that progress does not end and that began by \<open>b\<close>.\<close>

definition closing :: "int \<Rightarrow> int \<Rightarrow> TimeoutMonitor \<Rightarrow> bool" where
  "closing a b m \<longleftrightarrow> (\<exists>g r. tm_grace m = Some (g, r) \<and> (g \<le> a \<or> final_reason r \<and> g \<le> b))"

definition closing_final :: "int \<Rightarrow> TimeoutMonitor \<Rightarrow> bool" where
  "closing_final b m \<longleftrightarrow> (\<exists>g r. tm_grace m = Some (g, r) \<and> final_reason r \<and> g \<le> b)"

lemma poll_grace_by:
  "grace_by t m \<Longrightarrow> now \<le> t \<Longrightarrow> evaluateSubAgentTimeout l now ob n m = (m', c, r) \<Longrightarrow> grace_by t m'"
  unfolding evaluateSubAgentTimeout_def Let_def grace_by_def by (auto split: if_splits option.splits prod.splits)

lemma poll_expired:
  assumes "grace_by now m" "tl_startedAt l + tl_absoluteTimeoutMs l \<le> now" "evaluateSubAgentTimeout l now ob n m = (m', c, r)"
  shows "closing now now m'"
  using assms unfolding evaluateSubAgentTimeout_def Let_def grace_by_def closing_def
  by (auto simp: final_reason_def split: if_splits option.splits prod.splits)

lemma poll_closing:
  assumes "tl_startedAt l + tl_absoluteTimeoutMs l \<le> a" "closing a b m" "a \<le> now" "now \<le> b" "evaluateSubAgentTimeout l now ob n m = (m', c, r)"
  shows "closing a b m'"
  using assms unfolding evaluateSubAgentTimeout_def Let_def closing_def
  by (auto simp: final_reason_def split: if_splits option.splits prod.splits)

lemma poll_second:
  assumes "closing a b m" "tl_startedAt l + tl_absoluteTimeoutMs l \<le> b" "a + tl_gracePeriodMs l \<le> b" "evaluateSubAgentTimeout l b ob n m = (m', False, r)"
  shows "closing_final b m'"
  using assms unfolding evaluateSubAgentTimeout_def Let_def closing_def closing_final_def
  by (auto simp: final_reason_def split: if_splits option.splits prod.splits)

lemma poll_final:
  assumes "closing_final b m" "evaluateSubAgentTimeout l now ob n m = (m', c, r)"
  shows "closing_final b m'" and "b + tl_gracePeriodMs l \<le> now \<Longrightarrow> c \<and> r \<noteq> None"
  using assms unfolding evaluateSubAgentTimeout_def Let_def closing_final_def
  by (auto simp: final_reason_def split: if_splits option.splits prod.splits)

lemma poll_reason: "evaluateSubAgentTimeout l now ob n m = (m', True, r) \<Longrightarrow> r \<noteq> None"
  unfolding evaluateSubAgentTimeout_def Let_def by (auto split: if_splits option.splits prod.splits)


text \<open>Over ticks between two times, a property of the monitor that every poll keeps holds at the end, unless the child was timed out on the way.\<close>

definition cancelled_by :: "int \<Rightarrow> watch_result \<Rightarrow> bool" where
  "cancelled_by t w \<longleftrightarrow> (\<exists>u r. w = TimedOut u (Some r) \<and> u \<le> t)"

lemma watch_keeps:
  assumes "P m" and "\<And>t. t \<in> set ts \<Longrightarrow> running t \<and> lo \<le> tk_now t \<and> tk_now t \<le> hi"
    and "\<And>m now ob n m' r. P m \<Longrightarrow> lo \<le> now \<Longrightarrow> now \<le> hi \<Longrightarrow> evaluateSubAgentTimeout l now ob n m = (m', False, r) \<Longrightarrow> P m'"
  shows "(\<exists>m'. monitorTimeout l m ts = Watching m' \<and> P m') \<or> cancelled_by hi (monitorTimeout l m ts)"
  using assms(1,2)
proof (induction ts arbitrary: m)
  case (Cons t ts)
  have t: "running t" "lo \<le> tk_now t" "tk_now t \<le> hi" using Cons.prems(2) by auto
  show ?case
  proof (cases "tk_state t")
    case None
    then show ?thesis using Cons t(1) by (simp add: running_def)
  next
    case (Some x)
    obtain ob n where x: "x = (ob, n)" by force
    obtain m' c r where e: "evaluateSubAgentTimeout l (tk_now t) ob n m = (m', c, r)" by (metis prod_cases3)
    have live: "ob_status ob \<notin> {done_status, error_status}" "\<not> tk_cancelled t" using t(1) Some by (simp_all add: running_def x)
    show ?thesis
    proof (cases c)
      case True
      then show ?thesis using live e poll_reason [of l "tk_now t" ob n m m' r] t(3) Some by (auto simp: x cancelled_by_def)
    next
      case False
      then have "P m'" using assms(3) [OF Cons.prems(1) t(2,3)] e by simp
      then show ?thesis using Cons.IH [of m'] Cons.prems(2) live e False Some by (simp add: x)
    qed
  qed
qed simp

text \<open>One tick at which the child has a state: the monitor after the poll, or a timeout.\<close>

lemma watch_tick:
  assumes "running t" "tk_state t = Some (ob, n)"
    and "\<And>m' r. evaluateSubAgentTimeout l (tk_now t) ob n m = (m', False, r) \<Longrightarrow> P m'"
  shows "(\<exists>m'. monitorTimeout l m [t] = Watching m' \<and> P m') \<or> cancelled_by (tk_now t) (monitorTimeout l m [t])"
proof -
  obtain m' c r where e: "evaluateSubAgentTimeout l (tk_now t) ob n m = (m', c, r)" by (metis prod_cases3)
  then show ?thesis
    using assms poll_reason [of l "tk_now t" ob n m m' r] by (cases c) (auto simp: running_def cancelled_by_def)
qed

text \<open>A stretch that times out decides the whole run; otherwise the run goes on from its monitor.\<close>

lemma watch_chain:
  assumes "(\<exists>m'. monitorTimeout l m ts = Watching m' \<and> P m') \<or> cancelled_by t (monitorTimeout l m ts)" and "t \<le> u"
    and "\<And>m'. P m' \<Longrightarrow> cancelled_by u (monitorTimeout l m' us)"
  shows "cancelled_by u (monitorTimeout l m (ts @ us))"
  using assms by (auto simp: monitorTimeout_append cancelled_by_def)

text \<open>
  C37: A child whose absolute deadline has passed is timed out: once three ticks of the monitor find it still running, the first
  after the deadline and each of the others at least a grace period after the one before, it is cancelled by the third at the latest,
  however much progress it shows in between and whatever grace period was under way.
\<close>

theorem overdue_child_cancelled:
  fixes xs ys zs :: "tick list" and a b c :: tick
  assumes "tm_grace m = None"
    and live: "list_all running (xs @ a # ys @ b # zs @ [c])"
    and order: "sorted (map tk_now (xs @ a # ys @ b # zs @ [c]))"
    and seen: "tk_state a \<noteq> None" "tk_state b \<noteq> None" "tk_state c \<noteq> None"
    and late: "tl_startedAt l + tl_absoluteTimeoutMs l \<le> tk_now a"
    and "tk_now a + tl_gracePeriodMs l \<le> tk_now b" and "tk_now b + tl_gracePeriodMs l \<le> tk_now c"
  shows "cancelled_by (tk_now c) (monitorTimeout l m (xs @ a # ys @ b # zs @ [c]))"
proof -
  obtain oa na ob nb oc nc where states: "tk_state a = Some (oa, na)" "tk_state b = Some (ob, nb)" "tk_state c = Some (oc, nc)"
    using seen by auto
  have times: "\<And>t. t \<in> set xs \<Longrightarrow> tk_now t \<le> tk_now a" "\<And>t. t \<in> set ys \<Longrightarrow> tk_now a \<le> tk_now t \<and> tk_now t \<le> tk_now b"
      "\<And>t. t \<in> set zs \<Longrightarrow> tk_now b \<le> tk_now t \<and> tk_now t \<le> tk_now c" "tk_now a \<le> tk_now b" "tk_now b \<le> tk_now c"
    using order by (auto simp: sorted_append)
  let ?A = "tk_now a" and ?B = "tk_now b" and ?C = "tk_now c"
  have ra: "running a" and rb: "running b" and rc: "running c" and rys: "\<And>t. t \<in> set ys \<Longrightarrow> running t" and rzs: "\<And>t. t \<in> set zs \<Longrightarrow> running t"
    using live by (auto simp: list_all_iff)
  have 6: "cancelled_by ?C (monitorTimeout l m [c])" if "closing_final ?B m" for m
    using watch_tick [OF rc states(3), of l m "\<lambda>_. False"] poll_final(2) [OF that _ assms(9)] by blast
  have 5: "cancelled_by ?C (monitorTimeout l m (zs @ [c]))" if "closing_final ?B m" for m
    by (rule watch_chain [OF watch_keeps [of "closing_final ?B" m zs ?B ?C l, OF that _ poll_final(1)] order_refl 6])
      (use rzs times(3) in blast)+
  have 4: "cancelled_by ?C (monitorTimeout l m ([b] @ zs @ [c]))" if "closing ?A ?B m" for m
    by (rule watch_chain [OF watch_tick [OF rb states(2) poll_second [OF that _ assms(8)]] times(5) 5]) (use late times(4) in auto)
  have 3: "cancelled_by ?C (monitorTimeout l m (ys @ [b] @ zs @ [c]))" if "closing ?A ?B m" for m
    by (rule watch_chain [OF watch_keeps [of "closing ?A ?B" m ys ?A ?B l, OF that _ poll_closing [OF late]] times(5) 4])
      (use rys times(2) in blast)+
  have 2: "cancelled_by ?C (monitorTimeout l m ([a] @ ys @ [b] @ zs @ [c]))" if "grace_by ?A m" for m
  proof (rule watch_chain [OF watch_tick [OF ra states(1)] _ 3])
    show "closing ?A ?B m'" if "evaluateSubAgentTimeout l ?A oa na m = (m', False, r)" for m' r
      using poll_expired [OF \<open>grace_by ?A m\<close> late that] times(4) unfolding closing_def by fastforce
  qed (use times(4,5) in auto)
  have "grace_by ?A m" using assms(1) by (simp add: grace_by_def)
  then have "(\<exists>m'. monitorTimeout l m xs = Watching m' \<and> grace_by ?A m') \<or> cancelled_by ?A (monitorTimeout l m xs)"
    using watch_keeps [of "grace_by ?A" m xs "Min (insert ?A (set (map tk_now xs)))" ?A l, OF _ _ poll_grace_by] live times(1) by (auto simp: list_all_iff)
  from watch_chain [OF this _ 2] times(4,5) show ?thesis by simp
qed


definition sample_limits :: timeout_limits where
  "sample_limits = \<lparr>tl_startedAt = 0, tl_idleTimeoutMs = 50, tl_toolIdleTimeoutMs = 90, tl_absoluteTimeoutMs = 100, tl_gracePeriodMs = 10, tl_maxTurns = Some 5\<rparr>"

definition sample_tick :: "int \<Rightarrow> nat \<Rightarrow> tick" where
  "sample_tick now n = \<lparr>tk_now = now, tk_cancelled = False, tk_state = Some (\<lparr>ob_cursor = n, ob_status = thinking, ob_requestedToolTimeoutMs = None\<rparr>, 1)\<rparr>"

definition sample_monitor :: TimeoutMonitor where
  "sample_monitor = \<lparr>tm_last = \<lparr>ob_cursor = 0, ob_status = thinking, ob_requestedToolTimeoutMs = None\<rparr>, tm_lastActivityAt = 0, tm_grace = None\<rparr>"

text \<open>A child that is idle until just before its deadline and makes progress afterwards is cancelled by the third tick.\<close>

theorem overdue_child_cancelled_witness:
  "monitorTimeout sample_limits sample_monitor [sample_tick 95 0, sample_tick 100 0, sample_tick 115 1, sample_tick 125 2] = TimedOut 125 (Some AbsoluteDeadline)
   \<and> cancelled_by 125 (monitorTimeout sample_limits sample_monitor ([sample_tick 95 0] @ sample_tick 100 0 # [] @ sample_tick 115 1 # [] @ [sample_tick 125 2]))"
proof
  show "monitorTimeout sample_limits sample_monitor [sample_tick 95 0, sample_tick 100 0, sample_tick 115 1, sample_tick 125 2] = TimedOut 125 (Some AbsoluteDeadline)"
    by code_simp
  have "cancelled_by (tk_now (sample_tick 125 2)) (monitorTimeout sample_limits sample_monitor ([sample_tick 95 0] @ sample_tick 100 0 # [] @ sample_tick 115 1 # [] @ [sample_tick 125 2]))"
    by (rule overdue_child_cancelled) (simp_all add: sample_monitor_def sample_tick_def sample_limits_def running_def)
  then show "cancelled_by 125 (monitorTimeout sample_limits sample_monitor ([sample_tick 95 0] @ sample_tick 100 0 # [] @ sample_tick 115 1 # [] @ [sample_tick 125 2]))"
    by (simp only: sample_tick_def tick.select_convs)
qed

section \<open>Fan-out\<close>

datatype slot_event =
    Reserve "string \<times> string"
  | Release "string \<times> string"
  | Start "string \<times> string"
  | Stop "string \<times> string"

primrec slot_step :: "int \<Rightarrow> slots \<Rightarrow> slot_event \<Rightarrow> slots" where
  "slot_step maxFanOut s (Reserve k) = fst (reserveSubAgentSlot maxFanOut k s)"
| "slot_step maxFanOut s (Release k) = releaseSubAgentSlot k s"
| "slot_step maxFanOut s (Start k) = activate k s"
| "slot_step maxFanOut s (Stop k) = deactivate k s"

text \<open>A child starts under a call that holds a slot.\<close>

definition slot_ok :: "slots \<Rightarrow> slot_event \<Rightarrow> bool" where
  "slot_ok s e \<longleftrightarrow> (case e of Start k \<Rightarrow> k \<in> set (sl_reserved s) | _ \<Rightarrow> True)"

definition slot_inv :: "int \<Rightarrow> slots \<Rightarrow> bool" where
  "slot_inv maxFanOut s \<longleftrightarrow> distinct (sl_active s) \<and> distinct (sl_reserved s) \<and> (\<forall>p. int (sibling_count s p) \<le> max 0 maxFanOut)"

lemma count_insert: "length (filter f (List.insert k xs)) \<le> (if f k then 1 else 0) + length (filter f xs)"
  by (simp add: List.insert_def)

lemma count_removeAll: "distinct xs \<Longrightarrow> k \<in> set xs \<Longrightarrow> length (filter f (removeAll k xs)) + (if f k then 1 else 0) = length (filter f xs)"
proof -
  assume d: "distinct xs" and k: "k \<in> set xs"
  have "k \<in> set (filter f xs) \<Longrightarrow> length (filter f xs) > 0" by (rule length_pos_if_in_set)
  then show ?thesis
    using k by (auto simp: distinct_remove1_removeAll [OF d, symmetric] filter_remove1 length_remove1)
qed

lemma count_removeAll_le: "length (filter f (removeAll k xs)) \<le> length (filter f xs)"
  by (induction xs) auto

lemma slot_step_inv:
  assumes inv: "slot_inv maxFanOut s" and "slot_ok s e"
  shows "slot_inv maxFanOut (slot_step maxFanOut s e)"
proof (cases e)
  case (Reserve k)
  have "int (sibling_count (s\<lparr>sl_reserved := List.insert k (sl_reserved s)\<rparr>) p) \<le> max 0 maxFanOut" if "int (sibling_count s (fst k)) < maxFanOut" for p
    using inv count_insert [of "\<lambda>x. fst x = p" k "sl_reserved s"] that
    unfolding slot_inv_def sibling_count_def by (auto split: if_splits dest: spec [of _ p])
  then show ?thesis using inv by (auto simp: Reserve reserveSubAgentSlot_def slot_inv_def Let_def)
next
  case (Start k)
  then have k: "k \<in> set (sl_reserved s)" using assms(2) by (simp add: slot_ok_def)
  have "sibling_count (activate k s) p \<le> sibling_count s p" for p
    using inv count_insert [of "\<lambda>x. fst x = p" k "sl_active s"] count_removeAll [OF _ k, of "\<lambda>x. fst x = p"]
    unfolding slot_inv_def sibling_count_def activate_def releaseSubAgentSlot_def by (auto split: if_splits)
  then have "int (sibling_count (activate k s) p) \<le> max 0 maxFanOut" for p
    using inv unfolding slot_inv_def by (meson of_nat_le_iff order_trans)
  then show ?thesis using inv by (auto simp: Start slot_inv_def activate_def releaseSubAgentSlot_def distinct_removeAll)
next
  case (Release k)
  have "sibling_count (releaseSubAgentSlot k s) p \<le> sibling_count s p" for p
    using count_removeAll_le unfolding sibling_count_def releaseSubAgentSlot_def by simp
  then have "int (sibling_count (releaseSubAgentSlot k s) p) \<le> max 0 maxFanOut" for p
    using inv unfolding slot_inv_def by (meson of_nat_le_iff order_trans)
  then show ?thesis using inv by (auto simp: Release slot_inv_def releaseSubAgentSlot_def distinct_removeAll)
next
  case (Stop k)
  have "sibling_count (deactivate k s) p \<le> sibling_count s p" for p
    using count_removeAll_le unfolding sibling_count_def deactivate_def by simp
  then have "int (sibling_count (deactivate k s) p) \<le> max 0 maxFanOut" for p
    using inv unfolding slot_inv_def by (meson of_nat_le_iff order_trans)
  then show ?thesis using inv by (auto simp: Stop slot_inv_def deactivate_def distinct_removeAll)
qed

interpretation fan_out: guarded_machine "slot_step maxFanOut" slot_ok "slot_inv maxFanOut"
  by unfold_locales (rule slot_step_inv)

text \<open>
  From an empty table, whatever the order in which calls reserve, start, fail and finish, no session ever has more running and
  reserved children together than its limit.
\<close>

theorem fan_out_bounded:
  assumes "run_guarded slot_ok (slot_step maxFanOut) \<lparr>sl_active = [], sl_reserved = []\<rparr> es"
  shows "int (sibling_count (run_events (slot_step maxFanOut) \<lparr>sl_active = [], sl_reserved = []\<rparr> es) p) \<le> max 0 maxFanOut"
  using fan_out.inv_run [OF _ assms] by (simp add: slot_inv_def sibling_count_def)

text \<open>A refused call leaves the slots as they were.\<close>

lemma refused_keeps_slots:
  assumes "admitSubAgent fl tls depth dl fo k input s = (s', r)" and "\<And>q. r \<noteq> Admitted q" and "k \<notin> set (sl_reserved s)"
  shows "s' = s"
  using assms unfolding admitSubAgent_def Let_def
  by (auto simp: reserveSubAgentSlot_def releaseSubAgentSlot_def policy_fields exceeded_def Let_def List.insert_def split: option.splits json.splits if_splits)


end
