(* ===== verification/Host_Queue.thy ===== *)
theory Host_Queue
  imports Kala_Prelude
begin

text \<open>
  The queue of user messages of a session as it is kept in the session log, from \<open>packages/host/src/message-queue-store.ts\<close>:
  snapshots with their tombstones of cancelled operations, the checks on reading one back, and the limit on tombstones. A snapshot is
  the JSON value of a log entry. The validation of one content block belongs to the schema library and is an argument.
\<close>

section \<open>Data\<close>

datatype queue_mode = QSteer | QQueue

datatype shell_state = ShQueued | ShRunning | ShCompleted | ShNonzero | ShFailed

record queued_shell =
  qs_command :: string
  qs_state :: "shell_state option"
  qs_result :: "string option"

record QueuedUserMessage =
  qm_id :: string
  qm_operationId :: string
  qm_text :: string
  qm_mode :: queue_mode
  qm_createdAt :: string
  qm_content :: "json list option"
  qm_model :: "string option"
  qm_shell :: "queued_shell option"

record PersistedMessageQueueState =
  pq_items :: "QueuedUserMessage list"
  pq_cancelledOperationIds :: "string list"

datatype queue_error =
    UnsupportedSnapshot
  | TombstonesNotArray
  | TombstoneLimit
  | TombstoneNotString
  | TombstoneDuplicate string
  | InvalidShell

definition ACTION :: string where "ACTION = ''message_queue_snapshot''"
definition SCHEMA_VERSION :: int where "SCHEMA_VERSION = 3"
definition MAX_CANCELLED_OPERATION_IDS :: nat where "MAX_CANCELLED_OPERATION_IDS = 10000"

primrec mode_text :: "queue_mode \<Rightarrow> string" where
  "mode_text QSteer = ''steer''"
| "mode_text QQueue = ''queue''"

primrec shell_state_text :: "shell_state \<Rightarrow> string" where
  "shell_state_text ShQueued = ''queued''"
| "shell_state_text ShRunning = ''running''"
| "shell_state_text ShCompleted = ''completed''"
| "shell_state_text ShNonzero = ''nonzero''"
| "shell_state_text ShFailed = ''failed''"

section \<open>Writing\<close>

definition opt_field :: "string \<Rightarrow> json option \<Rightarrow> json_object" where
  "opt_field k v = (case v of None \<Rightarrow> [] | Some j \<Rightarrow> [(k, j)])"

definition shell_json :: "queued_shell \<Rightarrow> json" where
  "shell_json s = JObject ([(''command'', JString (qs_command s))]
     @ opt_field ''state'' (map_option (\<lambda>x. JString (shell_state_text x)) (qs_state s))
     @ opt_field ''result'' (map_option JString (qs_result s)))"

definition serializeQueuedMessage :: "QueuedUserMessage \<Rightarrow> json" where
  "serializeQueuedMessage item = JObject ([(''id'', JString (qm_id item)), (''operationId'', JString (qm_operationId item)), (''text'', JString (qm_text item)),
       (''mode'', JString (mode_text (qm_mode item))), (''createdAt'', JString (qm_createdAt item))]
     @ opt_field ''content'' (map_option JArray (qm_content item))
     @ opt_field ''model'' (map_option JString (truthy (qm_model item)))
     @ opt_field ''shell'' (map_option shell_json (qm_shell item)))"

text \<open>\<open>[...new Set(xs)]\<close>: the first occurrence of each element, in order.\<close>

fun unique_from :: "'a set \<Rightarrow> 'a list \<Rightarrow> 'a list" where
  "unique_from seen [] = []"
| "unique_from seen (x # xs) = (if x \<in> seen then unique_from seen xs else x # unique_from (insert x seen) xs)"

definition unique :: "'a list \<Rightarrow> 'a list" where
  "unique xs = unique_from {} xs"

type_synonym queue_log = "(string \<times> json_object) list"

text \<open>The runtime metadata of a session log: actions with their payloads, the latest last.\<close>

definition persistMessageQueueSnapshot :: "QueuedUserMessage list \<Rightarrow> string list \<Rightarrow> queue_log \<Rightarrow> queue_error + queue_log" where
  "persistMessageQueueSnapshot items cancelledOperationIds log =
     (let uniqueCancelledOperationIds = unique cancelledOperationIds
      in if length uniqueCancelledOperationIds > MAX_CANCELLED_OPERATION_IDS then Inl TombstoneLimit
         else Inr (log @ [(ACTION, [(''schemaVersion'', JNumber (Integer SCHEMA_VERSION)), (''items'', JArray (map serializeQueuedMessage items)),
                                    (''cancelledOperationIds'', JArray (map JString uniqueCancelledOperationIds))])]))"

section \<open>Reading\<close>

definition stringValue :: "json option \<Rightarrow> string option" where
  "stringValue v = (case v of Some (JString t) \<Rightarrow> truthy (Some t) | _ \<Rightarrow> None)"

definition read_state :: "json option \<Rightarrow> shell_state option option" where
  "read_state v =
     (case v of
        None \<Rightarrow> Some None
      | Some (JString t) \<Rightarrow> map_option Some (find (\<lambda>s. shell_state_text s = t) [ShQueued, ShRunning, ShCompleted, ShNonzero, ShFailed])
      | Some _ \<Rightarrow> None)"

definition normalizeShell :: "json option \<Rightarrow> queue_error + queued_shell option" where
  "normalizeShell raw =
     (case raw of
        None \<Rightarrow> Inr None
      | Some (JObject value) \<Rightarrow>
          (case (stringValue (map_of value ''command''), read_state (map_of value ''state''), map_of value ''result'') of
             (Some command, Some state, None) \<Rightarrow> Inr (Some \<lparr>qs_command = command, qs_state = state, qs_result = None\<rparr>)
           | (Some command, Some state, Some (JString r)) \<Rightarrow> Inr (Some \<lparr>qs_command = command, qs_state = state, qs_result = Some r\<rparr>)
           | _ \<Rightarrow> Inl InvalidShell)
      | Some _ \<Rightarrow> Inl InvalidShell)"

text \<open>\<open>safeParse\<close> of an array, with the validation of its elements as an argument.\<close>

fun parse_all :: "(json \<Rightarrow> json option) \<Rightarrow> json list \<Rightarrow> json list option" where
  "parse_all check [] = Some []"
| "parse_all check (x # xs) = (case (check x, parse_all check xs) of (Some y, Some ys) \<Rightarrow> Some (y # ys) | _ \<Rightarrow> None)"

definition parse_content :: "(json \<Rightarrow> json option) \<Rightarrow> json option \<Rightarrow> json list option" where
  "parse_content check v = (case v of None \<Rightarrow> Some [] | Some JNull \<Rightarrow> Some [] | Some (JArray xs) \<Rightarrow> parse_all check xs | Some _ \<Rightarrow> None)"

definition read_mode :: "json option \<Rightarrow> queue_mode option" where
  "read_mode v = (case v of Some (JString t) \<Rightarrow> find (\<lambda>m. mode_text m = t) [QQueue, QSteer] | _ \<Rightarrow> None)"

definition read_text :: "json option \<Rightarrow> string option" where
  "read_text v = (case v of Some (JString t) \<Rightarrow> Some t | _ \<Rightarrow> None)"

text \<open>An item that cannot be read is dropped; only an invalid shell part is an error.\<close>

definition normalizeQueuedMessage :: "(json \<Rightarrow> json option) \<Rightarrow> json \<Rightarrow> queue_error + QueuedUserMessage option" where
  "normalizeQueuedMessage check raw =
     (case raw of
        JObject r \<Rightarrow>
          (let get = map_of r
           in case normalizeShell (get ''shell'') of
                Inl e \<Rightarrow> Inl e
              | Inr shell \<Rightarrow>
                  (case (stringValue (get ''id''), read_text (get ''text''), stringValue (get ''createdAt''), read_mode (get ''mode''), parse_content check (get ''content'')) of
                     (Some i, Some t, Some createdAt, Some mode, Some content) \<Rightarrow>
                       if trim t = [] \<and> content = [] then Inr None
                       else Inr (Some \<lparr>qm_id = i, qm_operationId = coalesce (stringValue (get ''operationId'')) i, qm_text = t, qm_mode = mode, qm_createdAt = createdAt,
                              qm_content = (if content = [] then None else Some content),
                              qm_model = (case read_text (get ''model'') of Some mo \<Rightarrow> if trim mo = [] then None else Some mo | None \<Rightarrow> None),
                              qm_shell = shell\<rparr>)
                   | _ \<Rightarrow> Inr None))
      | _ \<Rightarrow> Inr None)"

fun normalize_items :: "(json \<Rightarrow> json option) \<Rightarrow> json list \<Rightarrow> queue_error + QueuedUserMessage list" where
  "normalize_items check [] = Inr []"
| "normalize_items check (x # xs) =
     (case normalizeQueuedMessage check x of
        Inl e \<Rightarrow> Inl e
      | Inr item \<Rightarrow>
          (case normalize_items check xs of
             Inl e \<Rightarrow> Inl e
           | Inr out \<Rightarrow> Inr (case item of None \<Rightarrow> out | Some i \<Rightarrow> i # out)))"

fun tombstones :: "string set \<Rightarrow> json list \<Rightarrow> queue_error + string list" where
  "tombstones seen [] = Inr []"
| "tombstones seen (v # vs) =
     (case stringValue (Some v) of
        None \<Rightarrow> Inl TombstoneNotString
      | Some t \<Rightarrow> if t \<in> seen then Inl (TombstoneDuplicate t) else map_sum id ((#) t) (tombstones (insert t seen) vs))"

definition normalizeCancelledOperationIds :: "json option \<Rightarrow> queue_error + string list" where
  "normalizeCancelledOperationIds raw =
     (case raw of
        Some (JArray vs) \<Rightarrow> if length vs > MAX_CANCELLED_OPERATION_IDS then Inl TombstoneLimit else tombstones {} vs
      | _ \<Rightarrow> Inl TombstonesNotArray)"

definition normalizeQueueSnapshot :: "(json \<Rightarrow> json option) \<Rightarrow> json_object \<Rightarrow> queue_error + PersistedMessageQueueState" where
  "normalizeQueueSnapshot check payload =
     (case (map_of payload ''schemaVersion'', map_of payload ''items'') of
        (Some (JNumber (Integer v)), Some (JArray items)) \<Rightarrow>
          if v = 1 \<or> v = 2 \<or> v = SCHEMA_VERSION then
            (case normalize_items check items of
               Inl e \<Rightarrow> Inl e
             | Inr out \<Rightarrow>
                 (case (if v = 2 \<or> v = SCHEMA_VERSION then normalizeCancelledOperationIds (map_of payload ''cancelledOperationIds'') else Inr []) of
                    Inl e \<Rightarrow> Inl e
                  | Inr ids \<Rightarrow> Inr \<lparr>pq_items = filter (\<lambda>item. qm_operationId item \<notin> set ids) out, pq_cancelledOperationIds = ids\<rparr>))
          else Inl UnsupportedSnapshot
      | _ \<Rightarrow> Inl UnsupportedSnapshot)"

text \<open>The latest snapshot among the entries that the scan of the log sees.\<close>

definition loadPersistedMessageQueueState :: "(json \<Rightarrow> json option) \<Rightarrow> queue_log \<Rightarrow> queue_error + PersistedMessageQueueState" where
  "loadPersistedMessageQueueState check log =
     (case find (\<lambda>e. fst e = ACTION) (rev log) of
        None \<Rightarrow> Inr \<lparr>pq_items = [], pq_cancelledOperationIds = []\<rparr>
      | Some e \<Rightarrow> normalizeQueueSnapshot check (snd e))"

section \<open>What is loaded\<close>

text \<open>An item as the readers deliver it and the writers expect it.\<close>

definition queue_item_ok :: "(json \<Rightarrow> json option) \<Rightarrow> QueuedUserMessage \<Rightarrow> bool" where
  "queue_item_ok check i \<longleftrightarrow>
     qm_id i \<noteq> [] \<and> qm_operationId i \<noteq> [] \<and> qm_createdAt i \<noteq> [] \<and> (trim (qm_text i) \<noteq> [] \<or> qm_content i \<noteq> None) \<and>
     (case qm_content i of None \<Rightarrow> True | Some c \<Rightarrow> c \<noteq> [] \<and> parse_all check c = Some c) \<and>
     (case qm_model i of None \<Rightarrow> True | Some m \<Rightarrow> trim m \<noteq> []) \<and>
     (case qm_shell i of None \<Rightarrow> True | Some s \<Rightarrow> qs_command s \<noteq> [])"

lemma unique_from_set: "set (unique_from seen xs) = set xs - seen"
  by (induction xs arbitrary: seen) auto

lemma unique_from_distinct: "distinct (unique_from seen xs)"
  by (induction xs arbitrary: seen) (auto simp: unique_from_set)

lemma unique_set [simp]: "set (unique xs) = set xs" and unique_distinct [simp]: "distinct (unique xs)"
  by (simp_all add: unique_def unique_from_set unique_from_distinct)

lemma tombstones_strings:
  "distinct ids \<Longrightarrow> set ids \<inter> seen = {} \<Longrightarrow> [] \<notin> set ids \<Longrightarrow> tombstones seen (map JString ids) = Inr ids"
  by (induction ids arbitrary: seen) (auto simp: stringValue_def)

lemma map_sum_Inr_iff: "map_sum f g x = Inr y \<longleftrightarrow> (\<exists>z. x = Inr z \<and> y = g z)"
  by (cases x) auto

lemma tombstones_sound:
  "tombstones seen vs = Inr ids \<Longrightarrow> distinct ids \<and> set ids \<inter> seen = {} \<and> length ids = length vs \<and> [] \<notin> set ids"
proof (induction vs arbitrary: seen ids)
  case (Cons v vs)
  then obtain t rest where "stringValue (Some v) = Some t" "t \<notin> seen" "tombstones (insert t seen) vs = Inr rest" "ids = t # rest"
    by (auto simp: map_sum_Inr_iff split: option.splits if_splits)
  moreover from this(1) have "t \<noteq> []" by (auto simp: stringValue_def split: json.splits if_splits)
  ultimately show ?case using Cons.IH by fastforce
qed simp

lemma parse_all_length: "parse_all check xs = Some ys \<Longrightarrow> length ys = length xs"
  by (induction xs arbitrary: ys) (auto split: option.splits)

text \<open>The fields of an item survive the trip through its JSON form.\<close>

lemma mode_read [simp]: "read_mode (Some (JString (mode_text m))) = Some m"
  by (cases m) (simp_all add: read_mode_def)

lemma shell_state_read [simp]: "read_state (Some (JString (shell_state_text x))) = Some (Some x)"
  by (cases x) (simp_all add: read_state_def)

lemma shell_read: "qs_command s \<noteq> [] \<Longrightarrow> normalizeShell (Some (shell_json s)) = Inr (Some s)"
  by (cases "qs_state s"; cases "qs_result s")
    (simp_all add: normalizeShell_def shell_json_def opt_field_def stringValue_def read_state_def [of None])

lemma item_fields:
  fixes i
  defines "r \<equiv> [(''id'', JString (qm_id i)), (''operationId'', JString (qm_operationId i)), (''text'', JString (qm_text i)),
       (''mode'', JString (mode_text (qm_mode i))), (''createdAt'', JString (qm_createdAt i))]
     @ opt_field ''content'' (map_option JArray (qm_content i))
     @ opt_field ''model'' (map_option JString (truthy (qm_model i)))
     @ opt_field ''shell'' (map_option shell_json (qm_shell i))"
  shows "map_of r ''id'' = Some (JString (qm_id i))" "map_of r ''operationId'' = Some (JString (qm_operationId i))" "map_of r ''text'' = Some (JString (qm_text i))"
    "map_of r ''mode'' = Some (JString (mode_text (qm_mode i)))" "map_of r ''createdAt'' = Some (JString (qm_createdAt i))"
    "map_of r ''content'' = map_option JArray (qm_content i)" "map_of r ''model'' = map_option JString (truthy (qm_model i))"
    "map_of r ''shell'' = map_option shell_json (qm_shell i)"
  unfolding r_def opt_field_def by (simp_all add: map_add_def split: option.splits)

lemma item_read:
  assumes "queue_item_ok check i"
  shows "normalizeQueuedMessage check (serializeQueuedMessage i) = Inr (Some i)"
proof -
  have shell: "normalizeShell (map_option shell_json (qm_shell i)) = Inr (qm_shell i)"
    using assms by (cases "qm_shell i") (simp_all add: queue_item_ok_def shell_read normalizeShell_def [of None])
  have content: "parse_content check (map_option JArray (qm_content i)) = Some (coalesce (qm_content i) [])"
    using assms by (cases "qm_content i") (simp_all add: queue_item_ok_def parse_content_def)
  have some: "qm_content i = Some c \<Longrightarrow> c \<noteq> []" for c using assms by (auto simp: queue_item_ok_def)
  have model: "(case read_text (map_option JString (truthy (qm_model i))) of Some mo \<Rightarrow> if trim mo = [] then None else Some mo | None \<Rightarrow> None) = qm_model i"
    using assms by (cases "qm_model i") (auto simp: queue_item_ok_def read_text_def)
  show ?thesis
    unfolding normalizeQueuedMessage_def serializeQueuedMessage_def json.case Let_def item_fields shell content model
    using assms some by (cases "qm_content i") (auto simp: queue_item_ok_def stringValue_def read_text_def)
qed

lemma items_read: "list_all (queue_item_ok check) items \<Longrightarrow> normalize_items check (map serializeQueuedMessage items) = Inr items"
  by (induction items) (simp_all add: item_read)

lemma load_persisted:
  assumes "list_all (queue_item_ok check) items" and "[] \<notin> set cancelled"
    and "persistMessageQueueSnapshot items cancelled log = Inr log'" and "list_all (\<lambda>e. fst e \<noteq> ACTION) others"
  shows "loadPersistedMessageQueueState check (log' @ others) =
    Inr \<lparr>pq_items = filter (\<lambda>i. qm_operationId i \<notin> set cancelled) items, pq_cancelledOperationIds = unique cancelled\<rparr>"
proof -
  have len: "length (unique cancelled) \<le> MAX_CANCELLED_OPERATION_IDS"
    and log': "log' = log @ [(ACTION, [(''schemaVersion'', JNumber (Integer SCHEMA_VERSION)), (''items'', JArray (map serializeQueuedMessage items)),
                                    (''cancelledOperationIds'', JArray (map JString (unique cancelled)))])]"
    using assms(3) unfolding persistMessageQueueSnapshot_def Let_def by (auto split: if_splits)
  have "find (\<lambda>e. fst e = ACTION) (rev (log' @ others)) = Some (last log')"
    using assms(4) unfolding log' by (induction others rule: rev_induct) auto
  moreover have "tombstones {} (map JString (unique cancelled)) = Inr (unique cancelled)"
    using assms(2) by (intro tombstones_strings) auto
  ultimately show ?thesis
    using len items_read [OF assms(1)]
    by (simp add: loadPersistedMessageQueueState_def log' normalizeQueueSnapshot_def SCHEMA_VERSION_def normalizeCancelledOperationIds_def)
qed

text \<open>
  What is written is what is read: after a snapshot of a queue of well-formed items is persisted, and whatever other entries
  follow it in the log, loading returns the items in order less those whose operation is cancelled, and the cancelled operations
  without repetitions.
\<close>

theorem queue_snapshot_roundtrip:
  assumes "list_all (queue_item_ok check) items" and "[] \<notin> set cancelled"
    and "persistMessageQueueSnapshot items cancelled log = Inr log'" and "list_all (\<lambda>e. fst e \<noteq> ACTION) others"
  shows "loadPersistedMessageQueueState check (log' @ others) =
    Inr \<lparr>pq_items = filter (\<lambda>i. qm_operationId i \<notin> set cancelled) items, pq_cancelledOperationIds = unique cancelled\<rparr>"
  using assms by (rule load_persisted)

text \<open>Items that were read are well formed.\<close>

lemma stringValue_Some: "stringValue v = Some t \<Longrightarrow> t \<noteq> []"
  by (auto simp: stringValue_def split: option.splits json.splits if_splits)

lemma shell_command: "normalizeShell v = Inr (Some s) \<Longrightarrow> qs_command s \<noteq> []"
  by (auto simp: normalizeShell_def dest: stringValue_Some split: option.splits json.splits)

definition check_stable :: "(json \<Rightarrow> json option) \<Rightarrow> bool" where
  "check_stable check \<longleftrightarrow> (\<forall>x y. check x = Some y \<longrightarrow> check y = Some y)"

lemma parse_all_stable: "check_stable check \<Longrightarrow> parse_all check xs = Some ys \<Longrightarrow> parse_all check ys = Some ys"
  by (induction xs arbitrary: ys) (auto simp: check_stable_def split: option.splits)

lemma parse_content_stable: "check_stable check \<Longrightarrow> parse_content check v = Some c \<Longrightarrow> parse_all check c = Some c"
  by (auto simp: parse_content_def parse_all_stable split: option.splits json.splits)

lemma item_sound:
  assumes "check_stable check" and "normalizeQueuedMessage check x = Inr (Some i)"
  shows "queue_item_ok check i"
proof -
  obtain r where x: "x = JObject r" using assms(2) by (cases x) (auto simp: normalizeQueuedMessage_def)
  define get where "get = map_of r"
  obtain sh n t ca mo c where parts: "normalizeShell (get ''shell'') = Inr sh" "stringValue (get ''id'') = Some n" "read_text (get ''text'') = Some t"
      "stringValue (get ''createdAt'') = Some ca" "read_mode (get ''mode'') = Some mo" "parse_content check (get ''content'') = Some c"
    and "\<not> (trim t = [] \<and> c = [])"
    and i: "i = \<lparr>qm_id = n, qm_operationId = coalesce (stringValue (get ''operationId'')) n, qm_text = t, qm_mode = mo, qm_createdAt = ca,
               qm_content = (if c = [] then None else Some c),
               qm_model = (case read_text (get ''model'') of Some mo \<Rightarrow> if trim mo = [] then None else Some mo | None \<Rightarrow> None), qm_shell = sh\<rparr>"
    using assms(2) unfolding x normalizeQueuedMessage_def json.case Let_def get_def [symmetric]
    by (auto split: sum.splits option.splits if_splits)
  moreover have "coalesce (stringValue (get ''operationId'')) n \<noteq> []"
    using stringValue_Some parts(2) by (cases "stringValue (get ''operationId'')") auto
  ultimately show ?thesis
    using stringValue_Some [OF parts(2)] stringValue_Some [OF parts(4)] parse_content_stable [OF assms(1) parts(6)] shell_command [of "get ''shell''"]
    unfolding queue_item_ok_def by (auto split: option.splits)
qed

lemma items_sound: "check_stable check \<Longrightarrow> normalize_items check xs = Inr items \<Longrightarrow> list_all (queue_item_ok check) items"
  by (induction xs arbitrary: items) (auto split: sum.splits option.splits intro: item_sound)

lemma unique_from_id: "distinct xs \<Longrightarrow> set xs \<inter> seen = {} \<Longrightarrow> unique_from seen xs = xs"
  by (induction xs arbitrary: seen) auto

lemma unique_id: "distinct xs \<Longrightarrow> unique xs = xs"
  by (simp add: unique_def unique_from_id)

definition queue_state_ok :: "(json \<Rightarrow> json option) \<Rightarrow> PersistedMessageQueueState \<Rightarrow> bool" where
  "queue_state_ok check st \<longleftrightarrow>
     list_all (queue_item_ok check) (pq_items st) \<and> distinct (pq_cancelledOperationIds st) \<and> [] \<notin> set (pq_cancelledOperationIds st) \<and>
     length (pq_cancelledOperationIds st) \<le> MAX_CANCELLED_OPERATION_IDS \<and>
     list_all (\<lambda>i. qm_operationId i \<notin> set (pq_cancelledOperationIds st)) (pq_items st)"

lemma load_sound:
  assumes "check_stable check" and "loadPersistedMessageQueueState check log = Inr st"
  shows "queue_state_ok check st"
proof (cases "find (\<lambda>e. fst e = ACTION) (rev log)")
  case None
  then show ?thesis using assms(2) by (auto simp: loadPersistedMessageQueueState_def queue_state_ok_def)
next
  case (Some e)
  then obtain items out ids where "normalize_items check items = Inr out"
    and ids: "normalizeCancelledOperationIds (map_of (snd e) ''cancelledOperationIds'') = Inr ids \<or> ids = []"
    and st: "st = \<lparr>pq_items = filter (\<lambda>item. qm_operationId item \<notin> set ids) out, pq_cancelledOperationIds = ids\<rparr>"
    using assms(2) unfolding loadPersistedMessageQueueState_def normalizeQueueSnapshot_def
    by (auto split: option.splits json.splits js_number.splits if_splits sum.splits)
  moreover from ids have "distinct ids \<and> [] \<notin> set ids \<and> length ids \<le> MAX_CANCELLED_OPERATION_IDS"
    unfolding normalizeCancelledOperationIds_def
    by (auto split: option.splits json.splits if_splits dest!: tombstones_sound)
  ultimately show ?thesis
    using items_sound [OF assms(1)] by (auto simp: queue_state_ok_def list_all_iff)
qed

text \<open>
  C35: Whatever the log holds, a queue that loads has well-formed items only, none of them cancelled, and at most the allowed number
  of distinct tombstones; and it is stable: it can be persisted again, and loading that snapshot returns the same queue. So a
  cancelled message never comes back, however often the host restarts.
\<close>

theorem queue_load_stable:
  assumes "check_stable check" and "loadPersistedMessageQueueState check log = Inr st"
  shows "queue_state_ok check st
    \<and> (\<exists>log'. persistMessageQueueSnapshot (pq_items st) (pq_cancelledOperationIds st) log = Inr log' \<and> loadPersistedMessageQueueState check log' = Inr st)"
proof -
  have ok: "queue_state_ok check st" by (rule load_sound [OF assms])
  then obtain log' where p: "persistMessageQueueSnapshot (pq_items st) (pq_cancelledOperationIds st) log = Inr log'"
    by (auto simp: persistMessageQueueSnapshot_def queue_state_ok_def unique_id)
  have "filter (\<lambda>i. qm_operationId i \<notin> set (pq_cancelledOperationIds st)) (pq_items st) = pq_items st"
    using ok by (auto simp: queue_state_ok_def list_all_iff intro: filter_True)
  then have "loadPersistedMessageQueueState check (log' @ []) = Inr st"
    using ok load_persisted [OF _ _ p, of check "[]"] by (simp add: queue_state_ok_def unique_id)
  with ok p show ?thesis by auto
qed

definition sample_item :: "string \<Rightarrow> QueuedUserMessage" where
  "sample_item n = \<lparr>qm_id = n, qm_operationId = n, qm_text = ''hi'', qm_mode = QSteer, qm_createdAt = ''t'', qm_content = None, qm_model = Some ''m'',
     qm_shell = Some \<lparr>qs_command = ''ls'', qs_state = Some ShRunning, qs_result = None\<rparr>\<rparr>"

definition sample_log :: queue_log where
  "sample_log = [(ACTION, [(''schemaVersion'', JNumber (Integer 3)), (''items'', JArray [serializeQueuedMessage (sample_item ''a''), serializeQueuedMessage (sample_item ''b''), JNull]),
     (''cancelledOperationIds'', JArray [JString ''a''])])]"

lemma sample_persisted:
  "persistMessageQueueSnapshot [sample_item ''a'', sample_item ''b''] [''a'', ''a''] [] =
   Inr [(ACTION, [(''schemaVersion'', JNumber (Integer 3)), (''items'', JArray [serializeQueuedMessage (sample_item ''a''), serializeQueuedMessage (sample_item ''b'')]),
     (''cancelledOperationIds'', JArray [JString ''a''])])]"
  by (simp add: persistMessageQueueSnapshot_def unique_def MAX_CANCELLED_OPERATION_IDS_def SCHEMA_VERSION_def)

lemma sample_items_ok: "list_all (queue_item_ok Some) [sample_item ''a'', sample_item ''b'']"
  by (simp add: queue_item_ok_def sample_item_def trim_def js_space_def)

theorem queue_snapshot_roundtrip_witness:
  "loadPersistedMessageQueueState Some ([(ACTION, [(''schemaVersion'', JNumber (Integer 3)), (''items'', JArray [serializeQueuedMessage (sample_item ''a''), serializeQueuedMessage (sample_item ''b'')]),
     (''cancelledOperationIds'', JArray [JString ''a''])])] @ [(''other'', [])]) = Inr \<lparr>pq_items = [sample_item ''b''], pq_cancelledOperationIds = [''a'']\<rparr>"
  using queue_snapshot_roundtrip [OF sample_items_ok _ sample_persisted, of "[(''other'', [])]"]
  by (simp add: ACTION_def unique_def sample_item_def)

theorem queue_load_stable_witness:
  "loadPersistedMessageQueueState Some sample_log = Inr \<lparr>pq_items = [sample_item ''b''], pq_cancelledOperationIds = [''a'']\<rparr>
   \<and> queue_state_ok Some \<lparr>pq_items = [sample_item ''b''], pq_cancelledOperationIds = [''a'']\<rparr>"
proof -
  have l: "loadPersistedMessageQueueState Some sample_log = Inr \<lparr>pq_items = [sample_item ''b''], pq_cancelledOperationIds = [''a'']\<rparr>"
    using sample_items_ok
    by (simp add: loadPersistedMessageQueueState_def sample_log_def normalizeQueueSnapshot_def item_read normalizeQueuedMessage_def [of _ JNull]
      normalizeCancelledOperationIds_def MAX_CANCELLED_OPERATION_IDS_def SCHEMA_VERSION_def stringValue_def) (simp add: sample_item_def)
  then show ?thesis using queue_load_stable [OF _ l] by (simp add: check_stable_def)
qed


end
