(* ===== verification/Tenant_Ledger.thy ===== *)
theory Tenant_Ledger
  imports Kala_Machines
begin

text \<open>
  The admission ledger of a dedicated runtime, from \<open>packages/host/src/tenant-runtime/dedicated-admission-ledger.ts\<close>: messages are
  accepted with a sequence number, leased to one worker at a time in the order of their session, and settled as committed or failed.
  The ledger is a file that every operation reads, validates and rewrites; the operations run one at a time. Times are milliseconds,
  read from the clock by the caller. The digest of a message is an argument. A stored date is
  either absent or a time: a text that is no date does not occur.
\<close>

section \<open>Data\<close>

datatype admission_mode = AQueue | ASteer
datatype admission_intent = AText | AShell

record AdmissionMessage =
  ad_principalDigest :: string
  ad_sessionId :: string
  ad_operationId :: string
  ad_mode :: admission_mode
  ad_intent :: admission_intent
  ad_text :: string
  ad_content :: "json list option"

datatype admission_state = LPending | LLeased | LCommitted | LFailed | LExpired

record AdmissionRecord =
  lr_message :: AdmissionMessage
  lr_sequence :: int
  lr_bodyDigest :: string
  lr_acceptedAt :: int
  lr_state :: admission_state
  lr_routeGeneration :: int
  lr_leaseGeneration :: "int option"
  lr_leaseOwner :: "string option"
  lr_leaseExpiresAt :: "int option"
  lr_committedAt :: "int option"
  lr_failedAt :: "int option"
  lr_sessionCursor :: "int option"
  lr_attempts :: "int option"
  lr_lastAttemptAt :: "int option"
  lr_error :: "string option"

abbreviation lr_operationId :: "AdmissionRecord \<Rightarrow> string" where "lr_operationId r \<equiv> ad_operationId (lr_message r)"
abbreviation lr_sessionId :: "AdmissionRecord \<Rightarrow> string" where "lr_sessionId r \<equiv> ad_sessionId (lr_message r)"

record LedgerState =
  ls_revision :: int
  ls_nextSequence :: int
  ls_capacity :: int
  ls_records :: "AdmissionRecord list"

datatype ledger_error =
    InvalidGeneration | InvalidMessage | OperationConflict | Backpressure | InvalidLeaseRequest | NotFound | StaleLease | InvalidCursor
  | InvalidLedger | InvalidRecord | InvalidLease | RetainsLease | LacksCommitTime | LacksFailureTime | LacksReceiptTime
  | ConflictingEvidence | CommittedWithFailure | FailedWithCommit | UncommittedEvidence | FailedWithCursor | InvalidNextSequence

definition MAX_SAFE_INTEGER :: int where "MAX_SAFE_INTEGER = 9007199254740991"

definition safe_int :: "int \<Rightarrow> bool" where
  "safe_int n \<longleftrightarrow> - MAX_SAFE_INTEGER \<le> n \<and> n \<le> MAX_SAFE_INTEGER"

text \<open>\<open>/^[a-f0-9]{64}$/\<close>.\<close>

definition hex64 :: "string \<Rightarrow> bool" where
  "hex64 s \<longleftrightarrow> length s = 64 \<and> list_all (\<lambda>c. is_digit c \<or> c \<in> set ''abcdef'') s"

section \<open>Validation\<close>

definition parseAdmissionMessage :: "AdmissionMessage \<Rightarrow> ledger_error + AdmissionMessage" where
  "parseAdmissionMessage m =
     (if \<not> hex64 (ad_principalDigest m)
         \<or> length (ad_sessionId m) < 1 \<or> length (ad_sessionId m) > 200
         \<or> length (ad_operationId m) < 1 \<or> length (ad_operationId m) > 128
         \<or> (trim (ad_text m) = [] \<and> (case ad_content m of None \<Rightarrow> True | Some c \<Rightarrow> c = []))
      then Inl InvalidMessage else Inr m)"

text \<open>The checks on one record, in the order of the source; the result is the error of the first that fails.\<close>

definition evidence_error :: "AdmissionRecord \<Rightarrow> ledger_error option" where
  "evidence_error r =
     (let active = (lr_state r = LPending \<or> lr_state r = LLeased)
      in if lr_state r = LLeased \<and> (truthy (lr_leaseOwner r) = None \<or> (case lr_leaseGeneration r of None \<Rightarrow> True | Some g \<Rightarrow> \<not> safe_int g) \<or> lr_leaseExpiresAt r = None)
         then Some InvalidLease
         else if lr_state r \<noteq> LLeased \<and> (lr_leaseOwner r \<noteq> None \<or> lr_leaseGeneration r \<noteq> None \<or> lr_leaseExpiresAt r \<noteq> None) then Some RetainsLease
         else if lr_state r = LCommitted \<and> lr_committedAt r = None then Some LacksCommitTime
         else if lr_state r = LFailed \<and> lr_failedAt r = None then Some LacksFailureTime
         else if lr_state r = LExpired \<and> lr_committedAt r = None \<and> lr_failedAt r = None then Some LacksReceiptTime
         else if lr_committedAt r \<noteq> None \<and> lr_failedAt r \<noteq> None then Some ConflictingEvidence
         else if lr_state r = LCommitted \<and> lr_failedAt r \<noteq> None then Some CommittedWithFailure
         else if lr_state r = LFailed \<and> lr_committedAt r \<noteq> None then Some FailedWithCommit
         else if active \<and> (lr_committedAt r \<noteq> None \<or> lr_failedAt r \<noteq> None \<or> lr_sessionCursor r \<noteq> None) then Some UncommittedEvidence
         else if (lr_state r = LFailed \<or> (lr_state r = LExpired \<and> lr_failedAt r \<noteq> None)) \<and> lr_sessionCursor r \<noteq> None then Some FailedWithCursor
         else None)"

definition record_error :: "int \<Rightarrow> string set \<Rightarrow> AdmissionRecord \<Rightarrow> ledger_error option" where
  "record_error previousSequence operationIds r =
     (if \<not> hex64 (ad_principalDigest (lr_message r)) \<or> \<not> hex64 (lr_bodyDigest r) \<or> \<not> safe_int (lr_sequence r)
         \<or> lr_sequence r \<le> previousSequence \<or> lr_operationId r \<in> operationIds
         \<or> (case lr_attempts r of None \<Rightarrow> False | Some n \<Rightarrow> \<not> safe_int n \<or> n < 0)
      then Some InvalidRecord else evidence_error r)"

text \<open>The loop over the records, returning the last sequence number.\<close>

fun parse_records :: "int \<Rightarrow> string set \<Rightarrow> AdmissionRecord list \<Rightarrow> ledger_error + int" where
  "parse_records previousSequence operationIds [] = Inr previousSequence"
| "parse_records previousSequence operationIds (r # rs) =
     (case record_error previousSequence operationIds r of
        Some e \<Rightarrow> Inl e
      | None \<Rightarrow> parse_records (lr_sequence r) (insert (lr_operationId r) operationIds) rs)"

definition parseLedgerState :: "LedgerState \<Rightarrow> ledger_error + LedgerState" where
  "parseLedgerState st =
     (if \<not> safe_int (ls_revision st) \<or> ls_revision st < 0 \<or> \<not> safe_int (ls_nextSequence st) \<or> ls_nextSequence st < 1
         \<or> \<not> safe_int (ls_capacity st) \<or> ls_capacity st < 1
      then Inl InvalidLedger
      else (case parse_records 0 {} (ls_records st) of
              Inl e \<Rightarrow> Inl e
            | Inr previousSequence \<Rightarrow> if ls_nextSequence st \<le> previousSequence then Inl InvalidNextSequence else Inr st))"

section \<open>Operations\<close>

text \<open>An operation fails, or returns a value and the file it leaves behind. The file is absent before the first write.\<close>

type_synonym 'a ledger_result = "ledger_error + 'a \<times> LedgerState option"

definition read_ledger :: "int \<Rightarrow> LedgerState option \<Rightarrow> ledger_error + LedgerState" where
  "read_ledger capacity disk =
     (case disk of
        None \<Rightarrow> Inr \<lparr>ls_revision = 0, ls_nextSequence = 1, ls_capacity = capacity, ls_records = []\<rparr>
      | Some st \<Rightarrow> parseLedgerState st)"

definition persist :: "LedgerState \<Rightarrow> LedgerState" where
  "persist st = st\<lparr>ls_revision := ls_revision st + 1\<rparr>"

definition expire_record :: "int \<Rightarrow> AdmissionRecord \<Rightarrow> AdmissionRecord" where
  "expire_record cutoff r =
     (if lr_state r = LCommitted \<and> coalesce (lr_committedAt r) (lr_acceptedAt r) < cutoff then r\<lparr>lr_state := LExpired\<rparr>
      else if lr_state r = LFailed \<and> coalesce (lr_failedAt r) (lr_acceptedAt r) < cutoff then r\<lparr>lr_state := LExpired\<rparr>
      else r)"

definition expireTerminal :: "int \<Rightarrow> int \<Rightarrow> LedgerState \<Rightarrow> LedgerState" where
  "expireTerminal now retentionMs st = st\<lparr>ls_records := map (expire_record (now - retentionMs)) (ls_records st)\<rparr>"

definition is_active :: "AdmissionRecord \<Rightarrow> bool" where
  "is_active r \<longleftrightarrow> lr_state r = LPending \<or> lr_state r = LLeased"

definition new_record :: "AdmissionMessage \<Rightarrow> int \<Rightarrow> string \<Rightarrow> int \<Rightarrow> int \<Rightarrow> AdmissionRecord" where
  "new_record m sequence bodyDigest now routeGeneration =
     \<lparr>lr_message = m, lr_sequence = sequence, lr_bodyDigest = bodyDigest, lr_acceptedAt = now, lr_state = LPending, lr_routeGeneration = routeGeneration,
      lr_leaseGeneration = None, lr_leaseOwner = None, lr_leaseExpiresAt = None, lr_committedAt = None, lr_failedAt = None, lr_sessionCursor = None,
      lr_attempts = None, lr_lastAttemptAt = None, lr_error = None\<rparr>"

definition ledger_append :: "(AdmissionMessage \<Rightarrow> string) \<Rightarrow> int \<Rightarrow> int \<Rightarrow> int \<Rightarrow> AdmissionMessage \<Rightarrow> int \<Rightarrow> LedgerState option \<Rightarrow> (AdmissionRecord \<times> bool) ledger_result" where
  "ledger_append digest capacity retentionMs now message routeGeneration disk =
     (if \<not> safe_int routeGeneration \<or> routeGeneration < 0 then Inl InvalidGeneration
      else case parseAdmissionMessage message of
        Inl e \<Rightarrow> Inl e
      | Inr normalized \<Rightarrow>
          (case read_ledger capacity disk of
             Inl e \<Rightarrow> Inl e
           | Inr st0 \<Rightarrow>
               (let st = expireTerminal now retentionMs st0; bodyDigest = digest normalized
                in case find (\<lambda>r. lr_operationId r = ad_operationId normalized) (ls_records st) of
                     Some existing \<Rightarrow> if lr_bodyDigest existing \<noteq> bodyDigest then Inl OperationConflict else Inr ((existing, True), disk)
                   | None \<Rightarrow>
                       if int (length (filter is_active (ls_records st))) \<ge> ls_capacity st then Inl Backpressure
                       else (let r = new_record normalized (ls_nextSequence st) bodyDigest now routeGeneration
                             in Inr ((r, False), Some (persist (st\<lparr>ls_nextSequence := ls_nextSequence st + 1, ls_records := ls_records st @ [r]\<rparr>)))))))"

definition drop_lease :: "AdmissionRecord \<Rightarrow> AdmissionRecord" where
  "drop_lease r = r\<lparr>lr_leaseOwner := None, lr_leaseExpiresAt := None, lr_leaseGeneration := None\<rparr>"

text \<open>A lease of another generation, or one that has run out, goes back to pending.\<close>

definition lapsed :: "int \<Rightarrow> int \<Rightarrow> AdmissionRecord \<Rightarrow> bool" where
  "lapsed now routeGeneration r \<longleftrightarrow>
     lr_state r = LLeased \<and> (lr_leaseGeneration r \<noteq> Some routeGeneration \<or> (case lr_leaseExpiresAt r of None \<Rightarrow> False | Some t \<Rightarrow> t \<le> now))"

definition reclaim :: "int \<Rightarrow> int \<Rightarrow> AdmissionRecord \<Rightarrow> AdmissionRecord" where
  "reclaim now routeGeneration r = (if lapsed now routeGeneration r then drop_lease (r\<lparr>lr_state := LPending\<rparr>) else r)"

definition leasable :: "string set \<Rightarrow> AdmissionRecord list \<Rightarrow> AdmissionRecord \<Rightarrow> bool" where
  "leasable excludedSessionIds rs candidate \<longleftrightarrow>
     lr_state candidate = LPending \<and> lr_sessionId candidate \<notin> excludedSessionIds \<and>
     \<not> (\<exists>prior \<in> set rs. lr_sessionId prior = lr_sessionId candidate \<and> lr_sequence prior < lr_sequence candidate \<and>
          lr_state prior \<noteq> LCommitted \<and> lr_state prior \<noteq> LFailed \<and> lr_state prior \<noteq> LExpired)"

definition lease_record :: "int \<Rightarrow> string \<Rightarrow> int \<Rightarrow> int \<Rightarrow> AdmissionRecord \<Rightarrow> AdmissionRecord" where
  "lease_record now owner routeGeneration leaseMs r =
     r\<lparr>lr_state := LLeased, lr_leaseOwner := Some owner, lr_leaseGeneration := Some routeGeneration, lr_leaseExpiresAt := Some (now + leaseMs),
       lr_attempts := Some (coalesce (lr_attempts r) 0 + 1), lr_lastAttemptAt := Some now\<rparr>"

text \<open>The records are objects that the operations change in place: the one with a given operation is replaced.\<close>

definition change_record :: "string \<Rightarrow> (AdmissionRecord \<Rightarrow> AdmissionRecord) \<Rightarrow> AdmissionRecord list \<Rightarrow> AdmissionRecord list" where
  "change_record oid f rs = map (\<lambda>r. if lr_operationId r = oid then f r else r) rs"

definition leaseNext :: "int \<Rightarrow> int \<Rightarrow> string \<Rightarrow> int \<Rightarrow> int \<Rightarrow> string set \<Rightarrow> LedgerState option \<Rightarrow> AdmissionRecord option ledger_result" where
  "leaseNext capacity now owner routeGeneration leaseMs excludedSessionIds disk =
     (if owner = [] \<or> \<not> safe_int routeGeneration \<or> routeGeneration < 0 \<or> \<not> safe_int leaseMs \<or> leaseMs < 1 then Inl InvalidLeaseRequest
      else case read_ledger capacity disk of
        Inl e \<Rightarrow> Inl e
      | Inr st0 \<Rightarrow>
          (let changed = (\<exists>r \<in> set (ls_records st0). lapsed now routeGeneration r);
               rs = map (reclaim now routeGeneration) (ls_records st0); st = st0\<lparr>ls_records := rs\<rparr>
           in case find (leasable excludedSessionIds rs) rs of
                None \<Rightarrow> Inr (None, if changed then Some (persist st) else disk)
              | Some r \<Rightarrow>
                  (let leased = lease_record now owner routeGeneration leaseMs r
                   in Inr (Some leased, Some (persist (st\<lparr>ls_records := change_record (lr_operationId r) (\<lambda>_. leased) rs\<rparr>))))))"

definition settled :: "AdmissionRecord \<Rightarrow> bool" where
  "settled r \<longleftrightarrow> lr_state r = LCommitted \<or> lr_state r = LFailed \<or> lr_state r = LExpired"

definition commit_record :: "int \<Rightarrow> int option \<Rightarrow> AdmissionRecord \<Rightarrow> AdmissionRecord" where
  "commit_record now sessionCursor r =
     drop_lease (r\<lparr>lr_state := LCommitted, lr_committedAt := Some now,
       lr_sessionCursor := (case sessionCursor of None \<Rightarrow> lr_sessionCursor r | Some c \<Rightarrow> Some c), lr_error := None\<rparr>)"

definition bad_cursor :: "int option \<Rightarrow> bool" where
  "bad_cursor c \<longleftrightarrow> (case c of None \<Rightarrow> False | Some n \<Rightarrow> \<not> safe_int n \<or> n < 0)"

definition ledger_commit :: "int \<Rightarrow> int \<Rightarrow> string \<Rightarrow> string \<Rightarrow> int \<Rightarrow> int option \<Rightarrow> LedgerState option \<Rightarrow> AdmissionRecord ledger_result" where
  "ledger_commit capacity now operationId owner routeGeneration sessionCursor disk =
     (case read_ledger capacity disk of
        Inl e \<Rightarrow> Inl e
      | Inr st \<Rightarrow>
          (case find (\<lambda>r. lr_operationId r = operationId) (ls_records st) of
             None \<Rightarrow> Inl NotFound
           | Some r \<Rightarrow>
               if settled r then Inr (r, disk)
               else if lr_state r \<noteq> LLeased \<or> lr_leaseOwner r \<noteq> Some owner \<or> lr_leaseGeneration r \<noteq> Some routeGeneration then Inl StaleLease
               else if bad_cursor sessionCursor then Inl InvalidCursor
               else Inr (commit_record now sessionCursor r,
                         Some (persist (st\<lparr>ls_records := change_record operationId (commit_record now sessionCursor) (ls_records st)\<rparr>)))))"

definition ledger_committed :: "int \<Rightarrow> int \<Rightarrow> string \<Rightarrow> int \<Rightarrow> int option \<Rightarrow> LedgerState option \<Rightarrow> AdmissionRecord ledger_result" where
  "ledger_committed capacity now operationId routeGeneration sessionCursor disk =
     (case read_ledger capacity disk of
        Inl e \<Rightarrow> Inl e
      | Inr st \<Rightarrow>
          (case find (\<lambda>r. lr_operationId r = operationId) (ls_records st) of
             None \<Rightarrow> Inl NotFound
           | Some r \<Rightarrow>
               if settled r then Inr (r, disk)
               else if lr_state r \<noteq> LLeased \<or> lr_leaseGeneration r \<noteq> Some routeGeneration then Inl StaleLease
               else if bad_cursor sessionCursor then Inl InvalidCursor
               else Inr (commit_record now sessionCursor r,
                         Some (persist (st\<lparr>ls_records := change_record operationId (commit_record now sessionCursor) (ls_records st)\<rparr>)))))"

text \<open>\<open>/(?:[A-Za-z]:)?[\/][^\s;]+/gu\<close> replaced by \<open><path>\<close>, and the text cut at 500.\<close>

definition letter :: "char \<Rightarrow> bool" where
  "letter c \<longleftrightarrow> (65 \<le> (of_char c :: nat) \<and> (of_char c :: nat) \<le> 90) \<or> (97 \<le> (of_char c :: nat) \<and> (of_char c :: nat) \<le> 122)"

definition path_char :: "char \<Rightarrow> bool" where
  "path_char c \<longleftrightarrow> \<not> js_space c \<and> c \<noteq> CHR '';''"

function redact_paths :: "string \<Rightarrow> string" where
  "redact_paths [] = []"
| "redact_paths (c # s) =
     (if c = CHR ''/'' \<and> s \<noteq> [] \<and> path_char (hd s) then ''<path>'' @ redact_paths (dropWhile path_char s)
      else if letter c \<and> take 2 s = '':/'' \<and> drop 2 s \<noteq> [] \<and> path_char (hd (drop 2 s)) then ''<path>'' @ redact_paths (dropWhile path_char (drop 2 s))
      else c # redact_paths s)"
  by pat_completeness auto
termination
  by (relation "measure length") (auto simp: le_imp_less_Suc length_dropWhile_le intro!: le_imp_less_Suc order_trans [OF length_dropWhile_le])

definition redacted :: "string option \<Rightarrow> string option" where
  "redacted v = map_option (\<lambda>t. take 500 (redact_paths t)) v"

definition ledger_release :: "int \<Rightarrow> string \<Rightarrow> string \<Rightarrow> string option \<Rightarrow> LedgerState option \<Rightarrow> unit ledger_result" where
  "ledger_release capacity operationId owner err disk =
     (case read_ledger capacity disk of
        Inl e \<Rightarrow> Inl e
      | Inr st \<Rightarrow>
          (case find (\<lambda>r. lr_operationId r = operationId) (ls_records st) of
             None \<Rightarrow> Inr ((), disk)
           | Some r \<Rightarrow>
               if lr_state r \<noteq> LLeased \<or> lr_leaseOwner r \<noteq> Some owner then Inr ((), disk)
               else Inr ((), Some (persist (st\<lparr>ls_records :=
                      change_record operationId (\<lambda>r. drop_lease (r\<lparr>lr_state := LPending, lr_error := redacted err\<rparr>)) (ls_records st)\<rparr>)))))"

definition fail_record :: "int \<Rightarrow> string \<Rightarrow> AdmissionRecord \<Rightarrow> AdmissionRecord" where
  "fail_record now err r = drop_lease (r\<lparr>lr_state := LFailed, lr_failedAt := Some now, lr_error := redacted (Some err)\<rparr>)"

definition ledger_fail :: "int \<Rightarrow> int \<Rightarrow> string \<Rightarrow> string \<Rightarrow> int \<Rightarrow> string \<Rightarrow> LedgerState option \<Rightarrow> AdmissionRecord ledger_result" where
  "ledger_fail capacity now operationId owner routeGeneration err disk =
     (case read_ledger capacity disk of
        Inl e \<Rightarrow> Inl e
      | Inr st \<Rightarrow>
          (case find (\<lambda>r. lr_operationId r = operationId) (ls_records st) of
             None \<Rightarrow> Inl NotFound
           | Some r \<Rightarrow>
               if settled r then Inr (r, disk)
               else if lr_state r \<noteq> LLeased \<or> lr_leaseOwner r \<noteq> Some owner \<or> lr_leaseGeneration r \<noteq> Some routeGeneration then Inl StaleLease
               else Inr (fail_record now err r,
                         Some (persist (st\<lparr>ls_records := change_record operationId (fail_record now err) (ls_records st)\<rparr>)))))"

section \<open>Queries\<close>

record AdmissionOperationStatus =
  os_operationId :: string
  os_sessionId :: string
  os_sequence :: int
  os_state :: admission_state
  os_acceptedAt :: int
  os_routeGeneration :: int
  os_attempts :: int
  os_lastAttemptAt :: "int option"
  os_lastError :: "string option"
  os_committedAt :: "int option"
  os_failedAt :: "int option"
  os_sessionCursor :: "int option"

definition ledger_operation :: "int \<Rightarrow> string \<Rightarrow> string \<Rightarrow> LedgerState option \<Rightarrow> ledger_error + AdmissionOperationStatus option" where
  "ledger_operation capacity operationId principalDigest disk =
     (case read_ledger capacity disk of
        Inl e \<Rightarrow> Inl e
      | Inr st \<Rightarrow> Inr (map_option
          (\<lambda>r. \<lparr>os_operationId = lr_operationId r, os_sessionId = lr_sessionId r, os_sequence = lr_sequence r, os_state = lr_state r,
                os_acceptedAt = lr_acceptedAt r, os_routeGeneration = lr_routeGeneration r, os_attempts = coalesce (lr_attempts r) 0,
                os_lastAttemptAt = lr_lastAttemptAt r, os_lastError = truthy (lr_error r), os_committedAt = lr_committedAt r,
                os_failedAt = lr_failedAt r, os_sessionCursor = lr_sessionCursor r\<rparr>)
          (find (\<lambda>r. lr_operationId r = operationId \<and> ad_principalDigest (lr_message r) = principalDigest) (ls_records st))))"

section \<open>Valid ledgers\<close>

definition shape_ok :: "AdmissionRecord \<Rightarrow> bool" where
  "shape_ok r \<longleftrightarrow> hex64 (ad_principalDigest (lr_message r)) \<and> hex64 (lr_bodyDigest r) \<and> safe_int (lr_sequence r) \<and>
     (case lr_attempts r of None \<Rightarrow> True | Some n \<Rightarrow> safe_int n \<and> 0 \<le> n)"

definition fields_ok :: "AdmissionRecord \<Rightarrow> bool" where
  "fields_ok r \<longleftrightarrow> shape_ok r \<and> evidence_error r = None"

lemma record_error_None: "record_error p ids r = None \<longleftrightarrow> fields_ok r \<and> p < lr_sequence r \<and> lr_operationId r \<notin> ids"
  unfolding fields_ok_def record_error_def shape_ok_def by (cases "lr_attempts r") auto

lemma parse_records_iff:
  "(\<exists>q. parse_records p ids rs = Inr q \<and> q < n) \<longleftrightarrow>
     list_all fields_ok rs \<and> sorted_wrt (<) (map lr_sequence rs) \<and> list_all (\<lambda>r. p < lr_sequence r \<and> lr_sequence r < n) rs \<and> p < n \<and>
     distinct (map lr_operationId rs) \<and> set (map lr_operationId rs) \<inter> ids = {}"
proof (induction rs arbitrary: p ids)
  case (Cons r rs)
  show ?case
  proof (cases "record_error p ids r")
    case None
    then have r: "fields_ok r" "p < lr_sequence r" "lr_operationId r \<notin> ids" unfolding record_error_None by auto
    have "parse_records p ids (r # rs) = parse_records (lr_sequence r) (insert (lr_operationId r) ids) rs" using None by simp
    moreover have "(\<forall>x \<in> set rs. lr_sequence r < lr_sequence x \<and> lr_sequence x < n) \<and> lr_sequence r < n \<longleftrightarrow>
        (\<forall>x \<in> set rs. lr_sequence r < lr_sequence x) \<and> lr_sequence r < n \<and> p < n \<and> (\<forall>x \<in> set rs. p < lr_sequence x \<and> lr_sequence x < n)"
      using r(2) by (meson order_less_trans)
    ultimately show ?thesis
      using r by (simp only: Cons.IH list_all_iff list.map sorted_wrt.simps set_simps distinct.simps list.pred_inject ball_simps) (simp, blast)
  next
    case (Some e)
    then show ?thesis using record_error_None [of p ids r] by auto
  qed
qed auto

text \<open>A ledger that the validation accepts.\<close>

definition records_ok :: "int \<Rightarrow> AdmissionRecord list \<Rightarrow> bool" where
  "records_ok n rs \<longleftrightarrow>
     list_all fields_ok rs \<and> sorted_wrt (<) (map lr_sequence rs) \<and> list_all (\<lambda>r. 0 < lr_sequence r \<and> lr_sequence r < n) rs \<and> distinct (map lr_operationId rs)"

definition ledger_ok :: "LedgerState \<Rightarrow> bool" where
  "ledger_ok st \<longleftrightarrow>
     safe_int (ls_revision st) \<and> 0 \<le> ls_revision st \<and> safe_int (ls_nextSequence st) \<and> 1 \<le> ls_nextSequence st \<and>
     safe_int (ls_capacity st) \<and> 1 \<le> ls_capacity st \<and> records_ok (ls_nextSequence st) (ls_records st)"

lemma parseLedgerState_iff: "parseLedgerState st = Inr st' \<longleftrightarrow> st' = st \<and> ledger_ok st"
proof -
  have "(\<exists>q. parse_records 0 {} (ls_records st) = Inr q \<and> q < ls_nextSequence st) \<longleftrightarrow> records_ok (ls_nextSequence st) (ls_records st) \<and> 0 < ls_nextSequence st"
    unfolding parse_records_iff records_ok_def by auto
  then show ?thesis unfolding parseLedgerState_def ledger_ok_def by (auto split: sum.splits if_splits)
qed

section \<open>The invariant\<close>

text \<open>A leased record comes after the settled ones of its session.\<close>

definition in_order :: "AdmissionRecord list \<Rightarrow> AdmissionRecord \<Rightarrow> bool" where
  "in_order rs r \<longleftrightarrow> (\<forall>p \<in> set rs. lr_sessionId p = lr_sessionId r \<longrightarrow> lr_sequence p < lr_sequence r \<longrightarrow> settled p)"

definition fifo :: "AdmissionRecord list \<Rightarrow> bool" where
  "fifo rs \<longleftrightarrow> (\<forall>r \<in> set rs. lr_state r = LLeased \<longrightarrow> in_order rs r)"

definition tries :: "AdmissionRecord \<Rightarrow> int" where
  "tries r = coalesce (lr_attempts r) 0"

definition ledger_inv :: "int \<Rightarrow> LedgerState \<Rightarrow> bool" where
  "ledger_inv capacity st \<longleftrightarrow>
     ledger_ok st \<and> ls_capacity st = capacity \<and> fifo (ls_records st) \<and> list_all (\<lambda>r. tries r \<le> ls_revision st) (ls_records st) \<and>
     int (length (filter is_active (ls_records st))) \<le> capacity"

text \<open>What an operation may make of a record, given the records it saw.\<close>

definition keeps :: "AdmissionRecord list \<Rightarrow> AdmissionRecord \<Rightarrow> AdmissionRecord \<Rightarrow> bool" where
  "keeps rs r r' \<longleftrightarrow>
     lr_message r' = lr_message r \<and> lr_sequence r' = lr_sequence r \<and> lr_bodyDigest r' = lr_bodyDigest r \<and> fields_ok r' \<and>
     (settled r \<longrightarrow> r' = r \<or> r' = r\<lparr>lr_state := LExpired\<rparr>) \<and> (is_active r' \<longrightarrow> is_active r) \<and>
     (lr_state r' = LLeased \<longrightarrow> lr_state r = LLeased \<or> in_order rs r)"

lemma active_settled: "is_active r \<longleftrightarrow> \<not> settled r"
  by (cases "lr_state r") (auto simp: is_active_def settled_def)

lemma records_ok_map:
  assumes "records_ok n rs" and "\<And>r. r \<in> set rs \<Longrightarrow> keeps rs r (g r)"
  shows "records_ok n (map g rs)"
proof -
  have "map lr_sequence (map g rs) = map lr_sequence rs" "map (\<lambda>r. lr_operationId r) (map g rs) = map (\<lambda>r. lr_operationId r) rs"
    using assms(2) by (auto simp: keeps_def)
  moreover have "list_all fields_ok (map g rs)" "list_all (\<lambda>r. 0 < lr_sequence r \<and> lr_sequence r < n) (map g rs)"
    using assms by (auto simp: records_ok_def keeps_def list_all_iff)
  ultimately show ?thesis using assms(1) by (simp only: records_ok_def)
qed

lemma in_order_map:
  assumes "\<And>r. r \<in> set rs \<Longrightarrow> keeps rs r (g r)" and "r \<in> set rs" and "in_order rs r"
  shows "in_order (map g rs) (g r)"
  unfolding in_order_def
proof (intro ballI impI)
  fix p' assume "p' \<in> set (map g rs)" and s: "lr_sessionId p' = lr_sessionId (g r)" "lr_sequence p' < lr_sequence (g r)"
  then obtain p where p: "p \<in> set rs" "p' = g p" by auto
  have "settled p" using assms s p unfolding in_order_def by (metis keeps_def)
  then show "settled p'" using assms(1) [OF p(1)] p(2) unfolding keeps_def by (auto simp: settled_def)
qed

lemma fifo_map:
  assumes "fifo rs" and "\<And>r. r \<in> set rs \<Longrightarrow> keeps rs r (g r)"
  shows "fifo (map g rs)"
proof -
  have "in_order (map g rs) (g r)" if r: "r \<in> set rs" "lr_state (g r) = LLeased" for r
    using assms(1) assms(2) [OF r(1)] r in_order_map [OF assms(2) r(1)] unfolding keeps_def fifo_def by blast
  then show ?thesis unfolding fifo_def by auto
qed

lemma active_map:
  assumes "\<And>r. r \<in> set rs \<Longrightarrow> keeps rs r (g r)"
  shows "length (filter is_active (map g rs)) \<le> length (filter is_active rs)"
  using assms
proof -
  have "is_active (g r) \<Longrightarrow> is_active r" if "r \<in> set rs" for r using assms [OF that] by (simp add: keeps_def)
  then show ?thesis by (induction rs) auto
qed

text \<open>Rewriting the records of a ledger, and persisting it.\<close>

lemma ledger_inv_rewrite:
  assumes inv: "ledger_inv capacity st" and keep: "\<And>r. r \<in> set (ls_records st) \<Longrightarrow> keeps (ls_records st) r (g r)"
    and "\<And>r. tries (g r) = tries r"
  shows "ledger_inv capacity (st\<lparr>ls_records := map g (ls_records st)\<rparr>)"
  using assms records_ok_map [OF _ keep] fifo_map [OF _ keep] active_map [OF keep]
  unfolding ledger_inv_def ledger_ok_def by (auto simp: list_all_iff)

lemma ledger_inv_map:
  assumes inv: "ledger_inv capacity st" and keep: "\<And>r. r \<in> set (ls_records st) \<Longrightarrow> keeps (ls_records st) r (g r)"
    and "\<And>r. r \<in> set (ls_records st) \<Longrightarrow> tries (g r) \<le> ls_revision st + 1" and "ls_revision st < MAX_SAFE_INTEGER"
  shows "ledger_inv capacity (persist (st\<lparr>ls_records := map g (ls_records st)\<rparr>))"
  using assms records_ok_map [OF _ keep] fifo_map [OF _ keep] active_map [OF keep]
  unfolding ledger_inv_def ledger_ok_def persist_def by (auto simp: safe_int_def list_all_iff)


text \<open>What the checks ask of a record in each state.\<close>

definition no_lease :: "AdmissionRecord \<Rightarrow> bool" where
  "no_lease r \<longleftrightarrow> lr_leaseOwner r = None \<and> lr_leaseGeneration r = None \<and> lr_leaseExpiresAt r = None"

lemma evidence_cases:
  "evidence_error r = None \<longleftrightarrow>
     (case lr_state r of
        LPending \<Rightarrow> no_lease r \<and> lr_committedAt r = None \<and> lr_failedAt r = None \<and> lr_sessionCursor r = None
      | LLeased \<Rightarrow> truthy (lr_leaseOwner r) \<noteq> None \<and> (case lr_leaseGeneration r of None \<Rightarrow> False | Some g \<Rightarrow> safe_int g) \<and> lr_leaseExpiresAt r \<noteq> None
                   \<and> lr_committedAt r = None \<and> lr_failedAt r = None \<and> lr_sessionCursor r = None
      | LCommitted \<Rightarrow> no_lease r \<and> lr_committedAt r \<noteq> None \<and> lr_failedAt r = None
      | LFailed \<Rightarrow> no_lease r \<and> lr_failedAt r \<noteq> None \<and> lr_committedAt r = None \<and> lr_sessionCursor r = None
      | LExpired \<Rightarrow> no_lease r \<and> (lr_committedAt r \<noteq> None) \<noteq> (lr_failedAt r \<noteq> None) \<and> (lr_failedAt r \<noteq> None \<longrightarrow> lr_sessionCursor r = None))"
  unfolding evidence_error_def no_lease_def Let_def by (cases "lr_state r"; cases "lr_leaseGeneration r") simp_all

lemmas record_defs = fields_ok_def shape_ok_def evidence_cases no_lease_def drop_lease_def

lemma keeps_refl: "fields_ok r \<Longrightarrow> keeps rs r r"
  by (simp add: keeps_def)

lemma keeps_expire: "fields_ok r \<Longrightarrow> keeps rs r (expire_record cutoff r)"
  unfolding keeps_def expire_record_def record_defs is_active_def settled_def by (cases "lr_state r") auto

lemma leased_plain:
  assumes "fields_ok r" "lr_state r = LLeased"
  shows "shape_ok r" "lr_committedAt r = None" "lr_failedAt r = None" "lr_sessionCursor r = None"
  using assms by (auto simp: fields_ok_def evidence_cases)

text \<open>A leased record that gives up its lease.\<close>

lemma keeps_leased:
  assumes "fields_ok r" "lr_state r = LLeased" and "lr_message r' = lr_message r" "lr_sequence r' = lr_sequence r" "lr_bodyDigest r' = lr_bodyDigest r"
    "lr_attempts r' = lr_attempts r" "lr_state r' \<noteq> LLeased" "evidence_error r' = None"
  shows "keeps rs r r'"
  using assms leased_plain(1) [OF assms(1,2)] unfolding keeps_def
  by (simp add: fields_ok_def shape_ok_def settled_def is_active_def)

lemma keeps_commit: "fields_ok r \<Longrightarrow> lr_state r = LLeased \<Longrightarrow> keeps rs r (commit_record now c r)"
  using leased_plain [of r] by (intro keeps_leased) (simp_all add: commit_record_def drop_lease_def evidence_cases no_lease_def)

lemma keeps_fail: "fields_ok r \<Longrightarrow> lr_state r = LLeased \<Longrightarrow> keeps rs r (fail_record now err r)"
  using leased_plain [of r] by (intro keeps_leased) (simp_all add: fail_record_def drop_lease_def evidence_cases no_lease_def)

lemma keeps_pending: "fields_ok r \<Longrightarrow> lr_state r = LLeased \<Longrightarrow> keeps rs r (drop_lease (r\<lparr>lr_state := LPending, lr_error := e\<rparr>))"
  using leased_plain [of r] by (intro keeps_leased) (simp_all add: drop_lease_def evidence_cases no_lease_def)

lemma keeps_reclaim: "fields_ok r \<Longrightarrow> keeps rs r (reclaim now gen r)"
  using keeps_pending [of r rs "lr_error r"] keeps_refl [of r rs] unfolding reclaim_def lapsed_def by simp

lemma pending_plain:
  assumes "fields_ok r" "lr_state r = LPending"
  shows "shape_ok r" "lr_committedAt r = None" "lr_failedAt r = None" "lr_sessionCursor r = None"
  using assms by (auto simp: fields_ok_def evidence_cases)

lemma keeps_lease:
  assumes "fields_ok r" "lr_state r = LPending" "in_order rs r" "owner \<noteq> []" "safe_int gen" "tries r < MAX_SAFE_INTEGER"
  shows "keeps rs r (lease_record now owner gen ms r)"
  using assms pending_plain [OF assms(1,2)] unfolding keeps_def lease_record_def tries_def
  by (auto simp: record_defs is_active_def settled_def safe_int_def MAX_SAFE_INTEGER_def coalesce_def split: option.splits)

lemma tries_simps [simp]:
  "tries (expire_record cutoff r) = tries r" "tries (reclaim now gen r) = tries r" "tries (commit_record now c r) = tries r"
  "tries (fail_record now err r) = tries r" "tries (drop_lease r) = tries r" "tries (r\<lparr>lr_state := s, lr_error := e\<rparr>) = tries r"
  "tries (lease_record now owner gen ms r) = tries r + 1"
  by (auto simp: tries_def expire_record_def reclaim_def commit_record_def fail_record_def drop_lease_def lease_record_def)

lemma ledger_invD:
  assumes "ledger_inv capacity st"
  shows "ledger_ok st" "r \<in> set (ls_records st) \<Longrightarrow> fields_ok r" "r \<in> set (ls_records st) \<Longrightarrow> tries r \<le> ls_revision st" "distinct (map (\<lambda>r. lr_operationId r) (ls_records st))"
  using assms by (auto simp: ledger_inv_def ledger_ok_def records_ok_def list_all_iff)

text \<open>
  Every record has a successor for the same message with the same sequence number, and the outcome of a settled record is final: the
  record is kept as it is or marked as expired.
\<close>

definition continues :: "AdmissionRecord \<Rightarrow> AdmissionRecord \<Rightarrow> bool" where
  "continues r r' \<longleftrightarrow>
     lr_message r' = lr_message r \<and> lr_sequence r' = lr_sequence r \<and> lr_bodyDigest r' = lr_bodyDigest r \<and>
     (settled r \<longrightarrow> r' = r \<or> r' = r\<lparr>lr_state := LExpired\<rparr>)"

definition evolves :: "AdmissionRecord list \<Rightarrow> AdmissionRecord list \<Rightarrow> bool" where
  "evolves rs rs' \<longleftrightarrow> (\<forall>r \<in> set rs. \<exists>r' \<in> set rs'. continues r r')"

definition recs :: "LedgerState option \<Rightarrow> AdmissionRecord list" where
  "recs disk = (case disk of None \<Rightarrow> [] | Some st \<Rightarrow> ls_records st)"

lemma recs_simps [simp]: "recs None = []" "recs (Some (persist st)) = ls_records st"
  by (simp_all add: recs_def persist_def)

lemma continues_trans: "continues r s \<Longrightarrow> continues s t \<Longrightarrow> continues r t"
proof -
  assume rs: "continues r s" and st: "continues s t"
  have "settled s" if "settled r" using that rs unfolding continues_def by (auto simp: settled_def)
  moreover have "r\<lparr>lr_state := LExpired, lr_state := LExpired\<rparr> = r\<lparr>lr_state := LExpired\<rparr>" by simp
  ultimately have "t = r \<or> t = r\<lparr>lr_state := LExpired\<rparr>" if "settled r" using that rs st unfolding continues_def by metis
  with rs st show "continues r t" unfolding continues_def by metis
qed

lemma evolves_refl [simp]: "evolves rs rs"
  unfolding evolves_def continues_def by blast

lemma evolves_trans: "evolves rs ss \<Longrightarrow> evolves ss ts \<Longrightarrow> evolves rs ts"
  unfolding evolves_def using continues_trans by meson

lemma evolves_append: "evolves rs ss \<Longrightarrow> evolves rs (ss @ ts)"
  unfolding evolves_def by auto

lemma evolves_map: "(\<And>r. r \<in> set rs \<Longrightarrow> keeps rs r (g r)) \<Longrightarrow> evolves rs (map g rs)"
  unfolding evolves_def keeps_def continues_def by fastforce

text \<open>Changing the one record of an operation.\<close>

lemma inv_change:
  assumes inv: "ledger_inv capacity st" and "find (\<lambda>r. lr_operationId r = oid) (ls_records st) = Some r" and "keeps (ls_records st) r (f r)"
    and "tries (f r) \<le> ls_revision st + 1" and rev: "ls_revision st < MAX_SAFE_INTEGER"
  shows "ledger_inv capacity (persist (st\<lparr>ls_records := change_record oid f (ls_records st)\<rparr>))"
    and "evolves (ls_records st) (change_record oid f (ls_records st))"
proof -
  have r: "r \<in> set (ls_records st)" "lr_operationId r = oid" using find_Some_iff_first [OF assms(2)] by auto
  have only: "x = r" if "x \<in> set (ls_records st)" "lr_operationId x = oid" for x
    using ledger_invD(4) [OF inv] that r by (metis (no_types, lifting) eq_key_imp_eq_value inj_on_contraD distinct_map)
  have keep: "keeps (ls_records st) x (if lr_operationId x = oid then f x else x)" if "x \<in> set (ls_records st)" for x
    using only [of x] assms(3) keeps_refl ledger_invD(2) [OF inv, of x] that by auto
  have "tries (if lr_operationId x = oid then f x else x) \<le> ls_revision st + 1" if "x \<in> set (ls_records st)" for x
    using only [of x] assms(4) ledger_invD(3) [OF inv, of x] that by auto
  then show "ledger_inv capacity (persist (st\<lparr>ls_records := change_record oid f (ls_records st)\<rparr>))"
    unfolding change_record_def by (intro ledger_inv_map [OF inv keep _ rev])
  show "evolves (ls_records st) (change_record oid f (ls_records st))"
    unfolding change_record_def by (rule evolves_map [OF keep])
qed

text \<open>Adding a record.\<close>

lemma inv_add:
  assumes inv: "ledger_inv capacity st" and "fields_ok r" "lr_sequence r = ls_nextSequence st" "lr_state r = LPending" "tries r = 0"
    and "find (\<lambda>x. lr_operationId x = lr_operationId r) (ls_records st) = None" and "int (length (filter is_active (ls_records st))) < capacity"
    and "ls_nextSequence st < MAX_SAFE_INTEGER" "ls_revision st < MAX_SAFE_INTEGER"
  shows "ledger_inv capacity (persist (st\<lparr>ls_nextSequence := ls_nextSequence st + 1, ls_records := ls_records st @ [r]\<rparr>))"
proof -
  have old: "records_ok (ls_nextSequence st) (ls_records st)" and one: "1 \<le> ls_nextSequence st" using inv by (auto simp: ledger_inv_def ledger_ok_def)
  then have "records_ok (ls_nextSequence st + 1) (ls_records st @ [r])"
    using assms(2,3,6) by (auto simp: records_ok_def sorted_wrt_append list_all_iff find_None_iff_all image_iff)
  moreover have "fifo (ls_records st @ [r])"
    using inv old assms(3,4) by (fastforce simp: ledger_inv_def fifo_def in_order_def records_ok_def list_all_iff)
  ultimately show ?thesis
    using inv assms(4-) by (auto simp: ledger_inv_def ledger_ok_def persist_def safe_int_def list_all_iff is_active_def)
qed


section \<open>Steps\<close>

datatype ledger_event =
    Append int AdmissionMessage int
  | LeaseNext int string int int "string set"
  | Commit int string string int "int option"
  | Committed int string int "int option"
  | Release string string "string option"
  | Fail int string string int string

definition next_disk :: "LedgerState option \<Rightarrow> 'a ledger_result \<Rightarrow> LedgerState option" where
  "next_disk disk r = (case r of Inl _ \<Rightarrow> disk | Inr (_, d) \<Rightarrow> d)"

primrec ledger_step :: "(AdmissionMessage \<Rightarrow> string) \<Rightarrow> int \<Rightarrow> int \<Rightarrow> LedgerState option \<Rightarrow> ledger_event \<Rightarrow> LedgerState option" where
  "ledger_step digest cap ret disk (Append now m gen) = next_disk disk (ledger_append digest cap ret now m gen disk)"
| "ledger_step digest cap ret disk (LeaseNext now owner gen ms ex) = next_disk disk (leaseNext cap now owner gen ms ex disk)"
| "ledger_step digest cap ret disk (Commit now oid owner gen c) = next_disk disk (ledger_commit cap now oid owner gen c disk)"
| "ledger_step digest cap ret disk (Committed now oid gen c) = next_disk disk (ledger_committed cap now oid gen c disk)"
| "ledger_step digest cap ret disk (Release oid owner err) = next_disk disk (ledger_release cap oid owner err disk)"
| "ledger_step digest cap ret disk (Fail now oid owner gen err) = next_disk disk (ledger_fail cap now oid owner gen err disk)"

text \<open>The numbers of the ledger stay below the largest exact integer.\<close>

definition room :: "LedgerState option \<Rightarrow> bool" where
  "room disk \<longleftrightarrow> (case disk of None \<Rightarrow> True | Some st \<Rightarrow> ls_revision st < MAX_SAFE_INTEGER \<and> ls_nextSequence st < MAX_SAFE_INTEGER)"

definition disk_inv :: "int \<Rightarrow> LedgerState option \<Rightarrow> bool" where
  "disk_inv cap disk \<longleftrightarrow> (case disk of None \<Rightarrow> True | Some st \<Rightarrow> ledger_inv cap st)"

definition cap_ok :: "int \<Rightarrow> bool" where
  "cap_ok cap \<longleftrightarrow> safe_int cap \<and> 1 \<le> cap"

lemma fresh_inv: "cap_ok cap \<Longrightarrow> ledger_inv cap \<lparr>ls_revision = 0, ls_nextSequence = 1, ls_capacity = cap, ls_records = []\<rparr>"
  by (simp add: ledger_inv_def ledger_ok_def records_ok_def fifo_def cap_ok_def safe_int_def MAX_SAFE_INTEGER_def)

text \<open>What an operation reads: the ledger of the file, which satisfies the invariant.\<close>

lemma read_inv:
  assumes "disk_inv cap disk" "cap_ok cap" "room disk" "read_ledger cap disk = Inr st"
  shows "ledger_inv cap st" "ls_revision st < MAX_SAFE_INTEGER" "ls_nextSequence st < MAX_SAFE_INTEGER"
  using assms fresh_inv [of cap] unfolding read_ledger_def disk_inv_def room_def
  by (auto simp: parseLedgerState_iff MAX_SAFE_INTEGER_def split: option.splits)

lemma read_recs: "read_ledger cap disk = Inr st \<Longrightarrow> ls_records st = recs disk"
  unfolding read_ledger_def recs_def by (auto simp: parseLedgerState_iff split: option.splits)

lemma read_ok: "disk_inv cap disk \<Longrightarrow> \<exists>st. read_ledger cap disk = Inr st"
  unfolding read_ledger_def disk_inv_def using parseLedgerState_iff by (auto simp: ledger_inv_def split: option.splits)

lemma inv_expire:
  assumes inv: "ledger_inv cap st"
  shows "ledger_inv cap (expireTerminal now ret st)"
  unfolding expireTerminal_def by (rule ledger_inv_rewrite [OF inv]) (simp_all add: keeps_expire ledger_invD(2) [OF inv])

lemma inv_append:
  assumes "hex64 (digest m)" "cap_ok cap" and inv: "disk_inv cap disk" and rm: "room disk"
    and op: "ledger_append digest cap ret now m gen disk = Inr ((r, dup), d)"
  shows "disk_inv cap d \<and> evolves (recs disk) (recs d)"
proof (cases dup)
  case True
  then show ?thesis using op inv unfolding ledger_append_def Let_def by (auto split: if_splits sum.splits option.splits)
next
  case False
  then obtain st0 where st0: "parseAdmissionMessage m = Inr m" "read_ledger cap disk = Inr st0"
    and none: "find (\<lambda>r. lr_operationId r = ad_operationId m) (ls_records (expireTerminal now ret st0)) = None"
    and len: "int (length (filter is_active (ls_records (expireTerminal now ret st0)))) < ls_capacity (expireTerminal now ret st0)"
    and d: "d = Some (persist ((expireTerminal now ret st0)\<lparr>ls_nextSequence := ls_nextSequence (expireTerminal now ret st0) + 1,
      ls_records := ls_records (expireTerminal now ret st0) @ [new_record m (ls_nextSequence (expireTerminal now ret st0)) (digest m) now gen]\<rparr>))"
    using op unfolding ledger_append_def Let_def parseAdmissionMessage_def
    by (auto split: if_splits sum.splits option.splits)
  note r = read_inv [OF inv assms(2) rm st0(2)]
  let ?st = "expireTerminal now ret st0"
  have i: "ledger_inv cap ?st" by (rule inv_expire [OF r(1)])
  have "fields_ok (new_record m (ls_nextSequence ?st) (digest m) now gen)"
    using st0(1) assms(1) i unfolding parseAdmissionMessage_def
    by (auto simp: record_defs new_record_def ledger_inv_def ledger_ok_def split: if_splits)
  then have "disk_inv cap d" unfolding d disk_inv_def option.case
    using r none len i by (intro inv_add) (simp_all add: new_record_def tries_def expireTerminal_def ledger_inv_def)
  moreover have "evolves (recs disk) (ls_records ?st)"
    unfolding expireTerminal_def read_recs [OF st0(2), symmetric] using evolves_map keeps_expire ledger_invD(2) [OF r(1)] by simp
  ultimately show ?thesis by (simp add: d evolves_append)
qed

lemma inv_lease:
  assumes "cap_ok cap" and inv: "disk_inv cap disk" and rm: "room disk" and op: "leaseNext cap now owner gen ms ex disk = Inr (res, d)"
  shows "disk_inv cap d \<and> evolves (recs disk) (recs d)"
proof -
  have args: "owner \<noteq> []" "safe_int gen" using op unfolding leaseNext_def by (auto split: if_splits)
  obtain st0 where st0: "read_ledger cap disk = Inr st0" using read_ok [OF inv] by blast
  note r = read_inv [OF inv assms(1) rm st0]
  let ?rs = "map (reclaim now gen) (ls_records st0)"
  have keep: "keeps (ls_records st0) x (reclaim now gen x)" if "x \<in> set (ls_records st0)" for x
    using keeps_reclaim ledger_invD(2) [OF r(1) that] by blast
  have i: "ledger_inv cap (st0\<lparr>ls_records := ?rs\<rparr>)"
    by (rule ledger_inv_rewrite [OF r(1) keep]) simp_all
  have ev: "evolves (recs disk) ?rs" using evolves_map [OF keep] by (simp add: read_recs [OF st0])
  show ?thesis
  proof (cases "find (leasable ex ?rs) ?rs")
    case None
    have p: "ledger_inv cap (persist (st0\<lparr>ls_records := ?rs\<rparr>))"
      using ledger_inv_map [OF r(1) keep _ r(2)] ledger_invD(3) [OF r(1)] by fastforce
    show ?thesis using op args None inv p ev unfolding leaseNext_def st0 Let_def
      by (auto simp: disk_inv_def split: if_splits)
  next
    case (Some x)
    then have x: "x \<in> set ?rs" "leasable ex ?rs x" using find_Some_iff_first by fast+
    have ord: "in_order ?rs x" using x(2) unfolding leasable_def in_order_def settled_def by blast
    have pend: "lr_state x = LPending" using x(2) by (simp add: leasable_def)
    have "distinct (map (\<lambda>r. lr_operationId r) ?rs)" using ledger_invD(4) [OF i] by simp
    then have f: "find (\<lambda>r. lr_operationId r = lr_operationId x) ?rs = Some x" using x(1) by (rule find_distinct_key) simp
    have "keeps ?rs x (lease_record now owner gen ms x)"
      using keeps_lease [OF _ pend ord args] ledger_invD(2,3) [OF i] x(1) r(2) by fastforce
    moreover have "tries (lease_record now owner gen ms x) \<le> ls_revision st0 + 1" using ledger_invD(3) [OF i] x(1) by simp
    ultimately have "ledger_inv cap (persist ((st0\<lparr>ls_records := ?rs\<rparr>)\<lparr>ls_records := change_record (lr_operationId x) (\<lambda>_. lease_record now owner gen ms x) ?rs\<rparr>))"
        "evolves ?rs (change_record (lr_operationId x) (\<lambda>_. lease_record now owner gen ms x) ?rs)"
      using inv_change [OF i, of "lr_operationId x" x "\<lambda>_. lease_record now owner gen ms x"] f r(2) by simp_all
    then show ?thesis using op args Some evolves_trans [OF ev] unfolding leaseNext_def st0 Let_def by (auto simp: disk_inv_def split: if_splits)
  qed
qed


text \<open>The operations that settle a lease or give it back change the record of one operation, which is leased.\<close>

lemma inv_settle:
  assumes "cap_ok cap" and inv: "disk_inv cap disk" and rm: "room disk" and st: "read_ledger cap disk = Inr st"
    and f: "find (\<lambda>r. lr_operationId r = oid) (ls_records st) = Some r" "lr_state r = LLeased"
    and g: "\<And>r. fields_ok r \<Longrightarrow> lr_state r = LLeased \<Longrightarrow> keeps (ls_records st) r (g r)" "\<And>r. tries (g r) = tries r"
  shows "disk_inv cap (Some (persist (st\<lparr>ls_records := change_record oid g (ls_records st)\<rparr>))) \<and> evolves (recs disk) (change_record oid g (ls_records st))"
proof -
  note r = read_inv [OF inv assms(1) rm st]
  have mem: "r \<in> set (ls_records st)" using find_Some_iff_first [OF f(1)] by blast
  have t: "tries (g r) \<le> ls_revision st + 1" using g(2) ledger_invD(3) [OF r(1) mem] by simp
  show ?thesis
    using inv_change [where f = g, OF r(1) f(1) g(1) [OF ledger_invD(2) [OF r(1) mem] f(2)] t r(2)]
    unfolding disk_inv_def read_recs [OF st] by simp
qed

text \<open>
  An event meets a ledger with an admissible capacity whose numbers have room, and the digest of a message to append has the form
  of SHA-256 in hexadecimal.
\<close>

definition ledger_guard :: "(AdmissionMessage \<Rightarrow> string) \<Rightarrow> int \<Rightarrow> LedgerState option \<Rightarrow> ledger_event \<Rightarrow> bool" where
  "ledger_guard digest cap disk e \<longleftrightarrow> cap_ok cap \<and> room disk \<and> (case e of Append _ m _ \<Rightarrow> hex64 (digest m) | _ \<Rightarrow> True)"

lemma ledger_step_ok:
  assumes inv: "disk_inv cap disk" and guard: "ledger_guard digest cap disk e"
  shows "disk_inv cap (ledger_step digest cap ret disk e) \<and> evolves (recs disk) (recs (ledger_step digest cap ret disk e))"
proof -
  have g: "cap_ok cap" "room disk" using guard by (simp_all add: ledger_guard_def)
  show ?thesis
  proof (cases e)
    case (Append now m gen)
    then have "hex64 (digest m)" "cap_ok cap" "room disk" using guard by (simp_all add: ledger_guard_def)
    from inv_append [where digest = digest and m = m, OF this(1,2) inv this(3)] Append inv show ?thesis by (auto simp: next_disk_def split: sum.splits)
  next
    case (LeaseNext now owner gen ms ex)
    then show ?thesis using inv inv_lease [OF g(1) inv g(2), of now owner gen ms ex] by (auto simp: next_disk_def split: sum.splits)
  next
    case (Commit now oid owner gen c)
    then show ?thesis using inv inv_settle [OF g(1) inv g(2) _ _ _ keeps_commit]
      by (auto simp: next_disk_def ledger_commit_def split: sum.splits option.splits if_splits)
  next
    case (Committed now oid gen c)
    then show ?thesis using inv inv_settle [OF g(1) inv g(2) _ _ _ keeps_commit]
      by (auto simp: next_disk_def ledger_committed_def split: sum.splits option.splits if_splits)
  next
    case (Release oid owner err)
    then show ?thesis using inv inv_settle [OF g(1) inv g(2) _ _ _ keeps_pending]
      by (auto simp: next_disk_def ledger_release_def split: sum.splits option.splits if_splits)
  next
    case (Fail now oid owner gen err)
    then show ?thesis using inv inv_settle [OF g(1) inv g(2) _ _ _ keeps_fail]
      by (auto simp: next_disk_def ledger_fail_def split: sum.splits option.splits if_splits)
  qed
qed

section \<open>Runs\<close>

interpretation admission_runs: progressing_machine "ledger_step digest cap ret" "ledger_guard digest cap" "disk_inv cap" "\<lambda>d d'. evolves (recs d) (recs d')"
  using ledger_step_ok by unfold_locales (auto intro: evolves_trans)

lemma reach_inv: "run_guarded (ledger_guard digest cap) (ledger_step digest cap ret) None es \<Longrightarrow> disk_inv cap (run_events (ledger_step digest cap ret) None es)"
  by (rule admission_runs.inv_run) (simp_all add: disk_inv_def)

lemma reach_evolves:
  assumes "run_guarded (ledger_guard digest cap) (ledger_step digest cap ret) None (es @ fs)"
  shows "evolves (recs (run_events (ledger_step digest cap ret) None es)) (recs (run_events (ledger_step digest cap ret) None (es @ fs)))"
  using assms admission_runs.rel_run [OF reach_inv] by simp

lemma fifo_unique:
  assumes "ledger_ok st" "fifo (ls_records st)" "r \<in> set (ls_records st)" "s \<in> set (ls_records st)"
    "lr_state r = LLeased" "lr_state s = LLeased" "lr_sessionId r = lr_sessionId s"
  shows "r = s"
proof -
  have "\<not> lr_sequence r < lr_sequence s" "\<not> lr_sequence s < lr_sequence r"
    using assms unfolding fifo_def in_order_def settled_def by fastforce+
  then have eq: "lr_sequence r = lr_sequence s" by simp
  have "sorted_wrt (<) (map lr_sequence (ls_records st))" using assms(1) by (simp add: ledger_ok_def records_ok_def)
  then have "distinct (map lr_sequence (ls_records st))" by (simp add: strict_sorted_iff)
  with eq assms(3,4) show ?thesis by (metis (no_types, lifting) distinct_map inj_onD)
qed

text \<open>
  C32: After any sequence of operations on a new ledger the file passes the ledger's own validation, so no operation ever fails on
  reading it; the pending and leased messages never exceed the capacity; and the messages of a session are handed out strictly in
  order: a message is leased only once all earlier ones of its session are settled, and no session has two leases.
\<close>

theorem ledger_sound:
  assumes "run_guarded (ledger_guard digest cap) (ledger_step digest cap ret) None es"
  shows "\<exists>st. read_ledger cap (run_events (ledger_step digest cap ret) None es) = Inr st
    \<and> int (length (filter is_active (ls_records st))) \<le> max 0 cap
    \<and> (\<forall>r \<in> set (ls_records st). lr_state r = LLeased \<longrightarrow> in_order (ls_records st) r
         \<and> (\<forall>s \<in> set (ls_records st). lr_state s = LLeased \<longrightarrow> lr_sessionId s = lr_sessionId r \<longrightarrow> s = r))"
proof (cases "run_events (ledger_step digest cap ret) None es")
  case None
  then show ?thesis by (simp add: read_ledger_def)
next
  case (Some st)
  then have inv: "ledger_inv cap st" using reach_inv [OF assms] by (simp add: disk_inv_def)
  then have "read_ledger cap (run_events (ledger_step digest cap ret) None es) = Inr st"
    using parseLedgerState_iff by (simp add: Some read_ledger_def ledger_inv_def)
  moreover have "int (length (filter is_active (ls_records st))) \<le> max 0 cap" using inv by (simp add: ledger_inv_def)
  moreover have "in_order (ls_records st) r" if "r \<in> set (ls_records st)" "lr_state r = LLeased" for r
    using inv that by (simp add: ledger_inv_def fifo_def)
  moreover have "s = r" if "r \<in> set (ls_records st)" "lr_state r = LLeased" "s \<in> set (ls_records st)" "lr_state s = LLeased" "lr_sessionId s = lr_sessionId r" for r s
    using fifo_unique inv that unfolding ledger_inv_def by blast
  ultimately show ?thesis by blast
qed

text \<open>The record a later append finds for an operation is the successor of the one that was accepted.\<close>

lemma find_successor:
  assumes "disk_inv cap d" and "evolves rs (recs d)" and "r \<in> set rs" and st: "read_ledger cap d = Inr st"
  shows "\<exists>r'. find (\<lambda>x. lr_operationId x = lr_operationId r) (ls_records (expireTerminal now ret st)) = Some r' \<and> continues r r'"
proof -
  obtain s where s: "s \<in> set (ls_records st)" "continues r s"
    using assms(2,3) unfolding evolves_def read_recs [OF st] by blast
  then have mem: "s \<in> set (recs d)" by (simp add: read_recs [OF st])
  then obtain st' where d: "d = Some st'" "ledger_inv cap st'" using assms(1) by (cases d) (auto simp: disk_inv_def)
  then have [simp]: "st = st'" using st by (simp add: read_ledger_def parseLedgerState_iff)
  have i: "ledger_inv cap (expireTerminal now ret st)" using inv_expire [OF d(2)] by simp
  let ?s = "expire_record (now - ret) s"
  have k: "keeps (ls_records st) s ?s" using keeps_expire ledger_invD(2) [OF d(2)] s(1) by simp
  then have c: "continues s ?s" unfolding keeps_def continues_def by blast
  have "?s \<in> set (ls_records (expireTerminal now ret st))" using s(1) by (simp add: expireTerminal_def)
  moreover have "lr_operationId ?s = lr_operationId r" using s(2) k by (simp add: continues_def keeps_def)
  ultimately have "find (\<lambda>x. lr_operationId x = lr_operationId r) (ls_records (expireTerminal now ret st)) = Some ?s"
    using find_distinct_key [OF ledger_invD(4) [OF i]] by blast
  with continues_trans [OF s(2) c] show ?thesis by blast
qed

text \<open>
  C33: A message is accepted once. When an operation is recorded in the ledger and any further operations run, a valid request with
  the same identifier changes nothing: if its body has the recorded digest the answer is the record that followed from the first one,
  with the same sequence number and, when it was settled, the same outcome; otherwise the request is refused as a conflict.
\<close>

theorem ledger_accepts_once:
  assumes run: "run_guarded (ledger_guard digest cap) (ledger_step digest cap ret) None (es @ fs)"
    and r: "r \<in> set (recs (run_events (ledger_step digest cap ret) None es))"
    and req: "ad_operationId m = lr_operationId r" "parseAdmissionMessage m = Inr m" "safe_int gen" "0 \<le> gen"
  shows "(\<exists>r'. continues r r' \<and> ledger_append digest cap ret now m gen (run_events (ledger_step digest cap ret) None (es @ fs)) =
      (if digest m = lr_bodyDigest r then Inr ((r', True), run_events (ledger_step digest cap ret) None (es @ fs)) else Inl OperationConflict))"
proof -
  let ?d = "run_events (ledger_step digest cap ret) None (es @ fs)"
  have inv: "disk_inv cap ?d" by (rule reach_inv [OF run])
  obtain st where st: "read_ledger cap ?d = Inr st" using read_ok [OF inv] by blast
  obtain r' where r': "find (\<lambda>x. lr_operationId x = lr_operationId r) (ls_records (expireTerminal now ret st)) = Some r'" "continues r r'"
    using find_successor [OF inv reach_evolves [OF run] r st] by blast
  then have "lr_bodyDigest r' = lr_bodyDigest r" by (simp add: continues_def)
  with r' st req show ?thesis unfolding ledger_append_def Let_def by (auto intro!: exI [of _ r'])
qed

lemma least_member:
  assumes "finite S" "y \<in> S"
  shows "\<exists>x \<in> S. \<forall>z \<in> S. (f x :: int) \<le> f z"
proof -
  obtain x where "x \<in> S" "f x = Min (f ` S)" using assms Min_in [of "f ` S"] by fastforce
  with assms(1) show ?thesis by (metis Min_le finite_imageI imageI)
qed



definition sample_digest :: "AdmissionMessage \<Rightarrow> string" where
  "sample_digest m = replicate 63 (CHR ''0'') @ [if ad_text m = ''hi'' then CHR ''1'' else CHR ''2'']"

definition sample_message :: "string \<Rightarrow> AdmissionMessage" where
  "sample_message oid = \<lparr>ad_principalDigest = replicate 64 (CHR ''a''), ad_sessionId = ''s'', ad_operationId = oid, ad_mode = AQueue, ad_intent = AText,
     ad_text = ''hi'', ad_content = None\<rparr>"

definition sample_run :: "ledger_event list" where
  "sample_run = [Append 0 (sample_message ''a'') 1, Append 5 (sample_message ''b'') 1, LeaseNext 10 ''w'' 1 100 {}]"

definition sample_record :: AdmissionRecord where
  "sample_record = lease_record 10 ''w'' 1 100 (new_record (sample_message ''a'') 1 (sample_digest (sample_message ''a'')) 0 1)"

definition sample_second :: AdmissionRecord where
  "sample_second = new_record (sample_message ''b'') 2 (sample_digest (sample_message ''b'')) 5 1"

definition sample_disk :: "LedgerState option" where
  "sample_disk = run_events (ledger_step sample_digest 2 1000) None sample_run"

lemma sample_hex: "hex64 (sample_digest m)" "hex64 (replicate 64 (CHR ''a''))"
  by (simp_all add: hex64_def sample_digest_def is_digit_def list_all_iff)

lemma sample_guarded: "run_guarded (ledger_guard sample_digest 2) (ledger_step sample_digest 2 1000) None sample_run"
  by code_simp

lemma sample_disk_eq: "sample_disk = Some \<lparr>ls_revision = 3, ls_nextSequence = 3, ls_capacity = 2, ls_records = [sample_record, sample_second]\<rparr>"
  by code_simp

theorem ledger_sound_witness:
  "\<exists>st. read_ledger 2 (run_events (ledger_step sample_digest 2 1000) None sample_run) = Inr st \<and> int (length (filter is_active (ls_records st))) \<le> 2
    \<and> ls_records st = [sample_record, sample_second]"
proof -
  have "recs sample_disk = [sample_record, sample_second]" by (simp add: recs_def sample_disk_eq)
  then have "ls_records st = [sample_record, sample_second]" if "read_ledger 2 sample_disk = Inr st" for st using read_recs [OF that] by simp
  moreover obtain st where "read_ledger 2 sample_disk = Inr st" "int (length (filter is_active (ls_records st))) \<le> max 0 2"
    using ledger_sound [OF sample_guarded] unfolding sample_disk_def by blast
  ultimately show ?thesis unfolding sample_disk_def by auto
qed

theorem ledger_accepts_once_witness:
  "\<exists>r'. continues sample_record r' \<and> ledger_append sample_digest 2 1000 20 (sample_message ''a'') 3 sample_disk = Inr ((r', True), sample_disk)"
proof -
  have "parseAdmissionMessage (sample_message ''a'') = Inr (sample_message ''a'')"
    using sample_hex(2) by (simp add: parseAdmissionMessage_def sample_message_def trim_def js_space_def)
  moreover have "sample_record \<in> set (recs (run_events (ledger_step sample_digest 2 1000) None sample_run))"
    using sample_disk_eq by (simp add: sample_disk_def recs_def)
  moreover have "lr_operationId sample_record = ''a''" "lr_bodyDigest sample_record = sample_digest (sample_message ''a'')"
    by (simp_all add: sample_record_def lease_record_def new_record_def sample_message_def)
  ultimately show ?thesis
    using ledger_accepts_once [of sample_digest 2 1000 sample_run "[]" sample_record "sample_message ''a''" 3 20] sample_guarded
    by (simp add: sample_disk_def safe_int_def MAX_SAFE_INTEGER_def sample_message_def)
qed



end
