(* ===== verification/Spec2Isabelle.thy ===== *)
theory Spec2Isabelle
  imports Kernel_Refinement Kernel_Transcript Dag_Properties Sched_Scheduler Turn_Timing Op_Deduper Mut_Properties Exec_Receipts Host_Recovery
    Sub_Agent Host_Queue Tenant_Ledger
begin

text \<open>
  Kala is a system for running software agents. A pure kernel reduces the events of a session to a new state and a list of effects;
  a host drives sessions, keeps their logs, runs task graphs, schedules tasks and sub-agents, and talks to model providers; an executor
  on the user's machine runs tools inside a sandbox and reports receipts; a dashboard shows it all. This development models the parts
  that decide what happens to a user's work, from the TypeScript sources under \<open>src/packages\<close>, and proves what makes them
  correct.

  \<^bold>\<open>How the code is modelled.\<close> An object type is a record, a tagged union a datatype, an optional property an option, a thrown error
  the left value of a sum. A class with state is a record, each method a function that returns the changed record. A method that
  suspends is cut at its suspensions into one function per stretch, and the stretches are the events of a machine, so that every
  interleaving is a list of events. Integers of JavaScript are integers; where the code tests for safe integers, so does the
  model. A string is a list of Latin-1 characters, except in the file mutations, where it is a list of UTF-16 code units because the
  byte order mark matters. Clocks, identifiers and random values are arguments.

  \<^bold>\<open>Shared theories.\<close> \<open>Kala_Prelude\<close>: the fragment of the JavaScript library in use and generic lemmas. \<open>Kala_Machines\<close>: the interfaces
  of state machines as locales (\<open>machine\<close>, \<open>guarded_machine\<close>, \<open>progressing_machine\<close>, \<open>counting_machine\<close>, \<open>emit_once\<close>), each
  interpreted by the components below on their step functions. \<open>Kala_Tx\<close>: transactions on tables. \<open>Cache_Bounded\<close>: maps that are pruned by age
  and size (locale \<open>bounded_cache\<close>), used by the deduplicator and by the receipts.

  \<^bold>\<open>Kernel\<close> (\<open>packages/kernel/src\<close>). \<open>Kernel_Types\<close> is \<open>types.ts\<close>, \<open>Kernel_State\<close> is \<open>state.ts\<close> and \<open>helpers.ts\<close>, \<open>Kernel_Handlers\<close> is
  \<open>handlers.ts\<close>, \<open>Kernel_Core\<close> is the transition table, \<open>step\<close> and \<open>fold\<close> (\<open>core.ts\<close>, \<open>fold.ts\<close>). \<open>Kernel_Invariants\<close>, \<open>Kernel_Safety\<close>,
  \<open>Kernel_Once\<close>, \<open>Kernel_Replay\<close>, \<open>Kernel_Properties\<close>: every reachable state is valid, a tool runs only with the approval its mode
  asks for and at most once per identifier, the guard of \<open>step\<close> fires for one kind of event only, replay and fork agree with the log.
  \<open>Kernel_Transcript\<close>: every call of the transcript is answered at most once and only pending calls are open. \<open>Kernel_Refinement\<close>: the
  reducer simulates the abstract turn protocol of \<open>formal/kernel/Kernel.tla\<close>.

  \<^bold>\<open>Task graphs\<close> (\<open>packages/host/src/dag\<close>, \<open>packages/shared/src/dag.ts\<close>). \<open>Dag_Types\<close>, \<open>Dag_Graph\<close> (\<open>graph.ts\<close>), \<open>Dag_Store\<close> (\<open>store.ts\<close> and its tables in
  \<open>store/state-store.ts\<close>). \<open>Dag_Acyclic\<close>: the cycle check is exact. \<open>Dag_Scopes\<close>: write scopes conflict exactly when one directory contains the
  other. \<open>Dag_Invariants\<close>, \<open>Dag_Expansion\<close>, \<open>Dag_Commands\<close>, \<open>Dag_Ledger\<close>, \<open>Dag_Properties\<close>: along every sequence of calls graphs stay acyclic,
  prerequisites come first, running nodes write to disjoint places, operation identifiers take effect once and failed calls change
  nothing; a run whose result node was cancelled cannot be settled.

  \<^bold>\<open>Scheduled tasks\<close> (\<open>packages/host/src/scheduled-tasks\<close>). \<open>Sched_Recurrence\<close> (\<open>recurrence.ts\<close>), \<open>Sched_Calendar\<close> and \<open>Sched_Next\<close>: the next
  occurrence is later, on a scheduled day at the scheduled time, and in a zone of fixed offset it is the first one. \<open>Sched_Store\<close>
  (\<open>store.ts\<close>) and \<open>Sched_Properties\<close>: claims, settled runs and the bounded history. \<open>Sched_Scheduler\<close> (\<open>scheduler.ts\<close>): recovery delivers no occurrence
  twice, and starting settles every claim.

  \<^bold>\<open>File mutations and sandbox\<close> (\<open>packages/executor/src\<close>). \<open>Mut_Text\<close>, \<open>Mut_Replace\<close>, \<open>Mut_Diff\<close>, \<open>Mut_Patch\<close>, \<open>Mut_Engine\<close> are the files of \<open>mutation/\<close>,
  \<open>Exec_Sandbox\<close> is \<open>sandbox.ts\<close> with POSIX path resolution. \<open>Mut_Properties\<close>: an edit applies to the bytes that are there at the commit or
  changes nothing, it stays under the sandbox roots, it keeps line ends, and it drops a byte order mark; a failing patch keeps
  the operations before the failing one. Exact replacement meets a specification of successive replacements, the diff is minimal,
  the patch format is read back as printed, and two kinds of input pass the check of the sandbox and lead outside.

  \<^bold>\<open>Receipts, operations and queues.\<close> \<open>Exec_Receipts\<close> (\<open>executor/src/execution-receipts.ts\<close>): every receipt promise is settled once and no wake-up of the
  writer is lost. \<open>Op_Deduper\<close> (\<open>host/src/connection/operation-deduper.ts\<close>): a retried operation is answered with the recorded result.
  \<open>Host_Queue\<close> (\<open>host/src/message-queue-store.ts\<close>): what is persisted is loaded again, and a cancelled message never comes back.
  \<open>Tenant_Ledger\<close> (\<open>host/src/tenant-runtime/dedicated-admission-ledger.ts\<close>): the ledger file always passes its own validation, messages of a session are
  leased one at a time in order, an operation is accepted once with a final outcome, and no message is stuck.

  \<^bold>\<open>Restart\<close> (\<open>packages/host/src\<close>). \<open>Host_Actor\<close> is \<open>workflows/serialized-actor.ts\<close> with the locale \<open>resting_actor\<close>, \<open>Host_Session\<close> is
  \<open>shared/src/session-derived-state.ts\<close>, \<open>Host_Restart\<close> is the workflow and planner of \<open>restart/\<close> with the commands of \<open>restart-coordinator.ts\<close>, \<open>Host_Recovery\<close>
  the receipts of recovery. The workflow comes to rest, closes the server at most once per attempt and drains sessions only while
  an attempt is current; a state file that cannot be written strands the host; sessions are resumed children first.

  \<^bold>\<open>Sub-agents and timing.\<close> \<open>Sub_Agent\<close> (\<open>shared/src/subagent-policy.ts\<close>, \<open>host/src/extensions/agent-tool.ts\<close>): an admitted child stays within the limits of its
  role and the tools of its parent, the fan-out is bounded, and an overdue child is cancelled. \<open>Sub_Envelope\<close>: the dashboard reads back
  every envelope the host writes, and the orchestrator records the escaped text. \<open>Turn_Timing\<close> (\<open>turn-timing.ts\<close> of host and shared): the
  summary of a turn counts every millisecond once and finds the peak of concurrency.

  \<^bold>\<open>Bounds and fuel.\<close> Loops are structural or have a measure: the remaining text for scanners, the unvisited nodes for graph traversals, the
  rank of the phase for the restart workflow. The search for the next occurrence looks at the 15 days, 4 intervals or 24 months
  that the source looks at, and the theorems show that this is enough; the catch-up after a claim raises at 10,000 missed occurrences,
  as the source does; symbolic links are followed up to 40 times, the limit of the operating system. The depth of a session is a partial function, absent for a chain of parents that never ends.

  \<^bold>\<open>Parameters.\<close> Code outside of the sources is an argument: the time zone database, digests, the order of identifiers, the executor of
  scheduled occurrences, the failure of file writes, the validation of one content block by the schema library, and the reading
  of numbers that are not decimal integers. A property that relies on one states what it needs, and its witness gives an instance.

  \<^bold>\<open>Not modelled.\<close> The agent loop, the session store and its log format, socket and HTTP handlers, model providers and telemetry are asynchronous
  input and output around the modelled parts. The evaluation platform, the user interfaces, the desktop shell, installers and
  update programs, and deployment files are separate programs or glue. Wire schemas are declarations for a third-party validator.
  Of the modelled files, these parts are left out: error messages of exact replacement, lock queues of the mutation engine (mutations
  run one at a time in the model), the Windows branch of the sandbox, the timer of the scheduler, the dispatch of recovered
  sessions after a restart, and the interruption and creation of child sessions.
\<close>

end
